(* ===== verification/Op_Prelude.thy ===== *)
theory Op_Prelude
  imports Main "HOL-Library.Word" "HOL-Library.Multiset"
begin

text \<open>
  Shared vocabulary of the development: the machine integer types of the C sources and the
  generic facts on lists, options and words
  that several components need.
\<close>

unbundle bit_operations_syntax

type_synonym u8 = "8 word"
type_synonym u16 = "16 word"
type_synonym u32 = "32 word"
type_synonym u64 = "64 word"


section \<open>Searching lists\<close>

lemma find_unique:
  assumes "\<And>y z. y \<in> set xs \<Longrightarrow> z \<in> set xs \<Longrightarrow> P y \<Longrightarrow> P z \<Longrightarrow> y = z"
  shows "find P xs = Some y \<longleftrightarrow> y \<in> set xs \<and> P y"
proof
  assume "find P xs = Some y"
  then show "y \<in> set xs \<and> P y"
    by (auto simp: find_Some_iff)
next
  assume y: "y \<in> set xs \<and> P y"
  then obtain z where z: "find P xs = Some z"
    by (cases "find P xs") (auto simp: find_None_iff)
  then have "z \<in> set xs \<and> P z"
    by (auto simp: find_Some_iff)
  with y assms z show "find P xs = Some y"
    by blast
qed

lemma in_set_concat_nth: "x \<in> set (concat xss) \<longleftrightarrow> (\<exists>i < length xss. x \<in> set (xss ! i))"
  by (force simp: in_set_conv_nth)

lemma length_concat_update:
  "i < length xss \<Longrightarrow>
     length (concat (xss[i := c])) + length (xss ! i) = length (concat xss) + length c"
proof (induction xss arbitrary: i)
  case Nil
  then show ?case by simp
next
  case (Cons a xss)
  then show ?case by (cases i) auto
qed

lemma mset_concat_update:
  "i < length xss \<Longrightarrow>
     mset (concat (xss[i := c])) + mset (xss ! i) = mset (concat xss) + mset c"
proof (induction xss arbitrary: i)
  case Nil
  then show ?case by simp
next
  case (Cons a xss)
  then show ?case by (cases i) (auto simp: ac_simps)
qed

lemma concat_replicate_Nil [simp]: "concat (replicate n []) = []"
  by (induction n) auto

end
