(* ===== verification/Op_Hash.thy ===== *)
theory Op_Hash
  imports Op_Prelude
begin

text \<open>
  The linear hash table of \<^verbatim>\<open>src/opbox/hash.c\<close>: \<^verbatim>\<open>struct op_hash_st\<close> as a record, the bucket
  array as a list of chains, one definition per function.  A stored \<^verbatim>\<open>void *\<close> is a value of
  type \<open>'d\<close>; \<^verbatim>\<open>NULL\<close> results are \<open>None\<close>.  The outcome of the allocator is an argument:
  \<open>ca\<close> says whether \<^verbatim>\<open>calloc\<close> of a node succeeds, \<open>ra n\<close> whether \<^verbatim>\<open>realloc\<close> to \<open>n\<close> bytes does.
  The locale \<open>keyed_hash\<close> holds the contract of the two callbacks and the theorems that
  follow from it: the table refines a finite map from keys to stored items.
\<close>

section \<open>Data\<close>

record 'd op_hash_st =
  lh_b :: "'d list list"
  lh_comp :: "'d \<Rightarrow> 'd \<Rightarrow> int"
  lh_hash :: "'d \<Rightarrow> u64"
  num_nodes :: nat
  num_alloc_nodes :: nat
  lh_p :: nat
  pmax :: nat
  up_load :: nat
  down_load :: nat
  num_items :: nat
  num_expands :: nat
  num_expand_reallocs :: nat
  num_contracts :: nat
  num_contract_reallocs :: nat
  num_hash_calls :: nat
  num_comp_calls :: nat
  num_insert :: nat
  num_replace :: nat
  num_delete :: nat
  num_no_delete :: nat
  num_retrieve :: nat
  num_retrieve_miss :: nat
  num_hash_comps :: nat
  lh_error :: nat

definition LH_LOAD_MULT :: nat where "LH_LOAD_MULT = 256"
definition UP_LOAD :: nat where "UP_LOAD = 2 * LH_LOAD_MULT"
definition DOWN_LOAD :: nat where "DOWN_LOAD = LH_LOAD_MULT"
definition MIN_NODES :: nat where "MIN_NODES = 2048"

section \<open>Operations\<close>

text \<open>
  \<^verbatim>\<open>sizeof (struct op_hash_node_st *)\<close> is 8; \<^verbatim>\<open>expand\<close> casts the byte count to \<^verbatim>\<open>int\<close> before
  it becomes the \<^verbatim>\<open>size_t\<close> argument of \<^verbatim>\<open>realloc\<close>, \<^verbatim>\<open>contract\<close> to \<^verbatim>\<open>unsigned int\<close>.
\<close>

definition expand_bytes :: "nat \<Rightarrow> nat" where
  "expand_bytes j =
     (let i = (8 * j) mod 2 ^ 32 in if i < 2 ^ 31 then i else i + (2 ^ 64 - 2 ^ 32))"

definition contract_bytes :: "nat \<Rightarrow> nat" where
  "contract_bytes n = (8 * n) mod 2 ^ 32"

definition op_hash_init ::
    "nat \<Rightarrow> ('d \<Rightarrow> u64) \<Rightarrow> ('d \<Rightarrow> 'd \<Rightarrow> int) \<Rightarrow> 'd op_hash_st" where
  "op_hash_init min_nodes h c =
     \<lparr>lh_b = replicate min_nodes [], lh_comp = c, lh_hash = h,
      num_nodes = min_nodes div 2, num_alloc_nodes = min_nodes,
      lh_p = 0, pmax = min_nodes div 2, up_load = UP_LOAD, down_load = DOWN_LOAD,
      num_items = 0, num_expands = 0, num_expand_reallocs = 0, num_contracts = 0,
      num_contract_reallocs = 0, num_hash_calls = 0, num_comp_calls = 0, num_insert = 0,
      num_replace = 0, num_delete = 0, num_no_delete = 0, num_retrieve = 0,
      num_retrieve_miss = 0, num_hash_comps = 0, lh_error = 0\<rparr>"

definition op_hash_new ::
    "bool \<Rightarrow> bool \<Rightarrow> ('d \<Rightarrow> u64) option \<Rightarrow> ('d \<Rightarrow> 'd \<Rightarrow> int) option \<Rightarrow> 'd op_hash_st option" where
  "op_hash_new ca_st ca_b h c =
     (case (h, c) of
        (Some h', Some c') \<Rightarrow>
          if \<not> ca_st then None
          else if \<not> ca_b then None
          else Some (op_hash_init MIN_NODES h' c')
      | _ \<Rightarrow> None)"

text \<open>The chain walk of \<^verbatim>\<open>getrn\<close>: the number of links passed, and the comparisons made.\<close>

fun chain_pos :: "('d \<Rightarrow> 'd \<Rightarrow> int) \<Rightarrow> 'd list \<Rightarrow> 'd \<Rightarrow> nat" where
  "chain_pos cf [] d = 0"
| "chain_pos cf (n1 # ns) d = (if cf n1 d = 0 then 0 else Suc (chain_pos cf ns d))"

definition chain_comps :: "('d \<Rightarrow> 'd \<Rightarrow> int) \<Rightarrow> 'd list \<Rightarrow> 'd \<Rightarrow> nat" where
  "chain_comps cf ns d = min (length ns) (Suc (chain_pos cf ns d))"

definition bucket_of :: "nat \<Rightarrow> nat \<Rightarrow> nat \<Rightarrow> nat \<Rightarrow> nat" where
  "bucket_of q qmax nalloc h =
     (let nn = h mod qmax in if nn < q then h mod nalloc else nn)"

text \<open>
  \<^verbatim>\<open>getrn\<close> returns the address of a link: here the bucket number and the position in that
  bucket's chain (the chain's length when no node matches).
\<close>

definition getrn :: "'d op_hash_st \<Rightarrow> 'd \<Rightarrow> nat \<times> nat \<times> 'd op_hash_st" where
  "getrn lh d =
     (let h = unat (lh_hash lh d);
          nn = bucket_of (lh_p lh) (pmax lh) (num_alloc_nodes lh) h;
          chain = lh_b lh ! nn
      in (nn, chain_pos (lh_comp lh) chain d,
          lh\<lparr>num_hash_calls := num_hash_calls lh + 1,
             num_comp_calls := num_comp_calls lh + chain_comps (lh_comp lh) chain d\<rparr>))"

text \<open>The node loop of \<^verbatim>\<open>expand\<close>: kept nodes stay in order, moved ones are pushed on \<open>n2\<close>.\<close>

fun expand_split ::
    "('d \<Rightarrow> u64) \<Rightarrow> nat \<Rightarrow> nat \<Rightarrow> 'd list \<Rightarrow> 'd list \<Rightarrow> 'd list \<times> 'd list" where
  "expand_split h nni q [] n2 = ([], n2)"
| "expand_split h nni q (np # ns) n2 =
     (if unat (h np) mod nni \<noteq> q then expand_split h nni q ns (np # n2)
      else (case expand_split h nni q ns n2 of (keep, moved) \<Rightarrow> (np # keep, moved)))"

definition expand_move :: "nat \<Rightarrow> nat \<Rightarrow> nat \<Rightarrow> 'd op_hash_st \<Rightarrow> 'd op_hash_st" where
  "expand_move nni q qmax lh =
     (let chain = lh_b lh ! q;
          r = expand_split (lh_hash lh) nni q chain []
      in lh\<lparr>num_nodes := num_nodes lh + 1, num_expands := num_expands lh + 1,
            lh_b := (lh_b lh)[q := fst r, q + qmax := snd r],
            num_hash_calls := num_hash_calls lh + length chain\<rparr>)"

definition expand :: "(nat \<Rightarrow> bool) \<Rightarrow> 'd op_hash_st \<Rightarrow> bool \<times> 'd op_hash_st" where
  "expand ra lh =
     (let nni = num_alloc_nodes lh; q = lh_p lh; qmax = pmax lh in
      if q + 1 \<ge> qmax then
        (let j = (nni * 2) mod 2 ^ 32 in
         if \<not> ra (expand_bytes j) then (False, lh\<lparr>lh_error := lh_error lh + 1\<rparr>)
         else (True, expand_move nni q qmax
                 (lh\<lparr>lh_b := lh_b lh @ replicate (j - nni) [], pmax := nni,
                     num_alloc_nodes := j,
                     num_expand_reallocs := num_expand_reallocs lh + 1, lh_p := 0\<rparr>)))
      else (True, expand_move nni q qmax (lh\<lparr>lh_p := lh_p lh + 1\<rparr>)))"

text \<open>
  \<^verbatim>\<open>contract\<close>: the chain of the last bucket is unlinked first; when the table must shrink
  and \<^verbatim>\<open>realloc\<close> fails the function returns at once.
\<close>

definition contract_append :: "'d list \<Rightarrow> 'd op_hash_st \<Rightarrow> 'd op_hash_st" where
  "contract_append np lh =
     lh\<lparr>num_nodes := num_nodes lh - 1, num_contracts := num_contracts lh + 1,
        lh_b := (lh_b lh)[lh_p lh := lh_b lh ! lh_p lh @ np]\<rparr>"

definition contract :: "(nat \<Rightarrow> bool) \<Rightarrow> 'd op_hash_st \<Rightarrow> 'd op_hash_st" where
  "contract ra lh0 =
     (let l = lh_p lh0 + pmax lh0 - 1;
          np = lh_b lh0 ! l;
          lh = lh0\<lparr>lh_b := (lh_b lh0)[l := []]\<rparr> in
      if lh_p lh = 0 then
        (if \<not> ra (contract_bytes (pmax lh)) then lh\<lparr>lh_error := lh_error lh + 1\<rparr>
         else contract_append np
                (lh\<lparr>num_contract_reallocs := num_contract_reallocs lh + 1,
                    num_alloc_nodes := num_alloc_nodes lh div 2,
                    pmax := pmax lh div 2, lh_p := pmax lh div 2 - 1,
                    lh_b := take (pmax lh) (lh_b lh)\<rparr>))
      else contract_append np (lh\<lparr>lh_p := lh_p lh - 1\<rparr>))"

definition load :: "'d op_hash_st \<Rightarrow> nat" where
  "load lh = ((num_items lh * LH_LOAD_MULT) mod 2 ^ 64) div num_nodes lh"

definition op_hash_insert ::
    "(nat \<Rightarrow> bool) \<Rightarrow> bool \<Rightarrow> 'd op_hash_st \<Rightarrow> 'd \<Rightarrow> 'd option \<times> 'd op_hash_st" where
  "op_hash_insert ra ca lh0 d =
     (let lh1 = lh0\<lparr>lh_error := 0\<rparr>;
          grown = (if up_load lh1 \<le> load lh1 then expand ra lh1 else (True, lh1)) in
      if \<not> fst grown then (None, snd grown)
      else
        (case getrn (snd grown) d of (nn, k, lh) \<Rightarrow>
           let chain = lh_b lh ! nn in
           if k = length chain then
             (if \<not> ca then (None, lh\<lparr>lh_error := lh_error lh + 1\<rparr>)
              else (None, lh\<lparr>lh_b := (lh_b lh)[nn := chain @ [d]],
                             num_insert := num_insert lh + 1,
                             num_items := num_items lh + 1\<rparr>))
           else (Some (chain ! k),
                 lh\<lparr>lh_b := (lh_b lh)[nn := chain[k := d]],
                    num_replace := num_replace lh + 1\<rparr>)))"

definition op_hash_delete_min ::
    "nat \<Rightarrow> (nat \<Rightarrow> bool) \<Rightarrow> 'd op_hash_st \<Rightarrow> 'd \<Rightarrow> 'd option \<times> 'd op_hash_st" where
  "op_hash_delete_min min_nodes ra lh0 d =
     (case getrn (lh0\<lparr>lh_error := 0\<rparr>) d of (nn, k, lh) \<Rightarrow>
        let chain = lh_b lh ! nn in
        if k = length chain then (None, lh\<lparr>num_no_delete := num_no_delete lh + 1\<rparr>)
        else
          (let lh' = lh\<lparr>lh_b := (lh_b lh)[nn := take k chain @ drop (Suc k) chain],
                        num_delete := num_delete lh + 1,
                        num_items := num_items lh - 1\<rparr> in
           (Some (chain ! k),
            if num_nodes lh' > min_nodes \<and> down_load lh' \<ge> load lh' then contract ra lh'
            else lh')))"

definition op_hash_delete ::
    "(nat \<Rightarrow> bool) \<Rightarrow> 'd op_hash_st \<Rightarrow> 'd \<Rightarrow> 'd option \<times> 'd op_hash_st" where
  "op_hash_delete ra lh d = op_hash_delete_min MIN_NODES ra lh d"

definition op_hash_retrieve :: "'d op_hash_st \<Rightarrow> 'd \<Rightarrow> 'd option \<times> 'd op_hash_st" where
  "op_hash_retrieve lh0 d =
     (case getrn (lh0\<lparr>lh_error := 0\<rparr>) d of (nn, k, lh) \<Rightarrow>
        let chain = lh_b lh ! nn in
        if k = length chain
        then (None, lh\<lparr>num_retrieve_miss := num_retrieve_miss lh + 1\<rparr>)
        else (Some (chain ! k), lh\<lparr>num_retrieve := num_retrieve lh + 1\<rparr>))"

text \<open>
  \<^verbatim>\<open>doall_util_fn\<close> walks the buckets from the last to the first and calls back on each stored
  item; the callback threads the caller's state \<open>'s\<close> (the \<^verbatim>\<open>arg\<close> of the \<^verbatim>\<open>_arg\<close> variant).
\<close>

fun doall_buckets :: "nat \<Rightarrow> 'd list list \<Rightarrow> ('d \<Rightarrow> 's \<Rightarrow> 's) \<Rightarrow> 's \<Rightarrow> 's" where
  "doall_buckets 0 bs f s = s"
| "doall_buckets (Suc i) bs f s = doall_buckets i bs f (fold f (bs ! i) s)"

definition doall_util_fn :: "'d op_hash_st option \<Rightarrow> ('d \<Rightarrow> 's \<Rightarrow> 's) \<Rightarrow> 's \<Rightarrow> 's" where
  "doall_util_fn h f s =
     (case h of None \<Rightarrow> s | Some lh \<Rightarrow> doall_buckets (num_nodes lh) (lh_b lh) f s)"

definition op_hash_doall :: "'d op_hash_st option \<Rightarrow> ('d \<Rightarrow> 's \<Rightarrow> 's) \<Rightarrow> 's \<Rightarrow> 's" where
  "op_hash_doall h search s = doall_util_fn h search s"

definition op_hash_doall_arg :: "'d op_hash_st option \<Rightarrow> ('d \<Rightarrow> 's \<Rightarrow> 's) \<Rightarrow> 's \<Rightarrow> 's" where
  "op_hash_doall_arg h search arg = doall_util_fn h search arg"

definition op_hash_num_items :: "'d op_hash_st option \<Rightarrow> nat" where
  "op_hash_num_items h = (case h of None \<Rightarrow> 0 | Some lh \<Rightarrow> num_items lh)"

text \<open>\<^verbatim>\<open>op_hash_free\<close>: the nodes handed to \<^verbatim>\<open>free\<close>, in order, as the data they hold.\<close>

fun free_buckets :: "nat \<Rightarrow> nat \<Rightarrow> 'd list list \<Rightarrow> 'd list" where
  "free_buckets i 0 bs = []"
| "free_buckets i (Suc n) bs = bs ! i @ free_buckets (Suc i) n bs"

definition op_hash_free :: "'d op_hash_st option \<Rightarrow> 'd list" where
  "op_hash_free h = (case h of None \<Rightarrow> [] | Some lh \<Rightarrow> free_buckets 0 (num_nodes lh) (lh_b lh))"

text \<open>
  The string hash: \<^verbatim>\<open>char\<close> is signed, so \<open>*c\<close> is sign-extended before the \<^verbatim>\<open>or\<close> with \<open>n\<close>.
\<close>

definition char_long :: "char \<Rightarrow> u64" where
  "char_long c = scast (of_char c :: u8)"

fun op_hash_string_loop :: "string \<Rightarrow> u64 \<Rightarrow> u64 \<Rightarrow> u64" where
  "op_hash_string_loop [] n ret = ret"
| "op_hash_string_loop (c # cs) n ret =
     (let v = n OR char_long c;
          r = unat ((drop_bit 2 v XOR v) AND 0x0f);
          ret1 = (push_bit r ret OR drop_bit (32 - r) ret) AND 0xFFFFFFFF
      in op_hash_string_loop cs (n + 0x100) (ret1 XOR v * v))"

definition op_hash_string :: "string option \<Rightarrow> u64" where
  "op_hash_string s =
     (case s of None \<Rightarrow> 0
      | Some c \<Rightarrow> if c = [] then 0
                 else (let ret = op_hash_string_loop c 0x100 0 in drop_bit 16 ret XOR ret))"

definition hash_geom :: "nat \<Rightarrow> 'd op_hash_st \<Rightarrow> bool" where
  "hash_geom min_nodes lh \<longleftrightarrow>
     length (lh_b lh) = num_alloc_nodes lh \<and> num_alloc_nodes lh = 2 * pmax lh \<and>
     lh_p lh < pmax lh \<and> num_nodes lh = lh_p lh + pmax lh \<and>
     (\<exists>k. pmax lh = (min_nodes div 2) * 2 ^ k) \<and> num_alloc_nodes lh < 2 ^ 28"

definition item_bucket :: "'d op_hash_st \<Rightarrow> 'd \<Rightarrow> nat" where
  "item_bucket lh d = bucket_of (lh_p lh) (pmax lh) (num_alloc_nodes lh) (unat (lh_hash lh d))"

definition items :: "'d op_hash_st \<Rightarrow> 'd list" where
  "items lh = concat (lh_b lh)"

definition hash_inv ::
    "nat \<Rightarrow> ('d \<Rightarrow> u64) \<Rightarrow> ('d \<Rightarrow> 'd \<Rightarrow> int) \<Rightarrow> ('d \<Rightarrow> 'k) \<Rightarrow> 'd op_hash_st \<Rightarrow> bool" where
  "hash_inv min_nodes h c key lh \<longleftrightarrow>
     lh_hash lh = h \<and> lh_comp lh = c \<and> hash_geom min_nodes lh \<and>
     (\<forall>i < length (lh_b lh). \<forall>x \<in> set (lh_b lh ! i). item_bucket lh x = i) \<and>
     (\<forall>i < length (lh_b lh). distinct (map key (lh_b lh ! i))) \<and>
     num_items lh = length (items lh)"

definition hash_abs :: "('d \<Rightarrow> 'k) \<Rightarrow> 'd op_hash_st \<Rightarrow> 'k \<Rightarrow> 'd option" where
  "hash_abs key lh k = find (\<lambda>d. key d = k) (items lh)"

lemma mod_double:
  fixes h m :: nat
  assumes "0 < m"
  shows "h mod (2 * m) = h mod m \<or> h mod (2 * m) = h mod m + m"
proof -
  have "h mod (m * 2) = m * (h div m mod 2) + h mod m"
    by (rule mod_mult2_eq)
  moreover have "h div m mod 2 = 0 \<or> h div m mod 2 = 1"
    by arith
  ultimately show ?thesis
    by (auto simp: mult.commute)
qed

lemma bucket_lt:
  assumes "q < m"
  shows "bucket_of q m (2 * m) h < q + m"
proof -
  have "0 < m" and "h mod m < m" using assms by simp_all
  from mod_double [OF this(1), of h] this assms show ?thesis
    unfolding bucket_of_def Let_def by (auto intro: trans_less_add2)
qed

lemma bucket_expand_step:
  assumes "q + 1 < m"
  shows "bucket_of (q + 1) m (2 * m) h =
           (if bucket_of q m (2 * m) h = q then h mod (2 * m) else bucket_of q m (2 * m) h)"
proof -
  have "h mod m < m" using assms by simp
  then show ?thesis
    using assms mod_double [of m h] unfolding bucket_of_def Let_def by auto
qed

lemma bucket_expand_wrap:
  assumes "q + 1 = m"
  shows "bucket_of 0 (2 * m) (4 * m) h =
           (if bucket_of q m (2 * m) h = q then h mod (2 * m) else bucket_of q m (2 * m) h)"
proof -
  have h: "h mod m < m" using assms by simp
  show ?thesis
  proof (cases "h mod m = q")
    case True
    then show ?thesis using h by (simp add: bucket_of_def)
  next
    case False
    with h assms have "h mod m < q" by linarith
    then show ?thesis by (simp add: bucket_of_def Let_def)
  qed
qed

lemma bucket_eq_split:
  assumes "q < m" "bucket_of q m (2 * m) h = q"
  shows "h mod (2 * m) = q \<or> h mod (2 * m) = q + m"
  using assms mod_double [of m h] unfolding bucket_of_def Let_def
  by (auto split: if_splits)

lemma expand_split_eq:
  "expand_split h nni q ns n2 =
     (filter (\<lambda>d. unat (h d) mod nni = q) ns,
      rev (filter (\<lambda>d. unat (h d) mod nni \<noteq> q) ns) @ n2)"
  by (induction ns arbitrary: n2) auto

lemma expand_bytes_small: "j < 2 ^ 28 \<Longrightarrow> expand_bytes j = 8 * j"
  by (simp add: expand_bytes_def)

lemma expand_bytes_big: "2 ^ 28 \<le> j \<Longrightarrow> j < 2 ^ 29 \<Longrightarrow> 2 ^ 63 \<le> expand_bytes j"
  by (simp add: expand_bytes_def)

lemma chain_pos_le: "chain_pos cf ns d \<le> length ns"
  by (induction ns) auto

lemma chain_pos_length: "chain_pos cf ns d = length ns \<longleftrightarrow> (\<forall>x \<in> set ns. cf x d \<noteq> 0)"
  by (induction ns) auto

lemma chain_pos_nth: "chain_pos cf ns d < length ns \<Longrightarrow> cf (ns ! chain_pos cf ns d) d = 0"
  by (induction ns) auto


definition realloc_ok :: "(nat \<Rightarrow> bool) \<Rightarrow> bool" where
  "realloc_ok ra \<longleftrightarrow> (\<forall>n \<ge> 2 ^ 63. \<not> ra n)"

lemma hash_inv_geom: "hash_inv mn h c key lh \<Longrightarrow> hash_geom mn lh"
  by (simp add: hash_inv_def)

lemma item_bucket_lt:
  "hash_geom mn lh \<Longrightarrow> item_bucket lh d < num_nodes lh"
  by (simp add: hash_geom_def item_bucket_def bucket_lt)

lemma bucket_empty:
  assumes "hash_inv mn h c key lh" "num_nodes lh \<le> i" "i < length (lh_b lh)"
  shows "lh_b lh ! i = []"
proof (rule ccontr)
  assume "lh_b lh ! i \<noteq> []"
  then obtain x where "x \<in> set (lh_b lh ! i)" by (cases "lh_b lh ! i") auto
  with assms have "item_bucket lh x = i" by (simp add: hash_inv_def)
  with item_bucket_lt [OF hash_inv_geom [OF assms(1)], of x] assms(2) show False by simp
qed

definition split_shape :: "'d op_hash_st \<Rightarrow> 'd op_hash_st \<Rightarrow> bool" where
  "split_shape lh lh' \<longleftrightarrow>
     (let q = lh_p lh; m = pmax lh; f = (\<lambda>d. unat (lh_hash lh d) mod (2 * m) = q) in
      (\<exists>n. lh_b lh' = (lh_b lh @ replicate n [])
             [q := filter f (lh_b lh ! q), q + m := rev (filter (Not \<circ> f) (lh_b lh ! q))]) \<and>
      (\<forall>d. item_bucket lh' d = (if item_bucket lh d = q then unat (lh_hash lh d) mod (2 * m)
                                else item_bucket lh d)) \<and>
      num_items lh' = num_items lh \<and> lh_hash lh' = lh_hash lh \<and> lh_comp lh' = lh_comp lh)"

lemma expand_shape:
  assumes g: "hash_geom mn lh" and ra: "realloc_ok ra" and e: "expand ra lh = (True, lh')"
  shows "split_shape lh lh' \<and> hash_geom mn lh'"
proof (cases "lh_p lh + 1 < pmax lh")
  case True
  with e have lh': "lh' = expand_move (num_alloc_nodes lh) (lh_p lh) (pmax lh) (lh\<lparr>lh_p := lh_p lh + 1\<rparr>)"
    by (simp add: expand_def Let_def)
  have b: "lh_b lh' = (lh_b lh @ replicate 0 [])
             [lh_p lh := filter (\<lambda>d. unat (lh_hash lh d) mod (2 * pmax lh) = lh_p lh) (lh_b lh ! lh_p lh),
              lh_p lh + pmax lh := rev (filter (Not \<circ> (\<lambda>d. unat (lh_hash lh d) mod (2 * pmax lh) = lh_p lh)) (lh_b lh ! lh_p lh))]"
    using g by (simp add: lh' expand_move_def expand_split_eq Let_def hash_geom_def comp_def)
  have k: "item_bucket lh' d = (if item_bucket lh d = lh_p lh then unat (lh_hash lh d) mod (2 * pmax lh)
                                else item_bucket lh d)" for d
    using g bucket_expand_step [OF True]
    by (simp add: lh' expand_move_def item_bucket_def Let_def hash_geom_def)
  have st: "num_items lh' = num_items lh" "lh_hash lh' = lh_hash lh" "lh_comp lh' = lh_comp lh"
    by (simp_all add: lh' expand_move_def Let_def)
  have g': "hash_geom mn lh'"
    using g True by (simp add: lh' expand_move_def Let_def hash_geom_def)
  show ?thesis
    unfolding split_shape_def Let_def using b k st g' by blast
next
  case False
  let ?j = "(num_alloc_nodes lh * 2) mod 2 ^ 32"
  from g have j: "?j = 4 * pmax lh" "?j < 2 ^ 29" and q: "lh_p lh + 1 = pmax lh"
    using False by (auto simp: hash_geom_def)
  from e False q have r: "ra (expand_bytes ?j)"
    by (auto simp: expand_def Let_def split: if_splits)
  with ra have "\<not> 2 ^ 63 \<le> expand_bytes ?j"
    by (auto simp: realloc_ok_def)
  with expand_bytes_big [of ?j] j have j28: "4 * pmax lh < 2 ^ 28"
    by (metis linorder_not_less)
  let ?lh1 = "lh\<lparr>lh_b := lh_b lh @ replicate (?j - num_alloc_nodes lh) [], pmax := num_alloc_nodes lh,
                num_alloc_nodes := ?j, num_expand_reallocs := num_expand_reallocs lh + 1, lh_p := 0\<rparr>"
  from e False q r have lh': "lh' = expand_move (num_alloc_nodes lh) (lh_p lh) (pmax lh) ?lh1"
    by (simp add: expand_def Let_def)
  have qlt: "lh_p lh < length (lh_b lh)" using g by (simp add: hash_geom_def)
  have b: "lh_b lh' = (lh_b lh @ replicate (?j - num_alloc_nodes lh) [])
             [lh_p lh := filter (\<lambda>d. unat (lh_hash lh d) mod (2 * pmax lh) = lh_p lh) (lh_b lh ! lh_p lh),
              lh_p lh + pmax lh := rev (filter (Not \<circ> (\<lambda>d. unat (lh_hash lh d) mod (2 * pmax lh) = lh_p lh)) (lh_b lh ! lh_p lh))]"
    using g qlt by (simp add: lh' expand_move_def expand_split_eq Let_def hash_geom_def comp_def nth_append)
  have k: "item_bucket lh' d = (if item_bucket lh d = lh_p lh then unat (lh_hash lh d) mod (2 * pmax lh)
                                else item_bucket lh d)" for d
    using g bucket_expand_wrap [OF q] j
    by (simp add: lh' expand_move_def item_bucket_def Let_def hash_geom_def)
  have g': "hash_geom mn lh'"
  proof -
    from g obtain e where "pmax lh = (mn div 2) * 2 ^ e" by (auto simp: hash_geom_def)
    then have "2 * pmax lh = (mn div 2) * 2 ^ Suc e" by simp
    then have "\<exists>e. 2 * pmax lh = (mn div 2) * 2 ^ e" by blast
    then show ?thesis
      using g j j28 q by (simp add: lh' expand_move_def Let_def hash_geom_def)
  qed
  have st: "num_items lh' = num_items lh" "lh_hash lh' = lh_hash lh" "lh_comp lh' = lh_comp lh"
    by (simp_all add: lh' expand_move_def Let_def)
  show ?thesis
    unfolding split_shape_def Let_def using b k st g' by blast
qed


lemma split_items:
  assumes i: "hash_inv mn h c key lh" and s: "split_shape lh lh'"
  shows "mset (items lh') = mset (items lh)"
proof -
  let ?q = "lh_p lh" and ?m = "pmax lh"
  let ?f = "\<lambda>d. unat (lh_hash lh d) mod (2 * ?m) = ?q"
  from s obtain n where b: "lh_b lh' = (lh_b lh @ replicate n [])
      [?q := filter ?f (lh_b lh ! ?q), ?q + ?m := rev (filter (Not \<circ> ?f) (lh_b lh ! ?q))]"
    by (auto simp: split_shape_def Let_def)
  let ?L = "lh_b lh @ replicate n []"
  have g: "?q < length (lh_b lh)" "?q + ?m < length (lh_b lh)" "?q \<noteq> ?q + ?m"
    using hash_inv_geom [OF i] by (auto simp: hash_geom_def)
  have e: "lh_b lh ! (?q + ?m) = []"
    using bucket_empty [OF i, of "?q + ?m"] g hash_inv_geom [OF i] by (simp add: hash_geom_def)
  have 1: "mset (concat (?L[?q := filter ?f (lh_b lh ! ?q)])) + mset (lh_b lh ! ?q) =
        mset (items lh) + mset (filter ?f (lh_b lh ! ?q))"
    using mset_concat_update [of ?q ?L "filter ?f (lh_b lh ! ?q)"] g
    by (simp add: items_def nth_append)
  have 2: "mset (items lh') = mset (concat (?L[?q := filter ?f (lh_b lh ! ?q)]))
      + mset (rev (filter (Not \<circ> ?f) (lh_b lh ! ?q)))"
    using mset_concat_update [of "?q + ?m" "?L[?q := filter ?f (lh_b lh ! ?q)]"
        "rev (filter (Not \<circ> ?f) (lh_b lh ! ?q))"] g e
    by (simp add: items_def b nth_append)
  have 3: "mset (filter ?f (lh_b lh ! ?q)) + mset (rev (filter (Not \<circ> ?f) (lh_b lh ! ?q))) =
      mset (lh_b lh ! ?q)"
    by (simp add: comp_def)
  let ?M = "mset (rev (filter (Not \<circ> ?f) (lh_b lh ! ?q)))"
  have "mset (items lh') + mset (lh_b lh ! ?q) =
        (mset (concat (?L[?q := filter ?f (lh_b lh ! ?q)])) + mset (lh_b lh ! ?q)) + ?M"
    by (simp only: 2 ac_simps)
  also have "\<dots> = mset (items lh) + (mset (filter ?f (lh_b lh ! ?q)) + ?M)"
    by (simp only: 1 add.assoc)
  also have "\<dots> = mset (items lh) + mset (lh_b lh ! ?q)"
    by (simp only: 3)
  finally show ?thesis by simp
qed


lemma split_inv:
  assumes i: "hash_inv mn h c key lh" and s: "split_shape lh lh'" and g': "hash_geom mn lh'"
  shows "hash_inv mn h c key lh'"
proof -
  let ?q = "lh_p lh" and ?m = "pmax lh"
  let ?f = "\<lambda>d. unat (lh_hash lh d) mod (2 * ?m) = ?q"
  from s obtain n where b: "lh_b lh' = (lh_b lh @ replicate n [])
      [?q := filter ?f (lh_b lh ! ?q), ?q + ?m := rev (filter (Not \<circ> ?f) (lh_b lh ! ?q))]"
    and k: "\<And>d. item_bucket lh' d = (if item_bucket lh d = ?q then unat (lh_hash lh d) mod (2 * ?m)
                                       else item_bucket lh d)"
    by (auto simp: split_shape_def Let_def)
  have g: "?q < length (lh_b lh)" "?q + ?m < length (lh_b lh)" "?q < ?m" "num_alloc_nodes lh = 2 * ?m"
    using hash_inv_geom [OF i] by (auto simp: hash_geom_def)
  have nth: "lh_b lh' ! j = (if j = ?q + ?m then rev (filter (Not \<circ> ?f) (lh_b lh ! ?q))
      else if j = ?q then filter ?f (lh_b lh ! ?q)
      else if j < length (lh_b lh) then lh_b lh ! j else [])" if "j < length (lh_b lh')" for j
    using that g by (auto simp: b nth_list_update nth_append)
  have q: "item_bucket lh x = ?q" if "x \<in> set (lh_b lh ! ?q)" for x
    using i g that by (simp add: hash_inv_def)
  have two: "unat (lh_hash lh x) mod (2 * ?m) = ?q \<or> unat (lh_hash lh x) mod (2 * ?m) = ?q + ?m"
    if "x \<in> set (lh_b lh ! ?q)" for x
    using bucket_eq_split [OF g(3)] q [OF that] g(4) by (simp add: item_bucket_def)
  have "item_bucket lh' x = j" if "j < length (lh_b lh')" "x \<in> set (lh_b lh' ! j)" for j x
  proof -
    consider "j = ?q + ?m" | "j = ?q" | "j \<noteq> ?q + ?m" "j \<noteq> ?q" by blast
    then show ?thesis
    proof cases
      case 1
      with that nth [OF that(1)] have "x \<in> set (lh_b lh ! ?q)" "\<not> ?f x" by auto
      with 1 k [of x] q [of x] two [of x] show ?thesis by simp
    next
      case 2
      with that nth [OF that(1)] g have "x \<in> set (lh_b lh ! ?q)" "?f x" by auto
      with 2 k [of x] q [of x] show ?thesis by simp
    next
      case 3
      with that nth [OF that(1)] have "j < length (lh_b lh)" "x \<in> set (lh_b lh ! j)"
        by (auto split: if_splits)
      with i have "item_bucket lh x = j" by (simp add: hash_inv_def)
      with 3 k [of x] show ?thesis by simp
    qed
  qed
  moreover have "distinct (map key (lh_b lh' ! j))" if "j < length (lh_b lh')" for j
    using nth [OF that] i g by (auto simp: hash_inv_def distinct_map_filter rev_map [symmetric])
  moreover have "length (items lh') = length (items lh)"
    using split_items [OF i s] by (metis size_mset)
  ultimately show ?thesis
    using i s g' by (simp add: hash_inv_def split_shape_def Let_def)
qed

definition merge_shape :: "'d op_hash_st \<Rightarrow> 'd op_hash_st \<Rightarrow> bool" where
  "merge_shape lh lh' \<longleftrightarrow>
     (let l = num_nodes lh - 1; q = lh_p lh'; n = num_alloc_nodes lh' in
      l < length (lh_b lh) \<and> q < l \<and> num_nodes lh \<le> n \<and> n \<le> length (lh_b lh) \<and>
      lh_b lh' = take n ((lh_b lh)[l := [], q := lh_b lh ! q @ lh_b lh ! l]) \<and>
      (\<forall>d. item_bucket lh' d = (if item_bucket lh d = l then q else item_bucket lh d)) \<and>
      num_items lh' = num_items lh \<and> lh_hash lh' = lh_hash lh \<and> lh_comp lh' = lh_comp lh)"

lemma bucket_merge:
  assumes "b' =
             (if bucket_of q m (2 * m) h = q then h mod (2 * m) else bucket_of q m (2 * m) h)"
    and "q < m"
  shows "bucket_of q m (2 * m) h =
           (if b' = q + m then q else b')"
  using assms bucket_eq_split [of q m h] bucket_lt [of q m h] by (auto split: if_splits)

lemma contract_shape:
  assumes g: "hash_geom mn lh" and big: "mn < num_nodes lh" and mn: "0 < mn div 2"
    and ra: "lh_p lh = 0 \<Longrightarrow> ra (contract_bytes (pmax lh))"
  shows "merge_shape lh (contract ra lh) \<and> hash_geom mn (contract ra lh)"
proof (cases "lh_p lh")
  case (Suc q)
  let ?m = "pmax lh"
  let ?l = "q + pmax lh"
  have c: "contract ra lh = contract_append (lh_b lh ! ?l)
      (lh\<lparr>lh_b := (lh_b lh)[?l := []], lh_p := q\<rparr>)"
    using Suc by (simp add: contract_def Let_def)
  have q: "q < ?m" "q + 1 < ?m" "num_alloc_nodes lh = 2 * ?m" "num_nodes lh - 1 = ?l"
    using Suc g by (auto simp: hash_geom_def)
  have f: "lh_p (contract ra lh) = q" "pmax (contract ra lh) = ?m"
    "num_alloc_nodes (contract ra lh) = 2 * ?m" "lh_hash (contract ra lh) = lh_hash lh"
    "lh_comp (contract ra lh) = lh_comp lh" "num_items (contract ra lh) = num_items lh"
    "num_nodes (contract ra lh) = ?l"
    "lh_b (contract ra lh) = (lh_b lh)[?l := [], q := lh_b lh ! q @ lh_b lh ! ?l]"
    using q by (simp_all add: c contract_append_def)
  have k: "item_bucket (contract ra lh) d = (if item_bucket lh d = ?l then q else item_bucket lh d)" for d
    unfolding item_bucket_def f q(3) Suc
    using bucket_merge [OF bucket_expand_step [OF q(2)] q(1)] by simp
  have "hash_geom mn (contract ra lh)"
    using g q(1) unfolding hash_geom_def f by (auto simp: Suc)
  moreover have "merge_shape lh (contract ra lh)"
    using g q(1) k unfolding merge_shape_def f q(4) Let_def hash_geom_def by (simp add: Suc)
  ultimately show ?thesis by simp
next
  case 0
  from g 0 obtain e where e: "pmax lh = (mn div 2) * 2 ^ e" by (auto simp: hash_geom_def)
  have "e \<noteq> 0"
    using e big g 0 by (intro notI) (simp add: hash_geom_def)
  then obtain e' where e': "pmax lh = 2 * ((mn div 2) * 2 ^ e')"
    using e by (cases e) auto
  from mn obtain q where q: "(mn div 2) * 2 ^ e' = Suc q"
    by (cases "(mn div 2) * 2 ^ e'") auto
  let ?l = "Suc (2 * q)"
  have m: "pmax lh = 2 * Suc q" "num_alloc_nodes lh = 4 * Suc q" "num_nodes lh - 1 = ?l"
    using e' q g 0 by (simp_all add: hash_geom_def)
  have c: "contract ra lh = contract_append (lh_b lh ! ?l)
      (lh\<lparr>num_contract_reallocs := num_contract_reallocs lh + 1,
          num_alloc_nodes := 2 * Suc q, pmax := Suc q, lh_p := q,
          lh_b := take (2 * Suc q) ((lh_b lh)[?l := []])\<rparr>)"
    using 0 ra m by (simp add: contract_def Let_def)
  have f: "lh_p (contract ra lh) = q" "pmax (contract ra lh) = Suc q"
    "num_alloc_nodes (contract ra lh) = 2 * Suc q" "lh_hash (contract ra lh) = lh_hash lh"
    "lh_comp (contract ra lh) = lh_comp lh" "num_items (contract ra lh) = num_items lh"
    "num_nodes (contract ra lh) = ?l"
    using 0 g m by (simp_all add: c contract_append_def hash_geom_def)
  have b: "lh_b (contract ra lh) =
      take (2 * Suc q) ((lh_b lh)[?l := [], q := lh_b lh ! q @ lh_b lh ! ?l])"
    by (simp add: c contract_append_def take_update_swap)
  have k: "item_bucket (contract ra lh) d = (if item_bucket lh d = ?l then q else item_bucket lh d)" for d
  proof -
    have l: "?l = q + Suc q" by simp
    have "q + 1 = Suc q" "q < Suc q" by simp_all
    then show ?thesis
      unfolding item_bucket_def f m 0 l
      by (intro bucket_merge bucket_expand_wrap)
  qed
  have "hash_geom mn (contract ra lh)"
    using g q m unfolding hash_geom_def f b by (auto intro: exI [of _ e'])
  moreover have "merge_shape lh (contract ra lh)"
    using g m(2) k 0 unfolding merge_shape_def f b m(3) Let_def hash_geom_def by (simp add: m)
  ultimately show ?thesis by simp
qed


lemma merge_items:
  assumes i: "hash_inv mn h c key lh" and s: "merge_shape lh lh'"
  shows "mset (items lh') = mset (items lh)"
proof -
  let ?l = "num_nodes lh - 1" and ?q = "lh_p lh'" and ?n = "num_alloc_nodes lh'"
  let ?b = "lh_b lh" and ?L = "(lh_b lh)[num_nodes lh - 1 := [], lh_p lh' := lh_b lh ! lh_p lh' @ lh_b lh ! (num_nodes lh - 1)]"
  from s have l: "?l < length ?b" "?q < ?l" "num_nodes lh \<le> ?n" and b: "lh_b lh' = take ?n ?L"
    by (simp_all add: merge_shape_def Let_def)
  have "set (drop ?n ?L) \<subseteq> {[]}"
    using bucket_empty [OF i] l by (auto simp: in_set_conv_nth)
  then have "concat (drop ?n ?L) = []" by auto
  then have "concat ?L = items lh'"
    unfolding items_def b by (metis append_take_drop_id concat_append append_Nil2)
  moreover have "mset (concat ?L) = mset (concat ?b)"
    using l mset_concat_update [of ?l ?b "[]"]
      mset_concat_update [of ?q "?b[?l := []]" "?b ! ?q @ ?b ! ?l"] by simp
  ultimately show ?thesis by (simp add: items_def)
qed

lemma merge_inv:
  assumes i: "hash_inv mn h c key lh" and s: "merge_shape lh lh'" and g: "hash_geom mn lh'"
    and k: "\<And>x y. key x = key y \<Longrightarrow> h x = h y"
  shows "hash_inv mn h c key lh'"
proof -
  let ?l = "num_nodes lh - 1" and ?q = "lh_p lh'" and ?n = "num_alloc_nodes lh'"
  let ?b = "lh_b lh"
  from s have l: "?l < length ?b" "?q < ?l" "num_nodes lh \<le> ?n"
    and b: "lh_b lh' = take ?n (?b[?l := [], ?q := ?b ! ?q @ ?b ! ?l])"
    and ib: "\<And>d. item_bucket lh' d = (if item_bucket lh d = ?l then ?q else item_bucket lh d)"
    and st: "num_items lh' = num_items lh" "lh_hash lh' = lh_hash lh" "lh_comp lh' = lh_comp lh"
    by (simp_all add: merge_shape_def Let_def)
  from i have bk: "\<And>j x. j < length ?b \<Longrightarrow> x \<in> set (?b ! j) \<Longrightarrow> item_bucket lh x = j"
    and ds: "\<And>j. j < length ?b \<Longrightarrow> distinct (map key (?b ! j))"
    and ni: "num_items lh = length (items lh)" and hc: "lh_hash lh = h" "lh_comp lh = c"
    by (auto simp: hash_inv_def)
  have cross: "key x \<noteq> key y" if "x \<in> set (?b ! ?q)" "y \<in> set (?b ! ?l)" for x y
  proof
    assume "key x = key y"
    then have "item_bucket lh x = item_bucket lh y"
      using k [of x y] hc by (simp add: item_bucket_def)
    with that bk l show False by (metis less_trans nat_neq_iff)
  qed
  have len: "length (items lh') = length (items lh)"
    using merge_items [OF i s] by (metis size_mset)
  have "item_bucket lh' x = j" if "j < length (lh_b lh')" "x \<in> set (lh_b lh' ! j)" for j x
    using that l bk unfolding b ib by (auto simp: nth_list_update split: if_splits)
  moreover have "distinct (map key (lh_b lh' ! j))" if "j < length (lh_b lh')" for j
    using that l ds cross unfolding b by (auto simp: nth_list_update)
  ultimately show ?thesis
    using g st ni hc len by (simp add: hash_inv_def)
qed

definition same_geom :: "'d op_hash_st \<Rightarrow> 'd op_hash_st \<Rightarrow> bool" where
  "same_geom lh lh' \<longleftrightarrow>
     lh_p lh' = lh_p lh \<and> pmax lh' = pmax lh \<and> num_alloc_nodes lh' = num_alloc_nodes lh \<and>
     num_nodes lh' = num_nodes lh \<and> lh_hash lh' = lh_hash lh \<and> lh_comp lh' = lh_comp lh"

lemma same_geom_bucket: "same_geom lh lh' \<Longrightarrow> item_bucket lh' d = item_bucket lh d"
  by (simp add: same_geom_def item_bucket_def)

lemma hash_inv_bucket:
  "hash_inv mn h c key lh \<Longrightarrow> i < length (lh_b lh) \<Longrightarrow> x \<in> set (lh_b lh ! i) \<Longrightarrow> item_bucket lh x = i"
  by (simp add: hash_inv_def)

lemma hash_inv_distinct:
  "hash_inv mn h c key lh \<Longrightarrow> i < length (lh_b lh) \<Longrightarrow> distinct (map key (lh_b lh ! i))"
  by (simp add: hash_inv_def)

lemma hash_inv_bucket_len: "hash_inv mn h c key lh \<Longrightarrow> item_bucket lh d < length (lh_b lh)"
  using item_bucket_lt [of mn lh d] by (fastforce simp: hash_inv_def hash_geom_def)

lemma chain_update_inv:
  assumes i: "hash_inv mn h c key lh" and s: "same_geom lh lh'"
    and b: "lh_b lh' = (lh_b lh)[nn := ch]" and nn: "nn < length (lh_b lh)"
    and ch: "\<And>x. x \<in> set ch \<Longrightarrow> item_bucket lh x = nn" "distinct (map key ch)"
    and n: "num_items lh' + length (lh_b lh ! nn) = num_items lh + length ch"
  shows "hash_inv mn h c key lh'"
proof -
  have "hash_geom mn lh'"
    using hash_inv_geom [OF i] s b by (simp add: hash_geom_def same_geom_def)
  moreover have "item_bucket lh' x = j" if "j < length (lh_b lh')" "x \<in> set (lh_b lh' ! j)" for j x
    using that ch(1) hash_inv_bucket [OF i] nn
    by (auto simp: b same_geom_bucket [OF s] nth_list_update split: if_splits)
  moreover have "distinct (map key (lh_b lh' ! j))" if "j < length (lh_b lh')" for j
    using that ch(2) hash_inv_distinct [OF i] nn by (auto simp: b nth_list_update)
  moreover have "num_items lh' = length (items lh')"
    using n i length_concat_update [OF nn, of ch] by (simp add: items_def b hash_inv_def)
  ultimately show ?thesis
    using i s by (simp add: hash_inv_def same_geom_def)
qed

lemma chain_update_items:
  assumes i: "hash_inv mn h c key lh"
    and b: "lh_b lh' = (lh_b lh)[nn := ch]" and nn: "nn < length (lh_b lh)"
  shows "x \<in> set (items lh') \<longleftrightarrow> x \<in> set ch \<or> (x \<in> set (items lh) \<and> item_bucket lh x \<noteq> nn)"
proof
  assume "x \<in> set (items lh')"
  then obtain j where j: "j < length (lh_b lh)" "x \<in> set ((lh_b lh)[nn := ch] ! j)"
    by (auto simp: items_def in_set_concat_nth b simp del: set_concat)
  then show "x \<in> set ch \<or> (x \<in> set (items lh) \<and> item_bucket lh x \<noteq> nn)"
    using hash_inv_bucket [OF i j(1)] nn
    by (cases "j = nn") (auto simp: items_def in_set_concat_nth simp del: set_concat)
next
  assume "x \<in> set ch \<or> (x \<in> set (items lh) \<and> item_bucket lh x \<noteq> nn)"
  then show "x \<in> set (items lh')"
  proof
    assume "x \<in> set ch"
    then show ?thesis
      using nn by (auto simp: items_def in_set_concat_nth b simp del: set_concat intro!: exI [of _ nn])
  next
    assume r: "x \<in> set (items lh) \<and> item_bucket lh x \<noteq> nn"
    then obtain j where j: "j < length (lh_b lh)" "x \<in> set (lh_b lh ! j)"
      by (auto simp: items_def in_set_concat_nth simp del: set_concat)
    with r hash_inv_bucket [OF i j] show ?thesis
      by (auto simp: items_def in_set_concat_nth b simp del: set_concat intro!: exI [of _ j])
  qed
qed

lemma items_in_bucket:
  assumes "hash_inv mn h c key lh" "x \<in> set (items lh)"
  shows "x \<in> set (lh_b lh ! item_bucket lh x)"
  using assms by (auto simp: items_def in_set_concat_nth hash_inv_def simp del: set_concat)

lemma bucket_in_items:
  "i < length (lh_b lh) \<Longrightarrow> x \<in> set (lh_b lh ! i) \<Longrightarrow> x \<in> set (items lh)"
  by (auto simp: items_def in_set_concat_nth simp del: set_concat)

lemma getrn_simp:
  "getrn lh d = (item_bucket lh d, chain_pos (lh_comp lh) (lh_b lh ! item_bucket lh d) d,
     lh\<lparr>num_hash_calls := num_hash_calls lh + 1,
        num_comp_calls := num_comp_calls lh +
          chain_comps (lh_comp lh) (lh_b lh ! item_bucket lh d) d\<rparr>)"
  by (simp add: getrn_def item_bucket_def Let_def)

lemma expand_error: "expand ra lh = (ok, lh') \<Longrightarrow> lh_error lh' = lh_error lh + (if ok then 0 else 1)"
  by (auto simp: expand_def expand_move_def Let_def split: if_splits)

lemma expand_fail: "expand ra lh = (False, lh') \<Longrightarrow> lh' = lh\<lparr>lh_error := lh_error lh + 1\<rparr>"
  by (auto simp: expand_def Let_def split: if_splits)

lemma hash_inv_error [simp]: "hash_inv mn h c key (lh\<lparr>lh_error := e\<rparr>) = hash_inv mn h c key lh"
  by (simp add: hash_inv_def hash_geom_def items_def item_bucket_def)

lemma items_error [simp]: "items (lh\<lparr>lh_error := e\<rparr>) = items lh"
  by (simp add: items_def)

lemma hash_abs_error [simp]: "hash_abs key (lh\<lparr>lh_error := e\<rparr>) = hash_abs key lh"
  by (simp add: hash_abs_def fun_eq_iff)

lemma hash_inv_cong:
  assumes "same_geom lh lh'" "lh_b lh' = lh_b lh" "num_items lh' = num_items lh"
  shows "hash_inv mn h c key lh' = hash_inv mn h c key lh"
proof -
  have "hash_geom mn lh' = hash_geom mn lh"
    using assms by (simp add: hash_geom_def same_geom_def)
  then show ?thesis
    using assms same_geom_bucket [OF assms(1)]
    by (simp add: hash_inv_def items_def) (simp add: same_geom_def)
qed

lemma hash_abs_cong: "lh_b lh' = lh_b lh \<Longrightarrow> hash_abs key lh' = hash_abs key lh"
  by (simp add: hash_abs_def items_def fun_eq_iff)

lemma delete_min_eq:
  fixes lh :: "'d op_hash_st" and d :: 'd
  defines "ch \<equiv> lh_b lh ! item_bucket lh d"
  defines "k \<equiv> chain_pos (lh_comp lh) ch d"
  shows "\<exists>lh1 lh2. same_geom lh lh1 \<and> lh_b lh1 = lh_b lh \<and> num_items lh1 = num_items lh \<and>
     same_geom lh lh2 \<and> lh_b lh2 = (lh_b lh)[item_bucket lh d := take k ch @ drop (Suc k) ch] \<and>
     num_items lh2 = num_items lh - 1 \<and>
     op_hash_delete_min mn ra lh d =
       (if k = length ch then (None, lh1)
        else (Some (ch ! k),
              if mn < num_nodes lh2 \<and> load lh2 \<le> down_load lh2 then contract ra lh2 else lh2))"
proof -
  let ?lh = "lh\<lparr>lh_error := 0, num_hash_calls := num_hash_calls lh + 1,
    num_comp_calls := num_comp_calls lh + chain_comps (lh_comp lh) ch d\<rparr>"
  have ib: "item_bucket (lh\<lparr>lh_error := 0\<rparr>) d = item_bucket lh d" by (simp add: item_bucket_def)
  show ?thesis
    by (rule exI [of _ "?lh\<lparr>num_no_delete := num_no_delete lh + 1\<rparr>"],
        rule exI [of _ "?lh\<lparr>lh_b := (lh_b lh)[item_bucket lh d := take k ch @ drop (Suc k) ch],
          num_delete := num_delete lh + 1, num_items := num_items lh - 1\<rparr>"])
      (simp add: op_hash_delete_min_def getrn_simp ib Let_def ch_def k_def same_geom_def)
qed

subsection \<open>The contract of the callbacks, and the table as a map\<close>

text \<open>
  What the table needs of the two callbacks it is given: there is a key such that the comparison
  answers 0 exactly on equal keys and the hash depends on the key only.
\<close>

locale keyed_hash =
  fixes hash :: "'d \<Rightarrow> u64" and comp :: "'d \<Rightarrow> 'd \<Rightarrow> int" and key :: "'d \<Rightarrow> 'k"
  assumes comp_key: "comp x y = 0 \<longleftrightarrow> key x = key y"
    and hash_key: "key x = key y \<Longrightarrow> hash x = hash y"
begin

lemma same_bucket:
  "hash_inv mn hash comp key lh \<Longrightarrow> key x = key y \<Longrightarrow> item_bucket lh x = item_bucket lh y"
  by (simp add: item_bucket_def hash_inv_def hash_key [of x y])

lemma items_key_inj:
  assumes i: "hash_inv mn hash comp key lh"
    and x: "x \<in> set (items lh)" and y: "y \<in> set (items lh)" and k: "key x = key y"
  shows "x = y"
proof -
  let ?ch = "lh_b lh ! item_bucket lh x"
  have "x \<in> set ?ch" "y \<in> set ?ch"
    using items_in_bucket [OF i x] items_in_bucket [OF i y] same_bucket [OF i k] by simp_all
  moreover have "distinct (map key ?ch)"
    using hash_inv_distinct [OF i hash_inv_bucket_len [OF i]] .
  ultimately show ?thesis
    using k by (simp add: distinct_map inj_on_def)
qed

lemma abs_Some:
  assumes "hash_inv mn hash comp key lh"
  shows "hash_abs key lh k = Some x \<longleftrightarrow> x \<in> set (items lh) \<and> key x = k"
  unfolding hash_abs_def by (rule find_unique) (use items_key_inj [OF assms] in auto)

lemma abs_None: "hash_abs key lh k = None \<longleftrightarrow> (\<forall>x \<in> set (items lh). key x \<noteq> k)"
  by (auto simp: hash_abs_def find_None_iff)

lemma abs_eqI:
  assumes "hash_inv mn hash comp key lh"
    and "\<And>x. m (key x) = Some x \<longleftrightarrow> x \<in> set (items lh)"
    and "\<And>k x. m k = Some x \<Longrightarrow> key x = k"
  shows "hash_abs key lh = m"
proof
  fix k
  show "hash_abs key lh k = m k"
  proof (cases "m k")
    case None
    with assms(2) have "\<forall>x \<in> set (items lh). key x \<noteq> k" by force
    with None show ?thesis by (simp add: abs_None)
  next
    case (Some x)
    with assms(2,3) have "x \<in> set (items lh) \<and> key x = k" by metis
    with Some show ?thesis by (simp add: abs_Some [OF assms(1)])
  qed
qed

lemma abs_mset:
  assumes "hash_inv mn hash comp key lh" "hash_inv mn hash comp key lh'"
    and "mset (items lh') = mset (items lh)"
  shows "hash_abs key lh' = hash_abs key lh"
proof (rule abs_eqI [OF assms(2)])
  have "set (items lh') = set (items lh)" using assms(3) by (metis set_mset_mset)
  then show "hash_abs key lh (key x) = Some x \<longleftrightarrow> x \<in> set (items lh')" for x
    using abs_Some [OF assms(1)] by simp
  show "hash_abs key lh k = Some x \<Longrightarrow> key x = k" for k x
    using abs_Some [OF assms(1)] by simp
qed

text \<open>What \<^verbatim>\<open>getrn\<close> finds: the link to the item with the key, or the end of its chain.\<close>

lemma find_chain:
  fixes d :: 'd
  assumes i: "hash_inv mn hash comp key lh"
  defines "ch \<equiv> lh_b lh ! item_bucket lh d"
  defines "k \<equiv> chain_pos comp ch d"
  shows "k = length ch \<longleftrightarrow> hash_abs key lh (key d) = None"
    and "k < length ch \<Longrightarrow> key (ch ! k) = key d \<and> hash_abs key lh (key d) = Some (ch ! k)"
proof -
  have bl: "item_bucket lh d < length (lh_b lh)" by (rule hash_inv_bucket_len [OF i])
  have "x \<in> set ch" if "x \<in> set (items lh)" "key x = key d" for x
    using items_in_bucket [OF i that(1)] same_bucket [OF i that(2)] by (simp add: ch_def)
  then show "k = length ch \<longleftrightarrow> hash_abs key lh (key d) = None"
    unfolding k_def chain_pos_length abs_None comp_key
    using bucket_in_items [OF bl] by (auto simp: ch_def)
  assume k: "k < length ch"
  then have "key (ch ! k) = key d"
    using chain_pos_nth [of comp ch d] comp_key unfolding k_def by blast
  moreover have "ch ! k \<in> set (items lh)"
    using bucket_in_items [OF bl] k by (simp add: ch_def)
  ultimately show "key (ch ! k) = key d \<and> hash_abs key lh (key d) = Some (ch ! k)"
    by (simp add: abs_Some [OF i])
qed

lemma retrieve_spec:
  assumes i: "hash_inv mn hash comp key lh"
  shows "fst (op_hash_retrieve lh d) = hash_abs key lh (key d)"
    and "hash_inv mn hash comp key (snd (op_hash_retrieve lh d))"
    and "hash_abs key (snd (op_hash_retrieve lh d)) = hash_abs key lh"
proof -
  let ?lh = "lh\<lparr>lh_error := 0\<rparr>"
  let ?ch = "lh_b lh ! item_bucket lh d"
  have ib: "item_bucket ?lh d = item_bucket lh d" by (simp add: item_bucket_def)
  have c: "lh_comp lh = comp" using i by (simp add: hash_inv_def)
  have r: "op_hash_retrieve lh d =
    (if chain_pos comp ?ch d = length ?ch then None else Some (?ch ! chain_pos comp ?ch d),
     snd (op_hash_retrieve lh d))"
    by (simp add: op_hash_retrieve_def getrn_simp ib c Let_def)
  show "fst (op_hash_retrieve lh d) = hash_abs key lh (key d)"
    using find_chain [OF i, of d] chain_pos_le [of comp ?ch d] by (subst r) (auto simp: le_less)
  show "hash_inv mn hash comp key (snd (op_hash_retrieve lh d))"
    using i
    by (subst hash_inv_cong [of lh]) (simp_all add: op_hash_retrieve_def getrn_simp Let_def same_geom_def)
  show "hash_abs key (snd (op_hash_retrieve lh d)) = hash_abs key lh"
    by (rule hash_abs_cong) (simp add: op_hash_retrieve_def getrn_simp Let_def)
qed

text \<open>The two ways \<^verbatim>\<open>op_hash_insert\<close> stores an item, and \<^verbatim>\<open>op_hash_delete\<close>'s unlinking.\<close>

lemma store_spec:
  assumes i: "hash_inv mn hash comp key lh" and s: "same_geom lh lh'"
    and b: "lh_b lh' = (lh_b lh)[item_bucket lh d := ch']"
    and ch: "ch' = (if k = length ch then ch @ [d] else ch[k := d])"
    and ch_def: "ch = lh_b lh ! item_bucket lh d" and k_def: "k = chain_pos comp ch d"
    and n: "num_items lh' = num_items lh + (if k = length ch then 1 else 0)"
  shows "hash_inv mn hash comp key lh'"
    and "hash_abs key lh' = (hash_abs key lh)(key d \<mapsto> d)"
proof -
  have nn: "item_bucket lh d < length (lh_b lh)" by (rule hash_inv_bucket_len [OF i])
  have kl: "k \<le> length ch" by (simp add: k_def chain_pos_le)
  have dist: "distinct (map key ch)" using hash_inv_distinct [OF i nn] by (simp add: ch_def)
  note fc = find_chain [OF i, of d, folded ch_def, folded k_def]
  have fresh: "k = length ch \<Longrightarrow> x \<in> set ch \<Longrightarrow> key x \<noteq> key d" for x
    using chain_pos_length [of comp ch d] comp_key by (simp add: k_def)
  have keys: "map key ch' = (if k = length ch then map key ch @ [key d] else map key ch)"
    using fc(2) kl by (auto simp: ch map_update list_update_same_conv le_less)
  have dk: "distinct (map key ch')"
    using dist fresh unfolding keys by (simp add: image_iff) metis
  have bk: "item_bucket lh x = item_bucket lh d" if "x \<in> set ch'" for x
    using that hash_inv_bucket [OF i nn] set_update_subset_insert [of ch k d]
    by (auto simp: ch ch_def split: if_splits)
  have len: "num_items lh' + length (lh_b lh ! item_bucket lh d) = num_items lh + length ch'"
    by (simp add: n ch ch_def)
  show inv: "hash_inv mn hash comp key lh'"
    using chain_update_inv [OF i s b nn bk dk len] .
  have mem: "x \<in> set ch' \<longleftrightarrow> x = d \<or> (x \<in> set ch \<and> key x \<noteq> key d)" for x
  proof (cases "k = length ch")
    case True then show ?thesis using fresh by (auto simp: ch)
  next
    case False
    with kl have kl: "k < length ch" by simp
    have "set (ch[k := d]) = insert d (set ch - {ch ! k})"
      using dist kl by (simp add: set_update_distinct distinct_map)
    moreover have "y = ch ! k" if "y \<in> set ch" "key y = key d" for y
      using that fc(2) [OF kl] dist kl by (metis distinct_map inj_onD nth_mem)
    ultimately show ?thesis using False fc(2) [OF kl] by (auto simp: ch)
  qed
  have it: "x \<in> set (items lh') \<longleftrightarrow> x = d \<or> (x \<in> set (items lh) \<and> key x \<noteq> key d)" for x
    using chain_update_items [OF i b nn, of x] mem [of x] items_in_bucket [OF i, of x]
      bucket_in_items [OF nn, of x] same_bucket [OF i, of x d] by (auto simp: ch_def)
  show "hash_abs key lh' = (hash_abs key lh)(key d \<mapsto> d)"
    by (rule abs_eqI [OF inv]) (auto simp: it abs_Some [OF i] split: if_splits)
qed

lemma unlink_spec:
  assumes i: "hash_inv mn hash comp key lh" and s: "same_geom lh lh'"
    and b: "lh_b lh' = (lh_b lh)[item_bucket lh d := take k ch @ drop (Suc k) ch]"
    and ch_def: "ch = lh_b lh ! item_bucket lh d" and k_def: "k = chain_pos comp ch d"
    and k: "k < length ch" and n: "num_items lh' = num_items lh - 1"
  shows "hash_inv mn hash comp key lh'"
    and "hash_abs key lh' = (hash_abs key lh)(key d := None)"
proof -
  let ?ch = "take k ch @ drop (Suc k) ch"
  have nn: "item_bucket lh d < length (lh_b lh)" by (rule hash_inv_bucket_len [OF i])
  have dist: "distinct (map key ch)" using hash_inv_distinct [OF i nn] by (simp add: ch_def)
  have split: "ch = take k ch @ ch ! k # drop (Suc k) ch" using k by (simp add: id_take_nth_drop)
  have keyk: "key (ch ! k) = key d"
    using find_chain(2) [OF i, of d, folded ch_def, folded k_def] k by simp
  have "distinct (map key (take k ch @ ch ! k # drop (Suc k) ch))" using dist split by simp
  then have dk: "distinct (map key ?ch)" and no: "\<And>x. x \<in> set ?ch \<Longrightarrow> key x \<noteq> key d"
    using keyk by (auto simp: rev_image_eqI)
  have mem: "x \<in> set ?ch \<longleftrightarrow> x \<in> set ch \<and> key x \<noteq> key d" for x
    using no [of x] keyk split by (metis Un_iff insert_iff set_append list.set(2))
  have bk: "item_bucket lh x = item_bucket lh d" if "x \<in> set ?ch" for x
    using that mem hash_inv_bucket [OF i nn] by (simp add: ch_def)
  have "0 < num_items lh"
    using i nn k bucket_in_items [OF nn, of "ch ! k"] by (auto simp: hash_inv_def ch_def)
  then have len: "num_items lh' + length (lh_b lh ! item_bucket lh d) = num_items lh + length ?ch"
    using k n by (simp add: ch_def)
  show inv: "hash_inv mn hash comp key lh'"
    using chain_update_inv [OF i s b nn bk dk len] .
  have it: "x \<in> set (items lh') \<longleftrightarrow> x \<in> set (items lh) \<and> key x \<noteq> key d" for x
    using chain_update_items [OF i b nn, of x] mem [of x] items_in_bucket [OF i, of x]
      bucket_in_items [OF nn, of x] same_bucket [OF i, of x d] by (auto simp: ch_def)
  show "hash_abs key lh' = (hash_abs key lh)(key d := None)"
    by (rule abs_eqI [OF inv]) (auto simp: it abs_Some [OF i] split: if_splits)
qed

lemma grow_spec:
  assumes i: "hash_inv mn hash comp key lh" and ra: "realloc_ok ra" and e: "expand ra lh = (ok, lh')"
  shows "hash_inv mn hash comp key lh'" and "hash_abs key lh' = hash_abs key lh"
proof -
  have "hash_inv mn hash comp key lh' \<and> hash_abs key lh' = hash_abs key lh"
  proof (cases ok)
    case True
    with expand_shape [OF hash_inv_geom [OF i] ra] e
    have "split_shape lh lh'" "hash_geom mn lh'" by simp_all
    with split_inv [OF i] split_items [OF i] abs_mset [OF i] show ?thesis by blast
  next
    case False
    with expand_fail [of ra lh lh'] e i show ?thesis by simp
  qed
  then show "hash_inv mn hash comp key lh'" "hash_abs key lh' = hash_abs key lh" by simp_all
qed

lemma insert_spec:
  assumes i: "hash_inv mn hash comp key lh" and ra: "realloc_ok ra"
    and r: "op_hash_insert ra ca lh d = (old, lh')"
  shows "hash_inv mn hash comp key lh' \<and>
    (lh_error lh' = 0 \<and> old = hash_abs key lh (key d) \<and>
       hash_abs key lh' = (hash_abs key lh)(key d \<mapsto> d) \<or>
     lh_error lh' = 1 \<and> old = None \<and> hash_abs key lh' = hash_abs key lh)"
proof -
  define lh1 where "lh1 = lh\<lparr>lh_error := 0\<rparr>"
  obtain ok lh2 where g: "(if up_load lh1 \<le> load lh1 then expand ra lh1 else (True, lh1)) = (ok, lh2)"
    by fastforce
  have i1: "hash_inv mn hash comp key lh1" and a1: "hash_abs key lh1 = hash_abs key lh"
    using i by (simp_all add: lh1_def)
  have i2: "hash_inv mn hash comp key lh2" and a2: "hash_abs key lh2 = hash_abs key lh"
    using g grow_spec [OF i1 ra] i1 a1 by (auto split: if_splits)
  have e2: "lh_error lh2 = (if ok then 0 else 1)"
    using g expand_error [of ra lh1 ok lh2] by (auto simp: lh1_def split: if_splits)
  show ?thesis
  proof (cases ok)
    case False
    with r g have "old = None" "lh' = lh2" by (simp_all add: op_hash_insert_def lh1_def [symmetric])
    with i2 a2 e2 False show ?thesis by simp
  next
    case ok: True
    let ?ch = "lh_b lh2 ! item_bucket lh2 d"
    let ?k = "chain_pos comp ?ch d"
    have c2: "lh_comp lh2 = comp" using i2 by (simp add: hash_inv_def)
    note r' = r [unfolded op_hash_insert_def Let_def lh1_def [symmetric] g fst_conv snd_conv
        getrn_simp c2 prod.case, simplified ok]
    note fc = find_chain [OF i2, of d]
    have kl: "?k \<le> length ?ch" by (rule chain_pos_le)
    show ?thesis
    proof (cases "?k = length ?ch \<and> \<not> ca")
      case True
      with r' have "old = None" "same_geom lh2 lh'" "lh_b lh' = lh_b lh2" "num_items lh' = num_items lh2"
        "lh_error lh' = 1"
        using e2 ok by (auto simp: same_geom_def)
      with i2 a2 hash_inv_cong [of lh2 lh' mn hash comp key] hash_abs_cong [of lh' lh2 key] show ?thesis by simp
    next
      case False
      with r' have o: "old = (if ?k = length ?ch then None else Some (?ch ! ?k))"
        and s: "same_geom lh2 lh'" and e: "lh_error lh' = 0"
        and b: "lh_b lh' = (lh_b lh2)[item_bucket lh2 d :=
                  (if ?k = length ?ch then ?ch @ [d] else ?ch[?k := d])]"
        and n: "num_items lh' = num_items lh2 + (if ?k = length ?ch then 1 else 0)"
        using e2 ok by (auto simp: same_geom_def split: if_splits)
      have "old = hash_abs key lh (key d)"
        using o fc kl a2 by (auto simp: le_less)
      with store_spec [OF i2 s b refl refl refl n] e a2 show ?thesis by simp
    qed
  qed
qed

lemma delete_spec:
  assumes i: "hash_inv mn hash comp key lh" and mn: "2 \<le> mn" and ra: "\<And>n. n < 2 ^ 32 \<Longrightarrow> ra n"
    and r: "op_hash_delete_min mn ra lh d = (old, lh')"
  shows "hash_inv mn hash comp key lh'" and "old = hash_abs key lh (key d)"
    and "hash_abs key lh' = (hash_abs key lh)(key d := None)"
proof -
  let ?ch = "lh_b lh ! item_bucket lh d"
  let ?k = "chain_pos comp ?ch d"
  have c: "lh_comp lh = comp" using i by (simp add: hash_inv_def)
  obtain lh1 lh2 where s1: "same_geom lh lh1" "lh_b lh1 = lh_b lh" "num_items lh1 = num_items lh"
    and s: "same_geom lh lh2"
    and b: "lh_b lh2 = (lh_b lh)[item_bucket lh d := take ?k ?ch @ drop (Suc ?k) ?ch]"
    and n: "num_items lh2 = num_items lh - 1"
    and e: "op_hash_delete_min mn ra lh d =
       (if ?k = length ?ch then (None, lh1)
        else (Some (?ch ! ?k),
              if mn < num_nodes lh2 \<and> load lh2 \<le> down_load lh2 then contract ra lh2 else lh2))"
    using delete_min_eq [of lh d mn ra] unfolding c by blast
  note fc = find_chain [OF i, of d]
  have "hash_inv mn hash comp key lh' \<and> old = hash_abs key lh (key d) \<and>
        hash_abs key lh' = (hash_abs key lh)(key d := None)"
  proof (cases "?k = length ?ch")
    case True
    with r e have "old = None" "lh' = lh1" by simp_all
    with i s1 hash_inv_cong [of lh lh1 mn hash comp key] hash_abs_cong [of lh1 lh key] fc(1) True
    show ?thesis by (simp add: fun_upd_idem)
  next
    case False
    with chain_pos_le [of comp ?ch d] have k: "?k < length ?ch" by simp
    from r e False have o: "old = Some (?ch ! ?k)"
      and l: "lh' = lh2 \<or> mn < num_nodes lh2 \<and> lh' = contract ra lh2"
      by (auto split: if_splits)
    note u = unlink_spec [OF i s b refl refl k n]
    have "hash_inv mn hash comp key (contract ra lh2) \<and>
          hash_abs key (contract ra lh2) = hash_abs key lh2" if big: "mn < num_nodes lh2"
    proof -
      have "ra (contract_bytes (pmax lh2))" by (rule ra) (simp add: contract_bytes_def)
      with contract_shape [OF hash_inv_geom [OF u(1)] big] mn
      have "merge_shape lh2 (contract ra lh2)" "hash_geom mn (contract ra lh2)" by auto
      with merge_inv [OF u(1)] merge_items [OF u(1)] abs_mset [OF u(1)] hash_key show ?thesis by blast
    qed
    with l u o fc(2) [OF k] show ?thesis by auto
  qed
  then show "hash_inv mn hash comp key lh'" "old = hash_abs key lh (key d)"
    "hash_abs key lh' = (hash_abs key lh)(key d := None)" by simp_all
qed

end

subsection \<open>Creation, traversal and release\<close>

lemma items_init [simp]: "items (op_hash_init mn h c) = []"
  by (simp add: items_def op_hash_init_def)

lemma hash_abs_init [simp]: "hash_abs key (op_hash_init mn h c) = Map.empty"
  by (simp add: hash_abs_def fun_eq_iff)

lemma hash_inv_init:
  assumes "2 \<le> mn" "even mn" "mn < 2 ^ 28"
  shows "hash_inv mn h c key (op_hash_init mn h c)"
proof -
  have "hash_geom mn (op_hash_init mn h c)"
    using assms by (auto simp: hash_geom_def op_hash_init_def intro!: exI [of _ 0])
  moreover have "lh_b (op_hash_init mn h c) = replicate mn []"
    by (simp add: op_hash_init_def)
  ultimately show ?thesis
    by (simp add: hash_inv_def) (simp add: op_hash_init_def)
qed

lemma op_hash_new_inv: "op_hash_new True True (Some h) (Some c) = Some (op_hash_init MIN_NODES h c)"
    "hash_inv MIN_NODES h c key (op_hash_init MIN_NODES h c)"
  by (simp_all add: op_hash_new_def hash_inv_init MIN_NODES_def)

lemma doall_buckets_fold:
  "n \<le> length bs \<Longrightarrow> doall_buckets n bs f s = fold f (concat (rev (take n bs))) s"
  by (induction n arbitrary: s) (simp_all add: take_Suc_conv_app_nth)

lemma free_buckets_take:
  "i + n \<le> length bs \<Longrightarrow> free_buckets i n bs = concat (take n (drop i bs))"
  by (induction n arbitrary: i) (simp_all add: take_Suc_conv_app_nth Cons_nth_drop_Suc [symmetric])

lemma mset_concat_rev: "mset (concat (rev xss)) = mset (concat xss)"
  by (induction xss) (simp_all add: union_commute)

lemma used_buckets:
  assumes i: "hash_inv mn h c key lh"
  shows "concat (take (num_nodes lh) (lh_b lh)) = items lh"
proof -
  have n: "num_nodes lh \<le> length (lh_b lh)"
    using hash_inv_geom [OF i] by (auto simp: hash_geom_def)
  have "set (drop (num_nodes lh) (lh_b lh)) \<subseteq> {[]}"
    using bucket_empty [OF i] by (auto simp: in_set_conv_nth)
  then have "concat (drop (num_nodes lh) (lh_b lh)) = []" by auto
  then show ?thesis
    unfolding items_def by (metis append_take_drop_id concat_append append_Nil2)
qed

lemma doall_util_fold:
  assumes i: "hash_inv mn h c key lh"
  shows "\<exists>order. mset order = mset (items lh) \<and> (\<forall>f s. doall_util_fn (Some lh) f s = fold f order s)"
proof -
  have n: "num_nodes lh \<le> length (lh_b lh)"
    using hash_inv_geom [OF i] by (auto simp: hash_geom_def)
  show ?thesis
    by (rule exI [of _ "concat (rev (take (num_nodes lh) (lh_b lh)))"])
       (simp add: mset_concat_rev used_buckets [OF i] doall_util_fn_def doall_buckets_fold [OF n]
          del: mset_concat)
qed

lemma op_hash_free_items:
  assumes i: "hash_inv mn h c key lh"
  shows "op_hash_free (Some lh) = items lh"
proof -
  have n: "0 + num_nodes lh \<le> length (lh_b lh)"
    using hash_inv_geom [OF i] by (auto simp: hash_geom_def)
  show ?thesis
    by (simp add: op_hash_free_def free_buckets_take [OF n] used_buckets [OF i])
qed

text \<open>When \<^verbatim>\<open>contract\<close> cannot shrink the array, the chain it has unlinked is gone.\<close>

lemma contract_fail:
  assumes i: "hash_inv mn h c key lh" and p: "lh_p lh = 0" and ra: "\<not> ra (contract_bytes (pmax lh))"
  shows "num_items (contract ra lh) = num_items lh"
    and "length (items (contract ra lh)) + length (lh_b lh ! (num_nodes lh - 1)) = length (items lh)"
proof -
  have n: "num_nodes lh - 1 < length (lh_b lh)" "num_nodes lh = pmax lh"
    using hash_inv_geom [OF i] p unfolding hash_geom_def by linarith+
  have c: "contract ra lh =
      lh\<lparr>lh_b := (lh_b lh)[num_nodes lh - 1 := []], lh_error := lh_error lh + 1\<rparr>"
    using p ra n(2) by (simp add: contract_def Let_def)
  show "num_items (contract ra lh) = num_items lh" by (simp add: c)
  show "length (items (contract ra lh)) + length (lh_b lh ! (num_nodes lh - 1)) = length (items lh)"
    using length_concat_update [OF n(1), of "[]"] by (simp add: c items_def)
qed

lemma expand_ok:
  assumes "hash_geom mn lh" "num_alloc_nodes lh < 2 ^ 27" "\<And>n. n < 2 ^ 31 \<Longrightarrow> ra n"
  shows "fst (expand ra lh)"
proof -
  have "expand_bytes ((num_alloc_nodes lh * 2) mod 2 ^ 32) < 2 ^ 31"
    using assms(2) expand_bytes_small [of "num_alloc_nodes lh * 2"] by simp
  then show ?thesis using assms(3) by (simp add: expand_def Let_def)
qed

lemma insert_no_error:
  assumes g: "hash_geom mn lh" "num_alloc_nodes lh < 2 ^ 27" and ra: "\<And>n. n < 2 ^ 31 \<Longrightarrow> ra n"
  shows "lh_error (snd (op_hash_insert ra True lh d)) = 0"
proof -
  define lh1 where "lh1 = lh\<lparr>lh_error := 0\<rparr>"
  obtain ok lh2 where e: "(if up_load lh1 \<le> load lh1 then expand ra lh1 else (True, lh1)) = (ok, lh2)"
    by fastforce
  have "hash_geom mn lh1" "num_alloc_nodes lh1 < 2 ^ 27"
    using g by (simp_all add: lh1_def hash_geom_def)
  with expand_ok [of mn lh1 ra] ra e have ok by (auto split: if_splits)
  moreover from this have "lh_error lh2 = 0"
    using e expand_error [of ra lh1 ok lh2] by (auto simp: lh1_def split: if_splits)
  ultimately show ?thesis
    by (simp add: op_hash_insert_def lh1_def [symmetric] e getrn_simp Let_def)
qed

section \<open>Properties\<close>

text \<open>
  C1: \<^verbatim>\<open>op_hash_insert\<close> on a well-formed table keeps it well formed (items in the bucket their hash
  selects, one item per key, exact item count, linear-hashing geometry) and is the update of the
  key-to-item map, returning the item it replaced; on an allocation failure it returns NULL, sets
  the error counter and leaves the map as it was, and while memory is available it does not fail.
\<close>

theorem op_hash_insert_refines:
  assumes "\<And>x y. cmp x y = 0 \<longleftrightarrow> key x = key y" and "\<And>x y. key x = key y \<Longrightarrow> hash x = hash y"
    and "hash_inv MIN_NODES hash cmp key lh" and "realloc_ok ra"
    and "op_hash_insert ra ca lh d = (old, lh')"
  shows "hash_inv MIN_NODES hash cmp key lh' \<and>
    (lh_error lh' = 0 \<and> old = hash_abs key lh (key d) \<and>
       hash_abs key lh' = (hash_abs key lh)(key d \<mapsto> d) \<or>
     lh_error lh' = 1 \<and> old = None \<and> hash_abs key lh' = hash_abs key lh) \<and>
    (ca \<and> (\<forall>n < 2 ^ 31. ra n) \<and> num_alloc_nodes lh < 2 ^ 27 \<longrightarrow> lh_error lh' = 0)"
proof -
  have k: "keyed_hash hash cmp key" using assms(1,2) by (rule keyed_hash.intro)
  have "ca \<and> (\<forall>n < 2 ^ 31. ra n) \<and> num_alloc_nodes lh < 2 ^ 27 \<longrightarrow> lh_error lh' = 0"
  proof
    assume "ca \<and> (\<forall>n < 2 ^ 31. ra n) \<and> num_alloc_nodes lh < 2 ^ 27"
    then show "lh_error lh' = 0"
      using insert_no_error [OF hash_inv_geom [OF assms(3)], of ra d] assms(5) by simp
  qed
  with keyed_hash.insert_spec [OF k assms(3-5)] show ?thesis by blast
qed

theorem op_hash_insert_refines_witness:
  "\<exists>old lh'. op_hash_insert (\<lambda>n. n < 2 ^ 63) True
       (op_hash_init MIN_NODES (\<lambda>x. x) (\<lambda>x y :: u64. if x = y then 0 else 1)) 5 = (old, lh') \<and>
     old = None \<and> hash_abs (\<lambda>x. x) lh' = [5 \<mapsto> 5]"
proof -
  let ?lh = "op_hash_init MIN_NODES (\<lambda>x. x) (\<lambda>x y :: u64. if x = y then 0 else 1)"
  obtain old lh' where r: "op_hash_insert (\<lambda>n. n < 2 ^ 63) True ?lh 5 = (old, lh')" by fastforce
  have "num_alloc_nodes ?lh < 2 ^ 27" by (simp add: op_hash_init_def MIN_NODES_def)
  moreover have "realloc_ok (\<lambda>n. n < 2 ^ 63)" by (simp add: realloc_ok_def)
  moreover have "(if x = y then 0 else (1 :: int)) = 0 \<longleftrightarrow> x = y" for x y :: u64 by simp
  ultimately have "old = None \<and> hash_abs (\<lambda>x. x) lh' = [5 \<mapsto> 5]"
    using op_hash_insert_refines [OF _ _ op_hash_new_inv(2) _ r, of "\<lambda>x. x"] by auto
  with r show ?thesis by blast
qed

text \<open>
  C2: \<^verbatim>\<open>op_hash_delete\<close> on a well-formed table, when shrinking the array succeeds, keeps it well
  formed, returns the stored item with the given key (NULL when there is none) and removes
  exactly that key from the map, whether or not the table contracts.
\<close>

theorem op_hash_delete_refines:
  assumes "\<And>x y. cmp x y = 0 \<longleftrightarrow> key x = key y" and "\<And>x y. key x = key y \<Longrightarrow> hash x = hash y"
    and "hash_inv MIN_NODES hash cmp key lh" and "\<And>n. n < 2 ^ 32 \<Longrightarrow> ra n"
    and "op_hash_delete ra lh d = (old, lh')"
  shows "hash_inv MIN_NODES hash cmp key lh' \<and> old = hash_abs key lh (key d) \<and>
    hash_abs key lh' = (hash_abs key lh)(key d := None)"
proof -
  have k: "keyed_hash hash cmp key" using assms(1,2) by (rule keyed_hash.intro)
  show ?thesis
    using keyed_hash.delete_spec [OF k assms(3) _ assms(4) assms(5) [unfolded op_hash_delete_def]]
    by (simp add: MIN_NODES_def)
qed

theorem op_hash_delete_refines_witness:
  "\<exists>old lh'. op_hash_delete (\<lambda>n. True)
       (op_hash_init MIN_NODES (\<lambda>x. x) (\<lambda>x y :: u64. if x = y then 0 else 1)) 5 = (old, lh') \<and>
     old = None \<and> hash_abs (\<lambda>x. x) lh' = Map.empty"
proof -
  let ?lh = "op_hash_init MIN_NODES (\<lambda>x. x) (\<lambda>x y :: u64. if x = y then 0 else 1)"
  obtain old lh' where r: "op_hash_delete (\<lambda>n. True) ?lh 5 = (old, lh')" by fastforce
  moreover have "(if x = y then 0 else (1 :: int)) = 0 \<longleftrightarrow> x = y" for x y :: u64 by simp
  ultimately show ?thesis
    using op_hash_delete_refines [OF _ _ op_hash_new_inv(2) _ r, of "\<lambda>x. x"] by simp
qed

text \<open>
  C23: \<^verbatim>\<open>op_hash_retrieve\<close> returns the stored item with the given key, or NULL, and changes neither
  the map nor the well-formedness of the table.
\<close>

theorem op_hash_retrieve_refines:
  assumes "\<And>x y. cmp x y = 0 \<longleftrightarrow> key x = key y" and "\<And>x y. key x = key y \<Longrightarrow> hash x = hash y"
    and "hash_inv MIN_NODES hash cmp key lh" and "op_hash_retrieve lh d = (r, lh')"
  shows "r = hash_abs key lh (key d) \<and> hash_inv MIN_NODES hash cmp key lh' \<and>
    hash_abs key lh' = hash_abs key lh"
proof -
  have k: "keyed_hash hash cmp key" using assms(1,2) by (rule keyed_hash.intro)
  show ?thesis
    using keyed_hash.retrieve_spec [OF k assms(3), of d] assms(4) by simp
qed

theorem op_hash_retrieve_refines_witness:
  "\<exists>r lh'. op_hash_retrieve
       (op_hash_init MIN_NODES (\<lambda>x. x) (\<lambda>x y :: u64. if x = y then 0 else 1)) 7 = (r, lh') \<and>
     r = None \<and> hash_abs (\<lambda>x. x) lh' = Map.empty"
proof -
  let ?lh = "op_hash_init MIN_NODES (\<lambda>x. x) (\<lambda>x y :: u64. if x = y then 0 else 1)"
  obtain r lh' where e: "op_hash_retrieve ?lh 7 = (r, lh')" by fastforce
  moreover have "(if x = y then 0 else (1 :: int)) = 0 \<longleftrightarrow> x = y" for x y :: u64 by simp
  ultimately show ?thesis
    using op_hash_retrieve_refines [OF _ _ op_hash_new_inv(2) e, of "\<lambda>x. x"] by simp
qed

text \<open>
  \<^verbatim>\<open>op_hash_doall_arg\<close> calls back on every stored item exactly once, threading the argument
  through the calls, and \<^verbatim>\<open>op_hash_free\<close> hands each node to \<^verbatim>\<open>free\<close> exactly once: as many nodes as
  \<^verbatim>\<open>op_hash_num_items\<close> reports.
\<close>

theorem op_hash_doall_free_once:
  assumes "hash_inv mn hash cmp key lh"
  shows "(\<exists>order. mset order = mset (items lh) \<and>
            (\<forall>f arg. op_hash_doall_arg (Some lh) f arg = fold f order arg)) \<and>
         mset (op_hash_free (Some lh)) = mset (items lh) \<and>
         length (op_hash_free (Some lh)) = op_hash_num_items (Some lh)"
proof -
  have "num_items lh = length (items lh)" using assms by (simp add: hash_inv_def)
  with doall_util_fold [OF assms] op_hash_free_items [OF assms] show ?thesis
    by (simp add: op_hash_doall_arg_def op_hash_num_items_def)
qed

theorem op_hash_doall_free_once_witness:
  "length (op_hash_free (Some (op_hash_init MIN_NODES (\<lambda>x. x) (\<lambda>x y :: u64. if x = y then 0 else 1)))) =
   op_hash_num_items (Some (op_hash_init MIN_NODES (\<lambda>x. x) (\<lambda>x y :: u64. if x = y then 0 else 1)))"
  using op_hash_doall_free_once [OF op_hash_new_inv(2) [of "\<lambda>x. x" "\<lambda>x y :: u64. if x = y then 0 else 1" "\<lambda>x. x"]]
  by blast

text \<open>
  the link \<^verbatim>\<open>getrn\<close> returns is always inside the table: the bucket number is below
  \<^verbatim>\<open>num_nodes\<close>, which is at most the allocated length, for every hash value.
\<close>

theorem getrn_in_bounds:
  assumes "hash_inv mn hash cmp key lh" and "getrn lh d = (nn, k, lh')"
  shows "nn < num_nodes lh \<and> num_nodes lh \<le> length (lh_b lh) \<and> k \<le> length (lh_b lh ! nn)"
proof -
  have "num_nodes lh \<le> length (lh_b lh)"
    using hash_inv_geom [OF assms(1)] unfolding hash_geom_def by linarith
  with item_bucket_lt [OF hash_inv_geom [OF assms(1)], of d] chain_pos_le assms(2) show ?thesis
    by (auto simp: getrn_simp)
qed

theorem getrn_in_bounds_witness:
  "fst (getrn (op_hash_init MIN_NODES (\<lambda>x. x) (\<lambda>x y :: u64. if x = y then 0 else 1)) (- 1)) < 1024"
proof -
  let ?lh = "op_hash_init MIN_NODES (\<lambda>x. x) (\<lambda>x y :: u64. if x = y then 0 else 1)"
  obtain nn k lh' where r: "getrn ?lh (- 1) = (nn, k, lh')" by (metis prod_cases3)
  have "num_nodes ?lh = 1024" by (simp add: op_hash_init_def MIN_NODES_def)
  with getrn_in_bounds [OF op_hash_new_inv(2) [where key = "\<lambda>x. x"] r] r show ?thesis by simp
qed

text \<open>
  C24: when \<^verbatim>\<open>contract\<close> has to shrink the array and \<^verbatim>\<open>realloc\<close> fails, the chain it had already
  unlinked is lost while \<^verbatim>\<open>num_items\<close> still counts it: the table is no longer well formed as soon
  as the last bucket held an item.
\<close>

theorem contract_realloc_failure_loses:
  assumes "hash_inv mn hash cmp key lh" and "lh_p lh = 0" and "\<not> ra (contract_bytes (pmax lh))"
    and "lh_b lh ! (num_nodes lh - 1) \<noteq> []"
  shows "length (items (contract ra lh)) < num_items (contract ra lh) \<and>
    \<not> hash_inv mn hash cmp key (contract ra lh)"
proof -
  have "num_items lh = length (items lh)" using assms(1) by (simp add: hash_inv_def)
  with contract_fail [OF assms(1,2), of ra] assms(3,4)
  have "length (items (contract ra lh)) < num_items (contract ra lh)" by (cases "lh_b lh ! (num_nodes lh - 1)") auto
  then show ?thesis by (simp add: hash_inv_def)
qed

theorem contract_realloc_failure_loses_witness:
  "length (items (contract (\<lambda>n. False)
      ((op_hash_init 4 (\<lambda>x. x) (\<lambda>x y :: u64. if x = y then 0 else 1))
         \<lparr>lh_b := [[], [1], [], []], num_items := 1\<rparr>))) < 1"
proof -
  let ?lh = "(op_hash_init 4 (\<lambda>x. x) (\<lambda>x y :: u64. if x = y then 0 else 1))
         \<lparr>lh_b := [[], [1], [], []], num_items := 1\<rparr>"
  have g: "hash_geom 4 ?lh"
    by (auto simp: hash_geom_def op_hash_init_def intro: exI [of _ 0])
  from g have "hash_inv 4 (\<lambda>x. x) (\<lambda>x y :: u64. if x = y then 0 else 1) (\<lambda>x. x) ?lh"
    by (simp add: hash_inv_def items_def item_bucket_def bucket_of_def op_hash_init_def
        All_less_Suc)
  from contract_realloc_failure_loses [OF this, of "\<lambda>n. False"] show ?thesis
    by (simp add: op_hash_init_def) (simp add: contract_def Let_def)
qed

end
