(* ===== verification/C_Text.thy ===== *)
theory C_Text
  imports Op_Prelude
begin

text \<open>
  What the sources use of the C library on text: characters, the end of a string, reading decimal
  numbers with their saturation and the conversion to \<^verbatim>\<open>int\<close>, and the decimal text of a number.
\<close>

section \<open>Characters and numbers\<close>

abbreviation NUL :: char where "NUL \<equiv> CHR 0x00"

definition c_string :: "char list \<Rightarrow> string" where
  "c_string s = takeWhile (\<lambda>c. c \<noteq> NUL) s"

definition cur :: "string \<Rightarrow> char" where
  "cur s = (case s of [] \<Rightarrow> CHR 0x00 | c # _ \<Rightarrow> c)"

definition nxt :: "string \<Rightarrow> char" where
  "nxt s = cur (tl s)"

definition c_isdigit :: "char \<Rightarrow> bool" where
  "c_isdigit c \<longleftrightarrow> c \<in> set ''0123456789''"

definition c_isspace :: "char \<Rightarrow> bool" where
  "c_isspace c \<longleftrightarrow> c \<in> {CHR '' '', CHR 0x09, CHR 0x0A, CHR 0x0B, CHR 0x0C, CHR 0x0D}"

definition digit_val :: "char \<Rightarrow> nat" where
  "digit_val c = of_char c - 48"

definition dec_val :: "string \<Rightarrow> nat" where
  "dec_val ds = foldl (\<lambda>n c. 10 * n + digit_val c) 0 ds"

text \<open>The number a base-10 \<^verbatim>\<open>strto*\<close> call reads: sign, digits, the rest; \<open>None\<close> without digits.\<close>

definition c_strto :: "string \<Rightarrow> (bool \<times> nat \<times> string) option" where
  "c_strto s =
     (let s1 = dropWhile c_isspace s;
          neg = (cur s1 = CHR ''-'');
          s2 = (if cur s1 = CHR ''-'' \<or> cur s1 = CHR ''+'' then tl s1 else s1);
          ds = takeWhile c_isdigit s2
      in if ds = [] then None else Some (neg, dec_val ds, dropWhile c_isdigit s2))"

definition c_strtoul :: "string \<Rightarrow> nat \<times> string" where
  "c_strtoul s =
     (case c_strto s of
        None \<Rightarrow> (0, s)
      | Some (neg, n, rest) \<Rightarrow>
          (if 2 ^ 64 \<le> n then 2 ^ 64 - 1 else if neg \<and> n \<noteq> 0 then 2 ^ 64 - n else n, rest))"

definition c_strtol :: "string \<Rightarrow> int \<times> string" where
  "c_strtol s =
     (case c_strto s of
        None \<Rightarrow> (0, s)
      | Some (neg, n, rest) \<Rightarrow>
          (if neg then (if 2 ^ 63 \<le> n then - (2 ^ 63) else - int n)
           else (if 2 ^ 63 \<le> n then 2 ^ 63 - 1 else int n), rest))"

text \<open>The conversion of a \<^verbatim>\<open>long\<close> to \<^verbatim>\<open>int\<close>.\<close>

definition to_int32 :: "int \<Rightarrow> int" where
  "to_int32 n = (n + 2 ^ 31) mod 2 ^ 32 - 2 ^ 31"

definition c_atoi :: "string \<Rightarrow> int" where
  "c_atoi s = to_int32 (fst (c_strtol s))"

section \<open>Decimal texts\<close>

lemma foldl_dec: "foldl (\<lambda>n c. 10 * n + digit_val c) k ds = k * 10 ^ length ds + dec_val ds"
proof (induction ds arbitrary: k)
  case (Cons c ds)
  have "foldl (\<lambda>n c. 10 * n + digit_val c) k (c # ds) = (10 * k + digit_val c) * 10 ^ length ds + dec_val ds"
    using Cons [of "10 * k + digit_val c"] by simp
  moreover have "dec_val (c # ds) = digit_val c * 10 ^ length ds + dec_val ds"
    using Cons [of "digit_val c"] by (simp add: dec_val_def)
  ultimately show ?case by (simp add: algebra_simps)
qed (simp add: dec_val_def)

lemma digit_val_le: "c_isdigit c \<Longrightarrow> digit_val c \<le> 9"
  by (auto simp: c_isdigit_def digit_val_def)

lemma dec_val_Cons: "dec_val (c # ds) = digit_val c * 10 ^ length ds + dec_val ds"
  using foldl_dec [of "digit_val c" ds] by (simp add: dec_val_def)

lemma dec_val_less: "list_all c_isdigit ds \<Longrightarrow> dec_val ds < 10 ^ length ds"
proof (induction ds)
  case (Cons c ds)
  then have "dec_val ds < 10 ^ length ds" "digit_val c \<le> 9" by (simp_all add: digit_val_le)
  then have "digit_val c * 10 ^ length ds + dec_val ds < 9 * 10 ^ length ds + 10 ^ length ds"
    by (intro add_le_less_mono mult_right_mono) simp_all
  then show ?case by (simp add: dec_val_Cons)
qed (simp add: dec_val_def)

lemma digit_not_space: "c_isdigit c \<Longrightarrow> \<not> c_isspace c \<and> c \<noteq> CHR ''-'' \<and> c \<noteq> CHR ''+'' \<and> c \<noteq> CHR ''.'' \<and>
    c \<noteq> CHR ''>'' \<and> c \<noteq> CHR ''/'' \<and> c \<noteq> CHR 0x00"
  by (auto simp: c_isdigit_def c_isspace_def)

lemma c_strto_digits:
  assumes "list_all c_isdigit ds" "ds \<noteq> []"
  shows "c_strto ds = Some (False, dec_val ds, [])"
proof -
  obtain c cs where d: "ds = c # cs" using assms(2) by (cases ds) auto
  then have "\<not> c_isspace c" "c \<noteq> CHR ''-''" "c \<noteq> CHR ''+''" using assms(1) digit_not_space by auto
  moreover have "takeWhile c_isdigit ds = ds" "dropWhile c_isdigit ds = []"
    using assms(1) by (simp_all add: takeWhile_eq_all_conv dropWhile_eq_Nil_conv list_all_iff)
  ultimately show ?thesis using d by (simp add: c_strto_def Let_def cur_def)
qed

lemma c_strtoul_digits:
  assumes "list_all c_isdigit ds" "ds \<noteq> []"
  shows "c_strtoul ds = (min (dec_val ds) (2 ^ 64 - 1), [])"
  using c_strto_digits [OF assms] by (simp add: c_strtoul_def min_def)

lemma c_strtoul_empty: "c_strtoul [] = (0, [])"
  by (simp add: c_strtoul_def c_strto_def Let_def cur_def)

lemma c_atoi_short:
  assumes "list_all c_isdigit ds" "length ds \<le> 3"
  shows "c_atoi ds = int (dec_val ds)"
proof (cases "ds = []")
  case True
  then show ?thesis by (simp add: c_atoi_def c_strtol_def c_strto_def cur_def Let_def dec_val_def to_int32_def)
next
  case False
  have "dec_val ds < 10 ^ 3"
    using dec_val_less [OF assms(1)] assms(2) by (meson less_le_trans one_le_numeral power_increasing)
  then show ?thesis
    using c_strto_digits [OF assms(1) False] by (simp add: c_atoi_def c_strtol_def to_int32_def)
qed

fun dec_text :: "nat \<Rightarrow> string" where
  "dec_text n = (if n < 10 then [char_of (n + 48)] else dec_text (n div 10) @ [char_of (n mod 10 + 48)])"

declare dec_text.simps [simp del]

lemma digit_char: "n < 10 \<Longrightarrow> c_isdigit (char_of (n + 48)) \<and> digit_val (char_of (n + 48)) = n"
proof -
  assume "n < 10"
  moreover have "\<forall>n \<in> set [0..<10]. c_isdigit (char_of (n + 48)) \<and> digit_val (char_of (n + 48)) = n"
    unfolding c_isdigit_def digit_val_def by code_simp
  ultimately show ?thesis by simp
qed

lemma dec_text_digits: "list_all c_isdigit (dec_text n)" "dec_text n \<noteq> []"
proof -
  show "list_all c_isdigit (dec_text n)"
  proof (induction n rule: dec_text.induct)
    case (1 n)
    then show ?case using digit_char [of n] digit_char [of "n mod 10"] by (subst dec_text.simps) (auto simp: dec_text.simps)
  qed
  show "dec_text n \<noteq> []" by (subst dec_text.simps) simp
qed

lemma dec_val_snoc: "dec_val (ds @ [c]) = 10 * dec_val ds + digit_val c"
  by (simp add: dec_val_def)

lemma dec_val_text: "dec_val (dec_text n) = n"
proof (induction n rule: dec_text.induct)
  case (1 n)
  show ?case
  proof (cases "n < 10")
    case True
    then show ?thesis using digit_char [of n] by (subst dec_text.simps) (simp add: dec_val_def)
  next
    case False
    then show ?thesis using 1 digit_char [of "n mod 10"] by (subst dec_text.simps) (simp add: dec_val_snoc)
  qed
qed

text \<open>Reading a number that is followed by something else.\<close>

lemma c_strtol_text:
  assumes "n < 2 ^ 63" "\<not> c_isdigit (cur r)"
  shows "c_strtol (dec_text n @ r) = (int n, r)"
proof -
  obtain c cs where d: "dec_text n = c # cs" "c_isdigit c"
    using dec_text_digits [of n] by (cases "dec_text n") auto
  have t: "takeWhile c_isdigit (dec_text n @ r) = dec_text n" "dropWhile c_isdigit (dec_text n @ r) = r"
    using dec_text_digits(1) [of n] assms(2)
    by (cases r; simp add: takeWhile_append dropWhile_append list_all_iff cur_def)+
  have h: "dropWhile c_isspace (dec_text n @ r) = dec_text n @ r" "cur (dec_text n @ r) = c"
    using d digit_not_space [OF d(2)] by (simp_all add: cur_def)
  have "c_strto (dec_text n @ r) = Some (False, n, r)"
    using digit_not_space [OF d(2)] dec_text_digits(2) [of n] by (simp add: c_strto_def Let_def h t dec_val_text)
  then show ?thesis using assms(1) by (simp add: c_strtol_def)
qed

end
