(* ===== verification/Vty_Edit.thy ===== *)
theory Vty_Edit
  imports C_Text
begin

text \<open>
  The line editor of \<^verbatim>\<open>src/opbox/vty.c\<close>: \<^verbatim>\<open>struct _vty\<close> as a record, one definition per editing
  function, the history and the telnet option handler.  \<open>vout\<close> collects the bytes written to the
  descriptor.  \<open>vfault\<close> is raised by a memory access outside \<^verbatim>\<open>buf\<close> and by a NULL history
  entry that is dereferenced, so that memory safety is a property of the model; \<open>voverread\<close> by an
  output longer than the buffer \<^verbatim>\<open>vty_out\<close> formats it into.  The loops whose
  exit test is \<^verbatim>\<open>cp != length\<close> are bounded by the buffer size; the lemmas on \<open>vty_while\<close> show that
  the bound is never what ends them.
\<close>

section \<open>Data\<close>

definition VTY_INPUT_BUF_SIZE :: nat where "VTY_INPUT_BUF_SIZE = 1024"
definition VTY_HIST_CMD_SIZE :: nat where "VTY_HIST_CMD_SIZE = 20"
definition TELNET_NAWS_SB_LEN :: nat where "TELNET_NAWS_SB_LEN = 5"
definition VTY_OUT_SIZE :: nat where "VTY_OUT_SIZE = 4096"

definition VTY_TERM :: nat where "VTY_TERM = 0"
definition VTY_FILE :: nat where "VTY_FILE = 1"
definition VTY_NORMAL :: nat where "VTY_NORMAL = 4"
definition VTY_CLOSE :: nat where "VTY_CLOSE = 5"
definition VTY_MORE :: nat where "VTY_MORE = 6"

definition VTY_PRE_ESCAPE :: nat where "VTY_PRE_ESCAPE = 1"
definition VTY_ESCAPE :: nat where "VTY_ESCAPE = 2"
definition VTY_LITERAL :: nat where "VTY_LITERAL = 3"

definition telnet_backward_char :: char where "telnet_backward_char = CHR 0x08"
definition telnet_space_char :: char where "telnet_space_char = CHR '' ''"

record vty =
  vhostname :: string
  vstatus :: nat
  vtype :: nat
  vnode :: nat
  vbuf :: "char list"
  vcp :: nat
  vlen :: nat
  vmax :: nat
  vhist :: "string option list"
  vhp :: nat
  vhindex :: nat
  vescape :: nat
  viac :: bool
  viac_sb_in_progress :: bool
  vsb_buf :: "char list"
  vsb_len :: nat
  vwidth :: nat
  vheight :: nat
  vout :: "char list"
  voverread :: bool
  vfault :: bool

section \<open>Memory and output\<close>

definition vbuf_set :: "vty \<Rightarrow> nat \<Rightarrow> char \<Rightarrow> vty" where
  "vbuf_set v i c =
     v\<lparr>vbuf := (vbuf v)[i := c], vfault := (vfault v \<or> length (vbuf v) \<le> i)\<rparr>"

definition vbuf_move :: "vty \<Rightarrow> nat \<Rightarrow> nat \<Rightarrow> nat \<Rightarrow> vty" where
  "vbuf_move v dst src n =
     v\<lparr>vbuf := take dst (vbuf v) @ take n (drop src (vbuf v)) @ drop (dst + n) (vbuf v),
       vfault := (vfault v \<or> length (vbuf v) < dst + n \<or> length (vbuf v) < src + n)\<rparr>"

definition vbuf_write :: "vty \<Rightarrow> nat \<Rightarrow> string \<Rightarrow> vty" where
  "vbuf_write v dst s =
     v\<lparr>vbuf := take dst (vbuf v) @ s @ drop (dst + length s) (vbuf v),
       vfault := (vfault v \<or> length (vbuf v) < dst + length s)\<rparr>"

definition vty_write :: "vty \<Rightarrow> string \<Rightarrow> vty" where
  "vty_write v s = v\<lparr>vout := vout v @ s\<rparr>"

definition vty_write_buf :: "vty \<Rightarrow> nat \<Rightarrow> nat \<Rightarrow> vty" where
  "vty_write_buf v i n =
     vty_write (v\<lparr>vfault := (vfault v \<or> length (vbuf v) < i + n)\<rparr>) (take n (drop i (vbuf v)))"

text \<open>
  \<^verbatim>\<open>vty_out\<close>: \<open>s\<close> is the formatted text.  The buffer takes \<open>VTY_OUT_SIZE - 1\<close> characters of it, but
  \<^verbatim>\<open>write\<close> is given the untruncated length: a longer text reads past the buffer.
\<close>

definition vty_out :: "vty \<Rightarrow> string \<Rightarrow> vty" where
  "vty_out v s =
     v\<lparr>vout := vout v @ take (VTY_OUT_SIZE - 1) s @ (if VTY_OUT_SIZE \<le> length s then [NUL] else []),
       voverread := (voverread v \<or> VTY_OUT_SIZE < length s)\<rparr>"

definition VTY_NEWLINE :: "vty \<Rightarrow> string" where
  "VTY_NEWLINE v = (if vtype v = VTY_TERM then [CHR 0x0D, CHR 0x0A] else [CHR 0x0A])"

text \<open>\<^verbatim>\<open>printf\<close> with the one argument \<open>arg\<close>: \<^verbatim>\<open>%s\<close> and \<^verbatim>\<open>%%\<close>; the code's prompts use no other.\<close>

fun printf_s :: "string \<Rightarrow> string \<Rightarrow> string" where
  "printf_s [] arg = []"
| "printf_s [c] arg = [c]"
| "printf_s (c # d # cs) arg =
     (if c = CHR ''%'' \<and> d = CHR ''s'' then arg @ printf_s cs arg
      else if c = CHR ''%'' \<and> d = CHR ''%'' then CHR ''%'' # printf_s cs arg
      else c # printf_s (d # cs) arg)"

text \<open>
  \<open>prompt\<close> is \<^verbatim>\<open>cmd_prompt\<close>, the table of prompts; it has none for a node that is not installed, and
  the code dereferences NULL then.
\<close>

definition vty_prompt :: "(nat \<Rightarrow> string option) \<Rightarrow> vty \<Rightarrow> vty" where
  "vty_prompt prompt v =
     (case prompt (vnode v) of
        None \<Rightarrow> v\<lparr>vfault := True\<rparr>
      | Some p \<Rightarrow> vty_out v (printf_s p (vhostname v)))"

definition vty_down_level :: "(nat \<Rightarrow> string option) \<Rightarrow> vty \<Rightarrow> vty" where
  "vty_down_level prompt v =
     (vty_prompt prompt (vty_out v (VTY_NEWLINE v)))\<lparr>vcp := 0\<rparr>"

section \<open>Editing\<close>

fun vty_while :: "nat \<Rightarrow> (vty \<Rightarrow> bool) \<Rightarrow> (vty \<Rightarrow> vty) \<Rightarrow> vty \<Rightarrow> vty" where
  "vty_while 0 c b v = v"
| "vty_while (Suc n) c b v = (if c v then vty_while n c b (b v) else v)"

abbreviation vty_loop :: "(vty \<Rightarrow> bool) \<Rightarrow> (vty \<Rightarrow> vty) \<Rightarrow> vty \<Rightarrow> vty" where
  "vty_loop \<equiv> vty_while 1024"

definition vty_backward_char :: "vty \<Rightarrow> vty" where
  "vty_backward_char v =
     (if vcp v > 0 then vty_write (v\<lparr>vcp := vcp v - 1\<rparr>) [telnet_backward_char] else v)"

definition vty_kill_line :: "vty \<Rightarrow> vty" where
  "vty_kill_line v =
     (let size = vlen v - vcp v in
      if size = 0 then v
      else
        (let v1 = vty_write v (replicate size telnet_space_char);
             v2 = vty_write v1 (replicate size telnet_backward_char);
             v3 = vbuf_write v2 (vcp v2) (replicate size NUL)
         in v3\<lparr>vlen := vcp v3\<rparr>))"

definition vty_beginning_of_line :: "vty \<Rightarrow> vty" where
  "vty_beginning_of_line v = vty_loop (\<lambda>v. vcp v \<noteq> 0) vty_backward_char v"

definition vty_kill_line_from_beginning :: "vty \<Rightarrow> vty" where
  "vty_kill_line_from_beginning v = vty_kill_line (vty_beginning_of_line v)"

definition vty_redraw_line :: "vty \<Rightarrow> vty" where
  "vty_redraw_line v = (vty_write_buf v 0 (vlen v))\<lparr>vcp := vlen v\<rparr>"

definition vty_forward_char :: "vty \<Rightarrow> vty" where
  "vty_forward_char v =
     (if vcp v < vlen v then (vty_write_buf v (vcp v) 1)\<lparr>vcp := vcp v + 1\<rparr> else v)"

definition vty_end_of_line :: "vty \<Rightarrow> vty" where
  "vty_end_of_line v = vty_loop (\<lambda>v. vcp v < vlen v) vty_forward_char v"

definition vty_backward_word :: "vty \<Rightarrow> vty" where
  "vty_backward_word v =
     vty_loop (\<lambda>v. vcp v > 0 \<and> vbuf v ! (vcp v - 1) \<noteq> CHR '' '') vty_backward_char
       (vty_loop (\<lambda>v. vcp v > 0 \<and> vbuf v ! (vcp v - 1) = CHR '' '') vty_backward_char v)"

definition vty_delete_char :: "(nat \<Rightarrow> string option) \<Rightarrow> vty \<Rightarrow> vty" where
  "vty_delete_char prompt v =
     (if vlen v = 0 then vty_down_level prompt v
      else if vcp v = vlen v then v
      else
        (let size = vlen v - vcp v;
             v1 = v\<lparr>vlen := vlen v - 1\<rparr>;
             v2 = vbuf_move v1 (vcp v1) (vcp v1 + 1) (size - 1);
             v3 = vbuf_set v2 (vlen v2) NUL;
             v4 = vty_write_buf v3 (vcp v3) (size - 1);
             v5 = vty_write v4 [telnet_space_char]
         in vty_write v5 (replicate size telnet_backward_char)))"

definition vty_forward_word :: "vty \<Rightarrow> vty" where
  "vty_forward_word v =
     vty_loop (\<lambda>v. vcp v \<noteq> vlen v \<and> vbuf v ! vcp v = CHR '' '') vty_forward_char
       (vty_loop (\<lambda>v. vcp v \<noteq> vlen v \<and> vbuf v ! vcp v \<noteq> CHR '' '') vty_forward_char v)"

definition vty_forward_kill_word :: "(nat \<Rightarrow> string option) \<Rightarrow> vty \<Rightarrow> vty" where
  "vty_forward_kill_word prompt v =
     vty_loop (\<lambda>v. vcp v \<noteq> vlen v \<and> vbuf v ! vcp v \<noteq> CHR '' '') (vty_delete_char prompt)
       (vty_loop (\<lambda>v. vcp v \<noteq> vlen v \<and> vbuf v ! vcp v = CHR '' '') (vty_delete_char prompt) v)"

definition vty_buf_put :: "vty \<Rightarrow> char \<Rightarrow> vty" where
  "vty_buf_put v c = (let v1 = vbuf_set v (vcp v) c in vbuf_set v1 (vmax v1 - 1) NUL)"

definition vty_self_insert :: "vty \<Rightarrow> char \<Rightarrow> vty" where
  "vty_self_insert v c =
     (if vlen v + 1 \<ge> vmax v then v
      else
        (let len = vlen v - vcp v;
             v1 = vbuf_move v (vcp v + 1) (vcp v) len;
             v2 = v1\<lparr>vlen := vlen v1 + 1\<rparr>;
             v3 = vbuf_set v2 (vlen v2) NUL;
             v4 = vty_buf_put v3 c;
             v5 = vty_write_buf v4 (vcp v4) (len + 1);
             v6 = vty_write v5 (replicate len telnet_backward_char)
         in v6\<lparr>vcp := vcp v6 + 1\<rparr>))"

definition vty_self_insert_overwrite :: "vty \<Rightarrow> char \<Rightarrow> vty" where
  "vty_self_insert_overwrite v c =
     (if vcp v = vlen v then vty_self_insert v c
      else (let v1 = vty_buf_put v c in vty_write (v1\<lparr>vcp := vcp v1 + 1\<rparr>) [c]))"

definition vty_delete_backward_char :: "(nat \<Rightarrow> string option) \<Rightarrow> vty \<Rightarrow> vty" where
  "vty_delete_backward_char prompt v =
     (if vcp v = 0 then v else vty_delete_char prompt (vty_backward_char v))"

definition vty_backward_kill_word :: "(nat \<Rightarrow> string option) \<Rightarrow> vty \<Rightarrow> vty" where
  "vty_backward_kill_word prompt v =
     vty_loop (\<lambda>v. vcp v > 0 \<and> vbuf v ! (vcp v - 1) \<noteq> CHR '' '') (vty_delete_backward_char prompt)
       (vty_loop (\<lambda>v. vcp v > 0 \<and> vbuf v ! (vcp v - 1) = CHR '' '') (vty_delete_backward_char prompt) v)"

definition vty_clear_buf :: "vty \<Rightarrow> vty" where
  "vty_clear_buf v = vbuf_write v 0 (replicate (vmax v) NUL)"

definition vty_transpose_chars :: "vty \<Rightarrow> vty" where
  "vty_transpose_chars v =
     (if vlen v < 2 \<or> vcp v < 1 then v
      else if vcp v = vlen v then
        (let c1 = vbuf v ! (vcp v - 1); c2 = vbuf v ! (vcp v - 2);
             v1 = vty_backward_char (vty_backward_char v)
         in vty_self_insert_overwrite (vty_self_insert_overwrite v1 c1) c2)
      else
        (let c1 = vbuf v ! vcp v; c2 = vbuf v ! (vcp v - 1);
             v1 = vty_backward_char v
         in vty_self_insert_overwrite (vty_self_insert_overwrite v1 c1) c2))"

section \<open>History\<close>

definition vty_history_print :: "vty \<Rightarrow> vty" where
  "vty_history_print v =
     (let v1 = vty_kill_line_from_beginning v in
      case vhist v1 ! vhp v1 of
        None \<Rightarrow> v1\<lparr>vfault := True\<rparr>
      | Some s \<Rightarrow>
          (let v2 = vbuf_write v1 0 s;
               v3 = v2\<lparr>vlen := length s, vcp := length s\<rparr>;
               v4 = vbuf_set v3 (vlen v3) NUL
           in vty_redraw_line v4))"

definition vty_previous_line :: "vty \<Rightarrow> vty" where
  "vty_previous_line v =
     (let try_index = (if vhp v = 0 then VTY_HIST_CMD_SIZE - 1 else vhp v - 1) in
      if vhist v ! try_index = None then v
      else vty_history_print (v\<lparr>vhp := try_index\<rparr>))"

definition vty_next_line :: "vty \<Rightarrow> vty" where
  "vty_next_line v =
     (if vhp v = vhindex v then v
      else
        (let try_index = (if vhp v = VTY_HIST_CMD_SIZE - 1 then 0 else vhp v + 1) in
         if vhist v ! try_index = None then v
         else vty_history_print (v\<lparr>vhp := try_index\<rparr>)))"

definition vty_hist_add :: "vty \<Rightarrow> vty" where
  "vty_hist_add v =
     (if vlen v = 0 then v
      else
        (let index = (if vhindex v \<noteq> 0 then vhindex v - 1 else VTY_HIST_CMD_SIZE - 1);
             line = c_string (vbuf v) in
         if vhist v ! index = Some line then v\<lparr>vhp := vhindex v\<rparr>
         else
           (let v1 = v\<lparr>vhist := (vhist v)[vhindex v := Some line]\<rparr>;
                v2 = v1\<lparr>vhindex := vhindex v1 + 1\<rparr>;
                v3 = (if vhindex v2 = VTY_HIST_CMD_SIZE then v2\<lparr>vhindex := 0\<rparr> else v2)
            in v3\<lparr>vhp := vhindex v3\<rparr>)))"

section \<open>Telnet options\<close>

definition TELNET_SB :: char where "TELNET_SB = CHR 0xFA"
definition TELNET_SE :: char where "TELNET_SE = CHR 0xF0"
definition TELNET_IAC :: char where "TELNET_IAC = CHR 0xFF"
definition TELOPT_NAWS :: char where "TELOPT_NAWS = CHR 0x1F"

definition two_bytes :: "char \<Rightarrow> char \<Rightarrow> nat" where
  "two_bytes h l = of_char h * 256 + of_char l"

text \<open>\<open>c\<close> is \<^verbatim>\<open>buf[0]\<close>; the result is the number of further bytes to skip.\<close>

definition vty_telnet_option :: "vty \<Rightarrow> char \<Rightarrow> nat \<times> vty" where
  "vty_telnet_option v c =
     (if c = TELNET_SB then (0, v\<lparr>vsb_len := 0, viac_sb_in_progress := True\<rparr>)
      else if c = TELNET_SE then
        (if \<not> viac_sb_in_progress v then (0, v)
         else if vsb_len v = 0 \<or> vsb_buf v ! 0 = NUL then (0, v\<lparr>viac_sb_in_progress := False\<rparr>)
         else if vsb_buf v ! 0 = TELOPT_NAWS \<and> vsb_len v = TELNET_NAWS_SB_LEN then
           (0, v\<lparr>vwidth := two_bytes (vsb_buf v ! 1) (vsb_buf v ! 2),
                 vheight := two_bytes (vsb_buf v ! 3) (vsb_buf v ! 4),
                 viac_sb_in_progress := False\<rparr>)
         else (0, v\<lparr>viac_sb_in_progress := False\<rparr>))
      else (1, v))"

section \<open>Creation and release\<close>

definition vty_new_init :: "nat \<Rightarrow> vty" where
  "vty_new_init node_type =
     \<lparr>vhostname = [], vstatus = VTY_NORMAL, vtype = VTY_TERM, vnode = node_type,
      vbuf = replicate VTY_INPUT_BUF_SIZE NUL, vcp = 0, vlen = 0, vmax = VTY_INPUT_BUF_SIZE,
      vhist = replicate VTY_HIST_CMD_SIZE None, vhp = 0, vhindex = 0, vescape = 0,
      viac = False, viac_sb_in_progress = False, vsb_buf = replicate TELNET_NAWS_SB_LEN NUL,
      vsb_len = 0, vwidth = 0, vheight = 0, vout = [], voverread = False, vfault = False\<rparr>"

definition vty_create :: "nat \<Rightarrow> string \<Rightarrow> vty" where
  "vty_create node_type hostname = (vty_new_init node_type)\<lparr>vhostname := take 63 hostname\<rparr>"

text \<open>\<^verbatim>\<open>vty_free\<close>: the strings it hands to \<^verbatim>\<open>free\<close>.\<close>

definition vty_free :: "vty option \<Rightarrow> string list" where
  "vty_free vo = (case vo of None \<Rightarrow> [] | Some v \<Rightarrow> List.map_filter (\<lambda>h. h) (vhist v))"

section \<open>The editor as a zipper, and what the terminal shows\<close>

text \<open>
  A terminal line: its characters and the cursor.  A backspace moves the cursor, any other byte
  overwrites the cell under it.
\<close>

fun term_put :: "char \<Rightarrow> char list \<times> nat \<Rightarrow> char list \<times> nat" where
  "term_put c (l, col) =
     (if c = telnet_backward_char then (l, col - 1)
      else (take col l @ [c] @ drop (Suc col) l, Suc col))"

definition term_run :: "char list \<Rightarrow> char list \<times> nat \<Rightarrow> char list \<times> nat" where
  "term_run s t = fold term_put s t"

definition zip_state :: "vty \<Rightarrow> char list \<Rightarrow> char list \<Rightarrow> bool" where
  "zip_state v b a \<longleftrightarrow>
     (\<exists>r. vbuf v = b @ a @ NUL # r \<and> length b + length a + Suc (length r) = 1024) \<and>
     vcp v = length b \<and> vlen v = length b + length a \<and> vmax v = 1024 \<and> \<not> vfault v"

definition shown :: "(char list \<times> nat) option \<Rightarrow> vty \<Rightarrow> char list \<Rightarrow> char list \<Rightarrow> bool" where
  "shown t v b a \<longleftrightarrow>
     (case t of None \<Rightarrow> True
      | Some t0 \<Rightarrow> telnet_backward_char \<notin> set (b @ a) \<and>
          (\<exists>k. term_run (vout v) t0 = (b @ a @ replicate k telnet_space_char, length b)))"

definition edits :: "(char list \<times> nat) option \<Rightarrow> vty \<Rightarrow> char list \<Rightarrow> char list \<Rightarrow> bool" where
  "edits t v b a \<longleftrightarrow> zip_state v b a \<and> shown t v b a"

lemma term_run_append: "term_run (s @ s') t = term_run s' (term_run s t)"
  by (simp add: term_run_def)

lemma term_run_back: "term_run (replicate n telnet_backward_char) (l, col) = (l, col - n)"
  by (induction n arbitrary: col) (simp_all add: term_run_def)

lemma term_run_text:
  "telnet_backward_char \<notin> set s \<Longrightarrow> length l1 = col \<Longrightarrow>
   term_run s (l1 @ l2, col) = (l1 @ s @ drop (length s) l2, col + length s)"
proof (induction s arbitrary: l1 l2 col)
  case Nil
  then show ?case by (simp add: term_run_def)
next
  case (Cons c s)
  have "term_run (c # s) (l1 @ l2, col) = term_run s ((l1 @ [c]) @ drop 1 l2, Suc col)"
    using Cons.prems by (auto simp: term_run_def)
  with Cons.IH [of "l1 @ [c]" "Suc col" "drop 1 l2"] Cons.prems show ?case by simp
qed

lemma space_back: "telnet_space_char \<noteq> telnet_backward_char"
  by (simp add: telnet_space_char_def telnet_backward_char_def)

lemma zip_stateI:
  "vbuf v = b @ a @ NUL # r \<Longrightarrow> length b + length a + Suc (length r) = 1024 \<Longrightarrow> vcp v = length b \<Longrightarrow>
   vlen v = length b + length a \<Longrightarrow> vmax v = 1024 \<Longrightarrow> \<not> vfault v \<Longrightarrow> zip_state v b a"
  by (auto simp: zip_state_def)

lemma zip_stateE:
  assumes "zip_state v b a"
  obtains r where "vbuf v = b @ a @ NUL # r" "length b + length a + Suc (length r) = 1024"
    "vcp v = length b" "vlen v = length b + length a" "vmax v = 1024" "\<not> vfault v"
    "length (vbuf v) = 1024"
  using assms by (auto simp: zip_state_def)

lemma shownI:
  "term_run (vout v) t0 = (b @ a @ replicate k telnet_space_char, length b) \<Longrightarrow>
   telnet_backward_char \<notin> set b \<Longrightarrow> telnet_backward_char \<notin> set a \<Longrightarrow> shown (Some t0) v b a"
  by (auto simp: shown_def)

lemma shownE:
  assumes "shown (Some t0) v b a"
  obtains k where "term_run (vout v) t0 = (b @ a @ replicate k telnet_space_char, length b)"
    "telnet_backward_char \<notin> set b" "telnet_backward_char \<notin> set a"
  using assms by (auto simp: shown_def)

lemma drop_last_update: "(drop (length a) (x # a @ r))[0 := n] = n # r"
  by (induction a arbitrary: x) auto

lemmas edit_defs = vty_write_def vty_write_buf_def vbuf_move_def vbuf_set_def vbuf_write_def Let_def

lemma backward_char_edits:
  assumes "edits t v (b @ [x]) a"
  shows "edits t (vty_backward_char v) b (x # a)"
proof -
  from assms have z: "zip_state v (b @ [x]) a" and s: "shown t v (b @ [x]) a"
    by (simp_all add: edits_def)
  from z have "zip_state (vty_backward_char v) b (x # a)"
    by (auto simp: zip_state_def vty_backward_char_def edit_defs)
  moreover have "shown t (vty_backward_char v) b (x # a)"
    using s z term_run_back [of 1]
    by (auto simp: shown_def vty_backward_char_def edit_defs term_run_append zip_state_def split: option.splits)
  ultimately show ?thesis by (simp add: edits_def)
qed

lemma forward_char_edits:
  assumes "edits t v b (x # a)"
  shows "edits t (vty_forward_char v) (b @ [x]) a"
proof -
  from assms have z: "zip_state v b (x # a)" and s: "shown t v b (x # a)"
    by (simp_all add: edits_def)
  from z have f: "vty_forward_char v = v\<lparr>vout := vout v @ [x], vcp := vcp v + 1\<rparr>"
    by (auto simp: zip_state_def vty_forward_char_def edit_defs)
  from z have "zip_state (vty_forward_char v) (b @ [x]) a"
    by (auto simp: zip_state_def f)
  moreover have "shown t (vty_forward_char v) (b @ [x]) a"
    using s term_run_text [of "[x]" b]
    by (auto simp: shown_def f term_run_append split: option.splits)
  ultimately show ?thesis by (simp add: edits_def)
qed

lemma kill_line_edits:
  assumes "edits t v b a"
  shows "edits t (vty_kill_line v) b []"
proof (cases "a = []")
  case True
  with assms show ?thesis by (auto simp: edits_def zip_state_def vty_kill_line_def)
next
  case False
  from assms have z: "zip_state v b a" and s: "shown t v b a" by (simp_all add: edits_def)
  let ?n = "length a"
  from z obtain r where m: "vbuf v = b @ a @ NUL # r" "length b + length a + Suc (length r) = 1024"
    "vcp v = length b" "vlen v = length b + length a" "vmax v = 1024" "\<not> vfault v" by (rule zip_stateE)
  have f: "vty_kill_line v =
      v\<lparr>vout := vout v @ replicate ?n telnet_space_char @ replicate ?n telnet_backward_char,
        vbuf := b @ replicate ?n NUL @ NUL # r, vlen := length b\<rparr>"
    using m False by (simp add: vty_kill_line_def edit_defs)
  obtain y ys where a: "a = y # ys" using False by (cases a) auto
  have "zip_state (vty_kill_line v) b []"
    using m by (intro zip_stateI [of _ _ _ "replicate (length ys) NUL @ NUL # r"]) (simp_all add: f a)
  moreover have "shown t (vty_kill_line v) b []"
  proof (cases t)
    case (Some t0)
    with s obtain k where k: "term_run (vout v) t0 = (b @ a @ replicate k telnet_space_char, length b)"
      and nb: "telnet_backward_char \<notin> set (b @ a)" by (auto simp: shown_def)
    have "term_run (replicate ?n telnet_space_char) (b @ a @ replicate k telnet_space_char, length b) =
        (b @ replicate ?n telnet_space_char @ replicate k telnet_space_char, length b + ?n)"
      using space_back by (subst term_run_text) auto
    then have "term_run (vout (vty_kill_line v)) t0 = (b @ replicate (?n + k) telnet_space_char, length b)"
      by (simp add: f term_run_append k term_run_back replicate_add)
    with nb Some show ?thesis by (auto simp: shown_def)
  qed (simp add: shown_def)
  ultimately show ?thesis by (simp add: edits_def)
qed

lemma delete_char_edits:
  assumes "edits t v b (x # a)"
  shows "edits t (vty_delete_char prompt v) b a"
proof -
  from assms have z: "zip_state v b (x # a)" and s: "shown t v b (x # a)"
    by (simp_all add: edits_def)
  let ?v = "vty_delete_char prompt v"
  from z obtain r where m: "vbuf v = b @ (x # a) @ NUL # r"
    "length b + length (x # a) + Suc (length r) = 1024" "vcp v = length b" "vlen v = length b + length (x # a)"
    "vmax v = 1024" "\<not> vfault v" by (rule zip_stateE)
  have f: "vcp ?v = length b" "vlen ?v = length b + length a" "vmax ?v = 1024" "\<not> vfault ?v"
    "vbuf ?v = b @ a @ NUL # NUL # r"
    using m by (simp_all add: vty_delete_char_def edit_defs list_update_append drop_last_update)
  have o: "vout ?v = (vout v @ (a @ [telnet_space_char])) @ replicate (Suc (length a)) telnet_backward_char"
    using m by (simp add: vty_delete_char_def edit_defs list_update_append drop_last_update)
  have "zip_state ?v b a"
    using m f by (intro zip_stateI [of _ _ _ "NUL # r"]) simp_all
  moreover have "shown t ?v b a"
  proof (cases t)
    case (Some t0)
    with s obtain k where k: "term_run (vout v) t0 = (b @ (x # a) @ replicate k telnet_space_char, length b)"
      and nb: "telnet_backward_char \<notin> set (b @ x # a)" by (auto simp: shown_def)
    have r: "term_run (a @ [telnet_space_char]) (b @ (x # a) @ replicate k telnet_space_char, length b) =
        (b @ (a @ [telnet_space_char]) @ replicate k telnet_space_char, length b + Suc (length a))"
      using space_back nb by (subst term_run_text) auto
    have "term_run (vout ?v) t0 = (b @ a @ replicate (Suc k) telnet_space_char, length b)"
      unfolding o term_run_append [of _ "replicate _ _"] term_run_append [of "vout v"] k r term_run_back
      by simp
    from shownI [OF this] nb Some show ?thesis by simp
  qed (simp add: shown_def)
  ultimately show ?thesis by (simp add: edits_def)
qed


lemma shift_right:
  "take (Suc (length b)) (b @ a @ n # r) @
   take (length a) (drop (length b) (b @ a @ n # r)) @
   drop (Suc (length b) + length a) (b @ a @ n # r) = b @ hd (a @ [n]) # a @ r"
  by (cases a) (simp_all add: take_Cons')

lemma nul_update: "length l \<le> i \<Longrightarrow> \<exists>r'. length r' = length r \<and> (l @ n # r)[i := n] = l @ n # r'"
  by (cases "i - length l") (auto simp: list_update_append)

lemma self_insert_fields:
  assumes z: "zip_state v b a" and l: "length b + length a + 1 < 1024"
  shows "zip_state (vty_self_insert v c) (b @ [c]) a"
    and "vout (vty_self_insert v c) = vout v @ (c # a) @ replicate (length a) telnet_backward_char"
proof -
  from z obtain r0 where m0: "vbuf v = b @ a @ NUL # r0" "length b + length a + Suc (length r0) = 1024"
    "vcp v = length b" "vlen v = length b + length a" "vmax v = 1024" "\<not> vfault v"
    "length (vbuf v) = 1024" by (rule zip_stateE)
  from l m0(2) obtain x r where r0: "r0 = x # r" by (cases r0) auto
  note m = m0 [unfolded r0]
  let ?y = "hd (a @ [NUL])"
  define v3 where "v3 = vbuf_set ((vbuf_move v (length b + 1) (length b) (length a))
      \<lparr>vlen := Suc (length b + length a)\<rparr>) (Suc (length b + length a)) NUL"
  have mv: "vbuf (vbuf_move v (length b + 1) (length b) (length a)) = b @ ?y # a @ x # r"
    unfolding vbuf_move_def using shift_right [of b a NUL "x # r"] by (simp add: m(1))
  have b3: "vbuf v3 = b @ ?y # a @ NUL # r"
    using mv by (simp add: v3_def vbuf_set_def list_update_append)
  have o3: "vcp v3 = length b" "vlen v3 = Suc (length b + length a)" "vmax v3 = 1024" "\<not> vfault v3"
    "vout v3 = vout v"
    using m mv by (simp_all add: v3_def vbuf_set_def vbuf_move_def)
  define v4 where "v4 = vty_buf_put v3 c"
  obtain r' where r': "length r' = length r" "((b @ c # a) @ NUL # r)[1023 := NUL] = (b @ c # a) @ NUL # r'"
    using nul_update [of "b @ c # a" 1023 r NUL] l by auto
  have b4: "vbuf v4 = b @ c # a @ NUL # r'"
    using r'(2) by (simp add: v4_def vty_buf_put_def Let_def vbuf_set_def b3 o3)
  have o4: "vcp v4 = length b" "vlen v4 = Suc (length b + length a)" "vmax v4 = 1024" "\<not> vfault v4"
    "vout v4 = vout v"
    using m(2) by (simp_all add: v4_def vty_buf_put_def Let_def vbuf_set_def o3 b3)
  have e: "vty_self_insert v c =
     (vty_write (vty_write_buf v4 (length b) (length a + 1)) (replicate (length a) telnet_backward_char))
       \<lparr>vcp := Suc (length b)\<rparr>"
    using m l o4 by (simp add: vty_self_insert_def Let_def v4_def v3_def vty_write_def vty_write_buf_def vbuf_move_def)
  show "zip_state (vty_self_insert v c) (b @ [c]) a"
    using m(2) o4 b4 r'(1)
    by (intro zip_stateI [of _ _ _ r']) (simp_all add: e vty_write_def vty_write_buf_def)
  show "vout (vty_self_insert v c) = vout v @ (c # a) @ replicate (length a) telnet_backward_char"
    by (simp add: e vty_write_def vty_write_buf_def b4 o4)
qed

lemma self_insert_edits:
  assumes "edits t v b a" and l: "length b + length a + 1 < 1024"
    and c: "t \<noteq> None \<Longrightarrow> c \<noteq> telnet_backward_char"
  shows "edits t (vty_self_insert v c) (b @ [c]) a"
proof -
  from assms have z: "zip_state v b a" and s: "shown t v b a" by (simp_all add: edits_def)
  have "shown t (vty_self_insert v c) (b @ [c]) a"
  proof (cases t)
    case (Some t0)
    with s obtain k where k: "term_run (vout v) t0 = (b @ a @ replicate k telnet_space_char, length b)"
      and nb: "telnet_backward_char \<notin> set b" "telnet_backward_char \<notin> set a" by (auto elim: shownE)
    have r: "term_run (c # a) (b @ a @ replicate k telnet_space_char, length b) =
        (b @ (c # a) @ replicate (k - 1) telnet_space_char, length b + Suc (length a))"
      using c Some nb by (subst term_run_text) auto
    have "term_run (vout (vty_self_insert v c)) t0 =
        ((b @ [c]) @ a @ replicate (k - 1) telnet_space_char, length (b @ [c]))"
      unfolding self_insert_fields [OF z l] term_run_append [of "vout v"] k
        term_run_append [of "c # a"] r term_run_back by simp
    from shownI [OF this] nb c Some show ?thesis by simp
  qed (simp add: shown_def)
  with self_insert_fields [OF z l] show ?thesis by (simp add: edits_def)
qed

lemma overwrite_edits:
  assumes "edits t v b (x # a)" and c: "t \<noteq> None \<Longrightarrow> c \<noteq> telnet_backward_char"
  shows "edits t (vty_self_insert_overwrite v c) (b @ [c]) a"
proof -
  from assms have z: "zip_state v b (x # a)" and s: "shown t v b (x # a)" by (simp_all add: edits_def)
  let ?v = "vty_self_insert_overwrite v c"
  from z obtain r where m: "vbuf v = b @ (x # a) @ NUL # r"
    "length b + length (x # a) + Suc (length r) = 1024" "vcp v = length b" "vlen v = length b + length (x # a)"
    "vmax v = 1024" "\<not> vfault v" by (rule zip_stateE)
  obtain r' where r': "length r' = length r" "((b @ c # a) @ NUL # r)[1023 := NUL] = (b @ c # a) @ NUL # r'"
    using nul_update [of "b @ c # a" 1023 r NUL] m(2) by auto
  have "vbuf ?v = b @ (c # a) @ NUL # r'"
    using r'(2) by (simp add: vty_self_insert_overwrite_def vty_buf_put_def vty_write_def Let_def vbuf_set_def m)
  moreover have "vcp ?v = Suc (length b)" "vlen ?v = length b + length (x # a)" "vmax ?v = 1024" "\<not> vfault ?v"
    and o: "vout ?v = vout v @ [c]"
    using m by (simp_all add: vty_self_insert_overwrite_def vty_buf_put_def vty_write_def Let_def vbuf_set_def)
  ultimately have "zip_state ?v (b @ [c]) a"
    using m(2) r'(1) by (intro zip_stateI [of _ _ _ r']) simp_all
  moreover have "shown t ?v (b @ [c]) a"
    using s c term_run_text [of "[c]" b]
    by (auto simp: shown_def o term_run_append split: option.splits)
  ultimately show ?thesis by (simp add: edits_def)
qed


lemma delete_backward_edits:
  "edits t v (b @ [x]) a \<Longrightarrow> edits t (vty_delete_backward_char prompt v) b a"
  using delete_char_edits [OF backward_char_edits, of t v b x a prompt]
  by (auto simp: vty_delete_backward_char_def edits_def zip_state_def)

lemma edits_zip: "edits t v b a \<Longrightarrow> zip_state v b a"
  by (simp add: edits_def)

lemma zip_before: "zip_state v (b @ [x]) a \<Longrightarrow> vcp v > 0 \<and> vbuf v ! (vcp v - 1) = x"
  by (auto simp: zip_state_def nth_append)

lemma zip_after: "zip_state v b (x # a) \<Longrightarrow> vcp v \<noteq> vlen v \<and> vcp v < vlen v \<and> vbuf v ! vcp v = x"
  by (auto simp: zip_state_def nth_append)

lemma zip_length: "zip_state v b a \<Longrightarrow> length b < 1024 \<and> length a < 1024"
  by (auto simp: zip_state_def)

lemma while_before:
  assumes step: "\<And>v b x a. edits t v (b @ [x]) a \<Longrightarrow> edits t (f v) b (g x a)"
    and "edits t v b a" "length b \<le> n"
  shows "edits t (vty_while n (\<lambda>v. vcp v > 0 \<and> P (vbuf v ! (vcp v - 1))) f v)
           (rev (dropWhile P (rev b))) (fold g (takeWhile P (rev b)) a)"
  using assms(2,3)
proof (induction n arbitrary: v b a)
  case 0
  then show ?case by simp
next
  case (Suc n)
  show ?case
  proof (cases b rule: rev_cases)
    case Nil
    with Suc.prems show ?thesis by (simp add: edits_def zip_state_def)
  next
    case (snoc xs x)
    with Suc.prems have e: "edits t v (xs @ [x]) a" by simp
    note c = zip_before [OF edits_zip [OF e]]
    show ?thesis
    proof (cases "P x")
      case True
      with Suc.IH [OF step [OF e]] Suc.prems snoc c show ?thesis by simp
    next
      case False
      with Suc.prems snoc c show ?thesis by simp
    qed
  qed
qed

lemma while_after:
  assumes step: "\<And>v b x a. edits t v b (x # a) \<Longrightarrow> edits t (f v) (g x b) a"
    and "edits t v b a" "length a \<le> n"
  shows "edits t (vty_while n (\<lambda>v. vcp v \<noteq> vlen v \<and> P (vbuf v ! vcp v)) f v)
           (fold g (takeWhile P a) b) (dropWhile P a)"
  using assms(2,3)
proof (induction n arbitrary: v b a)
  case 0
  then show ?case by simp
next
  case (Suc n)
  show ?case
  proof (cases a)
    case Nil
    with Suc.prems show ?thesis by (simp add: edits_def zip_state_def)
  next
    case (Cons x xs)
    with Suc.prems have e: "edits t v b (x # xs)" by simp
    note c = zip_after [OF edits_zip [OF e]]
    show ?thesis
    proof (cases "P x")
      case True
      with Suc.IH [OF step [OF e]] Suc.prems Cons c show ?thesis by simp
    next
      case False
      with Suc.prems Cons c show ?thesis by simp
    qed
  qed
qed

lemma fold_Cons_rev: "fold (#) xs a = rev xs @ a"
  by (induction xs arbitrary: a) auto

lemma fold_snoc: "fold (\<lambda>x b. b @ [x]) xs b = b @ xs"
  by (induction xs arbitrary: b) auto

lemma fold_const: "fold (\<lambda>x a. a) xs a = a"
  by (induction xs) auto

lemma takeWhile_True: "takeWhile (\<lambda>x. True) xs = xs" "dropWhile (\<lambda>x. True) xs = []"
  by (induction xs) auto

lemma back_loop:
  assumes "edits t v b a"
  shows "edits t (vty_loop (\<lambda>v. vcp v > 0 \<and> P (vbuf v ! (vcp v - 1))) vty_backward_char v)
     (rev (dropWhile P (rev b))) (rev (takeWhile P (rev b)) @ a)"
  using while_before [where g = "(#)" and f = vty_backward_char and n = 1024 and P = P, OF backward_char_edits assms]
    zip_length [OF edits_zip [OF assms]] by (simp add: fold_Cons_rev)

lemma forward_loop:
  assumes "edits t v b a"
  shows "edits t (vty_loop (\<lambda>v. vcp v \<noteq> vlen v \<and> P (vbuf v ! vcp v)) vty_forward_char v)
     (b @ takeWhile P a) (dropWhile P a)"
  using while_after [where g = "\<lambda>x b. b @ [x]" and f = vty_forward_char and n = 1024 and P = P, OF forward_char_edits assms]
    zip_length [OF edits_zip [OF assms]] by (simp add: fold_snoc)

lemma back_kill_loop:
  assumes "edits t v b a"
  shows "edits t (vty_loop (\<lambda>v. vcp v > 0 \<and> P (vbuf v ! (vcp v - 1))) (vty_delete_backward_char prompt) v)
     (rev (dropWhile P (rev b))) a"
  using while_before [where g = "\<lambda>x a. a" and f = "vty_delete_backward_char prompt" and n = 1024 and P = P,
      OF delete_backward_edits assms]
    zip_length [OF edits_zip [OF assms]] by (simp add: fold_const)

lemma forward_kill_loop:
  assumes "edits t v b a"
  shows "edits t (vty_loop (\<lambda>v. vcp v \<noteq> vlen v \<and> P (vbuf v ! vcp v)) (vty_delete_char prompt) v)
     b (dropWhile P a)"
  using while_after [where g = "\<lambda>x b. b" and f = "vty_delete_char prompt" and n = 1024 and P = P,
      OF delete_char_edits assms]
    zip_length [OF edits_zip [OF assms]] by (simp add: fold_const)

lemma beginning_of_line_edits: "edits t v b a \<Longrightarrow> edits t (vty_beginning_of_line v) [] (b @ a)"
  using back_loop [of t v b a "\<lambda>x. True"] by (simp add: vty_beginning_of_line_def takeWhile_True)

lemma vty_while_less_neq:
  "edits t v b a \<Longrightarrow> vty_while n (\<lambda>v. vcp v < vlen v) vty_forward_char v =
     vty_while n (\<lambda>v. vcp v \<noteq> vlen v) vty_forward_char v"
proof (induction n arbitrary: v b a)
  case (Suc n)
  show ?case
  proof (cases a)
    case Nil
    with Suc.prems show ?thesis by (simp add: edits_def zip_state_def)
  next
    case (Cons x xs)
    with Suc.prems Suc.IH [OF forward_char_edits] zip_after [OF edits_zip, of t v b x xs] show ?thesis
      by auto
  qed
qed simp

lemma end_of_line_edits: "edits t v b a \<Longrightarrow> edits t (vty_end_of_line v) (b @ a) []"
  using forward_loop [of t v b a "\<lambda>x. True"] vty_while_less_neq [of t v b a 1024]
  by (simp add: vty_end_of_line_def takeWhile_True)

definition strip_word :: "char list \<Rightarrow> char list" where
  "strip_word xs = dropWhile (\<lambda>c. c \<noteq> CHR '' '') (dropWhile (\<lambda>c. c = CHR '' '') xs)"

lemma strip_word_split:
  "takeWhile (\<lambda>c. c = CHR '' '') xs @
   takeWhile (\<lambda>c. c \<noteq> CHR '' '') (dropWhile (\<lambda>c. c = CHR '' '') xs) @ strip_word xs = xs"
  by (simp add: strip_word_def)

lemma backward_word_edits:
  assumes "edits t v b a"
  shows "edits t (vty_backward_word v) (rev (strip_word (rev b)))
    (rev (take (length b - length (strip_word (rev b))) (rev b)) @ a)"
proof -
  let ?s = "takeWhile (\<lambda>c. c = CHR '' '') (rev b)" and ?r = "dropWhile (\<lambda>c. c = CHR '' '') (rev b)"
  let ?w = "takeWhile (\<lambda>c. c \<noteq> CHR '' '') ?r"
  have sp: "rev b = (?s @ ?w) @ strip_word (rev b)" using strip_word_split [of "rev b"] by simp
  then have "length b = length (?s @ ?w) + length (strip_word (rev b))"
    by (metis length_append length_rev)
  then have "take (length b - length (strip_word (rev b))) (rev b) = ?s @ ?w"
    by (subst (2) sp) simp
  then show ?thesis
    using back_loop [OF back_loop [OF assms, of "\<lambda>c. c = CHR '' ''"], of "\<lambda>c. c \<noteq> CHR '' ''"]
    by (simp add: vty_backward_word_def strip_word_def)
qed

lemma backward_kill_word_edits:
  "edits t v b a \<Longrightarrow> edits t (vty_backward_kill_word prompt v) (rev (strip_word (rev b))) a"
  using back_kill_loop [OF back_kill_loop, of t v b a "\<lambda>c. c \<noteq> CHR '' ''" prompt "\<lambda>c. c = CHR '' ''" prompt]
  by (simp add: vty_backward_kill_word_def strip_word_def)

lemma forward_kill_word_edits:
  "edits t v b a \<Longrightarrow> edits t (vty_forward_kill_word prompt v) b (strip_word a)"
  using forward_kill_loop [OF forward_kill_loop, of t v b a "\<lambda>c. c \<noteq> CHR '' ''" prompt "\<lambda>c. c = CHR '' ''" prompt]
  by (simp add: vty_forward_kill_word_def strip_word_def)

lemma forward_word_edits:
  assumes "edits t v b a"
  shows "edits t (vty_forward_word v)
    (b @ takeWhile (\<lambda>c. c \<noteq> CHR '' '') a @ takeWhile (\<lambda>c. c = CHR '' '') (dropWhile (\<lambda>c. c \<noteq> CHR '' '') a))
    (dropWhile (\<lambda>c. c = CHR '' '') (dropWhile (\<lambda>c. c \<noteq> CHR '' '') a))"
  using forward_loop [OF forward_loop [OF assms, of "\<lambda>c. c \<noteq> CHR '' ''"], of "\<lambda>c. c = CHR '' ''"]
  by (simp add: vty_forward_word_def)

text \<open>The part of the terminal state no editing command changes.\<close>

definition vctx :: "vty \<Rightarrow> string \<times> nat \<times> nat \<times> nat \<times> string option list \<times> nat \<times> nat \<times> nat \<times>
    bool \<times> bool \<times> char list \<times> nat \<times> nat \<times> nat" where
  "vctx v = (vhostname v, vstatus v, vtype v, vnode v, vhist v, vhp v, vhindex v, vescape v,
     viac v, viac_sb_in_progress v, vsb_buf v, vsb_len v, vwidth v, vheight v)"

named_theorems vctx_simps

lemma vctx_basic [vctx_simps]:
  "vctx (vty_write v s) = vctx v" "vctx (vty_write_buf v i n) = vctx v" "vctx (vbuf_set v i c) = vctx v"
  "vctx (vbuf_move v d s' n) = vctx v" "vctx (vbuf_write v d s) = vctx v" "vctx (vty_out v s) = vctx v"
  "vctx (v\<lparr>vcp := k\<rparr>) = vctx v" "vctx (v\<lparr>vlen := k\<rparr>) = vctx v"
  "vctx (v\<lparr>vbuf := bs\<rparr>) = vctx v" "vctx (v\<lparr>vfault := f\<rparr>) = vctx v"
  by (simp_all add: vctx_def vty_write_def vty_write_buf_def vbuf_set_def vbuf_move_def vbuf_write_def vty_out_def)

lemma vctx_while: "(\<And>v. vctx (f v) = vctx v) \<Longrightarrow> vctx (vty_while n c f v) = vctx v"
  by (induction n arbitrary: v) simp_all

lemma vctx_chars [vctx_simps]:
  "vctx (vty_backward_char v) = vctx v" "vctx (vty_forward_char v) = vctx v"
  "vctx (vty_kill_line v) = vctx v" "vctx (vty_redraw_line v) = vctx v"
  "vctx (vty_prompt prompt v) = vctx v" "vctx (vty_down_level prompt v) = vctx v"
  "vctx (vty_buf_put v c) = vctx v" "vctx (vty_clear_buf v) = vctx v"
  by (simp_all add: vty_backward_char_def vty_forward_char_def vty_kill_line_def vty_redraw_line_def
      vty_prompt_def vty_down_level_def vty_buf_put_def vty_clear_buf_def Let_def vctx_simps
      split: option.splits)

lemma vctx_insert_delete [vctx_simps]:
  "vctx (vty_delete_char prompt v) = vctx v" "vctx (vty_self_insert v c) = vctx v"
  by (simp_all add: vty_delete_char_def vty_self_insert_def Let_def vctx_simps)

lemma vctx_lines [vctx_simps]:
  "vctx (vty_beginning_of_line v) = vctx v" "vctx (vty_end_of_line v) = vctx v"
  "vctx (vty_delete_backward_char prompt v) = vctx v" "vctx (vty_self_insert_overwrite v c) = vctx v"
  by (simp_all add: vty_beginning_of_line_def vty_end_of_line_def vty_delete_backward_char_def
      vty_self_insert_overwrite_def Let_def vctx_simps vctx_while)

lemma vctx_words [vctx_simps]:
  "vctx (vty_backward_word v) = vctx v" "vctx (vty_forward_word v) = vctx v"
  "vctx (vty_backward_kill_word prompt v) = vctx v" "vctx (vty_forward_kill_word prompt v) = vctx v"
  "vctx (vty_kill_line_from_beginning v) = vctx v" "vctx (vty_transpose_chars v) = vctx v"
  by (simp_all add: vty_backward_word_def vty_forward_word_def vty_backward_kill_word_def
      vty_forward_kill_word_def vty_kill_line_from_beginning_def vty_transpose_chars_def Let_def
      vctx_simps vctx_while)

lemma shown_no_backspace: "edits t v b a \<Longrightarrow> t \<noteq> None \<Longrightarrow> x \<in> set b \<or> x \<in> set a \<Longrightarrow> x \<noteq> telnet_backward_char"
  by (auto simp: edits_def shown_def)

lemma transpose_end_edits:
  assumes "edits t v (b @ [x, y]) []"
  shows "edits t (vty_transpose_chars v) (b @ [y, x]) []"
proof -
  have e: "edits t v ((b @ [x]) @ [y]) []" using assms by simp
  note nb = shown_no_backspace [OF assms]
  have "edits t (vty_backward_char (vty_backward_char v)) b [x, y]"
    using backward_char_edits [OF backward_char_edits [OF e]] by simp
  then have "edits t (vty_self_insert_overwrite (vty_self_insert_overwrite
      (vty_backward_char (vty_backward_char v)) y) x) (b @ [y, x]) []"
    using overwrite_edits [OF overwrite_edits, of t _ b x "y" "[]" y x] nb by simp
  moreover have "vlen v = length b + 2" "vcp v = length b + 2" "vbuf v ! (vcp v - 1) = y"
    "vbuf v ! (vcp v - 2) = x"
    using edits_zip [OF assms] by (auto simp: zip_state_def nth_append)
  ultimately show ?thesis by (simp add: vty_transpose_chars_def Let_def)
qed

lemma transpose_mid_edits:
  assumes "edits t v (b @ [x]) (y # a)"
  shows "edits t (vty_transpose_chars v) (b @ [y, x]) a"
proof -
  note nb = shown_no_backspace [OF assms]
  have "edits t (vty_self_insert_overwrite (vty_self_insert_overwrite (vty_backward_char v) y) x)
      (b @ [y, x]) a"
    using overwrite_edits [OF overwrite_edits [OF backward_char_edits [OF assms]], of y x] nb by simp
  moreover have "vlen v = length b + length a + 2" "vcp v = length b + 1" "vbuf v ! (vcp v - 1) = x"
    "vbuf v ! vcp v = y"
    using edits_zip [OF assms] by (auto simp: zip_state_def nth_append)
  ultimately show ?thesis by (simp add: vty_transpose_chars_def Let_def)
qed

lemma kill_from_beginning_edits: "edits t v b a \<Longrightarrow> edits t (vty_kill_line_from_beginning v) [] []"
  using kill_line_edits [OF beginning_of_line_edits] by (simp add: vty_kill_line_from_beginning_def)

lemma history_print_edits:
  assumes e: "edits t v b a" and h: "vhist v ! vhp v = Some s" and l: "length s < 1024"
    and nb: "t \<noteq> None \<Longrightarrow> telnet_backward_char \<notin> set s"
  shows "edits t (vty_history_print v) s []"
proof -
  let ?v1 = "vty_kill_line_from_beginning v"
  have c: "vctx ?v1 = vctx v" by (simp add: vctx_simps)
  then have h1: "vhist ?v1 ! vhp ?v1 = Some s" using h by (simp add: vctx_def)
  from kill_from_beginning_edits [OF e] have z: "zip_state ?v1 [] []" and s: "shown t ?v1 [] []"
    by (simp_all add: edits_def)
  from z obtain r where m0: "vbuf ?v1 = [] @ [] @ NUL # r"
      "length ([] :: string) + length ([] :: string) + Suc (length r) = 1024"
    and m1: "vmax ?v1 = 1024" "\<not> vfault ?v1" by (rule zip_stateE)
  from m0 have "vbuf ?v1 = NUL # r" "length (NUL # r) = 1024" by simp_all
  note m = this m1
  define v2 where "v2 = vbuf_write ?v1 0 s"
  have dl: "length (drop (length s) (NUL # r)) = 1024 - length s" using m(2) by simp
  then obtain y q where dq: "drop (length s) (NUL # r) = y # q"
    using l by (cases "drop (length s) (NUL # r)") simp_all
  with dl have "Suc (length q) = 1024 - length s" by simp
  with l have "length s + Suc (length q) = 1024" by linarith
  note q = dq this
  have b2: "vbuf v2 = s @ y # q" "\<not> vfault v2" "vmax v2 = 1024" "vout v2 = vout ?v1"
    using m q l by (simp_all add: v2_def vbuf_write_def)
  have f: "vty_history_print v = vty_redraw_line (vbuf_set (v2\<lparr>vlen := length s, vcp := length s\<rparr>) (length s) NUL)"
    by (simp add: vty_history_print_def Let_def h1 v2_def vbuf_set_def)
  have "zip_state (vty_history_print v) s []"
    using b2 q(2) m by (intro zip_stateI [of _ _ _ q])
      (simp_all add: f vty_redraw_line_def vty_write_buf_def vty_write_def vbuf_set_def)
  moreover have o: "vout (vty_history_print v) = vout ?v1 @ s"
    using b2 by (simp add: f vty_redraw_line_def vty_write_buf_def vty_write_def vbuf_set_def)
  moreover have "shown t (vty_history_print v) s []"
  proof (cases t)
    case (Some t0)
    with s obtain j where j: "term_run (vout ?v1) t0 = (replicate j telnet_space_char, 0)"
      by (auto elim: shownE)
    have "term_run (vout (vty_history_print v)) t0 = (s @ [] @ replicate (j - length s) telnet_space_char, length s)"
      using term_run_text [of s "[]" 0 "replicate j telnet_space_char"] nb Some
      by (simp add: o term_run_append j)
    from shownI [OF this] nb Some show ?thesis by simp
  qed (simp add: shown_def)
  ultimately show ?thesis by (simp add: edits_def)
qed


section \<open>Editing commands against their specification\<close>

datatype edit_cmd =
    Ed_backward_char | Ed_forward_char | Ed_beginning_of_line | Ed_end_of_line
  | Ed_backward_word | Ed_forward_word | Ed_delete_char | Ed_delete_backward_char
  | Ed_kill_line | Ed_kill_line_from_beginning | Ed_forward_kill_word | Ed_backward_kill_word
  | Ed_transpose_chars | Ed_self_insert char

fun edit_run :: "(nat \<Rightarrow> string option) \<Rightarrow> edit_cmd \<Rightarrow> vty \<Rightarrow> vty" where
  "edit_run prompt Ed_backward_char v = vty_backward_char v"
| "edit_run prompt Ed_forward_char v = vty_forward_char v"
| "edit_run prompt Ed_beginning_of_line v = vty_beginning_of_line v"
| "edit_run prompt Ed_end_of_line v = vty_end_of_line v"
| "edit_run prompt Ed_backward_word v = vty_backward_word v"
| "edit_run prompt Ed_forward_word v = vty_forward_word v"
| "edit_run prompt Ed_delete_char v = vty_delete_char prompt v"
| "edit_run prompt Ed_delete_backward_char v = vty_delete_backward_char prompt v"
| "edit_run prompt Ed_kill_line v = vty_kill_line v"
| "edit_run prompt Ed_kill_line_from_beginning v = vty_kill_line_from_beginning v"
| "edit_run prompt Ed_forward_kill_word v = vty_forward_kill_word prompt v"
| "edit_run prompt Ed_backward_kill_word v = vty_backward_kill_word prompt v"
| "edit_run prompt Ed_transpose_chars v = vty_transpose_chars v"
| "edit_run prompt (Ed_self_insert c) v = vty_self_insert v c"

text \<open>
  The specification works on the text before the cursor, reversed, and the text after it.
\<close>

fun edit_spec :: "edit_cmd \<Rightarrow> char list \<times> char list \<Rightarrow> char list \<times> char list" where
  "edit_spec Ed_backward_char (x # b, a) = (b, x # a)"
| "edit_spec Ed_forward_char (b, x # a) = (x # b, a)"
| "edit_spec Ed_beginning_of_line (b, a) = ([], rev b @ a)"
| "edit_spec Ed_end_of_line (b, a) = (rev a @ b, [])"
| "edit_spec Ed_backward_word (b, a) =
     (strip_word b, rev (take (length b - length (strip_word b)) b) @ a)"
| "edit_spec Ed_forward_word (b, a) =
     (let w = takeWhile (\<lambda>c. c \<noteq> CHR '' '') a; r = dropWhile (\<lambda>c. c \<noteq> CHR '' '') a
      in (rev (w @ takeWhile (\<lambda>c. c = CHR '' '') r) @ b, dropWhile (\<lambda>c. c = CHR '' '') r))"
| "edit_spec Ed_delete_char (b, x # a) = (b, a)"
| "edit_spec Ed_delete_backward_char (x # b, a) = (b, a)"
| "edit_spec Ed_kill_line (b, a) = (b, [])"
| "edit_spec Ed_kill_line_from_beginning (b, a) = ([], [])"
| "edit_spec Ed_forward_kill_word (b, a) = (b, strip_word a)"
| "edit_spec Ed_backward_kill_word (b, a) = (strip_word b, a)"
| "edit_spec Ed_transpose_chars (y # x # b, []) = (x # y # b, [])"
| "edit_spec Ed_transpose_chars (x # b, y # a) = (x # y # b, a)"
| "edit_spec (Ed_self_insert c) (b, a) =
     (if length b + length a + 1 < VTY_INPUT_BUF_SIZE then (c # b, a) else (b, a))"
| "edit_spec _ s = s"

lemma edits_len: "edits t v b a \<Longrightarrow> vcp v = length b \<and> vlen v = length b + length a"
  by (simp add: edits_def zip_state_def)

lemma edit_run_simple:
  assumes e: "edits t v (rev b) a"
    and c: "cmd \<in> {Ed_beginning_of_line, Ed_end_of_line, Ed_backward_word, Ed_forward_word,
      Ed_kill_line, Ed_kill_line_from_beginning, Ed_forward_kill_word, Ed_backward_kill_word}"
  shows "edits t (edit_run prompt cmd v) (rev (fst (edit_spec cmd (b, a)))) (snd (edit_spec cmd (b, a)))"
  using c beginning_of_line_edits [OF e] end_of_line_edits [OF e] backward_word_edits [OF e]
    forward_word_edits [OF e] kill_line_edits [OF e] kill_from_beginning_edits [OF e]
    forward_kill_word_edits [OF e] backward_kill_word_edits [OF e]
  by (auto simp: Let_def)

lemma edit_run_char:
  assumes e: "edits t v (rev b) a"
    and c: "cmd \<in> {Ed_backward_char, Ed_forward_char, Ed_delete_backward_char, Ed_transpose_chars}"
  shows "edits t (edit_run prompt cmd v) (rev (fst (edit_spec cmd (b, a)))) (snd (edit_spec cmd (b, a)))"
proof -
  note l = edits_len [OF e]
  consider (bw) "cmd = Ed_backward_char" | (forw) "cmd = Ed_forward_char"
    | (del) "cmd = Ed_delete_backward_char" | (tr) "cmd = Ed_transpose_chars" using c by blast
  then show ?thesis
  proof cases
    case bw
    then show ?thesis using e l backward_char_edits [of t v "rev (tl b)" "hd b" a]
      by (cases b) (auto simp: vty_backward_char_def)
  next
    case forw
    then show ?thesis using e l forward_char_edits [of t v "rev b" "hd a" "tl a"]
      by (cases a) (auto simp: vty_forward_char_def)
  next
    case del
    then show ?thesis using e l delete_backward_edits [of t v "rev (tl b)" "hd b" a prompt]
      by (cases b) (auto simp: vty_delete_backward_char_def)
  next
    case tr
    show ?thesis
    proof (cases "b = [] \<or> (a = [] \<and> length b = 1)")
      case True
      then show ?thesis using tr e l
        by (cases b; cases "tl b"; cases a) (auto simp: vty_transpose_chars_def)
    next
      case False
      then show ?thesis using tr e transpose_end_edits [of t v "rev (tl (tl b))" "hd (tl b)" "hd b"]
          transpose_mid_edits [of t v "rev (tl b)" "hd b" "hd a" "tl a"]
        by (cases b; cases "tl b"; cases a) auto
    qed
  qed
qed

lemma out_zip: "zip_state (vty_out v s) b a = zip_state v b a"
  by (simp add: zip_state_def vty_out_def)

lemma down_level_zip:
  assumes "zip_state v [] []" "prompt (vnode v) \<noteq> None"
  shows "zip_state (vty_down_level prompt v) [] []"
  using assms by (auto simp: vty_down_level_def vty_prompt_def vty_out_def zip_state_def)

lemma edit_run_insert_delete:
  assumes e: "edits t v (rev b) a"
  shows "c \<noteq> telnet_backward_char \<or> t = None \<Longrightarrow>
      edits t (edit_run prompt (Ed_self_insert c) v) (rev (fst (edit_spec (Ed_self_insert c) (b, a))))
        (snd (edit_spec (Ed_self_insert c) (b, a)))"
    and "b \<noteq> [] \<or> a \<noteq> [] \<Longrightarrow>
      edits t (edit_run prompt Ed_delete_char v) (rev (fst (edit_spec Ed_delete_char (b, a))))
        (snd (edit_spec Ed_delete_char (b, a)))"
proof -
  note l = edits_len [OF e]
  assume "c \<noteq> telnet_backward_char \<or> t = None"
  then show "edits t (edit_run prompt (Ed_self_insert c) v) (rev (fst (edit_spec (Ed_self_insert c) (b, a))))
        (snd (edit_spec (Ed_self_insert c) (b, a)))"
    using e l self_insert_edits [OF e, of c] edits_zip [OF e]
    by (auto simp: VTY_INPUT_BUF_SIZE_def vty_self_insert_def zip_state_def)
next
  note l = edits_len [OF e]
  assume "b \<noteq> [] \<or> a \<noteq> []"
  then show "edits t (edit_run prompt Ed_delete_char v) (rev (fst (edit_spec Ed_delete_char (b, a))))
        (snd (edit_spec Ed_delete_char (b, a)))"
    using e l delete_char_edits [of t v "rev b" "hd a" "tl a" prompt]
    by (cases a) (auto simp: vty_delete_char_def)
qed

lemma edit_run_step:
  assumes z: "zip_state v (rev b) a" and p: "prompt (vnode v) \<noteq> None"
  shows "zip_state (edit_run prompt cmd v) (rev (fst (edit_spec cmd (b, a)))) (snd (edit_spec cmd (b, a)))"
proof -
  have e: "edits None v (rev b) a" using z by (simp add: edits_def shown_def)
  have "edits None (edit_run prompt cmd v) (rev (fst (edit_spec cmd (b, a)))) (snd (edit_spec cmd (b, a)))"
  proof (cases "cmd = Ed_delete_char \<and> b = [] \<and> a = []")
    case True
    with z have "vty_delete_char prompt v = vty_down_level prompt v"
      by (simp add: vty_delete_char_def zip_state_def)
    with True z p down_level_zip [of v prompt] show ?thesis by (simp add: edits_def shown_def)
  next
    case False
    then show ?thesis
      using edit_run_simple [OF e, of cmd prompt] edit_run_char [OF e, of cmd prompt]
        edit_run_insert_delete(1) [OF e] edit_run_insert_delete(2) [OF e] by (cases cmd) auto
  qed
  then show ?thesis by (simp add: edits_def)
qed

lemma vctx_edit_run [vctx_simps]: "vctx (edit_run prompt cmd v) = vctx v"
  by (cases cmd) (simp_all add: vctx_simps)

section \<open>The history ring\<close>

definition hist_back :: "vty \<Rightarrow> nat \<Rightarrow> string option" where
  "hist_back v k = vhist v ! ((vhindex v + 19 - k) mod 20)"

text \<open>The remembered lines, the latest first.\<close>

definition hist_list :: "vty \<Rightarrow> string list" where
  "hist_list v = map the (takeWhile (\<lambda>h. h \<noteq> None) (map (hist_back v) [0..<20]))"

definition hist_ok :: "vty \<Rightarrow> bool" where
  "hist_ok v \<longleftrightarrow> length (vhist v) = 20 \<and> vhindex v < 20 \<and> vhp v < 20 \<and>
     (\<forall>s. Some s \<in> set (vhist v) \<longrightarrow> length s < 1024)"

lemma mod20_distinct: "i < 20 \<Longrightarrow> k < 19 \<Longrightarrow> (i + 19 - k) mod 20 \<noteq> (i :: nat)"
  by (cases "k < i") (auto simp: mod_if)

lemma hist_push_back:
  assumes "length (vhist v) = 20" "vhindex v < 20" "vhist w = (vhist v)[vhindex v := Some line]"
    "vhindex w = (if vhindex v + 1 = 20 then 0 else vhindex v + 1)"
  shows "hist_back w 0 = Some line" and "k < 19 \<Longrightarrow> hist_back w (Suc k) = hist_back v k"
proof -
  have i: "(vhindex w + 19 - j) mod 20 = (vhindex v + 20 - j) mod 20" if "j < 20" for j
  proof (cases "vhindex v = 19")
    case True
    then have "vhindex v + 20 - j = (vhindex w + 19 - j) + 20" using that assms(4) by simp
    then show ?thesis by simp
  qed (use assms(4) in \<open>simp add: add.commute\<close>)
  show "hist_back w 0 = Some line"
    using i [of 0] assms by (simp add: hist_back_def)
  assume k: "k < 19"
  show "hist_back w (Suc k) = hist_back v k"
  proof -
    have "vhindex v + 20 - Suc k = vhindex v + 19 - k" by simp
    then have "(vhindex w + 19 - Suc k) mod 20 = (vhindex v + 19 - k) mod 20"
      using i [of "Suc k"] k by (simp only: Suc_less_eq)
    then show ?thesis
      unfolding hist_back_def assms(3) using mod20_distinct [OF assms(2) k] by simp
  qed
qed

lemma takeWhile_take: "takeWhile P (take n xs) = take n (takeWhile P xs)"
  by (induction xs arbitrary: n) (auto simp: take_Cons')

lemma upt20: "[0..<20] = 0 # map Suc [0..<19]"
  using upt_conv_Cons [of 0 20] by (simp add: map_Suc_upt)

lemma push_takeWhile:
  "xs = Some x # take n ys \<Longrightarrow>
   map the (takeWhile (\<lambda>h. h \<noteq> None) xs) = x # take n (map the (takeWhile (\<lambda>h. h \<noteq> None) ys))"
  by (simp add: takeWhile_take take_map)

lemma hist_list_push:
  assumes "hist_back w 0 = Some line" "\<And>k. k < 19 \<Longrightarrow> hist_back w (Suc k) = hist_back v k"
  shows "hist_list w = line # take 19 (hist_list v)"
proof -
  have "map (hist_back w) [0..<20] = Some line # map (hist_back v) [0..<19]"
    using assms by (simp add: upt20)
  also have "[0..<19] = take 19 [0..<20]" by simp
  finally show ?thesis
    unfolding hist_list_def by (intro push_takeWhile) (simp only: take_map)
qed

lemma takeWhile_hd:
  "xs = y # ys \<Longrightarrow> (\<exists>r. map the (takeWhile (\<lambda>h. h \<noteq> None) xs) = line # r) \<longleftrightarrow> y = Some line"
  by auto

lemma hist_list_hd: "(\<exists>r. hist_list v = line # r) \<longleftrightarrow> hist_back v 0 = Some line"
  unfolding hist_list_def by (rule takeWhile_hd) (simp only: upt20 list.map)

lemma previous_index:
  assumes "i < 20" "j < 20" "hp = (i + 20 - j) mod 20"
  shows "(if hp = 0 then 19 else hp - 1) = (i + 19 - j) mod (20 :: nat)"
proof (cases "j \<le> i")
  case True
  then obtain d where d: "i = j + d" by (auto simp: le_iff_add)
  with assms have "hp = d" by simp
  moreover have "(i + 19 - j) mod 20 = (if d = 0 then 19 else d - 1)"
    using d assms(1) by (cases d) simp_all
  ultimately show ?thesis by simp
next
  case False
  then have "hp = i + 20 - j" using assms by simp
  with False assms show ?thesis by simp
qed

lemma edit_session_zip:
  assumes "zip_state v (rev b) a" "prompt (vnode v) \<noteq> None"
  shows "zip_state (fold (edit_run prompt) cmds v) (rev (fst (fold edit_spec cmds (b, a))))
           (snd (fold edit_spec cmds (b, a))) \<and> vctx (fold (edit_run prompt) cmds v) = vctx v"
  using assms
proof (induction cmds arbitrary: v b a)
  case (Cons cmd cmds)
  obtain b' a' where s: "edit_spec cmd (b, a) = (b', a')" by fastforce
  have "zip_state (edit_run prompt cmd v) (rev b') a'"
    using edit_run_step [of v b a prompt cmd, OF Cons.prems] s by simp
  moreover have c: "vctx (edit_run prompt cmd v) = vctx v" by (simp add: vctx_simps)
  moreover have "prompt (vnode (edit_run prompt cmd v)) \<noteq> None"
    using c Cons.prems(2) by (simp add: vctx_def)
  ultimately show ?case using Cons.IH [of "edit_run prompt cmd v" b' a'] s by simp
qed simp

lemma takeWhile_stop: "\<not> P x \<Longrightarrow> takeWhile P (xs @ x # ys) = takeWhile P xs"
  by (induction xs) auto

lemma c_string_zip: "zip_state v b a \<Longrightarrow> c_string (vbuf v) = c_string (b @ a)"
proof -
  assume "zip_state v b a"
  then obtain r where "vbuf v = (b @ a) @ NUL # r" by (auto simp: zip_state_def)
  then show ?thesis by (simp only: c_string_def takeWhile_stop not_not)
qed

lemma c_string_length: "length (c_string s) \<le> length s"
  by (simp add: c_string_def length_takeWhile_le)

lemma hist_add_eq:
  assumes "hist_ok v" "0 < vlen v"
  defines "line \<equiv> c_string (vbuf v)"
  shows "hist_back v 0 = Some line \<Longrightarrow> vty_hist_add v = v\<lparr>vhp := vhindex v\<rparr>"
    and "hist_back v 0 \<noteq> Some line \<Longrightarrow> vty_hist_add v =
      v\<lparr>vhist := (vhist v)[vhindex v := Some line],
        vhindex := (if vhindex v + 1 = 20 then 0 else vhindex v + 1),
        vhp := (if vhindex v + 1 = 20 then 0 else vhindex v + 1)\<rparr>"
proof -
  have "(if vhindex v \<noteq> 0 then vhindex v - 1 else 19) = (vhindex v + 19) mod 20"
    using previous_index [of "vhindex v" 0 "vhindex v"] assms(1) by (auto simp: hist_ok_def)
  then have h: "vhist v ! (if vhindex v \<noteq> 0 then vhindex v - 1 else VTY_HIST_CMD_SIZE - 1) = hist_back v 0"
    by (auto simp: hist_back_def VTY_HIST_CMD_SIZE_def split: if_splits)
  show "hist_back v 0 = Some line \<Longrightarrow> vty_hist_add v = v\<lparr>vhp := vhindex v\<rparr>"
    using assms(2) h by (simp add: vty_hist_add_def Let_def line_def)
  show "hist_back v 0 \<noteq> Some line \<Longrightarrow> vty_hist_add v =
      v\<lparr>vhist := (vhist v)[vhindex v := Some line],
        vhindex := (if vhindex v + 1 = 20 then 0 else vhindex v + 1),
        vhp := (if vhindex v + 1 = 20 then 0 else vhindex v + 1)\<rparr>"
    using assms(2) h by (simp add: vty_hist_add_def Let_def line_def VTY_HIST_CMD_SIZE_def)
qed

lemma zip_new_init: "zip_state (vty_new_init n) [] []"
proof -
  have "NUL # replicate 1023 NUL = replicate 1024 NUL" by (simp flip: replicate_Suc)
  then show ?thesis
    by (intro zip_stateI [of _ _ _ "replicate 1023 NUL"]) (simp_all add: vty_new_init_def VTY_INPUT_BUF_SIZE_def)
qed

section \<open>Properties\<close>

text \<open>
  C8: every sequence of editing commands, from any state in which the buffer holds a text with the
  cursor in it and the node is installed, does to that text what the specification on (text before the cursor, text after)
  says, whatever the lengths: no access leaves the 1024-byte buffer, the text stays
  NUL-terminated, and nothing else of the terminal changes.
\<close>

theorem editor_session_refines:
  assumes "zip_state v (rev b) a" and "prompt (vnode v) \<noteq> None"
    and "fold edit_spec cmds (b, a) = (b', a')"
  shows "zip_state (fold (edit_run prompt) cmds v) (rev b') a' \<and>
    vctx (fold (edit_run prompt) cmds v) = vctx v"
  using edit_session_zip [of v b a prompt cmds, OF assms(1,2)] assms(3) by simp

theorem editor_session_refines_witness:
  "zip_state (fold (edit_run (\<lambda>n. Some ''%s# '')) [Ed_self_insert (CHR ''a''), Ed_self_insert (CHR ''b''),
      Ed_transpose_chars, Ed_backward_char, Ed_delete_char] (vty_new_init 1)) ''b'' []"
proof -
  have "zip_state (vty_new_init 1) (rev []) []"
    using zip_new_init [of 1] by (simp add: zip_state_def)
  then show ?thesis
    using editor_session_refines [of "vty_new_init 1" "[]" "[]" "\<lambda>n. Some ''%s# ''"
        "[Ed_self_insert (CHR ''a''), Ed_self_insert (CHR ''b''), Ed_transpose_chars, Ed_backward_char, Ed_delete_char]"
        "''b''" "[]"]
    by (simp add: VTY_INPUT_BUF_SIZE_def)
qed

text \<open>
  C25: what the user sees is what is in the buffer: if the terminal line shows the text (blank
  after it) with the cursor at its place, it still does after the bytes an editing command writes,
  for every command except deleting on an empty line (which starts a new line) and inserting a
  literal backspace.
\<close>

theorem editor_screen_in_step:
  assumes "zip_state v (rev b) a" and "shown (Some t) v (rev b) a"
    and "edit_spec cmd (b, a) = (b', a')"
    and "cmd \<noteq> Ed_self_insert telnet_backward_char" and "cmd = Ed_delete_char \<longrightarrow> b \<noteq> [] \<or> a \<noteq> []"
  shows "shown (Some t) (edit_run prompt cmd v) (rev b') a'"
proof -
  have e: "edits (Some t) v (rev b) a" using assms(1,2) by (simp add: edits_def)
  have "edits (Some t) (edit_run prompt cmd v) (rev (fst (edit_spec cmd (b, a)))) (snd (edit_spec cmd (b, a)))"
    using assms(4,5) edit_run_simple [OF e, of cmd prompt] edit_run_char [OF e, of cmd prompt]
      edit_run_insert_delete(1) [OF e] edit_run_insert_delete(2) [OF e] by (cases cmd) auto
  then show ?thesis using assms(3) by (simp add: edits_def)
qed

theorem editor_screen_in_step_witness:
  "shown (Some ([], 0)) (edit_run (\<lambda>n. Some []) (Ed_self_insert (CHR ''x'')) (vty_new_init 1)) ''x'' []"
proof -
  have "zip_state (vty_new_init 1) (rev []) []"
    using zip_new_init [of 1] by (simp add: zip_state_def)
  moreover have "shown (Some ([], 0)) (vty_new_init 1) (rev []) []"
    by (simp add: shown_def vty_new_init_def term_run_def)
  ultimately show ?thesis
    using editor_screen_in_step [of "vty_new_init 1" "[]" "[]" "([], 0)" "Ed_self_insert (CHR ''x'')" "''x''" "[]"]
    by (simp add: VTY_INPUT_BUF_SIZE_def telnet_backward_char_def)
qed


text \<open>
  C26: the history is a ring of the last 20 lines: \<^verbatim>\<open>vty_hist_add\<close> pushes the line of the buffer in
  front of the remembered ones, dropping the oldest of 20, and leaves them as they are when the
  line is empty or equal to the latest; the indices and entries stay in range.
\<close>

theorem vty_hist_add_ring:
  assumes "hist_ok v" and "zip_state v b a"
  shows "hist_ok (vty_hist_add v) \<and>
    hist_list (vty_hist_add v) =
      (if b @ a = [] \<or> (\<exists>r. hist_list v = c_string (b @ a) # r) then hist_list v
       else c_string (b @ a) # take 19 (hist_list v))"
proof (cases "b @ a = []")
  case True
  with assms show ?thesis by (simp add: vty_hist_add_def zip_state_def)
next
  case False
  let ?line = "c_string (vbuf v)"
  have l: "0 < vlen v" "c_string (b @ a) = ?line" "length ?line < 1024"
    using False assms(2) c_string_zip [OF assms(2)] c_string_length [of "b @ a"] by (auto simp: zip_state_def)
  have v: "length (vhist v) = 20" "vhindex v < 20" using assms(1) by (simp_all add: hist_ok_def)
  show ?thesis
  proof (cases "hist_back v 0 = Some ?line")
    case True
    have "hist_list (v\<lparr>vhp := vhindex v\<rparr>) = hist_list v"
      unfolding hist_list_def hist_back_def by simp
    with True hist_add_eq(1) [OF assms(1) l(1) True] assms(1) hist_list_hd [of v ?line] l(2)
    show ?thesis by (simp add: hist_ok_def)
  next
    case ne: False
    let ?w = "vty_hist_add v"
    note w = hist_add_eq(2) [OF assms(1) l(1) ne]
    have "hist_back ?w 0 = Some ?line" "\<And>k. k < 19 \<Longrightarrow> hist_back ?w (Suc k) = hist_back v k"
      using hist_push_back [OF v, of ?w ?line] by (simp_all add: w)
    then have "hist_list ?w = ?line # take 19 (hist_list v)" by (rule hist_list_push)
    moreover have "hist_ok ?w"
      using assms(1) l(3) by (auto simp: w hist_ok_def dest: set_update_subset_insert [THEN subsetD])
    ultimately show ?thesis using ne hist_list_hd [of v ?line] l(2) False by auto
  qed
qed

theorem vty_hist_add_ring_witness:
  "hist_list (vty_hist_add (edit_run (\<lambda>n. Some []) (Ed_self_insert (CHR ''x'')) (vty_new_init 1))) = [''x'']"
proof -
  let ?init = "vty_new_init 1" and ?v = "edit_run (\<lambda>n. Some []) (Ed_self_insert (CHR ''x'')) (vty_new_init 1)"
  have z: "zip_state ?init (rev []) []"
    using zip_new_init [of 1] by (simp add: zip_state_def)
  have "zip_state ?v ''x'' []"
    using edit_run_step [OF z, of "\<lambda>n. Some []" "Ed_self_insert (CHR ''x'')"] by (simp add: VTY_INPUT_BUF_SIZE_def)
  moreover have c: "vctx ?v = vctx ?init" by (simp add: vctx_simps)
  then have "vhist ?v = replicate 20 None" "vhindex ?v = 0" "vhp ?v = 0"
    by (simp_all add: vctx_def vty_new_init_def VTY_HIST_CMD_SIZE_def)
  moreover from this have "hist_list ?v = []"
    by (simp add: hist_list_def upt20) (simp add: hist_back_def)
  ultimately show ?thesis
    using vty_hist_add_ring [of ?v "''x''" "[]"] by (simp add: hist_ok_def c_string_def)
qed

text \<open>
  from the \<open>j\<close>-th remembered line (\<open>j = 0\<close>: the fresh line), \<^verbatim>\<open>vty_previous_line\<close> replaces the
  edited text by the next older one, with the cursor at its end and inside the buffer, and moves
  the history position there; without an older line it changes nothing.
\<close>

theorem vty_previous_line_recalls:
  assumes "hist_ok v" and "zip_state v b a" and "j < 20" and "vhp v = (vhindex v + 20 - j) mod 20"
  shows "case hist_back v j of
      None \<Rightarrow> vty_previous_line v = v
    | Some s \<Rightarrow> zip_state (vty_previous_line v) s [] \<and>
        vhp (vty_previous_line v) = (vhindex v + 20 - Suc j) mod 20"
proof -
  let ?i = "(vhindex v + 19 - j) mod 20"
  have i: "(if vhp v = 0 then VTY_HIST_CMD_SIZE - 1 else vhp v - 1) = ?i"
    using previous_index [OF _ assms(3,4)] assms(1) by (auto simp: hist_ok_def VTY_HIST_CMD_SIZE_def)
  note p = vty_previous_line_def [of v, unfolded i Let_def]
  show ?thesis
  proof (cases "hist_back v j")
    case None
    then show ?thesis using p by (simp add: hist_back_def)
  next
    case (Some s)
    let ?v = "v\<lparr>vhp := ?i\<rparr>"
    have "Some s \<in> set (vhist v)"
      using Some assms(1) by (metis hist_back_def hist_ok_def mod_less_divisor nth_mem zero_less_numeral)
    then have "length s < 1024" using assms(1) by (simp add: hist_ok_def)
    moreover have "edits None ?v b a" using assms(2) by (simp add: edits_def shown_def zip_state_def)
    ultimately have "zip_state (vty_history_print ?v) s []"
      using history_print_edits [of None ?v b a s] Some by (simp add: hist_back_def edits_def)
    moreover have "vctx (vty_history_print ?v) = vctx ?v"
      by (simp add: vty_history_print_def Let_def vctx_simps split: option.splits)
    moreover have "vhindex v + 20 - Suc j = vhindex v + 19 - j" by simp
    ultimately show ?thesis using p Some by (simp add: hist_back_def vctx_def)
  qed
qed

theorem vty_previous_line_recalls_witness:
  "zip_state (vty_previous_line ((vty_new_init 1)\<lparr>vhist := [Some ''show''] @ replicate 19 None,
     vhindex := 1, vhp := 1\<rparr>)) ''show'' []"
proof -
  let ?v = "(vty_new_init 1)\<lparr>vhist := [Some ''show''] @ replicate 19 None, vhindex := 1, vhp := 1\<rparr>"
  have "zip_state ?v [] []"
    using zip_new_init [of 1] by (simp add: zip_state_def)
  moreover have "hist_ok ?v" by (auto simp: hist_ok_def)
  ultimately show ?thesis
    using vty_previous_line_recalls [of ?v "[]" "[]" 0] by (simp add: hist_back_def)
qed

end
