(* ===== verification/Vty_Vector.thy ===== *)
theory Vty_Vector
  imports Op_Prelude "HOL-Library.Monad_Syntax"
begin

text \<open>
  The growing pointer vectors of \<^verbatim>\<open>src/opbox/vty.c\<close>.  \<^verbatim>\<open>struct _vector\<close> is a record; the array
  is \<open>None\<close> once a failed \<^verbatim>\<open>realloc\<close> has overwritten the pointer with NULL, and a NULL slot is
  \<open>None\<close>.  \<open>ra n\<close> says whether \<^verbatim>\<open>realloc\<close> to \<open>n\<close> bytes succeeds, \<open>ca\<close> whether \<^verbatim>\<open>calloc\<close> does.
  \<open>vector_list\<close> is the list the active part stands for: the components above work on that list,
  as the lemmas of the section on refinement allow.
\<close>

section \<open>Data and operations\<close>

record 'a vector =
  v_active :: nat
  v_alloced :: nat
  v_index :: "'a option list option"

definition VCTOR_CREATE_SIZE :: nat where "VCTOR_CREATE_SIZE = 10"

definition vector_slots :: "'a vector \<Rightarrow> 'a option list" where
  "vector_slots v = (case v_index v of None \<Rightarrow> [] | Some xs \<Rightarrow> xs)"

fun empty_slot_loop :: "'a option list \<Rightarrow> nat" where
  "empty_slot_loop [] = 0"
| "empty_slot_loop (x # xs) = (if x = None then 0 else Suc (empty_slot_loop xs))"

definition vector_empty_slot :: "'a vector \<Rightarrow> nat" where
  "vector_empty_slot v =
     (if v_active v = 0 then 0 else empty_slot_loop (take (v_active v) (vector_slots v)))"

text \<open>
  \<^verbatim>\<open>vector_ensure\<close> calls itself until the allocation covers \<open>num\<close>; the result of the recursive
  call is dropped, as in the code.  Doubling past \<open>2 ^ 32\<close> slots (an undefined \<^verbatim>\<open>memset\<close>) is \<open>None\<close>.
\<close>

partial_function (option) vector_ensure ::
    "(nat \<Rightarrow> bool) \<Rightarrow> 'a vector \<Rightarrow> nat \<Rightarrow> (int \<times> 'a vector) option" where
  "vector_ensure ra v num =
     (if v_alloced v > num then Some (0, v)
      else if 2 ^ 32 \<le> v_alloced v * 2 then None
      else if \<not> ra (8 * (v_alloced v * 2)) then Some (- 1, v\<lparr>v_index := None\<rparr>)
      else
        (let v1 = v\<lparr>v_index := Some (vector_slots v @ replicate (v_alloced v) None),
                    v_alloced := v_alloced v * 2\<rparr> in
         if v_alloced v1 \<le> num
         then do { (r, v2) \<leftarrow> vector_ensure ra v1 num; Some (0, v2) }
         else Some (0, v1)))"

definition vector_set_index ::
    "(nat \<Rightarrow> bool) \<Rightarrow> 'a vector \<Rightarrow> nat \<Rightarrow> 'a option \<Rightarrow> (int \<times> 'a vector) option" where
  "vector_set_index ra v i val = do {
     (r, v1) \<leftarrow> vector_ensure ra v i;
     if r < 0 then Some (- 1, v1)
     else (case v_index v1 of
         None \<Rightarrow> None
       | Some xs \<Rightarrow>
           Some (int i, v1\<lparr>v_index := Some (xs[i := val]),
                           v_active := (if v_active v1 \<le> i then i + 1 else v_active v1)\<rparr>))
   }"

definition vector_set ::
    "(nat \<Rightarrow> bool) \<Rightarrow> 'a vector \<Rightarrow> 'a option \<Rightarrow> (int \<times> 'a vector) option" where
  "vector_set ra v val =
     (let i = vector_empty_slot v in do {
        (r, v1) \<leftarrow> vector_ensure ra v i;
        if r < 0 then Some (- 1, v1)
        else (case v_index v1 of
            None \<Rightarrow> None
          | Some xs \<Rightarrow>
              Some (int i, v1\<lparr>v_index := Some (xs[i := val]),
                              v_active := (if v_active v1 \<le> i then i + 1 else v_active v1)\<rparr>))
      })"

definition vector_init :: "bool \<Rightarrow> bool \<Rightarrow> 'a vector option" where
  "vector_init ca1 ca2 =
     (if \<not> ca1 then None
      else if \<not> ca2 then None
      else Some \<lparr>v_active = 0, v_alloced = VCTOR_CREATE_SIZE,
                 v_index = Some (replicate VCTOR_CREATE_SIZE None)\<rparr>)"

definition vector_lookup :: "'a vector \<Rightarrow> nat \<Rightarrow> 'a option" where
  "vector_lookup v i = (if i \<ge> v_active v then None else vector_slots v ! i)"

fun count_loop :: "'a option list \<Rightarrow> nat \<Rightarrow> nat" where
  "count_loop [] c = c"
| "count_loop (x # xs) c = count_loop xs (if x \<noteq> None then c + 1 else c)"

definition vector_count :: "'a vector \<Rightarrow> nat" where
  "vector_count v = count_loop (take (v_active v) (vector_slots v)) 0"

definition vector_copy :: "'a vector \<Rightarrow> 'a vector" where
  "vector_copy v =
     \<lparr>v_active = v_active v, v_alloced = v_alloced v,
      v_index = Some (take (v_alloced v) (vector_slots v))\<rparr>"

text \<open>The \<^verbatim>\<open>while\<close> of \<^verbatim>\<open>vector_unset\<close>: \<open>i\<close> and \<open>active\<close> count down over trailing NULL slots.\<close>

fun unset_loop :: "'a option list \<Rightarrow> nat \<Rightarrow> nat \<Rightarrow> nat" where
  "unset_loop xs 0 active = active"
| "unset_loop xs (Suc i) active =
     (if xs ! i = None then (if active = 0 then 0 else unset_loop xs i (active - 1)) else active)"

definition vector_unset :: "'a vector \<Rightarrow> nat \<Rightarrow> 'a vector" where
  "vector_unset v i =
     (if i \<ge> v_alloced v then v
      else
        (let xs = (vector_slots v)[i := None];
             v1 = v\<lparr>v_index := Some xs\<rparr> in
         if i + 1 = v_active v then v1\<lparr>v_active := unset_loop xs i (v_active v - 1)\<rparr>
         else v1))"

section \<open>Refinement to lists\<close>

definition vector_ok :: "'a vector \<Rightarrow> bool" where
  "vector_ok v \<longleftrightarrow>
     (case v_index v of None \<Rightarrow> False
      | Some xs \<Rightarrow> length xs = v_alloced v \<and> v_active v \<le> v_alloced v \<and> 0 < v_alloced v \<and>
                  (\<forall>i < length xs. v_active v \<le> i \<longrightarrow> xs ! i = None))"

definition vector_list :: "'a vector \<Rightarrow> 'a option list" where
  "vector_list v = take (v_active v) (vector_slots v)"

text \<open>The list operations the vectors implement: fill the first hole, or write at an index.\<close>

fun list_fill :: "'a option list \<Rightarrow> 'a option \<Rightarrow> 'a option list" where
  "list_fill [] x = [x]"
| "list_fill (None # xs) x = x # xs"
| "list_fill (Some y # xs) x = Some y # list_fill xs x"

definition list_put :: "'a option list \<Rightarrow> nat \<Rightarrow> 'a option \<Rightarrow> 'a option list" where
  "list_put xs i x = (xs @ replicate (Suc i - length xs) None)[i := x]"

lemma vector_okE:
  assumes "vector_ok v"
  obtains xs where "v_index v = Some xs" "vector_slots v = xs" "length xs = v_alloced v"
    "v_active v \<le> v_alloced v" "0 < v_alloced v"
    "\<And>i. i < length xs \<Longrightarrow> v_active v \<le> i \<Longrightarrow> xs ! i = None"
  using assms by (auto simp: vector_ok_def vector_slots_def split: option.splits)

lemma empty_slot_le: "empty_slot_loop xs \<le> length xs"
  by (induction xs) auto

lemma list_fill_put: "list_fill xs x = list_put xs (empty_slot_loop xs) x"
proof (induction xs x rule: list_fill.induct)
  case (3 y xs x)
  then show ?case by (simp add: list_put_def)
qed (auto simp: list_put_def)

lemma vector_list_length: "vector_ok v \<Longrightarrow> length (vector_list v) = v_active v"
  by (erule vector_okE) (simp add: vector_list_def)

text \<open>\<^verbatim>\<open>vector_ensure\<close> ends, covers the index and changes nothing the list shows.\<close>

lemma vector_ensure_ok:
  assumes "vector_ok v" "num < 2 ^ 31" "\<And>n. n < 2 ^ 35 \<Longrightarrow> ra n"
  shows "\<exists>v'. vector_ensure ra v num = Some (0, v') \<and> vector_ok v' \<and> num < v_alloced v' \<and>
    v_active v' = v_active v \<and> vector_list v' = vector_list v"
  using assms
proof (induction "num - v_alloced v" arbitrary: v rule: less_induct)
  case less
  show ?case
  proof (cases "num < v_alloced v")
    case True
    then show ?thesis using less.prems by (subst vector_ensure.simps) simp
  next
    case False
    from less.prems(1) obtain xs where xs: "v_index v = Some xs" "vector_slots v = xs"
      "length xs = v_alloced v" "v_active v \<le> v_alloced v" "0 < v_alloced v"
      "\<And>i. i < length xs \<Longrightarrow> v_active v \<le> i \<Longrightarrow> xs ! i = None" by (rule vector_okE) blast
    define v1 where "v1 = v\<lparr>v_index := Some (xs @ replicate (v_alloced v) None),
      v_alloced := v_alloced v * 2\<rparr>"
    have ok1: "vector_ok v1"
      using xs by (auto simp: v1_def vector_ok_def nth_append)
    have l1: "vector_list v1 = vector_list v" "v_active v1 = v_active v"
      using xs by (simp_all add: v1_def vector_list_def vector_slots_def)
    have e: "vector_ensure ra v num = (if v_alloced v1 \<le> num
         then do { (r, v2) \<leftarrow> vector_ensure ra v1 num; Some (0, v2) } else Some (0, v1))"
      using False less.prems(2) less.prems(3) [of "8 * (v_alloced v * 2)"] xs(2)
      by (subst vector_ensure.simps) (simp add: Let_def v1_def)
    show ?thesis
    proof (cases "v_alloced v1 \<le> num")
      case True
      have "num - v_alloced v1 < num - v_alloced v" using xs(5) False True by (simp add: v1_def)
      from less.hyps [OF this ok1 less.prems(2,3)] obtain v' where
        "vector_ensure ra v1 num = Some (0, v')" "vector_ok v'" "num < v_alloced v'"
        "v_active v' = v_active v1" "vector_list v' = vector_list v1" by blast
      then show ?thesis using e True l1 by simp
    next
      case False
      then show ?thesis using e ok1 l1 by simp
    qed
  qed
qed


lemma take_put:
  assumes "vector_ok v" "i < v_alloced v"
  defines "a \<equiv> (if v_active v \<le> i then i + 1 else v_active v)"
  shows "take a ((vector_slots v)[i := x]) = list_put (vector_list v) i x"
    and "vector_ok (v\<lparr>v_index := Some ((vector_slots v)[i := x]), v_active := a\<rparr>)"
proof -
  from assms(1) obtain xs where xs: "vector_slots v = xs"
    "length xs = v_alloced v" "v_active v \<le> v_alloced v" "0 < v_alloced v"
    "\<And>i. i < length xs \<Longrightarrow> v_active v \<le> i \<Longrightarrow> xs ! i = None" by (rule vector_okE) blast
  have "take a xs = take (v_active v) xs @ replicate (a - v_active v) None"
    by (rule nth_equalityI) (use xs assms(2) in \<open>auto simp: a_def nth_append min_def split: if_splits\<close>)
  moreover have "a - v_active v = Suc i - length (take (v_active v) xs)"
    using xs by (auto simp: a_def)
  ultimately show "take a ((vector_slots v)[i := x]) = list_put (vector_list v) i x"
    using xs by (simp add: list_put_def vector_list_def take_update_swap)
  show "vector_ok (v\<lparr>v_index := Some ((vector_slots v)[i := x]), v_active := a\<rparr>)"
    using xs assms(2) by (auto simp: vector_ok_def a_def nth_list_update)
qed

lemma vector_set_index_list:
  assumes "vector_ok v" "i < 2 ^ 31" "\<And>n. n < 2 ^ 35 \<Longrightarrow> ra n"
  shows "\<exists>v'. vector_set_index ra v i x = Some (int i, v') \<and> vector_ok v' \<and>
    vector_list v' = list_put (vector_list v) i x"
proof -
  from vector_ensure_ok [OF assms(1,2), of ra] assms(3) obtain v1 where v1: "vector_ensure ra v i = Some (0, v1)"
    "vector_ok v1" "i < v_alloced v1" "vector_list v1 = vector_list v" by blast
  then obtain xs where "v_index v1 = Some xs" "vector_slots v1 = xs" by (auto elim: vector_okE)
  then show ?thesis
    using v1 take_put [OF v1(2,3), of x]
    by (simp add: vector_set_index_def) (auto simp: vector_list_def vector_slots_def split: if_splits)
qed

lemma vector_set_eq: "vector_set ra v x = vector_set_index ra v (vector_empty_slot v) x"
  by (simp add: vector_set_def vector_set_index_def Let_def)

lemma vector_empty_slot_list: "vector_ok v \<Longrightarrow> vector_empty_slot v = empty_slot_loop (vector_list v)"
  by (simp add: vector_empty_slot_def vector_list_def)

lemma count_loop_eq: "count_loop xs c = c + length (filter (\<lambda>x. x \<noteq> None) xs)"
  by (induction xs arbitrary: c) auto

text \<open>\<^verbatim>\<open>vector_unset\<close> at the last slot also drops the empty slots before it.\<close>

lemma unset_loop_take:
  "i \<le> length xs \<Longrightarrow>
   take (unset_loop xs i i) xs = rev (dropWhile (\<lambda>x. x = None) (rev (take i xs)))"
  by (induction i) (simp_all add: take_Suc_conv_app_nth)

lemma unset_loop_none:
  "i \<le> length xs \<Longrightarrow> unset_loop xs i i \<le> i \<and>
   (\<forall>j < i. unset_loop xs i i \<le> j \<longrightarrow> xs ! j = None)"
  by (induction i) (auto simp: less_Suc_eq)

lemma vector_unset_ok:
  assumes "vector_ok v"
  shows "vector_ok (vector_unset v i)"
proof -
  from assms obtain xs where xs: "v_index v = Some xs" "vector_slots v = xs"
    "length xs = v_alloced v" "v_active v \<le> v_alloced v" "0 < v_alloced v"
    "\<And>i. i < length xs \<Longrightarrow> v_active v \<le> i \<Longrightarrow> xs ! i = None" by (rule vector_okE) blast
  show ?thesis
  proof (cases "i < v_alloced v \<and> i + 1 = v_active v")
    case True
    let ?xs = "xs[i := None]"
    let ?a = "unset_loop ?xs i i"
    have a: "?a \<le> i" "\<And>j. j < i \<Longrightarrow> ?a \<le> j \<Longrightarrow> ?xs ! j = None"
      using unset_loop_none [of i ?xs] True xs(3) by auto
    have "?xs ! j = None" if "j < length ?xs" "?a \<le> j" for j
      using that a(2) [of j] xs(6) [of j] True by (cases j i rule: linorder_cases) auto
    moreover have "v_active v - 1 = i" using True by arith
    ultimately show ?thesis
      using xs True a(1) by (simp add: vector_unset_def vector_ok_def Let_def)
  next
    case False
    then show ?thesis
      using xs assms by (auto simp: vector_unset_def vector_ok_def Let_def nth_list_update)
  qed
qed

lemma vector_unset_list:
  assumes "vector_ok v"
  shows "vector_list (vector_unset v i) =
      (if i + 1 = v_active v then rev (dropWhile (\<lambda>x. x = None) (rev (take i (vector_list v))))
       else (vector_list v)[i := None])"
proof -
  from assms obtain xs where xs: "v_index v = Some xs" "vector_slots v = xs"
    "length xs = v_alloced v" "v_active v \<le> v_alloced v" by (rule vector_okE) blast
  show ?thesis
  proof (cases "i + 1 = v_active v")
    case True
    then have a: "v_active v - 1 = i" "i < length xs" "min i (v_active v) = i" using xs by auto
    let ?xs = "xs[i := None]"
    have "take (unset_loop ?xs i i) ?xs = rev (dropWhile (\<lambda>x. x = None) (rev (take i ?xs)))"
      using a(2) by (intro unset_loop_take) simp
    then show ?thesis
      using True xs a by (simp add: vector_unset_def vector_list_def vector_slots_def Let_def)
  next
    case False
    moreover have "(take (v_active v) xs)[i := None] = take (v_active v) xs" if "v_alloced v \<le> i"
      using that xs by (intro list_update_beyond) simp
    ultimately show ?thesis
      using xs by (auto simp: vector_unset_def vector_list_def vector_slots_def Let_def take_update_swap)
  qed
qed

section \<open>Properties\<close>

text \<open>
  on a well-formed vector, with memory available, \<^verbatim>\<open>vector_set\<close> and \<^verbatim>\<open>vector_set_index\<close> return
  (the growing loop ends), keep it well formed, and act on the list it stands for: the first
  fills the first NULL slot or appends, the second writes at the index, padding with NULL.
\<close>

theorem vector_set_refines:
  assumes "vector_ok v" and "v_active v < 2 ^ 31" and "i < 2 ^ 31" and "\<And>n. n < 2 ^ 35 \<Longrightarrow> ra n"
  shows "(\<exists>v'. vector_set ra v x = Some (int (vector_empty_slot v), v') \<and> vector_ok v' \<and>
            vector_list v' = list_fill (vector_list v) x) \<and>
         (\<exists>v'. vector_set_index ra v i x = Some (int i, v') \<and> vector_ok v' \<and>
            vector_list v' = list_put (vector_list v) i x)"
proof -
  have e: "vector_empty_slot v < 2 ^ 31"
    using vector_empty_slot_list [OF assms(1)] empty_slot_le [of "vector_list v"] assms(2)
      vector_list_length [OF assms(1)] by simp
  from vector_set_index_list [OF assms(1) e, of ra x] vector_set_index_list [OF assms(1,3), of ra x]
    assms(4) show ?thesis
    by (simp add: vector_set_eq list_fill_put vector_empty_slot_list [OF assms(1), symmetric])
qed

theorem vector_set_refines_witness:
  "\<exists>v'. vector_set (\<lambda>n. True) \<lparr>v_active = 2, v_alloced = 2, v_index = Some [Some (7 :: nat), None]\<rparr> (Some 9)
      = Some (1, v') \<and> vector_list v' = [Some 7, Some 9]"
proof -
  let ?v = "\<lparr>v_active = 2, v_alloced = 2, v_index = Some [Some (7 :: nat), None]\<rparr>"
  have "vector_ok ?v" by (simp add: vector_ok_def All_less_Suc)
  from vector_set_refines [OF this, of 0 "\<lambda>n. True" "Some 9"] show ?thesis
    by (auto simp: vector_list_def vector_slots_def vector_empty_slot_def)
qed

text \<open>
  the reading operations agree with the list: \<^verbatim>\<open>vector_lookup\<close> is the element or NULL past the
  end, \<^verbatim>\<open>vector_count\<close> the number of non-NULL slots, \<^verbatim>\<open>vector_copy\<close> has the same list; and
  \<^verbatim>\<open>vector_unset\<close> clears the slot and, at the last one, drops all trailing NULL slots.
\<close>

theorem vector_read_unset_refines:
  assumes "vector_ok v"
  shows "vector_lookup v i = (if i < length (vector_list v) then vector_list v ! i else None) \<and>
    vector_count v = length (filter (\<lambda>x. x \<noteq> None) (vector_list v)) \<and>
    vector_ok (vector_copy v) \<and> vector_list (vector_copy v) = vector_list v \<and>
    vector_ok (vector_unset v i) \<and>
    vector_list (vector_unset v i) =
      (if i + 1 = length (vector_list v)
       then rev (dropWhile (\<lambda>x. x = None) (rev (take i (vector_list v))))
       else (vector_list v)[i := None])"
proof -
  from assms obtain xs where xs: "v_index v = Some xs" "vector_slots v = xs"
    "length xs = v_alloced v" "v_active v \<le> v_alloced v" "0 < v_alloced v"
    "\<And>i. i < length xs \<Longrightarrow> v_active v \<le> i \<Longrightarrow> xs ! i = None" by (rule vector_okE) blast
  note len = vector_list_length [OF assms]
  have "vector_lookup v i = (if i < length (vector_list v) then vector_list v ! i else None)"
    using xs len by (simp add: vector_lookup_def vector_list_def)
  moreover have "vector_count v = length (filter (\<lambda>x. x \<noteq> None) (vector_list v))"
    by (simp add: vector_count_def count_loop_eq vector_list_def)
  moreover have "vector_ok (vector_copy v)" "vector_list (vector_copy v) = vector_list v"
    using xs by (simp_all add: vector_copy_def vector_ok_def vector_list_def vector_slots_def)
  moreover have "vector_ok (vector_unset v i)"
    by (rule vector_unset_ok [OF assms])
  moreover have "vector_list (vector_unset v i) =
      (if i + 1 = length (vector_list v)
       then rev (dropWhile (\<lambda>x. x = None) (rev (take i (vector_list v))))
       else (vector_list v)[i := None])"
    unfolding len by (rule vector_unset_list [OF assms])
  ultimately show ?thesis by blast
qed

theorem vector_read_unset_refines_witness:
  "vector_list (vector_unset
     \<lparr>v_active = 3, v_alloced = 3, v_index = Some [Some (7 :: nat), None, Some 8]\<rparr> 2) = [Some 7]"
proof -
  let ?v = "\<lparr>v_active = 3, v_alloced = 3, v_index = Some [Some (7 :: nat), None, Some 8]\<rparr>"
  have "vector_ok ?v" by (simp add: vector_ok_def All_less_Suc)
  from vector_read_unset_refines [OF this, of 2] show ?thesis
    by (simp add: vector_list_def vector_slots_def numeral_2_eq_2 numeral_3_eq_3)
qed

text \<open>
  C32: \<^verbatim>\<open>vector_ensure\<close> drops the result of its recursive call: when the second doubling of a
  growth fails, it answers 0 although the array pointer is now NULL, and the store that follows
  in \<^verbatim>\<open>vector_set_index\<close> goes through that pointer (no result in the model).
\<close>

theorem vector_ensure_hides_failure:
  assumes "v_index v = Some xs" and "v_alloced v * 2 \<le> num" and "v_alloced v * 4 < 2 ^ 32"
    and "ra (8 * (v_alloced v * 2))" and "\<not> ra (8 * (v_alloced v * 4))"
  shows "(\<exists>v'. vector_ensure ra v num = Some (0, v') \<and> v_index v' = None) \<and>
    vector_set_index ra v num x = None"
proof -
  have "\<exists>v'. vector_ensure ra v num = Some (0, v') \<and> v_index v' = None"
    using assms by (subst vector_ensure.simps, subst vector_ensure.simps) (auto simp: Let_def)
  then show ?thesis by (auto simp: vector_set_index_def)
qed

theorem vector_ensure_hides_failure_witness:
  "vector_set_index (\<lambda>n. n < 200)
     \<lparr>v_active = 0, v_alloced = 10, v_index = Some (replicate 10 (None :: nat option))\<rparr> 25 (Some 1) = None"
  using vector_ensure_hides_failure [of "\<lparr>v_active = 0, v_alloced = 10,
      v_index = Some (replicate 10 (None :: nat option))\<rparr>" _ 25 "\<lambda>n. n < 200" "Some 1"] by simp

end
