(* ===== verification/Vty_Match.thy ===== *)
theory Vty_Match
  imports Vty_Vector C_Text
begin

text \<open>
  The command matcher of \<^verbatim>\<open>src/opbox/vty.c\<close>: word matching (literals, ranges, IPv4 and IPv6
  addresses and prefixes) and the matching of an input line against the tokens of one command.
  A C string is a \<open>string\<close> without its final NUL; reading at the end gives \<open>cur\<close> \<open>= NUL\<close>.  The
  enumerations are datatypes ordered by their C value.  Token vectors hold no NULL and are lists;
  a line is a list of words in which a word may be NULL (\<open>None\<close>).  \<^verbatim>\<open>inet_pton\<close> is an argument.
\<close>

section \<open>Enumerations\<close>

datatype match_type =
    no_match | extend_match | ipv4_prefix_match | ipv4_match | ipv6_prefix_match | ipv6_match
  | range_match | vararg_match | partly_match | exact_match

fun match_rank :: "match_type \<Rightarrow> nat" where
  "match_rank no_match = 0" | "match_rank extend_match = 1" | "match_rank ipv4_prefix_match = 2"
| "match_rank ipv4_match = 3" | "match_rank ipv6_prefix_match = 4" | "match_rank ipv6_match = 5"
| "match_rank range_match = 6" | "match_rank vararg_match = 7" | "match_rank partly_match = 8"
| "match_rank exact_match = 9"

lemma match_rank_inj: "match_rank x = match_rank y \<longleftrightarrow> x = y"
  by (cases x; cases y) simp_all

instantiation match_type :: linorder
begin
definition less_eq_match_type :: "match_type \<Rightarrow> match_type \<Rightarrow> bool" where
  "less_eq_match_type x y \<longleftrightarrow> match_rank x \<le> match_rank y"
definition less_match_type :: "match_type \<Rightarrow> match_type \<Rightarrow> bool" where
  "less_match_type x y \<longleftrightarrow> match_rank x < match_rank y"
instance
  by standard (auto simp: less_eq_match_type_def less_match_type_def match_rank_inj)
end

datatype terminal_type =
    TERMINAL_BUG | TERMINAL_LITERAL | TERMINAL_OPTION | TERMINAL_VARIABLE | TERMINAL_VARARG
  | TERMINAL_RANGE | TERMINAL_IPV4 | TERMINAL_IPV4_PREFIX | TERMINAL_IPV6 | TERMINAL_IPV6_PREFIX

fun TERMINAL_RECORD :: "terminal_type \<Rightarrow> bool" where
  "TERMINAL_RECORD TERMINAL_BUG = False"
| "TERMINAL_RECORD TERMINAL_LITERAL = False"
| "TERMINAL_RECORD _ = True"

datatype filter_type = FILTER_RELAXED | FILTER_STRICT

datatype matcher_rv =
    MATCHER_OK | MATCHER_COMPLETE | MATCHER_INCOMPLETE | MATCHER_NO_MATCH | MATCHER_AMBIGUOUS
  | MATCHER_EXCEED_ARGC_MAX

definition MATCHER_ERROR :: "matcher_rv \<Rightarrow> bool" where
  "MATCHER_ERROR rv \<longleftrightarrow>
     rv = MATCHER_INCOMPLETE \<or> rv = MATCHER_NO_MATCH \<or> rv = MATCHER_AMBIGUOUS \<or>
     rv = MATCHER_EXCEED_ARGC_MAX"

text \<open>\<^verbatim>\<open>struct cmd_token\<close> by its \<^verbatim>\<open>type\<close>; \<^verbatim>\<open>cmd\<close> and \<^verbatim>\<open>desc\<close> are the two strings.\<close>

datatype cmd_token =
    TOKEN_TERMINAL (terminal: terminal_type) (cmd: string) (desc: "string option")
  | TOKEN_MULTIPLE (multiple: "cmd_token list")
  | TOKEN_KEYWORD (keyword: "cmd_token list list")

section \<open>Words\<close>

definition DECIMAL_STRLEN_MAX :: nat where "DECIMAL_STRLEN_MAX = 10"

text \<open>\<^verbatim>\<open>strchr\<close>: the text before the character and the text from it on.\<close>

definition c_strchr :: "string \<Rightarrow> char \<Rightarrow> (string \<times> string) option" where
  "c_strchr s c =
     (if c \<in> set s then Some (takeWhile (\<lambda>x. x \<noteq> c) s, dropWhile (\<lambda>x. x \<noteq> c) s) else None)"

definition cmd_range_match :: "string \<Rightarrow> string option \<Rightarrow> bool" where
  "cmd_range_match rng str =
     (case str of
        None \<Rightarrow> True
      | Some s \<Rightarrow>
          (case c_strtoul s of (val, e) \<Rightarrow>
             if e \<noteq> [] then False
             else
               (case c_strchr (tl rng) (CHR ''-'') of
                  None \<Rightarrow> False
                | Some (lo, p) \<Rightarrow>
                    if length lo > DECIMAL_STRLEN_MAX then False
                    else
                      (case c_strtoul lo of (vmin, e1) \<Rightarrow>
                         if e1 \<noteq> [] then False
                         else
                           (case c_strchr (tl p) (CHR ''>'') of
                              None \<Rightarrow> False
                            | Some (hi, _) \<Rightarrow>
                                if length hi > DECIMAL_STRLEN_MAX then False
                                else
                                  (case c_strtoul hi of (vmx, e2) \<Rightarrow>
                                     if e2 \<noteq> [] then False
                                     else \<not> (val < vmin \<or> val > vmx)))))))"

definition IPV6_ADDR_STR :: string where "IPV6_ADDR_STR = ''0123456789abcdefABCDEF:.%''"
definition IPV6_PREFIX_STR :: string where "IPV6_PREFIX_STR = ''0123456789abcdefABCDEF:.%/''"

definition cmd_ipv6_match :: "(string \<Rightarrow> bool) \<Rightarrow> string option \<Rightarrow> match_type" where
  "cmd_ipv6_match inet_pton str =
     (case str of
        None \<Rightarrow> partly_match
      | Some s \<Rightarrow>
          if \<not> list_all (\<lambda>c. c \<in> set IPV6_ADDR_STR) s then no_match
          else if inet_pton s then exact_match else no_match)"

datatype v6_state =
    STATE_START | STATE_COLON | STATE_DOUBLE | STATE_ADDR | STATE_DOT | STATE_SLASH | STATE_MASK

text \<open>
  The scanner of \<^verbatim>\<open>cmd_ipv6_prefix_match\<close>.  \<open>seg\<close> is the text from \<^verbatim>\<open>sp\<close> up to \<^verbatim>\<open>str\<close>.  A left
  result is a \<^verbatim>\<open>return\<close> inside the loop; a right one is the state and the rest at its exit.
\<close>

definition v6_next ::
    "v6_state \<Rightarrow> int \<Rightarrow> nat \<Rightarrow> nat \<Rightarrow> string \<Rightarrow> string \<Rightarrow>
     match_type + (v6_state \<times> int \<times> nat \<times> nat \<times> string)" where
  "v6_next state colons nums double_colon seg str =
     (case state of
        STATE_COLON \<Rightarrow>
          if nxt str = CHR ''/'' then Inl no_match
          else if nxt str = CHR '':'' then
            Inr (STATE_DOUBLE, colons + 1, nums, double_colon, seg @ [cur str])
          else Inr (STATE_ADDR, colons + 1, nums, double_colon, [])
      | STATE_DOUBLE \<Rightarrow>
          if double_colon \<noteq> 0 then Inl no_match
          else if nxt str = CHR '':'' then Inl no_match
          else
            Inr (if nxt str = CHR ''/'' then STATE_SLASH else STATE_ADDR,
                 if nxt str \<noteq> CHR 0x00 \<and> nxt str \<noteq> CHR ''/'' then colons + 1 else colons,
                 nums + 1, double_colon + 1, [])
      | STATE_ADDR \<Rightarrow>
          if nxt str \<in> {CHR '':'', CHR ''.'', CHR 0x00, CHR ''/''} then
            (if length seg > 3 then Inl no_match
             else if CHR ''/'' \<in> set (seg @ [cur str]) then Inl no_match
             else if nxt str = CHR '':'' then
               Inr (STATE_COLON, colons, nums + 1, double_colon, [])
             else if nxt str = CHR ''.'' then
               (if colons \<noteq> 0 \<or> double_colon \<noteq> 0
                then Inr (STATE_DOT, colons, nums + 1, double_colon, [])
                else Inl no_match)
             else if nxt str = CHR ''/'' then
               Inr (STATE_SLASH, colons, nums + 1, double_colon, [])
             else Inr (STATE_ADDR, colons, nums + 1, double_colon, []))
          else Inr (STATE_ADDR, colons, nums, double_colon, seg @ [cur str])
      | STATE_DOT \<Rightarrow> Inr (STATE_ADDR, colons, nums, double_colon, seg @ [cur str])
      | STATE_SLASH \<Rightarrow>
          if nxt str = CHR 0x00 then Inl partly_match
          else Inr (STATE_MASK, colons, nums, double_colon, seg @ [cur str])
      | _ \<Rightarrow> Inr (state, colons, nums, double_colon, seg @ [cur str]))"

fun v6_loop ::
    "v6_state \<Rightarrow> int \<Rightarrow> nat \<Rightarrow> nat \<Rightarrow> string \<Rightarrow> string \<Rightarrow> match_type + (v6_state \<times> string)" where
  "v6_loop state colons nums double_colon seg [] = Inr (state, [])"
| "v6_loop state colons nums double_colon seg (c # str) =
     (if state = STATE_MASK then Inr (state, c # str)
      else
        (case v6_next state colons nums double_colon seg (c # str) of
           Inl r \<Rightarrow> Inl r
         | Inr (state', colons', nums', double_colon', seg') \<Rightarrow>
             if nums' > 11 then Inl no_match
             else if colons' > 7 then Inl no_match
             else v6_loop state' colons' nums' double_colon' seg' str))"

text \<open>\<^verbatim>\<open>STATE_START\<close> looks at the first character without consuming it.\<close>

definition v6_start :: "string \<Rightarrow> match_type + (v6_state \<times> string)" where
  "v6_start str =
     (if str = [] then Inr (STATE_START, [])
      else if cur str = CHR '':'' then
        (if nxt str \<noteq> CHR '':'' \<and> nxt str \<noteq> CHR 0x00 then Inl no_match
         else v6_loop STATE_COLON (- 1) 0 0 [] str)
      else v6_loop STATE_ADDR 0 0 0 [] str)"

definition cmd_ipv6_prefix_match :: "string option \<Rightarrow> match_type" where
  "cmd_ipv6_prefix_match str =
     (case str of
        None \<Rightarrow> partly_match
      | Some s \<Rightarrow>
          if \<not> list_all (\<lambda>c. c \<in> set IPV6_PREFIX_STR) s then no_match
          else
            (case v6_start s of
               Inl r \<Rightarrow> r
             | Inr (state, rest) \<Rightarrow>
                 if state \<noteq> STATE_MASK then partly_match
                 else
                   (case c_strtol rest of (l, e) \<Rightarrow>
                      if e \<noteq> [] then no_match
                      else if to_int32 l < 0 \<or> to_int32 l > 128 then no_match
                      else exact_match)))"

text \<open>
  The octet loop both IPv4 matchers share in shape: \<open>sp\<close> is what has been read of the octet.
  It ends at a separator or at the end of the string with the dot count, the octet and the rest.
\<close>

fun octet_loop ::
    "bool \<Rightarrow> nat \<Rightarrow> string \<Rightarrow> string \<Rightarrow> match_type + (nat \<times> string \<times> string)" where
  "octet_loop pref dots sp [] = Inr (dots, sp, [])"
| "octet_loop pref dots sp (c # str) =
     (if pref \<and> c = CHR ''/'' then Inr (dots, sp, c # str)
      else if c = CHR ''.'' then
        (if (if pref then dots = 3 else dots \<ge> 3) then Inl no_match
         else if cur str = CHR ''.'' \<or> pref \<and> cur str = CHR ''/'' then Inl no_match
         else if str = [] then Inl partly_match
         else Inr (dots + 1, sp, c # str))
      else if \<not> c_isdigit c then Inl no_match
      else octet_loop pref dots (sp @ [c]) str)"

lemma octet_loop_length:
  "octet_loop pref dots sp str = Inr (d, o', rest) \<Longrightarrow> length rest \<le> length str"
  by (induction pref dots sp str rule: octet_loop.induct) (auto split: if_splits)

text \<open>The outer loop of \<^verbatim>\<open>cmd_ipv4_prefix_match\<close>: a result, or the text after the slash.\<close>

function ipv4_prefix_loop :: "nat \<Rightarrow> string \<Rightarrow> match_type + string" where
  "ipv4_prefix_loop dots str =
     (case octet_loop True dots [] str of
        Inl r \<Rightarrow> Inl r
      | Inr (dots', oct, rest) \<Rightarrow>
          if length oct > 3 then Inl no_match
          else if c_atoi oct > 255 then Inl no_match
          else if dots' = 3 \<and> cur rest = CHR ''/'' then
            (if nxt rest = CHR 0x00 then Inl partly_match else Inr (tl rest))
          else if rest = [] then Inl partly_match
          else ipv4_prefix_loop dots' (tl rest))"
  by pat_completeness auto
termination
  by (relation "measure (\<lambda>(dots, str). length str)")
     (auto dest!: octet_loop_length simp: neq_Nil_conv)

definition cmd_ipv4_prefix_match :: "string option \<Rightarrow> match_type" where
  "cmd_ipv4_prefix_match str =
     (case str of
        None \<Rightarrow> partly_match
      | Some s \<Rightarrow>
          (case ipv4_prefix_loop 0 s of
             Inl r \<Rightarrow> r
           | Inr sp \<Rightarrow>
               if \<not> list_all c_isdigit sp then no_match
               else if c_atoi sp > 32 then no_match
               else exact_match))"

function ipv4_loop :: "nat \<Rightarrow> nat \<Rightarrow> string \<Rightarrow> match_type + nat" where
  "ipv4_loop dots nums str =
     (case octet_loop False dots [] str of
        Inl r \<Rightarrow> Inl r
      | Inr (dots', oct, rest) \<Rightarrow>
          if length oct > 3 then Inl no_match
          else if c_atoi oct > 255 then Inl no_match
          else if rest = [] then Inr (nums + 1)
          else ipv4_loop dots' (nums + 1) (tl rest))"
  by pat_completeness auto
termination
  by (relation "measure (\<lambda>(dots, nums, str). length str)")
     (auto dest!: octet_loop_length simp: neq_Nil_conv)

definition cmd_ipv4_match :: "string option \<Rightarrow> match_type" where
  "cmd_ipv4_match str =
     (case str of
        None \<Rightarrow> partly_match
      | Some s \<Rightarrow>
          (case ipv4_loop 0 0 s of
             Inl r \<Rightarrow> r
           | Inr nums \<Rightarrow> if nums < 4 then partly_match else exact_match))"

definition accepted :: "filter_type \<Rightarrow> match_type \<Rightarrow> bool" where
  "accepted filt mt \<longleftrightarrow>
     filt = FILTER_RELAXED \<and> mt \<noteq> no_match \<or> filt = FILTER_STRICT \<and> mt = exact_match"

definition strncmp_eq :: "string \<Rightarrow> string \<Rightarrow> nat \<Rightarrow> bool" where
  "strncmp_eq s t n \<longleftrightarrow> take n s = take n t"

definition cmd_word_match ::
    "(string \<Rightarrow> bool) \<Rightarrow> cmd_token \<Rightarrow> filter_type \<Rightarrow> string option \<Rightarrow> match_type" where
  "cmd_word_match inet_pton token filt word =
     (if filt = FILTER_RELAXED \<and> (word = None \<or> word = Some []) then partly_match
      else
        (case word of
           None \<Rightarrow> no_match
         | Some w \<Rightarrow>
             (case token of
                TOKEN_TERMINAL t str d \<Rightarrow>
                  (case t of
                     TERMINAL_VARARG \<Rightarrow> vararg_match
                   | TERMINAL_RANGE \<Rightarrow> if cmd_range_match str (Some w) then range_match else no_match
                   | TERMINAL_IPV6 \<Rightarrow>
                       if accepted filt (cmd_ipv6_match inet_pton (Some w)) then ipv6_match else no_match
                   | TERMINAL_IPV6_PREFIX \<Rightarrow>
                       if accepted filt (cmd_ipv6_prefix_match (Some w)) then ipv6_prefix_match else no_match
                   | TERMINAL_IPV4 \<Rightarrow>
                       if accepted filt (cmd_ipv4_match (Some w)) then ipv4_match else no_match
                   | TERMINAL_IPV4_PREFIX \<Rightarrow>
                       if accepted filt (cmd_ipv4_prefix_match (Some w)) then ipv4_prefix_match else no_match
                   | TERMINAL_OPTION \<Rightarrow> extend_match
                   | TERMINAL_VARIABLE \<Rightarrow> extend_match
                   | TERMINAL_LITERAL \<Rightarrow>
                       if filt = FILTER_RELAXED \<and> strncmp_eq str w (length w) then
                         (if str = w then exact_match else partly_match)
                       else if filt = FILTER_STRICT \<and> str = w then exact_match
                       else no_match
                   | TERMINAL_BUG \<Rightarrow> no_match)
              | _ \<Rightarrow> no_match)))"

section \<open>The matcher\<close>

text \<open>
  \<^verbatim>\<open>struct cmd_matcher\<close> without the command.  \<open>m_match_type\<close> is \<open>None\<close> for a NULL pointer;
  \<open>m_match\<close> is \<open>None\<close> for a NULL pointer and \<open>Some None\<close> while the vector does not exist.
\<close>

record cmd_matcher =
  m_filter :: filter_type
  m_vline :: "string option list"
  m_index :: nat
  m_match_type :: "match_type option"
  m_match :: "cmd_token list option option"
  m_word_index :: nat

definition CMD_ARGC_MAX :: nat where "CMD_ARGC_MAX = 25"

text \<open>
  An argument array with its count is the list of the arguments pushed so far (NULL is \<open>None\<close>);
  \<open>None\<close> stands for the call without \<^verbatim>\<open>argc\<close> and \<^verbatim>\<open>argv\<close>.
\<close>

type_synonym args = "string option list option"

definition cmd_matcher_init ::
    "filter_type \<Rightarrow> string option list \<Rightarrow> nat \<Rightarrow> bool \<Rightarrow> cmd_token list option option \<Rightarrow> cmd_matcher" where
  "cmd_matcher_init filt vline index mt mat =
     \<lparr>m_filter = filt, m_vline = vline, m_index = index,
      m_match_type = (if mt then Some no_match else None), m_match = mat, m_word_index = 0\<rparr>"

definition cmd_matcher_get_word :: "cmd_matcher \<Rightarrow> string option" where
  "cmd_matcher_get_word m = m_vline m ! m_word_index m"

definition cmd_matcher_words_left :: "cmd_matcher \<Rightarrow> bool" where
  "cmd_matcher_words_left m \<longleftrightarrow> m_word_index m < length (m_vline m)"

definition push_argument :: "args \<Rightarrow> string option \<Rightarrow> bool \<times> args" where
  "push_argument av arg =
     (let a = (if arg = Some [] then None else arg) in
      case av of
        None \<Rightarrow> (True, None)
      | Some xs \<Rightarrow> if length xs \<ge> CMD_ARGC_MAX then (False, av) else (True, Some (xs @ [a])))"

definition cmd_matcher_record_match :: "cmd_matcher \<Rightarrow> match_type \<Rightarrow> cmd_token \<Rightarrow> cmd_matcher" where
  "cmd_matcher_record_match m mt token =
     (if m_word_index m \<noteq> m_index m then m
      else
        (let m1 = (case m_match m of
                     None \<Rightarrow> m
                   | Some None \<Rightarrow> m\<lparr>m_match := Some (Some [token])\<rparr>
                   | Some (Some ts) \<Rightarrow> m\<lparr>m_match := Some (Some (ts @ [token]))\<rparr>)
         in (case m_match_type m1 of
               None \<Rightarrow> m1
             | Some old \<Rightarrow> if mt > old then m1\<lparr>m_match_type := Some mt\<rparr> else m1)))"

fun vararg_loop :: "string option list \<Rightarrow> args \<Rightarrow> args" where
  "vararg_loop [] av = av"
| "vararg_loop (w # ws) av =
     vararg_loop ws (if w \<noteq> None \<and> w \<noteq> Some [] then snd (push_argument av w) else av)"

definition cmd_matcher_match_terminal ::
    "(string \<Rightarrow> bool) \<Rightarrow> cmd_matcher \<Rightarrow> cmd_token \<Rightarrow> args \<Rightarrow> matcher_rv \<times> cmd_matcher \<times> args" where
  "cmd_matcher_match_terminal inet_pton m token av =
     (if \<not> cmd_matcher_words_left m then
        (if terminal token = TERMINAL_OPTION then (MATCHER_OK, m, av) else (MATCHER_INCOMPLETE, m, av))
      else
        (let word = cmd_matcher_get_word m;
             wm = cmd_word_match inet_pton token (m_filter m) word in
         if wm = no_match then (MATCHER_NO_MATCH, m, av)
         else
           (case (if TERMINAL_RECORD (terminal token) then push_argument av word else (True, av)) of
              (ok, av1) \<Rightarrow>
                if \<not> ok then (MATCHER_EXCEED_ARGC_MAX, m, av1)
                else
                  (let m1 = cmd_matcher_record_match m wm token;
                       m2 = m1\<lparr>m_word_index := m_word_index m1 + 1\<rparr> in
                   if terminal token = TERMINAL_VARARG then
                     (MATCHER_OK, m2\<lparr>m_word_index := max (m_word_index m2) (length (m_vline m2))\<rparr>,
                      vararg_loop (drop (m_word_index m2) (m_vline m2)) av1)
                   else (MATCHER_OK, m2, av1)))))"

fun multiple_loop ::
    "(string \<Rightarrow> bool) \<Rightarrow> cmd_token list \<Rightarrow> string option \<Rightarrow> cmd_matcher \<Rightarrow> match_type \<Rightarrow> string option \<Rightarrow>
     cmd_matcher \<times> match_type \<times> string option" where
  "multiple_loop inet_pton [] word m best arg = (m, best, arg)"
| "multiple_loop inet_pton (t # ts) word m best arg =
     (let wm = cmd_word_match inet_pton t (m_filter m) word in
      if wm = no_match then multiple_loop inet_pton ts word m best arg
      else
        (let m1 = cmd_matcher_record_match m wm t in
         if wm > best then multiple_loop inet_pton ts word m1 wm word
         else multiple_loop inet_pton ts word m1 best arg))"

definition cmd_matcher_match_multiple ::
    "(string \<Rightarrow> bool) \<Rightarrow> cmd_matcher \<Rightarrow> cmd_token \<Rightarrow> args \<Rightarrow> matcher_rv \<times> cmd_matcher \<times> args" where
  "cmd_matcher_match_multiple inet_pton m token av =
     (if \<not> cmd_matcher_words_left m then (MATCHER_INCOMPLETE, m, av)
      else
        (case multiple_loop inet_pton (multiple token) (cmd_matcher_get_word m) m no_match None of
           (m1, best, arg) \<Rightarrow>
             (let m2 = m1\<lparr>m_word_index := m_word_index m1 + 1\<rparr> in
              if best = no_match then (MATCHER_NO_MATCH, m2, av)
              else
                (case push_argument av arg of
                   (ok, av1) \<Rightarrow> (if ok then MATCHER_OK else MATCHER_EXCEED_ARGC_MAX, m2, av1)))))"

section \<open>Keyword tokens\<close>

text \<open>\<open>1 << i\<close> is an \<^verbatim>\<open>int\<close>, widened to the \<^verbatim>\<open>unsigned long\<close> mask.\<close>

definition keyword_bit :: "nat \<Rightarrow> u64" where
  "keyword_bit i = scast (push_bit i (1 :: u32))"

text \<open>
  The scan of the keyword heads for one word: \<open>None\<close> is the early \<^verbatim>\<open>MATCHER_AMBIGUOUS\<close>, otherwise
  the best match and its index; \<open>collect\<close> says whether an argument vector was given.
\<close>

fun keyword_scan ::
    "(string \<Rightarrow> bool) \<Rightarrow> bool \<Rightarrow> u64 \<Rightarrow> string option \<Rightarrow> nat \<Rightarrow> cmd_token list list \<Rightarrow> cmd_matcher \<Rightarrow>
     match_type \<Rightarrow> nat option \<Rightarrow> cmd_matcher \<times> nat option option" where
  "keyword_scan inet_pton collect kmask word i [] m best found = (m, Some found)"
| "keyword_scan inet_pton collect kmask word i (kv # kvs) m best found =
     (if kmask AND keyword_bit i \<noteq> 0 then
        keyword_scan inet_pton collect kmask word (i + 1) kvs m best found
      else
        (let wm = cmd_word_match inet_pton (hd kv) (m_filter m) word in
         if wm = no_match then keyword_scan inet_pton collect kmask word (i + 1) kvs m best found
         else
           (let m1 = cmd_matcher_record_match m wm (hd kv) in
            if wm > best then keyword_scan inet_pton collect kmask word (i + 1) kvs m1 wm (Some i)
            else if wm = best \<and> (m_word_index m1 \<noteq> m_index m1 \<or> collect) then (m1, None)
            else keyword_scan inet_pton collect kmask word (i + 1) kvs m1 best found)))"

text \<open>
  The arguments of a keyword: a first component \<open>Some rv\<close> is a \<^verbatim>\<open>return\<close> from the function.
  A nested keyword token leaves \<open>rv\<close> as it was.
\<close>

fun keyword_args_loop ::
    "(string \<Rightarrow> bool) \<Rightarrow> cmd_token list \<Rightarrow> matcher_rv \<Rightarrow> cmd_matcher \<Rightarrow> args \<Rightarrow>
     matcher_rv option \<times> matcher_rv \<times> cmd_matcher \<times> args" where
  "keyword_args_loop inet_pton [] rv m av = (None, rv, m, av)"
| "keyword_args_loop inet_pton (t # ts) rv m av =
     (case (case t of
              TOKEN_TERMINAL _ _ _ \<Rightarrow> cmd_matcher_match_terminal inet_pton m t av
            | TOKEN_MULTIPLE _ \<Rightarrow> cmd_matcher_match_multiple inet_pton m t av
            | TOKEN_KEYWORD _ \<Rightarrow> (rv, m, av)) of
        (rv1, m1, av1) \<Rightarrow>
          if MATCHER_ERROR rv1 then (Some rv1, rv1, m1, av1)
          else if m_word_index m1 > m_index m1 then (Some MATCHER_OK, rv1, m1, av1)
          else keyword_args_loop inet_pton ts rv1 m1 av1)"

text \<open>
  The loop of \<^verbatim>\<open>cmd_matcher_read_keywords\<close>.  \<open>args\<close> is the vector of argument arrays; the array
  stored for a keyword is filled in place, so it is written with its final content.  The bound
  \<open>n\<close> is the number of words: every round consumes one.
\<close>

fun read_keywords_loop ::
    "nat \<Rightarrow> (string \<Rightarrow> bool) \<Rightarrow> cmd_token list list \<Rightarrow> u64 \<Rightarrow> matcher_rv \<Rightarrow> cmd_matcher \<Rightarrow>
     string option list option list option \<Rightarrow>
     matcher_rv \<times> cmd_matcher \<times> string option list option list option" where
  "read_keywords_loop 0 inet_pton kvs kmask rv m args = (MATCHER_OK, m, args)"
| "read_keywords_loop (Suc n) inet_pton kvs kmask rv m args =
     (if \<not> cmd_matcher_words_left m then (MATCHER_OK, m, args)
      else
        (case keyword_scan inet_pton (args \<noteq> None) kmask (cmd_matcher_get_word m) 0 kvs m no_match None of
           (m1, None) \<Rightarrow> (MATCHER_AMBIGUOUS, m1, args)
         | (m1, Some None) \<Rightarrow> (MATCHER_NO_MATCH, m1, args)
         | (m1, Some (Some found)) \<Rightarrow>
             (let m2 = m1\<lparr>m_word_index := m_word_index m1 + 1\<rparr> in
              if m_word_index m2 > m_index m2 then (MATCHER_OK, m2, args)
              else
                (case keyword_args_loop inet_pton (tl (kvs ! found)) rv m2
                        (map_option (\<lambda>_. []) args) of
                   (ret, rv1, m3, kargv) \<Rightarrow>
                     (let args1 = (case (args, kargv) of
                                     (Some as, Some ks) \<Rightarrow> Some (list_put as found (Some ks))
                                   | _ \<Rightarrow> None) in
                      case ret of
                        Some r \<Rightarrow> (r, m3, args1)
                      | None \<Rightarrow>
                          read_keywords_loop n inet_pton kvs (kmask OR keyword_bit found) rv1 m3 args1)))))"

definition cmd_matcher_read_keywords ::
    "(string \<Rightarrow> bool) \<Rightarrow> cmd_matcher \<Rightarrow> cmd_token \<Rightarrow> string option list option list option \<Rightarrow>
     matcher_rv \<times> cmd_matcher \<times> string option list option list option" where
  "cmd_matcher_read_keywords inet_pton m token args =
     read_keywords_loop (Suc (length (m_vline m))) inet_pton (keyword token) 0 MATCHER_NO_MATCH m args"

text \<open>Pushing several arguments, remembering whether one did not fit.\<close>

fun push_all :: "args \<Rightarrow> string option list \<Rightarrow> matcher_rv \<Rightarrow> matcher_rv \<times> args" where
  "push_all av [] rv = (rv, av)"
| "push_all av (a # as) rv =
     (case push_argument av a of (ok, av1) \<Rightarrow> push_all av1 as (if ok then rv else MATCHER_EXCEED_ARGC_MAX))"

definition records_argument :: "cmd_token \<Rightarrow> bool" where
  "records_argument t =
     (case t of
        TOKEN_TERMINAL tt _ _ \<Rightarrow> TERMINAL_RECORD tt
      | TOKEN_MULTIPLE _ \<Rightarrow> True
      | TOKEN_KEYWORD _ \<Rightarrow> False)"

fun build_keyword_loop ::
    "nat \<Rightarrow> cmd_token list list \<Rightarrow> string option list option list \<Rightarrow> args \<Rightarrow> matcher_rv \<Rightarrow> matcher_rv \<times> args" where
  "build_keyword_loop i [] kargs av rv = (rv, av)"
| "build_keyword_loop i (kv # kvs) kargs av rv =
     (let found = (if i < length kargs then kargs ! i else None);
          as = (if length kv = 1 then
                  [if found \<noteq> None then Some (cmd (hd kv)) else None]
                else
                  (case found of
                     Some ks \<Rightarrow> ks
                   | None \<Rightarrow> map (\<lambda>_. None) (filter records_argument (tl kv)))) in
      case push_all av as rv of
        (rv1, av1) \<Rightarrow> build_keyword_loop (i + 1) kvs kargs av1 rv1)"

definition cmd_matcher_build_keyword_args ::
    "cmd_token \<Rightarrow> args \<Rightarrow> string option list option list option \<Rightarrow> matcher_rv \<times> args" where
  "cmd_matcher_build_keyword_args token av kargs =
     (case kargs of
        None \<Rightarrow> (MATCHER_OK, av)
      | Some ks \<Rightarrow> build_keyword_loop 0 (keyword token) ks av MATCHER_OK)"

definition cmd_matcher_match_keyword ::
    "(string \<Rightarrow> bool) \<Rightarrow> cmd_matcher \<Rightarrow> cmd_token \<Rightarrow> args \<Rightarrow> matcher_rv \<times> cmd_matcher \<times> args" where
  "cmd_matcher_match_keyword inet_pton m token av =
     (case cmd_matcher_read_keywords inet_pton m token (map_option (\<lambda>_. []) av) of
        (reader_rv, m1, kargs) \<Rightarrow>
          (case cmd_matcher_build_keyword_args token av kargs of
             (builder_rv, av1) \<Rightarrow>
               (if \<not> MATCHER_ERROR reader_rv \<and> MATCHER_ERROR builder_rv then builder_rv else reader_rv,
                m1, av1)))"

section \<open>A command against a line\<close>

fun element_match_loop ::
    "(string \<Rightarrow> bool) \<Rightarrow> cmd_token list \<Rightarrow> cmd_matcher \<Rightarrow> args \<Rightarrow> matcher_rv option \<times> cmd_matcher \<times> args" where
  "element_match_loop inet_pton [] m av = (None, m, av)"
| "element_match_loop inet_pton (t # ts) m av =
     (case (case t of
              TOKEN_TERMINAL _ _ _ \<Rightarrow> cmd_matcher_match_terminal inet_pton m t av
            | TOKEN_MULTIPLE _ \<Rightarrow> cmd_matcher_match_multiple inet_pton m t av
            | TOKEN_KEYWORD _ \<Rightarrow> cmd_matcher_match_keyword inet_pton m t av) of
        (rv, m1, av1) \<Rightarrow>
          if MATCHER_ERROR rv then (Some rv, m1, av1)
          else if m_word_index m1 > m_index m1 then (Some MATCHER_OK, m1, av1)
          else element_match_loop inet_pton ts m1 av1)"

text \<open>
  \<^verbatim>\<open>cmd_element_match\<close>: the result with the match type, the collected matches and the
  arguments, each where the caller passed a pointer for it.
\<close>

definition cmd_element_match ::
    "(string \<Rightarrow> bool) \<Rightarrow> cmd_token list \<Rightarrow> filter_type \<Rightarrow> string option list \<Rightarrow> nat \<Rightarrow> bool \<Rightarrow>
     cmd_token list option option \<Rightarrow> bool \<Rightarrow>
     matcher_rv \<times> match_type option \<times> cmd_token list option option \<times> args" where
  "cmd_element_match inet_pton tokens filt vline index mt mat want_args =
     (case element_match_loop inet_pton tokens (cmd_matcher_init filt vline index mt mat)
             (if want_args then Some [] else None) of
        (ret, m, av) \<Rightarrow>
          (case ret of
             Some rv \<Rightarrow> rv
           | None \<Rightarrow>
               if m_word_index m \<ge> length vline then MATCHER_COMPLETE
               else if m_word_index m = length vline - 1 \<and>
                       (vline ! m_word_index m = None \<or> vline ! m_word_index m = Some [])
               then MATCHER_COMPLETE
               else MATCHER_NO_MATCH,
           m_match_type m, m_match m, av))"

section \<open>Address matching\<close>

definition octet_ok :: "string \<Rightarrow> bool" where
  "octet_ok s \<longleftrightarrow> length s \<le> 3 \<and> list_all c_isdigit s \<and> dec_val s \<le> 255"

fun join_dots :: "string list \<Rightarrow> string" where
  "join_dots [] = []"
| "join_dots [s] = s"
| "join_dots (s # t # ss) = s @ CHR ''.'' # join_dots (t # ss)"

lemma octet_loop_digits:
  "list_all c_isdigit ds \<Longrightarrow> octet_loop pref dots sp (ds @ r) = octet_loop pref dots (sp @ ds) r"
  by (induction ds arbitrary: sp) (auto simp: digit_not_space)

lemma octet_loop_Inr:
  assumes "octet_loop False dots sp str = Inr (d, ds, r)"
  obtains xs where "str = xs @ r" "ds = sp @ xs" "list_all c_isdigit xs"
    "r = [] \<and> d = dots \<or>
     d = Suc dots \<and> dots < 3 \<and> (\<exists>x r'. r = CHR ''.'' # x # r' \<and> x \<noteq> CHR ''.'')"
proof -
  let ?xs = "takeWhile c_isdigit str" and ?r = "dropWhile c_isdigit str"
  have x: "list_all c_isdigit ?xs" by (auto simp: list_all_iff dest: set_takeWhileD)
  then have e: "octet_loop False dots sp str = octet_loop False dots (sp @ ?xs) ?r"
    using octet_loop_digits [of ?xs False dots sp ?r] by simp
  show ?thesis
  proof (cases ?r)
    case Nil
    then have xs: "?xs = str" using takeWhile_dropWhile_id [of c_isdigit str] by simp
    with e assms x Nil that [of str] show ?thesis by simp
  next
    case (Cons c r')
    then have "\<not> c_isdigit c" by (metis hd_dropWhile list.distinct(1) list.sel(1))
    with e assms x that [of ?xs] takeWhile_dropWhile_id [of c_isdigit str] Cons show ?thesis
      by (cases r') (auto simp: cur_def split: if_splits)
  qed
qed

lemma octet_loop_end: "list_all c_isdigit xs \<Longrightarrow> octet_loop False dots [] xs = Inr (dots, xs, [])"
  using octet_loop_digits [of xs False dots "[]" "[]"] by simp

lemma octet_loop_dot:
  "list_all c_isdigit xs \<Longrightarrow> dots < 3 \<Longrightarrow> x \<noteq> CHR ''.'' \<Longrightarrow>
   octet_loop False dots [] (xs @ CHR ''.'' # x # r) = Inr (Suc dots, xs, CHR ''.'' # x # r)"
  using octet_loop_digits [of xs False dots "[]" "CHR ''.'' # x # r"] by (simp add: cur_def)

declare ipv4_loop.simps [simp del] ipv4_prefix_loop.simps [simp del]

lemma ipv4_loop_sound:
  "ipv4_loop dots nums str = Inr k \<Longrightarrow>
   \<exists>os. os \<noteq> [] \<and> str = join_dots os \<and> k = nums + length os \<and> (dots \<le> 3 \<longrightarrow> dots + length os \<le> 4) \<and>
        list_all octet_ok os \<and> [] \<notin> set (tl os)"
proof (induction dots nums str rule: ipv4_loop.induct)
  case (1 dots nums str)
  from "1.prems" obtain d ds r where o: "octet_loop False dots [] str = Inr (d, ds, r)"
    by (subst (asm) ipv4_loop.simps) (auto split: sum.splits)
  then obtain str_eq: "str = ds @ r" and dig: "list_all c_isdigit ds"
    and r: "r = [] \<and> d = dots \<or>
     d = Suc dots \<and> dots < 3 \<and> (\<exists>x r'. r = CHR ''.'' # x # r' \<and> x \<noteq> CHR ''.'')"
    by (rule octet_loop_Inr) auto
  from "1.prems" o have len: "length ds \<le> 3" and v: "\<not> c_atoi ds > 255"
    and k: "if r = [] then k = nums + 1 else ipv4_loop d (nums + 1) (tl r) = Inr k"
    by (subst (asm) ipv4_loop.simps, auto split: if_splits)+
  have ok: "octet_ok ds"
    using len dig v c_atoi_short [OF dig len] by (simp add: octet_ok_def)
  show ?case
  proof (cases "r = []")
    case True
    with k str_eq ok r show ?thesis by (intro exI [of _ "[ds]"]) auto
  next
    case False
    with r obtain x r' where x: "d = Suc dots" "dots < 3" "r = CHR ''.'' # x # r'" "x \<noteq> CHR ''.''" by auto
    from "1.IH" [OF o refl refl] len v False k obtain os where os: "os \<noteq> []" "x # r' = join_dots os"
      "k = nums + 1 + length os" "d \<le> 3 \<longrightarrow> d + length os \<le> 4" "list_all octet_ok os" "[] \<notin> set (tl os)"
      using x by auto
    moreover have "hd os \<noteq> []"
      using os(1,2) x(4) by (cases os; cases "tl os") auto
    ultimately show ?thesis
      using str_eq x ok by (intro exI [of _ "ds # os"]) (cases os; auto)
  qed
qed

lemma ipv4_loop_complete:
  "os \<noteq> [] \<Longrightarrow> dots + length os \<le> 4 \<Longrightarrow> list_all octet_ok os \<Longrightarrow> [] \<notin> set (tl os) \<Longrightarrow>
   ipv4_loop dots nums (join_dots os) = Inr (nums + length os)"
proof (induction os arbitrary: dots nums rule: join_dots.induct)
  case (2 s)
  then show ?case
    by (subst ipv4_loop.simps) (simp add: octet_ok_def octet_loop_end c_atoi_short)
next
  case (3 s t ss)
  from 3 obtain x r where t: "join_dots (t # ss) = x # r" and xd: "c_isdigit x"
    by (cases t; cases ss) (auto simp: octet_ok_def)
  have "ipv4_loop dots nums (join_dots (s # t # ss)) = ipv4_loop (Suc dots) (Suc nums) (join_dots (t # ss))"
    using 3 t digit_not_space [OF xd]
    by (subst ipv4_loop.simps) (simp add: octet_ok_def octet_loop_dot c_atoi_short)
  with 3 show ?case by (cases ss) auto
qed simp

section \<open>Invariants of the matcher\<close>

definition m_step :: "cmd_matcher \<Rightarrow> cmd_matcher \<Rightarrow> bool" where
  "m_step m m' \<longleftrightarrow>
     m_vline m' = m_vline m \<and> m_index m' = m_index m \<and> m_filter m' = m_filter m \<and>
     m_word_index m \<le> m_word_index m' \<and>
     (m_word_index m \<le> length (m_vline m) \<longrightarrow> m_word_index m' \<le> length (m_vline m))"

definition args_ok :: "args \<Rightarrow> bool" where
  "args_ok av \<longleftrightarrow> (case av of None \<Rightarrow> True | Some xs \<Rightarrow> length xs \<le> CMD_ARGC_MAX)"

lemma m_step_refl [simp]: "m_step m m"
  by (simp add: m_step_def)

lemma m_step_trans: "m_step m m' \<Longrightarrow> m_step m' m'' \<Longrightarrow> m_step m m''"
  by (auto simp: m_step_def)

lemma record_match_same:
  "m_vline (cmd_matcher_record_match m mt t) = m_vline m"
  "m_index (cmd_matcher_record_match m mt t) = m_index m"
  "m_filter (cmd_matcher_record_match m mt t) = m_filter m"
  "m_word_index (cmd_matcher_record_match m mt t) = m_word_index m"
  by (auto simp: cmd_matcher_record_match_def Let_def split: option.splits)

lemma push_argument_ok: "args_ok av \<Longrightarrow> push_argument av a = (ok, av') \<Longrightarrow> args_ok av'"
  by (auto simp: push_argument_def args_ok_def Let_def split: option.splits if_splits)

lemma push_argument_None: "push_argument av a = (ok, av') \<Longrightarrow> av' = None \<longleftrightarrow> av = None"
  by (auto simp: push_argument_def Let_def split: option.splits if_splits)

lemma vararg_loop_ok: "args_ok av \<Longrightarrow> args_ok (vararg_loop ws av)"
proof (induction ws av rule: vararg_loop.induct)
  case (2 w ws av)
  then show ?case using push_argument_ok [of av w] by (cases "push_argument av w") auto
qed simp

lemma match_terminal_ok:
  assumes "cmd_matcher_match_terminal inet m t av = (rv, m', av')" "args_ok av"
  shows "m_step m m' \<and> args_ok av'"
proof (cases "cmd_matcher_words_left m")
  case False
  with assms show ?thesis by (auto simp: cmd_matcher_match_terminal_def split: if_splits)
next
  case True
  let ?w = "cmd_matcher_get_word m"
  obtain ok av1 where p: "(if TERMINAL_RECORD (terminal t) then push_argument av ?w else (True, av)) = (ok, av1)"
    by fastforce
  with assms(2) push_argument_ok [of av ?w ok av1] have "args_ok av1" by (auto split: if_splits)
  with assms True p show ?thesis
    by (auto simp: cmd_matcher_match_terminal_def Let_def m_step_def record_match_same
        cmd_matcher_words_left_def vararg_loop_ok split: if_splits)
qed

lemma multiple_loop_step: "multiple_loop inet ts w m best arg = (m', best', arg') \<Longrightarrow>
    m_vline m' = m_vline m \<and> m_index m' = m_index m \<and> m_filter m' = m_filter m \<and> m_word_index m' = m_word_index m"
  by (induction inet ts w m best arg rule: multiple_loop.induct)
     (auto simp: Let_def record_match_same split: if_splits)

lemma match_multiple_ok:
  assumes "cmd_matcher_match_multiple inet m t av = (rv, m', av')" "args_ok av"
  shows "m_step m m' \<and> args_ok av'"
proof (cases "cmd_matcher_words_left m")
  case False
  with assms show ?thesis by (auto simp: cmd_matcher_match_multiple_def)
next
  case True
  obtain m1 best arg where l: "multiple_loop inet (multiple t) (cmd_matcher_get_word m) m no_match None = (m1, best, arg)"
    using prod_cases3 by blast
  obtain ok av1 where p: "push_argument av arg = (ok, av1)" by fastforce
  from assms True l p push_argument_ok [OF assms(2) p] multiple_loop_step [OF l] show ?thesis
    by (auto simp: cmd_matcher_match_multiple_def Let_def m_step_def cmd_matcher_words_left_def split: if_splits)
qed

lemma keyword_scan_step:
  "keyword_scan inet col msk w i kvs m best found = (m', r) \<Longrightarrow>
    m_vline m' = m_vline m \<and> m_index m' = m_index m \<and> m_filter m' = m_filter m \<and> m_word_index m' = m_word_index m"
proof (induction kvs arbitrary: i m best found)
  case (Cons kv kvs)
  let ?wm = "cmd_word_match inet (hd kv) (m_filter m) w"
  let ?m1 = "cmd_matcher_record_match m ?wm (hd kv)"
  from Cons.prems have "m' = ?m1 \<or> (\<exists>i' m2 b f. (m2 = m \<or> m2 = ?m1) \<and>
      keyword_scan inet col msk w i' kvs m2 b f = (m', r))"
    by (simp only: keyword_scan.simps Let_def split: if_split_asm) blast+
  then show ?case using Cons.IH by (metis record_match_same)
qed simp

lemma keyword_args_loop_ok:
  "keyword_args_loop inet ts rv m av = (ret, rv', m', av') \<Longrightarrow> args_ok av \<Longrightarrow> m_step m m' \<and> args_ok av'"
proof (induction ts arbitrary: rv m av)
  case (Cons t ts)
  obtain rv1 m1 av1 where s: "(case t of
              TOKEN_TERMINAL _ _ _ \<Rightarrow> cmd_matcher_match_terminal inet m t av
            | TOKEN_MULTIPLE _ \<Rightarrow> cmd_matcher_match_multiple inet m t av
            | TOKEN_KEYWORD _ \<Rightarrow> (rv, m, av)) = (rv1, m1, av1)"
    using prod_cases3 by blast
  with Cons.prems(2) have "m_step m m1 \<and> args_ok av1"
    using match_terminal_ok [of inet m t av] match_multiple_ok [of inet m t av]
    by (cases t) auto
  with Cons.IH [of rv1 m1 av1] Cons.prems s show ?case
    by (auto split: if_splits intro: m_step_trans)
qed simp

lemma read_keywords_loop_step:
  "read_keywords_loop n inet kvs msk rv m kargs = (rv', m', kargs') \<Longrightarrow> m_step m m'"
proof (induction n arbitrary: msk rv m kargs)
  case (Suc n)
  show ?case
  proof (cases "cmd_matcher_words_left m")
    case True
    obtain m1 r where s: "keyword_scan inet (kargs \<noteq> None) msk (cmd_matcher_get_word m) 0 kvs m no_match None = (m1, r)"
      by fastforce
    note sc = keyword_scan_step [OF s]
    let ?m2 = "m1\<lparr>m_word_index := m_word_index m1 + 1\<rparr>"
    have m1: "m_step m m1" and m2: "m_step m ?m2"
      using sc True by (auto simp: m_step_def cmd_matcher_words_left_def)
    show ?thesis
    proof (cases "\<exists>found. r = Some (Some found) \<and> \<not> m_word_index ?m2 > m_index ?m2")
      case False
      with Suc.prems True s m1 m2 show ?thesis
        by (auto simp: Let_def split: option.splits if_splits)
    next
      case nested: True
      then obtain found where f: "r = Some (Some found)" "\<not> m_word_index ?m2 > m_index ?m2" by blast
      obtain ret rv1 m3 kargv where l: "keyword_args_loop inet (tl (kvs ! found)) rv ?m2
          (map_option (\<lambda>_. []) kargs) = (ret, rv1, m3, kargv)" using prod_cases4 by blast
      have "args_ok (map_option (\<lambda>_. []) kargs)" by (cases kargs) (simp_all add: args_ok_def)
      with keyword_args_loop_ok [OF l] m2 have m3: "m_step m m3" by (auto intro: m_step_trans)
      with Suc.prems True s f l Suc.IH show ?thesis
        by (auto simp: Let_def split: option.splits dest!: Suc.IH intro: m_step_trans)
    qed
  qed (use Suc.prems in simp)
qed simp

lemma push_all_ok: "args_ok av \<Longrightarrow> push_all av as rv = (rv', av') \<Longrightarrow> args_ok av'"
  by (induction av as rv rule: push_all.induct) (auto split: prod.splits dest: push_argument_ok)

lemma build_keyword_loop_ok:
  "args_ok av \<Longrightarrow> build_keyword_loop i kvs kargs av rv = (rv', av') \<Longrightarrow> args_ok av'"
proof (induction kvs arbitrary: i av rv)
  case (Cons kv kvs)
  then show ?case by (auto simp: Let_def split: prod.splits dest: push_all_ok)
qed simp

lemma match_keyword_ok:
  assumes "cmd_matcher_match_keyword inet m t av = (rv, m', av')" "args_ok av"
  shows "m_step m m' \<and> args_ok av'"
proof -
  obtain r m1 kargs where r: "cmd_matcher_read_keywords inet m t (map_option (\<lambda>_. []) av) = (r, m1, kargs)"
    using prod_cases3 by blast
  obtain b av1 where b: "cmd_matcher_build_keyword_args t av kargs = (b, av1)" by fastforce
  have "m_step m m1"
    using r unfolding cmd_matcher_read_keywords_def by (rule read_keywords_loop_step)
  moreover have "args_ok av1"
    using b assms(2) build_keyword_loop_ok
    by (auto simp: cmd_matcher_build_keyword_args_def split: option.splits)
  ultimately show ?thesis using assms(1) r b by (simp add: cmd_matcher_match_keyword_def)
qed

lemma element_match_loop_ok:
  "element_match_loop inet ts m av = (ret, m', av') \<Longrightarrow> args_ok av \<Longrightarrow> m_step m m' \<and> args_ok av'"
proof (induction ts arbitrary: m av)
  case (Cons t ts)
  obtain rv1 m1 av1 where s: "(case t of
              TOKEN_TERMINAL _ _ _ \<Rightarrow> cmd_matcher_match_terminal inet m t av
            | TOKEN_MULTIPLE _ \<Rightarrow> cmd_matcher_match_multiple inet m t av
            | TOKEN_KEYWORD _ \<Rightarrow> cmd_matcher_match_keyword inet m t av) = (rv1, m1, av1)"
    using prod_cases3 by blast
  with Cons.prems(2) have "m_step m m1 \<and> args_ok av1"
    using match_terminal_ok [of inet m t av] match_multiple_ok [of inet m t av] match_keyword_ok [of inet m t av]
    by (cases t) auto
  with Cons.IH [of m1 av1] Cons.prems s show ?case
    by (auto split: if_splits intro: m_step_trans)
qed simp

lemma read_keywords_bound:
  "m_word_index m \<le> length (m_vline m) \<Longrightarrow> length (m_vline m) - m_word_index m < n \<Longrightarrow>
   length (m_vline m) - m_word_index m < n' \<Longrightarrow>
   read_keywords_loop n inet kvs msk rv m kargs = read_keywords_loop n' inet kvs msk rv m kargs"
proof (induction n arbitrary: n' msk rv m kargs)
  case (Suc n)
  from Suc.prems(3) obtain k where k: "n' = Suc k" by (cases n') auto
  show ?case
  proof (cases "cmd_matcher_words_left m")
    case True
    obtain m1 r where s: "keyword_scan inet (kargs \<noteq> None) msk (cmd_matcher_get_word m) 0 kvs m no_match None = (m1, r)"
      by fastforce
    note sc = keyword_scan_step [OF s]
    let ?m2 = "m1\<lparr>m_word_index := m_word_index m1 + 1\<rparr>"
    have IH: "read_keywords_loop n inet kvs msk' rv' m3 as = read_keywords_loop k inet kvs msk' rv' m3 as"
      if "m_step ?m2 m3" for msk' rv' m3 as
      by (rule Suc.IH) (use that True sc Suc.prems k in \<open>auto simp: m_step_def cmd_matcher_words_left_def\<close>)
    have "m_step ?m2 m3" if "keyword_args_loop inet ts rv ?m2 (map_option (\<lambda>_. []) kargs) = (a, b, m3, c)"
      for ts a b m3 c
      using keyword_args_loop_ok [OF that] by (cases kargs) (simp_all add: args_ok_def)
    with IH s k show ?thesis
      by (simp add: Let_def split: option.splits prod.splits)
  qed (simp add: k)
qed simp

lemma octet_loop_no_exact: "octet_loop pref dots sp str \<noteq> Inl exact_match"
  by (induction pref dots sp str rule: octet_loop.induct) auto

lemma ipv4_loop_no_exact: "ipv4_loop dots nums str \<noteq> Inl exact_match"
proof (induction dots nums str rule: ipv4_loop.induct)
  case (1 dots nums str)
  then show ?case
    using octet_loop_no_exact [of False dots "[]" str]
    by (subst ipv4_loop.simps) (auto split: sum.splits)
qed

definition literal :: "string \<Rightarrow> cmd_token" where
  "literal c = TOKEN_TERMINAL TERMINAL_LITERAL c None"

lemma literal_loop:
  assumes "m_filter m = FILTER_STRICT" "length (m_vline m) \<le> m_index m"
    "drop (m_word_index m) (m_vline m) = map Some ws"
  shows "\<exists>m'. element_match_loop inet (map literal cs) m av =
      (if take (length cs) ws = cs then None
       else if length ws < length cs \<and> ws = take (length ws) cs then Some MATCHER_INCOMPLETE
       else Some MATCHER_NO_MATCH, m', av) \<and>
      (take (length cs) ws = cs \<longrightarrow> m_word_index m' = m_word_index m + length cs)"
  using assms
proof (induction cs arbitrary: m ws)
  case (Cons c cs)
  show ?case
  proof (cases ws)
    case Nil
    with Cons.prems have "\<not> cmd_matcher_words_left m" by (simp add: cmd_matcher_words_left_def)
    with Nil show ?thesis
      by (simp add: cmd_matcher_match_terminal_def literal_def MATCHER_ERROR_def)
  next
    case (Cons w ws')
    then have wl: "m_word_index m < length (m_vline m)"
      using Cons.prems(3) by (metis drop_all leI list.distinct(1) list.simps(9))
    then have gw: "cmd_matcher_get_word m = Some w" and d: "drop (Suc (m_word_index m)) (m_vline m) = map Some ws'"
      using Cons.prems(3) Cons by (auto simp: cmd_matcher_get_word_def Cons_nth_drop_Suc [symmetric])
    note t = cmd_matcher_match_terminal_def cmd_matcher_words_left_def wl gw Let_def literal_def
      cmd_word_match_def Cons.prems(1) MATCHER_ERROR_def
    show ?thesis
    proof (cases "w = c")
      case False
      with Cons show ?thesis by (simp add: t)
    next
      case True
      let ?m = "(cmd_matcher_record_match m exact_match (literal c))\<lparr>m_word_index := Suc (m_word_index m)\<rparr>"
      have e: "element_match_loop inet (map literal (c # cs)) m av = element_match_loop inet (map literal cs) ?m av"
      proof -
        have "\<not> m_index m < Suc (m_word_index m)" using wl Cons.prems(2) by simp
        with True show ?thesis by (simp add: t record_match_same)
      qed
      have "m_filter ?m = FILTER_STRICT" "length (m_vline ?m) \<le> m_index ?m"
        "drop (m_word_index ?m) (m_vline ?m) = map Some ws'"
        using d Cons.prems(1,2) by (simp_all add: record_match_same)
      from Cons.IH [OF this] obtain m' where "element_match_loop inet (map literal cs) ?m av =
          (if take (length cs) ws' = cs then None
           else if length ws' < length cs \<and> ws' = take (length ws') cs then Some MATCHER_INCOMPLETE
           else Some MATCHER_NO_MATCH, m', av)"
        "take (length cs) ws' = cs \<longrightarrow> m_word_index m' = Suc (m_word_index m) + length cs"
        by auto
      then show ?thesis unfolding e by (intro exI [of _ m']) (simp add: True Cons)
    qed
  qed
qed simp

lemmas addr_eval = c_isdigit_def cur_def nxt_def c_atoi_def c_strtol_def c_strto_def Let_def dec_val_def
  digit_val_def to_int32_def c_isspace_def

section \<open>Properties\<close>

text \<open>
  C27: \<^verbatim>\<open>cmd_ipv4_match\<close> answers \<^verbatim>\<open>exact_match\<close> on exactly the strings of four dot-separated groups of
  at most three decimal digits with values up to 255, of which only the first may be empty.
\<close>

theorem cmd_ipv4_match_exact:
  "cmd_ipv4_match (Some s) = exact_match \<longleftrightarrow>
     (\<exists>a b c d. s = a @ CHR ''.'' # b @ CHR ''.'' # c @ CHR ''.'' # d \<and>
        octet_ok a \<and> octet_ok b \<and> octet_ok c \<and> octet_ok d \<and> b \<noteq> [] \<and> c \<noteq> [] \<and> d \<noteq> [])"
proof
  assume "cmd_ipv4_match (Some s) = exact_match"
  then have "\<exists>k. ipv4_loop 0 0 s = Inr k \<and> 4 \<le> k"
    using ipv4_loop_no_exact [of 0 0 s] by (auto simp: cmd_ipv4_match_def split: sum.splits if_splits)
  then obtain os where os: "s = join_dots os" "length os = 4" "list_all octet_ok os" "[] \<notin> set (tl os)"
    using ipv4_loop_sound [of 0 0 s] by auto
  then obtain a b c d where "os = [a, b, c, d]" by (auto simp: numeral_eq_Suc length_Suc_conv)
  with os have "s = a @ CHR ''.'' # b @ CHR ''.'' # c @ CHR ''.'' # d \<and>
        octet_ok a \<and> octet_ok b \<and> octet_ok c \<and> octet_ok d \<and> b \<noteq> [] \<and> c \<noteq> [] \<and> d \<noteq> []" by auto
  then show "\<exists>a b c d. s = a @ CHR ''.'' # b @ CHR ''.'' # c @ CHR ''.'' # d \<and>
        octet_ok a \<and> octet_ok b \<and> octet_ok c \<and> octet_ok d \<and> b \<noteq> [] \<and> c \<noteq> [] \<and> d \<noteq> []"
    by blast
next
  assume "\<exists>a b c d. s = a @ CHR ''.'' # b @ CHR ''.'' # c @ CHR ''.'' # d \<and>
        octet_ok a \<and> octet_ok b \<and> octet_ok c \<and> octet_ok d \<and> b \<noteq> [] \<and> c \<noteq> [] \<and> d \<noteq> []"
  then obtain a b c d where "s = join_dots [a, b, c, d]" "list_all octet_ok [a, b, c, d]" "[] \<notin> set [b, c, d]"
    by auto
  then show "cmd_ipv4_match (Some s) = exact_match"
    using ipv4_loop_complete [of "[a, b, c, d]" 0 0] by (simp add: cmd_ipv4_match_def)
qed

text \<open>
  the address matchers accept texts that are not addresses: an IPv4 address with an empty
  first octet, a prefix whose address has a slash in place of a dot, and prefix lengths that wrap
  to a small or negative \<^verbatim>\<open>int\<close>.
\<close>

theorem address_match_accepts_wrong:
  "cmd_ipv4_match (Some ''.1.2.3'') = exact_match \<and>
   cmd_ipv4_prefix_match (Some ''1/2.3.4.5/8'') = exact_match \<and>
   cmd_ipv4_prefix_match (Some ''1.2.3.4/4294967297'') = exact_match \<and>
   cmd_ipv4_prefix_match (Some ''1.2.3.4/4294967295'') = exact_match"
  by (simp add: cmd_ipv4_match_def cmd_ipv4_prefix_match_def ipv4_loop.simps ipv4_prefix_loop.simps
      addr_eval)



text \<open>
  C29: whatever the command and the line, the argument array handed to a command never holds more
  than \<^verbatim>\<open>CMD_ARGC_MAX\<close> entries, keyword arguments included, and the matcher never reads a word past
  the end of the line.
\<close>

theorem cmd_element_match_bounds:
  assumes "element_match_loop inet_pton tokens (cmd_matcher_init filt vline index mt mat)
             (if want_args then Some [] else None) = (ret, m, av)"
  shows "m_word_index m \<le> length vline \<and> m_vline m = vline \<and>
    (case av of None \<Rightarrow> True | Some argv \<Rightarrow> length argv \<le> CMD_ARGC_MAX)"
  using element_match_loop_ok [OF assms]
  by (auto simp: args_ok_def m_step_def cmd_matcher_init_def split: if_splits)

theorem cmd_element_match_bounds_witness:
  "case element_match_loop (\<lambda>s. False) [TOKEN_TERMINAL TERMINAL_VARARG ''.LINE'' None]
      (cmd_matcher_init FILTER_STRICT (replicate 30 (Some ''x'')) 1000 False None) (Some []) of
    (ret, m, av) \<Rightarrow> (case av of None \<Rightarrow> True | Some argv \<Rightarrow> length argv \<le> 25)"
proof -
  obtain ret m av where r: "element_match_loop (\<lambda>s. False) [TOKEN_TERMINAL TERMINAL_VARARG ''.LINE'' None]
      (cmd_matcher_init FILTER_STRICT (replicate 30 (Some ''x'')) 1000 False None) (Some []) = (ret, m, av)"
    using prod_cases3 by blast
  then show ?thesis
    using cmd_element_match_bounds [of "\<lambda>s. False" "[TOKEN_TERMINAL TERMINAL_VARARG ''.LINE'' None]"
        FILTER_STRICT "replicate 30 (Some ''x'')" 1000 False None True ret m av]
    by (simp only: if_True CMD_ARGC_MAX_def) simp
qed

text \<open>
  \<^verbatim>\<open>cmd_matcher_read_keywords\<close> ends after at most one round per word left: the bound of the
  model plays no role, any larger one gives the same result.
\<close>

theorem cmd_matcher_read_keywords_ends:
  assumes "m_word_index m \<le> length (m_vline m)" and "length (m_vline m) < n"
  shows "cmd_matcher_read_keywords inet_pton m token kargs =
    read_keywords_loop n inet_pton (keyword token) 0 MATCHER_NO_MATCH m kargs"
  unfolding cmd_matcher_read_keywords_def
  by (rule read_keywords_bound) (use assms in simp_all)

theorem cmd_matcher_read_keywords_ends_witness:
  "cmd_matcher_read_keywords (\<lambda>s. False) (cmd_matcher_init FILTER_STRICT [Some ''a''] 7 False None)
     (TOKEN_KEYWORD [[literal ''a'']]) None =
   read_keywords_loop 100 (\<lambda>s. False) [[literal ''a'']] 0 MATCHER_NO_MATCH
     (cmd_matcher_init FILTER_STRICT [Some ''a''] 7 False None) None"
  using cmd_matcher_read_keywords_ends [of "cmd_matcher_init FILTER_STRICT [Some ''a''] 7 False None" 100
      "\<lambda>s. False" "TOKEN_KEYWORD [[literal ''a'']]" None]
  by (simp add: cmd_matcher_init_def del: read_keywords_loop.simps)

text \<open>
  C30: strict matching decides a command made of literals: it is complete on exactly its own words
  (also followed by one empty word), incomplete on exactly the proper prefixes of them, and does
  not match any other line.
\<close>

theorem cmd_element_match_literals:
  assumes "length ws < index"
  shows "fst (cmd_element_match inet_pton (map literal cs) FILTER_STRICT (map Some ws) index mt mat want_args) =
    (if ws = cs \<or> ws = cs @ [[]] then MATCHER_COMPLETE
     else if length ws < length cs \<and> ws = take (length ws) cs then MATCHER_INCOMPLETE
     else MATCHER_NO_MATCH)"
proof -
  let ?m = "cmd_matcher_init FILTER_STRICT (map Some ws) index mt mat"
  let ?av = "if want_args then Some [] else None"
  obtain m' where m': "element_match_loop inet_pton (map literal cs) ?m ?av =
      (if take (length cs) ws = cs then None
       else if length ws < length cs \<and> ws = take (length ws) cs then Some MATCHER_INCOMPLETE
       else Some MATCHER_NO_MATCH, m', ?av)"
    "take (length cs) ws = cs \<longrightarrow> m_word_index m' = length cs"
    using literal_loop [of ?m ws inet_pton cs ?av] assms by (auto simp: cmd_matcher_init_def)
  show ?thesis
  proof (cases "take (length cs) ws = cs")
    case False
    with m' show ?thesis by (auto simp: cmd_element_match_def)
  next
    case True
    then obtain r where r: "ws = cs @ r" by (metis append_take_drop_id)
    then show ?thesis using m' True
      by (cases r; cases "tl r") (auto simp: cmd_element_match_def nth_append)
  qed
qed

theorem cmd_element_match_literals_witness:
  "fst (cmd_element_match (\<lambda>s. False) (map literal [''show'', ''log'']) FILTER_STRICT
     (map Some [''show'', ''log'']) 4294967295 True None True) = MATCHER_COMPLETE"
  using cmd_element_match_literals [of "[''show'', ''log'']" 4294967295 "\<lambda>s. False" "[''show'', ''log'']" True None True]
  by simp

end
