(* ===== verification/Vty_Format.thy ===== *)
theory Vty_Format
  imports Vty_Match "HOL-Library.Monad_Syntax"
begin

text \<open>
  The parser of command format strings, \<^verbatim>\<open>cmd_parse_format\<close> of \<^verbatim>\<open>src/opbox/vty.c\<close>.  The parser
  builds vectors it keeps several pointers to, so the model has an explicit store of vectors:
  a pointer is an index into it.  \<^verbatim>\<open>format_parser_error\<close> only prints, and parsing goes on.
  \<open>parse_loop\<close> is \<open>None\<close> when the C loop never ends and \<open>Some None\<close> when a NULL vector is used.
\<close>

section \<open>Data\<close>

text \<open>What a vector slot points to: a token, or (for the keyword vectors) another vector.\<close>

datatype raw_item =
    Raw_terminal terminal_type string "string option"
  | Raw_multiple nat
  | Raw_keyword nat
  | Raw_vector nat

record format_parser_state =
  fp_store :: "raw_item list list"
  fp_intvect :: "nat option"
  fp_curvect :: nat
  fp_cp :: string
  fp_dp :: "string option"
  fp_in_keyword :: nat
  fp_in_multiple :: bool
  fp_just_read_word :: bool
  fp_errors :: nat

text \<open>\<^verbatim>\<open>topvect\<close> is the first vector allocated.\<close>

definition fp_topvect :: nat where "fp_topvect = 0"

section \<open>The parser\<close>

definition format_parser_error :: "format_parser_state \<Rightarrow> format_parser_state" where
  "format_parser_error st = st\<lparr>fp_errors := fp_errors st + 1\<rparr>"

definition fp_vector_init :: "format_parser_state \<Rightarrow> nat \<times> format_parser_state" where
  "fp_vector_init st = (length (fp_store st), st\<lparr>fp_store := fp_store st @ [[]]\<rparr>)"

definition fp_vector_set :: "format_parser_state \<Rightarrow> nat \<Rightarrow> raw_item \<Rightarrow> format_parser_state" where
  "fp_vector_set st v x = st\<lparr>fp_store := (fp_store st)[v := fp_store st ! v @ [x]]\<rparr>"

definition format_parser_begin_keyword :: "format_parser_state \<Rightarrow> format_parser_state" where
  "format_parser_begin_keyword st =
     (let st1 = (if fp_in_keyword st \<noteq> 0 \<or> fp_in_multiple st then format_parser_error st else st);
          st2 = st1\<lparr>fp_cp := tl (fp_cp st1), fp_in_keyword := 1\<rparr> in
      case fp_vector_init st2 of (kw, st3) \<Rightarrow>
      case fp_vector_init st3 of (kv, st4) \<Rightarrow>
        (let st5 = fp_vector_set st4 kw (Raw_vector kv);
             st6 = fp_vector_set st5 (fp_curvect st5) (Raw_keyword kw)
         in st6\<lparr>fp_curvect := kv\<rparr>))"

definition format_parser_begin_multiple :: "format_parser_state \<Rightarrow> format_parser_state" where
  "format_parser_begin_multiple st =
     (let st1 = (if fp_in_keyword st = 1 then format_parser_error st else st);
          st2 = (if fp_in_multiple st1 then format_parser_error st1 else st1);
          st3 = st2\<lparr>fp_cp := tl (fp_cp st2), fp_in_multiple := True, fp_just_read_word := False\<rparr> in
      case fp_vector_init st3 of (mv, st4) \<Rightarrow>
        (let st5 = fp_vector_set st4 (fp_curvect st4) (Raw_multiple mv);
             st6 = (if fp_curvect st5 \<noteq> fp_topvect then st5\<lparr>fp_intvect := Some (fp_curvect st5)\<rparr> else st5)
         in st6\<lparr>fp_curvect := mv\<rparr>))"

definition format_parser_end_keyword :: "format_parser_state \<Rightarrow> format_parser_state" where
  "format_parser_end_keyword st =
     (let st1 = (if fp_in_multiple st \<or> fp_in_keyword st = 0 then format_parser_error st else st);
          st2 = (if fp_in_keyword st1 = 1 then format_parser_error st1 else st1)
      in st2\<lparr>fp_cp := tl (fp_cp st2), fp_in_keyword := 0, fp_curvect := fp_topvect\<rparr>)"

definition format_parser_desc_str :: "format_parser_state \<Rightarrow> string option \<times> format_parser_state" where
  "format_parser_desc_str st =
     (case fp_dp st of
        None \<Rightarrow> (None, st)
      | Some dp \<Rightarrow>
          (let cp = dropWhile c_isspace dp in
           if cp = [] then (None, st)
           else (Some (takeWhile (\<lambda>c. \<not> (c = CHR 0x0D \<or> c = CHR 0x0A)) cp),
                 st\<lparr>fp_dp := Some (dropWhile (\<lambda>c. \<not> (c = CHR 0x0D \<or> c = CHR 0x0A)) cp)\<rparr>)))"

definition format_parser_end_multiple :: "format_parser_state \<Rightarrow> format_parser_state" where
  "format_parser_end_multiple st =
     (let st1 = (if \<not> fp_in_multiple st then format_parser_error st else st);
          st2 = (if fp_store st1 ! fp_curvect st1 = [] then format_parser_error st1 else st1);
          st3 = (if \<not> fp_just_read_word st2 then snd (format_parser_desc_str st2) else st2);
          st4 = st3\<lparr>fp_cp := tl (fp_cp st3), fp_in_multiple := False\<rparr>
      in (case fp_intvect st4 of
            Some v \<Rightarrow> st4\<lparr>fp_curvect := v\<rparr>
          | None \<Rightarrow> st4\<lparr>fp_curvect := fp_topvect\<rparr>))"

text \<open>\<open>None\<close>: the last token of \<^verbatim>\<open>topvect\<close> has no keyword vector (or there is no token).\<close>

definition format_parser_handle_pipe :: "format_parser_state \<Rightarrow> format_parser_state option" where
  "format_parser_handle_pipe st =
     (if fp_in_multiple st then Some (st\<lparr>fp_just_read_word := False, fp_cp := tl (fp_cp st)\<rparr>)
      else if fp_in_keyword st \<noteq> 0 then
        (let st1 = st\<lparr>fp_in_keyword := 1, fp_cp := tl (fp_cp st)\<rparr>;
             top = fp_store st1 ! fp_topvect in
         if top = [] then None
         else
           (case last top of
              Raw_keyword kw \<Rightarrow>
                (case fp_vector_init st1 of (kv, st2) \<Rightarrow>
                   Some ((fp_vector_set st2 kw (Raw_vector kv))\<lparr>fp_curvect := kv\<rparr>))
            | _ \<Rightarrow> None))
      else Some (format_parser_error st))"

definition word_end :: "char \<Rightarrow> bool" where
  "word_end c \<longleftrightarrow> c \<in> {CHR 0x0D, CHR 0x0A, CHR ''('', CHR '')'', CHR ''{'', CHR ''}'', CHR ''|''} \<or> c_isspace c"

definition token_terminal :: "string \<Rightarrow> terminal_type" where
  "token_terminal w =
     (if w = ''A.B.C.D'' then TERMINAL_IPV4
      else if w = ''A.B.C.D/M'' then TERMINAL_IPV4_PREFIX
      else if w = ''X:X::X:X'' then TERMINAL_IPV6
      else if w = ''X:X::X:X/M'' then TERMINAL_IPV6_PREFIX
      else if cur w = CHR ''['' then TERMINAL_OPTION
      else if cur w = CHR ''.'' then TERMINAL_VARARG
      else if cur w = CHR ''<'' then TERMINAL_RANGE
      else if (of_char (cur w) :: nat) \<ge> 65 \<and> (of_char (cur w) :: nat) \<le> 90 then TERMINAL_VARIABLE
      else TERMINAL_LITERAL)"

definition format_parser_read_word :: "format_parser_state \<Rightarrow> format_parser_state" where
  "format_parser_read_word st =
     (let w = takeWhile (\<lambda>c. \<not> word_end c) (fp_cp st);
          st1 = st\<lparr>fp_cp := dropWhile (\<lambda>c. \<not> word_end c) (fp_cp st)\<rparr> in
      case format_parser_desc_str st1 of (d, st2) \<Rightarrow>
        (let st3 = fp_vector_set st2 (fp_curvect st2) (Raw_terminal (token_terminal w) w d);
             st4 = (if fp_in_keyword st3 = 1 then st3\<lparr>fp_in_keyword := 2\<rparr> else st3)
         in st4\<lparr>fp_just_read_word := True\<rparr>))"

text \<open>One round of the loop after the white space: \<open>None\<close> at the end of the string.\<close>

definition parse_step :: "format_parser_state \<Rightarrow> format_parser_state option option" where
  "parse_step st =
     (let c = cur (fp_cp st) in
      if c = CHR 0x00 then None
      else if c = CHR ''{'' then Some (Some (format_parser_begin_keyword st))
      else if c = CHR ''('' then Some (Some (format_parser_begin_multiple st))
      else if c = CHR ''}'' then Some (Some (format_parser_end_keyword st))
      else if c = CHR '')'' then Some (Some (format_parser_end_multiple st))
      else if c = CHR ''|'' then Some (format_parser_handle_pipe st)
      else Some (Some (format_parser_read_word st)))"

definition skip_white :: "format_parser_state \<Rightarrow> format_parser_state" where
  "skip_white st = st\<lparr>fp_cp := dropWhile c_isspace (fp_cp st)\<rparr>"

partial_function (option) parse_loop :: "format_parser_state \<Rightarrow> format_parser_state option option" where
  "parse_loop st =
     (let st1 = skip_white st in
      case parse_step st1 of
        None \<Rightarrow>
          Some (Some (if fp_in_keyword st1 \<noteq> 0 \<or> fp_in_multiple st1 then format_parser_error st1 else st1))
      | Some None \<Rightarrow> Some None
      | Some (Some st2) \<Rightarrow> parse_loop st2)"

text \<open>The token tree behind a vector; every pointer leads to a vector allocated later.\<close>

fun resolve :: "nat \<Rightarrow> raw_item list list \<Rightarrow> nat \<Rightarrow> cmd_token list" where
  "resolve 0 s v = []"
| "resolve (Suc n) s v =
     concat (map (\<lambda>it. case it of
        Raw_terminal t c d \<Rightarrow> [TOKEN_TERMINAL t c d]
      | Raw_multiple w \<Rightarrow> [TOKEN_MULTIPLE (resolve n s w)]
      | Raw_keyword w \<Rightarrow>
          [TOKEN_KEYWORD (concat (map (\<lambda>kv. case kv of Raw_vector u \<Rightarrow> [resolve n s u] | _ \<Rightarrow> []) (s ! w)))]
      | Raw_vector w \<Rightarrow> []) (s ! v))"

definition parse_init :: "string \<Rightarrow> string option \<Rightarrow> format_parser_state" where
  "parse_init str descstr =
     \<lparr>fp_store = [[]], fp_intvect = None, fp_curvect = fp_topvect, fp_cp = str, fp_dp = descstr,
      fp_in_keyword = 0, fp_in_multiple = False, fp_just_read_word = False, fp_errors = 0\<rparr>"

definition cmd_parse_format :: "string \<Rightarrow> string option \<Rightarrow> cmd_token list option option" where
  "cmd_parse_format str descstr =
     (case parse_loop (parse_init str descstr) of
        None \<Rightarrow> None
      | Some None \<Rightarrow> Some None
      | Some (Some st) \<Rightarrow> Some (Some (resolve (length (fp_store st)) (fp_store st) fp_topvect)))"

section \<open>A parser that does not return\<close>

definition stuck :: "format_parser_state \<Rightarrow> bool" where
  "stuck st \<longleftrightarrow> cur (dropWhile c_isspace (fp_cp st)) = CHR ''|'' \<and> \<not> fp_in_multiple st \<and> fp_in_keyword st = 0"

lemma stuck_step: "stuck st \<Longrightarrow> \<exists>st'. parse_step (skip_white st) = Some (Some st') \<and> stuck st'"
  by (auto simp: stuck_def parse_step_def skip_white_def format_parser_handle_pipe_def
      format_parser_error_def Let_def dropWhile_idem)

lemma parse_loop_not_stuck:
  assumes "parse_loop st = Some r"
  shows "\<not> stuck st"
proof (rule parse_loop.raw_induct [of "\<lambda>st r. \<not> stuck st", OF _ assms])
  fix loop :: "format_parser_state \<Rightarrow> format_parser_state option option" and st :: format_parser_state
    and r :: "format_parser_state option"
  assume IH: "\<And>st r. loop st = Some r \<Longrightarrow> \<not> stuck st"
    and b: "(let st1 = skip_white st in
      case parse_step st1 of
        None \<Rightarrow>
          Some (Some (if fp_in_keyword st1 \<noteq> 0 \<or> fp_in_multiple st1 then format_parser_error st1 else st1))
      | Some None \<Rightarrow> Some None
      | Some (Some st2) \<Rightarrow> loop st2) = Some r"
  show "\<not> stuck st"
  proof
    assume "stuck st"
    then obtain st' where st': "parse_step (skip_white st) = Some (Some st')" "stuck st'"
      using stuck_step by blast
    with b have "loop st' = Some r" by (simp add: Let_def)
    with IH st'(2) show False by blast
  qed
qed

lemma stuck_diverges: "stuck st \<Longrightarrow> parse_loop st = None"
  using parse_loop_not_stuck by (cases "parse_loop st") auto

section \<open>Printing formats without keyword groups\<close>

datatype format_item = Word "string \<times> string" | Group "(string \<times> string) list"

definition word_token :: "string \<times> string \<Rightarrow> cmd_token" where
  "word_token w = TOKEN_TERMINAL (token_terminal (fst w)) (fst w) (Some (snd w))"

fun item_token :: "format_item \<Rightarrow> cmd_token" where
  "item_token (Word w) = word_token w"
| "item_token (Group ws) = TOKEN_MULTIPLE (map word_token ws)"

fun print_alts :: "(string \<times> string) list \<Rightarrow> string" where
  "print_alts [] = '')''"
| "print_alts [w] = fst w @ '')''"
| "print_alts (w # v # ws) = fst w @ CHR ''|'' # print_alts (v # ws)"

fun print_item :: "format_item \<Rightarrow> string" where
  "print_item (Word w) = CHR '' '' # fst w"
| "print_item (Group ws) = CHR '' '' # CHR ''('' # print_alts ws"

fun item_words :: "format_item \<Rightarrow> (string \<times> string) list" where
  "item_words (Word w) = [w]"
| "item_words (Group ws) = ws"

definition print_docs :: "(string \<times> string) list \<Rightarrow> string" where
  "print_docs ws = concat (map (\<lambda>w. CHR 0x0A # snd w) ws)"

definition print_items :: "format_item list \<Rightarrow> string" where
  "print_items its = concat (map print_item its)"

definition items_docs :: "format_item list \<Rightarrow> string" where
  "items_docs its = print_docs (concat (map item_words its))"

definition word_ok :: "string \<times> string \<Rightarrow> bool" where
  "word_ok w \<longleftrightarrow> fst w \<noteq> [] \<and> (\<forall>c \<in> set (fst w). \<not> word_end c \<and> c \<noteq> CHR 0x00) \<and>
     snd w \<noteq> [] \<and> \<not> c_isspace (hd (snd w)) \<and> CHR 0x0D \<notin> set (snd w) \<and> CHR 0x0A \<notin> set (snd w)"

fun item_ok :: "format_item \<Rightarrow> bool" where
  "item_ok (Word w) = word_ok w"
| "item_ok (Group ws) = (ws \<noteq> [] \<and> list_all word_ok ws)"

text \<open>Where the parser stands: the rest of the format and of the descriptions, and the current vector.\<close>

definition at_state :: "format_parser_state \<Rightarrow> string \<Rightarrow> string \<Rightarrow> nat \<Rightarrow> bool \<Rightarrow> raw_item list list \<Rightarrow> bool" where
  "at_state st cp dp cv inm s \<longleftrightarrow>
     fp_cp st = cp \<and> fp_dp st = Some dp \<and> fp_curvect st = cv \<and> fp_in_multiple st = inm \<and>
     fp_store st = s \<and> fp_intvect st = None \<and> fp_in_keyword st = 0 \<and> cv < length s"

lemma takeWhile_before: "(\<forall>c \<in> set w. P c) \<Longrightarrow> r = [] \<or> \<not> P (hd r) \<Longrightarrow> takeWhile P (w @ r) = w \<and> dropWhile P (w @ r) = r"
  by (cases r) (auto simp: takeWhile_append dropWhile_append)

lemma print_docs_start: "print_docs ws = [] \<or> hd (print_docs ws) = CHR 0x0A"
  by (cases ws) (auto simp: print_docs_def)

lemma print_docs_Cons: "print_docs (w # ws) = CHR 0x0A # snd w @ print_docs ws"
  by (simp add: print_docs_def)

lemma space_newline: "c_isspace (CHR 0x0A)" "c_isspace (CHR '' '')" "\<not> c_isspace (CHR ''('')"
    "\<not> c_isspace (CHR '')'')" "\<not> c_isspace (CHR ''|'')"
  by (simp_all add: c_isspace_def)

lemma word_end_chars: "word_end (CHR '' '')" "word_end (CHR ''|'')" "word_end (CHR '')'')"
  by (simp_all add: word_end_def c_isspace_def)

lemma word_ok_start:
  assumes "word_ok w"
  shows "fst w \<noteq> []" "\<not> c_isspace (hd (fst w))" "hd (fst w) \<notin> {CHR 0x00, CHR ''{'', CHR ''('', CHR ''}'', CHR '')'', CHR ''|''}"
proof -
  show ne: "fst w \<noteq> []" using assms by (simp add: word_ok_def)
  then have "\<not> word_end (hd (fst w))" "hd (fst w) \<noteq> CHR 0x00" using assms by (simp_all add: word_ok_def)
  then show "\<not> c_isspace (hd (fst w))" "hd (fst w) \<notin> {CHR 0x00, CHR ''{'', CHR ''('', CHR ''}'', CHR '')'', CHR ''|''}"
    by (auto simp: word_end_def)
qed

lemma read_word_state:
  assumes w: "word_ok w" and st: "at_state st (fst w @ r) (print_docs (w # ws)) cv inm s"
    and r: "r = [] \<or> word_end (hd r)"
  shows "at_state (format_parser_read_word st) r (print_docs ws) cv inm
      (s[cv := s ! cv @ [Raw_terminal (token_terminal (fst w)) (fst w) (Some (snd w))]]) \<and>
    fp_just_read_word (format_parser_read_word st)"
proof -
  have c: "takeWhile (\<lambda>c. \<not> word_end c) (fst w @ r) = fst w" "dropWhile (\<lambda>c. \<not> word_end c) (fst w @ r) = r"
    using takeWhile_before [of "fst w" "\<lambda>c. \<not> word_end c" r] w r by (auto simp: word_ok_def)
  let ?P = "\<lambda>c. \<not> (c = CHR 0x0D \<or> c = CHR 0x0A)"
  have d: "dropWhile c_isspace (print_docs (w # ws)) = snd w @ print_docs ws"
    using w by (cases "snd w") (auto simp: print_docs_Cons space_newline word_ok_def)
  have "takeWhile ?P (snd w @ print_docs ws) = snd w \<and> dropWhile ?P (snd w @ print_docs ws) = print_docs ws"
    using print_docs_start [of ws] w by (intro takeWhile_before) (auto simp: word_ok_def)
  then have e: "takeWhile (\<lambda>c. c \<noteq> CHR 0x0D \<and> c \<noteq> CHR 0x0A) (snd w @ print_docs ws) = snd w"
    "dropWhile (\<lambda>c. c \<noteq> CHR 0x0D \<and> c \<noteq> CHR 0x0A) (snd w @ print_docs ws) = print_docs ws" by simp_all
  have n: "snd w \<noteq> []" using w by (simp add: word_ok_def)
  show ?thesis
    using st n
    by (simp add: at_state_def format_parser_read_word_def format_parser_desc_str_def Let_def c d e
        fp_vector_set_def)
qed

lemma parse_word:
  assumes w: "word_ok w" and st: "at_state st (sp @ fst w @ r) (print_docs (w # ws)) cv inm s"
    and sp: "sp = [] \<or> sp = '' ''" and r: "r = [] \<or> word_end (hd r)"
  shows "\<exists>st'. parse_loop st = parse_loop st' \<and> fp_just_read_word st' \<and> at_state st' r (print_docs ws) cv inm
      (s[cv := s ! cv @ [Raw_terminal (token_terminal (fst w)) (fst w) (Some (snd w))]])"
proof -
  obtain c cs where c: "fst w = c # cs" using word_ok_start(1) [OF w] by (cases "fst w") auto
  have cc: "\<not> c_isspace c" "c \<notin> {CHR 0x00, CHR ''{'', CHR ''('', CHR ''}'', CHR '')'', CHR ''|''}"
    using word_ok_start(2,3) [OF w] c by auto
  then have sk: "at_state (skip_white st) (fst w @ r) (print_docs (w # ws)) cv inm s"
    using st sp by (auto simp: at_state_def skip_white_def c space_newline)
  have "parse_step (skip_white st) = Some (Some (format_parser_read_word (skip_white st)))"
    using sk cc by (simp add: parse_step_def at_state_def cur_def c Let_def)
  then have "parse_loop st = parse_loop (format_parser_read_word (skip_white st))"
    by (subst parse_loop.simps) (simp add: Let_def)
  with read_word_state [OF w sk r] show ?thesis by blast
qed


definition raw_word :: "string \<times> string \<Rightarrow> raw_item" where
  "raw_word w = Raw_terminal (token_terminal (fst w)) (fst w) (Some (snd w))"

lemma parse_pipe:
  assumes "at_state st (CHR ''|'' # r) dp cv True s"
  shows "\<exists>st'. parse_loop st = parse_loop st' \<and> at_state st' r dp cv True s"
proof -
  let ?st = "(skip_white st)\<lparr>fp_just_read_word := False, fp_cp := r\<rparr>"
  have "parse_step (skip_white st) = Some (Some ?st)"
    using assms by (simp add: parse_step_def skip_white_def at_state_def cur_def space_newline
        format_parser_handle_pipe_def Let_def)
  then have "parse_loop st = parse_loop ?st" by (subst parse_loop.simps) (simp add: Let_def)
  moreover have "at_state ?st r dp cv True s" using assms by (simp add: at_state_def skip_white_def)
  ultimately show ?thesis by blast
qed

lemma parse_close:
  assumes "at_state st (CHR '')'' # r) dp cv True s" "fp_just_read_word st" "0 < length s"
  shows "\<exists>st'. parse_loop st = parse_loop st' \<and> at_state st' r dp fp_topvect False s"
proof -
  let ?st = "format_parser_end_multiple (skip_white st)"
  have "parse_step (skip_white st) = Some (Some ?st)"
    using assms by (simp add: parse_step_def skip_white_def at_state_def cur_def space_newline Let_def)
  then have "parse_loop st = parse_loop ?st" by (subst parse_loop.simps) (simp add: Let_def)
  moreover have "at_state ?st r dp fp_topvect False s"
    using assms by (simp add: at_state_def skip_white_def format_parser_end_multiple_def
        format_parser_error_def Let_def space_newline fp_topvect_def)
  ultimately show ?thesis by blast
qed

lemma parse_open:
  assumes "at_state st ('' ('' @ r) dp fp_topvect False s"
  shows "\<exists>st'. parse_loop st = parse_loop st' \<and>
    at_state st' r dp (length s) True (s[fp_topvect := s ! fp_topvect @ [Raw_multiple (length s)]] @ [[]])"
proof -
  let ?st = "format_parser_begin_multiple (skip_white st)"
  have "parse_step (skip_white st) = Some (Some ?st)"
    using assms by (simp add: parse_step_def skip_white_def at_state_def cur_def space_newline Let_def)
  then have "parse_loop st = parse_loop ?st" by (subst parse_loop.simps) (simp add: Let_def)
  moreover have "at_state ?st r dp (length s) True (s[fp_topvect := s ! fp_topvect @ [Raw_multiple (length s)]] @ [[]])"
    using assms by (auto simp: at_state_def skip_white_def format_parser_begin_multiple_def fp_vector_init_def
        fp_vector_set_def Let_def space_newline nth_append list_update_append)
  ultimately show ?thesis by blast
qed

lemma parse_alts:
  "list_all word_ok ws \<Longrightarrow> ws \<noteq> [] \<Longrightarrow> at_state st (print_alts ws @ r) (print_docs (ws @ vs)) cv True s \<Longrightarrow>
   \<exists>st'. parse_loop st = parse_loop st' \<and>
     at_state st' r (print_docs vs) fp_topvect False (s[cv := s ! cv @ map raw_word ws])"
proof (induction ws arbitrary: st s rule: print_alts.induct)
  case (2 w)
  from 2 obtain st1 where 1: "parse_loop st = parse_loop st1" "fp_just_read_word st1"
    "at_state st1 (CHR '')'' # r) (print_docs vs) cv True (s[cv := s ! cv @ [raw_word w]])"
    using parse_word [of w st "[]" "CHR '')'' # r" vs cv True s] by (auto simp: word_end_chars raw_word_def)
  moreover have "0 < length s" using 1(3) by (auto simp: at_state_def)
  ultimately show ?case using parse_close [OF 1(3,2)] by auto
next
  case (3 w v ws)
  let ?r = "CHR ''|'' # print_alts (v # ws) @ r"
  from 3 obtain st1 where 1: "parse_loop st = parse_loop st1"
    "at_state st1 ?r (print_docs ((v # ws) @ vs)) cv True (s[cv := s ! cv @ [raw_word w]])"
    using parse_word [of w st "[]" ?r "(v # ws) @ vs" cv True s] by (auto simp: word_end_chars raw_word_def)
  from parse_pipe [OF 1(2)] obtain st2 where 2: "parse_loop st1 = parse_loop st2"
    "at_state st2 (print_alts (v # ws) @ r) (print_docs ((v # ws) @ vs)) cv True (s[cv := s ! cv @ [raw_word w]])"
    by blast
  have "cv < length s" using 1(2) by (simp add: at_state_def)
  with "3.IH" [OF _ _ 2(2)] 3 1(1) 2(1) show ?case by auto
qed simp

text \<open>The store that represents a list of items.\<close>

fun item_raw :: "nat \<Rightarrow> format_item \<Rightarrow> raw_item" where
  "item_raw n (Word w) = raw_word w"
| "item_raw n (Group ws) = Raw_multiple n"

fun store_add :: "raw_item list list \<Rightarrow> format_item \<Rightarrow> raw_item list list" where
  "store_add s (Word w) = s[0 := s ! 0 @ [raw_word w]]"
| "store_add s (Group ws) = s[0 := s ! 0 @ [Raw_multiple (length s)]] @ [map raw_word ws]"

lemma print_items_start: "print_items its = [] \<or> word_end (hd (print_items its))"
proof (cases its)
  case (Cons it r)
  then show ?thesis by (cases it) (simp_all add: print_items_def word_end_chars)
qed (simp add: print_items_def)

lemma parse_item:
  assumes "item_ok it" "at_state st (print_item it @ print_items its) (print_docs (item_words it @ vs)) fp_topvect False s"
  shows "\<exists>st'. parse_loop st = parse_loop st' \<and>
    at_state st' (print_items its) (print_docs vs) fp_topvect False (store_add s it)"
proof (cases it)
  case (Word w)
  with assms parse_word [of w st "'' ''" "print_items its" vs fp_topvect False s] print_items_start [of its]
  show ?thesis by (auto simp: raw_word_def fp_topvect_def)
next
  case (Group ws)
  let ?s1 = "s[fp_topvect := s ! fp_topvect @ [Raw_multiple (length s)]] @ [[]]"
  from assms(2) Group obtain st1 where 1: "parse_loop st = parse_loop st1"
    "at_state st1 (print_alts ws @ print_items its) (print_docs (ws @ vs)) (length s) True ?s1"
    using parse_open [of st "print_alts ws @ print_items its" "print_docs (ws @ vs)" s] by auto
  with parse_alts [OF _ _ 1(2)] assms(1) Group show ?thesis
    by (auto simp: fp_topvect_def nth_append list_update_append)
qed

lemma parse_items:
  "list_all item_ok its \<Longrightarrow>
   at_state st (print_items its) (items_docs its) fp_topvect False s \<Longrightarrow>
   \<exists>st'. parse_loop st = Some (Some st') \<and> fp_store st' = foldl store_add s its"
proof (induction its arbitrary: st s)
  case Nil
  then show ?case
    by (subst parse_loop.simps)
       (simp add: at_state_def print_items_def parse_step_def skip_white_def cur_def Let_def)
next
  case (Cons it its)
  have "at_state st (print_item it @ print_items its)
      (print_docs (item_words it @ concat (map item_words its))) fp_topvect False s"
    using Cons.prems(2) by (simp add: print_items_def items_docs_def)
  with parse_item [of it st its "concat (map item_words its)" s] Cons.prems(1) obtain st1 where
    "parse_loop st = parse_loop st1"
    "at_state st1 (print_items its) (items_docs its) fp_topvect False (store_add s it)"
    by (auto simp: items_docs_def)
  with Cons show ?case by simp
qed

definition item_rep :: "raw_item list list \<Rightarrow> raw_item \<Rightarrow> cmd_token \<Rightarrow> bool" where
  "item_rep s it t \<longleftrightarrow>
     (\<exists>w. it = raw_word w \<and> t = word_token w) \<or>
     (\<exists>v ws. it = Raw_multiple v \<and> 0 < v \<and> v < length s \<and> s ! v = map raw_word ws \<and>
        t = TOKEN_MULTIPLE (map word_token ws))"

definition store_rep :: "raw_item list list \<Rightarrow> cmd_token list \<Rightarrow> bool" where
  "store_rep s ts \<longleftrightarrow> s \<noteq> [] \<and> list_all2 (item_rep s) (s ! 0) ts"

lemma item_rep_mono:
  "item_rep s it t \<Longrightarrow> length s \<le> length s' \<Longrightarrow> (\<And>v. 0 < v \<Longrightarrow> v < length s \<Longrightarrow> s' ! v = s ! v) \<Longrightarrow> item_rep s' it t"
  unfolding item_rep_def by (metis less_le_trans)

lemma store_rep_add: "store_rep s ts \<Longrightarrow> store_rep (store_add s it) (ts @ [item_token it])"
proof -
  assume rep: "store_rep s ts"
  let ?s = "store_add s it"
  have l: "length s \<le> length ?s" and o: "\<And>v. 0 < v \<Longrightarrow> v < length s \<Longrightarrow> ?s ! v = s ! v"
    by (cases it; simp add: nth_append)+
  have "list_all2 (item_rep ?s) (s ! 0) ts"
    using rep item_rep_mono [OF _ l o] by (auto simp: store_rep_def elim: list_all2_mono)
  moreover have "\<exists>x. ?s ! 0 = s ! 0 @ [x] \<and> item_rep ?s x (item_token it)"
  proof (cases it)
    case (Word w)
    have "item_rep ?s (raw_word w) (word_token w)" unfolding item_rep_def by blast
    with Word show ?thesis using rep by (simp add: store_rep_def)
  next
    case (Group ws)
    then have "?s ! 0 = s ! 0 @ [Raw_multiple (length s)]" "item_rep ?s (Raw_multiple (length s)) (item_token it)"
      using rep by (auto simp: store_rep_def item_rep_def nth_append)
    then show ?thesis by blast
  qed
  ultimately show ?thesis
    using rep l by (auto simp: store_rep_def intro: list_all2_appendI)
qed

lemma store_rep_items: "store_rep s ts \<Longrightarrow> store_rep (foldl store_add s its) (ts @ map item_token its)"
proof (induction its arbitrary: s ts)
  case (Cons it its)
  from Cons.IH [OF store_rep_add [OF Cons.prems]] show ?case by simp
qed simp

lemma resolve_words: "s ! v = map raw_word ws \<Longrightarrow> resolve (Suc n) s v = map word_token ws"
  by (simp add: o_def raw_word_def [abs_def] word_token_def [abs_def])

lemma concat_list_all2: "list_all2 R xs ys \<Longrightarrow> (\<And>x y. R x y \<Longrightarrow> f x = [y]) \<Longrightarrow> concat (map f xs) = ys"
  by (induction rule: list_all2_induct) auto

lemma resolve_rep:
  assumes "store_rep s ts"
  shows "resolve (length s) s 0 = ts"
proof -
  from assms obtain k where k: "length s = Suc k" by (cases s) (auto simp: store_rep_def)
  let ?f = "\<lambda>it. case it of
        Raw_terminal t c d \<Rightarrow> [TOKEN_TERMINAL t c d]
      | Raw_multiple w \<Rightarrow> [TOKEN_MULTIPLE (resolve k s w)]
      | Raw_keyword w \<Rightarrow>
          [TOKEN_KEYWORD (concat (map (\<lambda>kv. case kv of Raw_vector u \<Rightarrow> [resolve k s u] | _ \<Rightarrow> []) (s ! w)))]
      | Raw_vector w \<Rightarrow> []"
  have "?f it = [t]" if "item_rep s it t" for it t
  proof -
    from that show ?thesis unfolding item_rep_def
    proof (elim disjE exE conjE)
      fix v ws
      assume v: "it = Raw_multiple v" "0 < v" "v < length s" "s ! v = map raw_word ws"
        "t = TOKEN_MULTIPLE (map word_token ws)"
      then obtain j where "k = Suc j" using k by (cases k) auto
      then show ?thesis using resolve_words [OF v(4)] v(1,5) by simp
    qed (simp add: raw_word_def word_token_def)
  qed
  with assms have "concat (map ?f (s ! 0)) = ts"
    unfolding store_rep_def by (intro concat_list_all2 [of "item_rep s"]) simp_all
  then show ?thesis by (simp add: k)
qed

lemmas fp_eval = skip_white_def parse_step_def cur_def Let_def c_isspace_def fp_topvect_def
  format_parser_begin_keyword_def format_parser_begin_multiple_def format_parser_end_keyword_def
  format_parser_end_multiple_def format_parser_handle_pipe_def format_parser_read_word_def
  format_parser_desc_str_def fp_vector_init_def fp_vector_set_def format_parser_error_def
  word_end_def token_terminal_def

section \<open>Properties\<close>

text \<open>
  C22: parsing a printed format gives back its tokens: for every list of words and alternatives
  \<open>(a|b|c)\<close> with one description line per word, \<^verbatim>\<open>cmd_parse_format\<close> returns, with each word classified
  by its spelling and paired with its own description.
\<close>

theorem cmd_parse_format_print:
  assumes "list_all item_ok its"
  shows "cmd_parse_format (print_items its) (Some (items_docs its)) = Some (Some (map item_token its))"
proof -
  have "at_state (parse_init (print_items its) (Some (items_docs its))) (print_items its) (items_docs its)
      fp_topvect False [[]]"
    by (simp add: at_state_def parse_init_def fp_topvect_def)
  with parse_items [OF assms] obtain st where
    st: "parse_loop (parse_init (print_items its) (Some (items_docs its))) = Some (Some st)"
      "fp_store st = foldl store_add [[]] its" by blast
  have "store_rep (fp_store st) (map item_token its)"
    using store_rep_items [of "[[]]" "[]" its] st(2) by (simp add: store_rep_def)
  with st(1) show ?thesis by (simp add: cmd_parse_format_def fp_topvect_def resolve_rep)
qed

theorem cmd_parse_format_print_witness:
  "cmd_parse_format '' show (log|<1-9>)'' (Some (items_docs [Word (''show'', ''Show''),
     Group [(''log'', ''Log''), (''<1-9>'', ''Level'')]])) =
   Some (Some [TOKEN_TERMINAL TERMINAL_LITERAL ''show'' (Some ''Show''),
     TOKEN_MULTIPLE [TOKEN_TERMINAL TERMINAL_LITERAL ''log'' (Some ''Log''),
       TOKEN_TERMINAL TERMINAL_RANGE ''<1-9>'' (Some ''Level'')]])"
  using cmd_parse_format_print [of "[Word (''show'', ''Show''), Group [(''log'', ''Log''), (''<1-9>'', ''Level'')]]"]
  by (simp add: word_ok_def word_end_def c_isspace_def print_items_def word_token_def token_terminal_def cur_def)



text \<open>
  \<^verbatim>\<open>intvect\<close> is never cleared: after an alternative inside a keyword group, the word that follows
  a later top-level alternative is added to that keyword group instead of the command.
\<close>

theorem cmd_parse_format_stale_intvect:
  "cmd_parse_format ''{a (b|c)} (d|e) f'' None =
     Some (Some [TOKEN_KEYWORD [[TOKEN_TERMINAL TERMINAL_LITERAL ''a'' None,
         TOKEN_MULTIPLE [TOKEN_TERMINAL TERMINAL_LITERAL ''b'' None, TOKEN_TERMINAL TERMINAL_LITERAL ''c'' None],
         TOKEN_TERMINAL TERMINAL_LITERAL ''f'' None]],
       TOKEN_MULTIPLE [TOKEN_TERMINAL TERMINAL_LITERAL ''d'' None, TOKEN_TERMINAL TERMINAL_LITERAL ''e'' None]])"
  unfolding cmd_parse_format_def parse_init_def
  by (simp add: parse_loop.simps fp_eval)

end
