(* ===== verification/Vty_Cmd.thy ===== *)
theory Vty_Cmd
  imports Vty_Edit Vty_Format "HOL-Library.Char_ord" "HOL-Library.List_Lexorder"
begin

text \<open>
  Commands and nodes of \<^verbatim>\<open>src/opbox/vty.c\<close>: registration, the filtering of the commands of a node
  by the words of a line, execution, completion and description.  The vectors are the lists they
  stand for (\<open>Vty_Vector\<close>); the node table \<^verbatim>\<open>cmdvec\<close> is an argument, and so are the command
  callbacks: \<open>call f\<close> is what the function pointer \<open>f\<close> does.  A node that does not exist is a NULL
  dereference and raises \<open>vfault\<close>.
\<close>

section \<open>Data\<close>

definition CMD_SUCCESS :: int where "CMD_SUCCESS = 0"
definition CMD_WARNING :: int where "CMD_WARNING = 1"
definition CMD_ERR_NO_MATCH :: int where "CMD_ERR_NO_MATCH = 2"
definition CMD_ERR_AMBIGUOUS :: int where "CMD_ERR_AMBIGUOUS = 3"
definition CMD_ERR_INCOMPLETE :: int where "CMD_ERR_INCOMPLETE = 4"
definition CMD_ERR_EXEED_ARGC_MAX :: int where "CMD_ERR_EXEED_ARGC_MAX = 5"
definition CMD_ERR_NOTHING_TODO :: int where "CMD_ERR_NOTHING_TODO = 6"
definition CMD_COMPLETE_FULL_MATCH :: int where "CMD_COMPLETE_FULL_MATCH = 7"
definition CMD_COMPLETE_MATCH :: int where "CMD_COMPLETE_MATCH = 8"
definition CMD_COMPLETE_LIST_MATCH :: int where "CMD_COMPLETE_LIST_MATCH = 9"
definition CMD_SUCCESS_DAEMON :: int where "CMD_SUCCESS_DAEMON = 10"

lemmas cmd_codes = CMD_SUCCESS_def CMD_WARNING_def CMD_ERR_NO_MATCH_def CMD_ERR_AMBIGUOUS_def
  CMD_ERR_INCOMPLETE_def CMD_ERR_EXEED_ARGC_MAX_def CMD_ERR_NOTHING_TODO_def
  CMD_COMPLETE_FULL_MATCH_def CMD_COMPLETE_MATCH_def CMD_COMPLETE_LIST_MATCH_def CMD_SUCCESS_DAEMON_def

record cmd_element =
  ce_node :: nat
  ce_string :: string
  ce_doc :: "string option"
  ce_tokens :: "cmd_token list"
  ce_attr :: nat
  ce_daemon :: bool
  ce_cb :: nat

record cmd_node =
  cn_prompt :: string
  cn_cmd_vector :: "cmd_element option list"

type_synonym cmdvec = "cmd_node option list"

definition CMD_ATTR_DEPRECATED :: nat where "CMD_ATTR_DEPRECATED = 1"
definition CMD_ATTR_HIDDEN :: nat where "CMD_ATTR_HIDDEN = 2"

definition cmdvec_slot :: "cmdvec \<Rightarrow> nat \<Rightarrow> cmd_node option" where
  "cmdvec_slot cv n = (if n < length cv then cv ! n else None)"

definition cmd_prompt :: "cmdvec \<Rightarrow> nat \<Rightarrow> string option" where
  "cmd_prompt cv n = map_option cn_prompt (cmdvec_slot cv n)"

definition cmd_node_vector :: "cmdvec \<Rightarrow> nat \<Rightarrow> cmd_element option list option" where
  "cmd_node_vector cv ntype = map_option cn_cmd_vector (cmdvec_slot cv ntype)"

text \<open>\<^verbatim>\<open>token_cr\<close>, as \<^verbatim>\<open>vty_init\<close> sets it up.\<close>

definition command_cr :: string where "command_cr = ''<cr>''"

definition token_cr :: cmd_token where
  "token_cr = TOKEN_TERMINAL TERMINAL_LITERAL command_cr (Some [])"

section \<open>Registration\<close>

definition vty_init :: "int \<times> cmdvec" where
  "vty_init = (0, [])"

definition install_node :: "cmdvec \<Rightarrow> nat \<Rightarrow> cmd_node \<Rightarrow> int \<times> cmdvec" where
  "install_node cv n node = (0, list_put cv n (Some (node\<lparr>cn_cmd_vector := []\<rparr>)))"

text \<open>
  \<open>tokens\<close> is the element's \<^verbatim>\<open>tokens\<close> field before the call, \<open>None\<close> when it is still NULL.  The result
  is \<open>None\<close> when the format parser does not return or dereferences NULL.
\<close>

definition install_element ::
    "cmdvec \<Rightarrow> nat \<Rightarrow> cmd_element \<Rightarrow> cmd_token list option \<Rightarrow> (int \<times> cmdvec) option" where
  "install_element cv ntype e tokens =
     (case cmdvec_slot cv ntype of
        None \<Rightarrow> Some (- 1, cv)
      | Some cnode \<Rightarrow>
          (case (case tokens of
                   Some ts \<Rightarrow> Some (Some ts)
                 | None \<Rightarrow> cmd_parse_format (ce_string e) (ce_doc e)) of
             Some (Some ts) \<Rightarrow>
               Some (0, cv[ntype := Some (cnode\<lparr>cn_cmd_vector :=
                          list_fill (cn_cmd_vector cnode) (Some (e\<lparr>ce_tokens := ts\<rparr>))\<rparr>)])
           | _ \<Rightarrow> None))"

section \<open>Splitting a line\<close>

fun strvec_loop :: "nat \<Rightarrow> string \<Rightarrow> string list" where
  "strvec_loop 0 s = []"
| "strvec_loop (Suc n) s =
     (let w = takeWhile (\<lambda>c. \<not> c_isspace c) s;
          r = dropWhile c_isspace (dropWhile (\<lambda>c. \<not> c_isspace c) s)
      in if r = [] then [w] else w # strvec_loop n r)"

definition cmd_make_strvec :: "string \<Rightarrow> string option list option" where
  "cmd_make_strvec s =
     (let cp = dropWhile c_isspace s in
      if cp = [] then None
      else if cur cp = CHR ''!'' \<or> cur cp = CHR ''#'' then None
      else Some (map Some (strvec_loop (length cp) cp)))"

definition cmd_try_do_shortcut :: "string option \<Rightarrow> bool" where
  "cmd_try_do_shortcut first_word \<longleftrightarrow> first_word = Some ''do''"

section \<open>Filtering\<close>

text \<open>
  The loop of \<^verbatim>\<open>cmd_vector_filter\<close>: the code, the commands left, the best match and the vector of
  matched tokens per command.
\<close>

fun filter_loop ::
    "(string \<Rightarrow> bool) \<Rightarrow> filter_type \<Rightarrow> string option list \<Rightarrow> nat \<Rightarrow> nat \<Rightarrow> cmd_element option list \<Rightarrow>
     match_type \<Rightarrow> cmd_token list option list \<Rightarrow>
     int \<times> cmd_element option list \<times> match_type \<times> cmd_token list option list" where
  "filter_loop inet filt vline index i [] best ms = (CMD_SUCCESS, [], best, ms)"
| "filter_loop inet filt vline index i (None # cs) best ms =
     (case filter_loop inet filt vline index (i + 1) cs best ms of
        (ret, cs', best', ms') \<Rightarrow> (ret, None # cs', best', ms'))"
| "filter_loop inet filt vline index i (Some e # cs) best ms =
     (case cmd_element_match inet (ce_tokens e) filt vline index True (Some None) False of
        (rv, mt, mat, av) \<Rightarrow>
          (let ms1 = list_put ms i (case mat of Some m \<Rightarrow> m | None \<Rightarrow> None);
               em = (case mt of Some t \<Rightarrow> t | None \<Rightarrow> no_match) in
           if MATCHER_ERROR rv then
             (if rv = MATCHER_AMBIGUOUS then (CMD_ERR_AMBIGUOUS, None # cs, best, ms1)
              else if rv = MATCHER_EXCEED_ARGC_MAX then (CMD_ERR_EXEED_ARGC_MAX, None # cs, best, ms1)
              else
                (case filter_loop inet filt vline index (i + 1) cs best ms1 of
                   (ret, cs', best', ms') \<Rightarrow> (ret, None # cs', best', ms')))
           else
             (case filter_loop inet filt vline index (i + 1) cs (if em > best then em else best) ms1 of
                (ret, cs', best', ms') \<Rightarrow> (ret, Some e # cs', best', ms'))))"

definition cmd_vector_filter ::
    "(string \<Rightarrow> bool) \<Rightarrow> cmd_element option list \<Rightarrow> filter_type \<Rightarrow> string option list \<Rightarrow> nat \<Rightarrow>
     int \<times> cmd_element option list \<times> match_type \<times> cmd_token list option list" where
  "cmd_vector_filter inet commands filt vline index =
     filter_loop inet filt vline index 0 commands no_match []"

text \<open>
  The tokens of one command in \<^verbatim>\<open>is_cmd_ambiguous\<close>: a left result is a \<^verbatim>\<open>return\<close>, a right one says
  whether something matched and the literal remembered in \<^verbatim>\<open>matched\<close>.
\<close>

fun ambiguous_tokens ::
    "match_type \<Rightarrow> string \<Rightarrow> cmd_token list \<Rightarrow> bool \<Rightarrow> string option \<Rightarrow> int + (bool \<times> string option)" where
  "ambiguous_tokens mt command [] found matched = Inr (found, matched)"
| "ambiguous_tokens mt command (t # ts) found matched =
     (case t of
        TOKEN_TERMINAL tt str d \<Rightarrow>
          (case mt of
             exact_match \<Rightarrow>
               ambiguous_tokens mt command ts (found \<or> \<not> TERMINAL_RECORD tt \<and> command = str) matched
           | partly_match \<Rightarrow>
               if \<not> TERMINAL_RECORD tt \<and> strncmp_eq command str (length command) then
                 (if matched \<noteq> None \<and> matched \<noteq> Some str then Inl 1
                  else ambiguous_tokens mt command ts True (Some str))
               else ambiguous_tokens mt command ts found matched
           | range_match \<Rightarrow>
               if cmd_range_match str (Some command) then
                 (if matched \<noteq> None \<and> matched \<noteq> Some str then Inl 1
                  else ambiguous_tokens mt command ts True (Some str))
               else ambiguous_tokens mt command ts found matched
           | ipv6_match \<Rightarrow> ambiguous_tokens mt command ts (found \<or> tt = TERMINAL_IPV6) matched
           | ipv6_prefix_match \<Rightarrow>
               (let ret = cmd_ipv6_prefix_match (Some command) in
                if ret \<noteq> no_match then
                  (if ret = partly_match then Inl 2 else ambiguous_tokens mt command ts True matched)
                else ambiguous_tokens mt command ts found matched)
           | ipv4_match \<Rightarrow> ambiguous_tokens mt command ts (found \<or> tt = TERMINAL_IPV4) matched
           | ipv4_prefix_match \<Rightarrow>
               (let ret = cmd_ipv4_prefix_match (Some command) in
                if ret \<noteq> no_match then
                  (if ret = partly_match then Inl 2 else ambiguous_tokens mt command ts True matched)
                else ambiguous_tokens mt command ts found matched)
           | extend_match \<Rightarrow> ambiguous_tokens mt command ts (found \<or> TERMINAL_RECORD tt) matched
           | _ \<Rightarrow> ambiguous_tokens mt command ts found matched)
      | _ \<Rightarrow> ambiguous_tokens mt command ts found matched)"

fun ambiguous_loop ::
    "match_type \<Rightarrow> string \<Rightarrow> nat \<Rightarrow> cmd_token list option list \<Rightarrow> cmd_element option list \<Rightarrow> string option \<Rightarrow>
     int \<times> cmd_element option list" where
  "ambiguous_loop mt command i [] cmds matched = (0, cmds)"
| "ambiguous_loop mt command i (None # ms) cmds matched = ambiguous_loop mt command (i + 1) ms cmds matched"
| "ambiguous_loop mt command i (Some ts # ms) cmds matched =
     (case ambiguous_tokens mt command ts False matched of
        Inl r \<Rightarrow> (r, cmds)
      | Inr (found, matched') \<Rightarrow>
          ambiguous_loop mt command (i + 1) ms (if found then cmds else cmds[i := None]) matched')"

definition is_cmd_ambiguous ::
    "cmd_element option list \<Rightarrow> string option \<Rightarrow> cmd_token list option list \<Rightarrow> match_type \<Rightarrow>
     int \<times> cmd_element option list" where
  "is_cmd_ambiguous cmds command ms mt =
     ambiguous_loop mt (case command of None \<Rightarrow> [] | Some c \<Rightarrow> c) 0 ms cmds None"

section \<open>Execution\<close>

text \<open>The index \<open>-1\<close> of the source, as an \<^verbatim>\<open>unsigned int\<close>.\<close>

definition NO_INDEX :: nat where "NO_INDEX = 2 ^ 32 - 1"

definition cmd_is_complete :: "(string \<Rightarrow> bool) \<Rightarrow> cmd_element \<Rightarrow> string option list \<Rightarrow> bool" where
  "cmd_is_complete inet e vline \<longleftrightarrow>
     fst (cmd_element_match inet (ce_tokens e) FILTER_RELAXED vline NO_INDEX False None False) = MATCHER_COMPLETE"

definition cmd_parse :: "(string \<Rightarrow> bool) \<Rightarrow> cmd_element \<Rightarrow> string option list \<Rightarrow> int \<times> args" where
  "cmd_parse inet e vline =
     (case cmd_element_match inet (ce_tokens e) FILTER_RELAXED vline NO_INDEX False None True of
        (rv, mt, mat, av) \<Rightarrow>
          (case rv of
             MATCHER_COMPLETE \<Rightarrow> CMD_SUCCESS
           | MATCHER_NO_MATCH \<Rightarrow> CMD_ERR_NO_MATCH
           | MATCHER_AMBIGUOUS \<Rightarrow> CMD_ERR_AMBIGUOUS
           | MATCHER_EXCEED_ARGC_MAX \<Rightarrow> CMD_ERR_EXEED_ARGC_MAX
           | _ \<Rightarrow> CMD_ERR_INCOMPLETE, av))"

fun execute_loop ::
    "(string \<Rightarrow> bool) \<Rightarrow> filter_type \<Rightarrow> string option list \<Rightarrow> nat \<Rightarrow> string option list \<Rightarrow>
     cmd_element option list \<Rightarrow> int + cmd_element option list" where
  "execute_loop inet filt vline index [] cmds = Inr cmds"
| "execute_loop inet filt vline index (command # ws) cmds =
     (case cmd_vector_filter inet cmds filt vline index of
        (ret, cmds1, match, ms) \<Rightarrow>
          if ret \<noteq> CMD_SUCCESS then Inl ret
          else if match = vararg_match then Inr cmds1
          else
            (case is_cmd_ambiguous cmds1 command ms match of
               (r, cmds2) \<Rightarrow>
                 if r = 1 then Inl CMD_ERR_AMBIGUOUS
                 else if r = 2 then Inl CMD_ERR_NO_MATCH
                 else execute_loop inet filt vline (index + 1) ws cmds2))"

text \<open>
  \<^verbatim>\<open>cmd_execute_command_real\<close> up to the call: an error code, or the command and its arguments.
\<close>

definition cmd_select ::
    "(string \<Rightarrow> bool) \<Rightarrow> cmd_element option list \<Rightarrow> string option list \<Rightarrow> filter_type \<Rightarrow>
     int + (cmd_element \<times> args)" where
  "cmd_select inet commands vline filt =
     (case execute_loop inet filt vline 0 vline commands of
        Inl ret \<Rightarrow> Inl ret
      | Inr cmds \<Rightarrow>
          (let elems = List.map_filter (\<lambda>c. c) cmds;
               complete = filter (\<lambda>e. cmd_is_complete inet e vline) elems in
           if complete = [] then
             (if elems \<noteq> [] then Inl CMD_ERR_INCOMPLETE else Inl CMD_ERR_NO_MATCH)
           else if length complete > 1 then Inl CMD_ERR_AMBIGUOUS
           else
             (case cmd_parse inet (last complete) vline of
                (ret, av) \<Rightarrow> if ret \<noteq> CMD_SUCCESS then Inl ret else Inr (last complete, av))))"

type_synonym callback = "nat \<Rightarrow> args \<Rightarrow> cmd_element \<Rightarrow> vty \<Rightarrow> int \<times> vty"

definition cmd_execute_command_real ::
    "cmdvec \<Rightarrow> (string \<Rightarrow> bool) \<Rightarrow> callback \<Rightarrow> string option list \<Rightarrow> filter_type \<Rightarrow> vty \<Rightarrow> int \<times> vty" where
  "cmd_execute_command_real cv inet call vline filt v =
     (case cmd_node_vector cv (vnode v) of
        None \<Rightarrow> (CMD_ERR_NO_MATCH, v\<lparr>vfault := True\<rparr>)
      | Some commands \<Rightarrow>
          (case cmd_select inet commands vline filt of
             Inl ret \<Rightarrow> (ret, v)
           | Inr (e, av) \<Rightarrow>
               if ce_daemon e then (CMD_SUCCESS_DAEMON, v) else call (ce_cb e) av e v))"

definition cmd_execute_command ::
    "cmdvec \<Rightarrow> (string \<Rightarrow> bool) \<Rightarrow> callback \<Rightarrow> string option list \<Rightarrow> vty \<Rightarrow> int \<times> vty" where
  "cmd_execute_command cv inet call vline v =
     (let onode = vnode v in
      if cmd_try_do_shortcut (hd vline) then
        (case cmd_execute_command_real cv inet call (tl vline) FILTER_RELAXED v of
           (ret, v1) \<Rightarrow> (ret, v1\<lparr>vnode := onode\<rparr>))
      else cmd_execute_command_real cv inet call vline FILTER_RELAXED v)"

definition vty_command ::
    "cmdvec \<Rightarrow> (string \<Rightarrow> bool) \<Rightarrow> callback \<Rightarrow> vty \<Rightarrow> string \<Rightarrow> int \<times> vty" where
  "vty_command cv inet call v buf =
     (case cmd_make_strvec buf of
        None \<Rightarrow> (0, v)
      | Some vline \<Rightarrow>
          (case cmd_execute_command cv inet call vline v of
             (ret, v1) \<Rightarrow>
               (ret,
                if ret = CMD_WARNING then
                  (if vtype v1 = VTY_FILE then vty_out v1 (''Warning...'' @ VTY_NEWLINE v1) else v1)
                else if ret = CMD_ERR_AMBIGUOUS then
                  vty_out v1 (''% Ambiguous command.'' @ VTY_NEWLINE v1)
                else if ret = CMD_ERR_NO_MATCH then
                  vty_out v1 (''% Unknown command: '' @ buf @ VTY_NEWLINE v1)
                else if ret = CMD_ERR_INCOMPLETE then
                  vty_out v1 (''% Command incomplete.'' @ VTY_NEWLINE v1)
                else v1)))"

definition vty_execute :: "cmdvec \<Rightarrow> (string \<Rightarrow> bool) \<Rightarrow> callback \<Rightarrow> vty \<Rightarrow> int \<times> vty" where
  "vty_execute cv inet call v =
     (case vty_command cv inet call v (c_string (vbuf v)) of
        (ret, v1) \<Rightarrow>
          (let v2 = (if vtype v1 = VTY_TERM then vty_hist_add v1 else v1);
               v3 = vty_clear_buf (v2\<lparr>vcp := 0, vlen := 0\<rparr>)
           in (ret, if vstatus v3 \<noteq> VTY_CLOSE then vty_prompt (cmd_prompt cv) v3 else v3)))"

definition vty_list :: "cmdvec \<Rightarrow> vty \<Rightarrow> vty" where
  "vty_list cv v =
     (case cmd_node_vector cv (vnode v) of
        None \<Rightarrow> v\<lparr>vfault := True\<rparr>
      | Some cmds \<Rightarrow>
          fold (\<lambda>c w. case c of
                  None \<Rightarrow> w
                | Some e \<Rightarrow>
                    if ce_attr e = CMD_ATTR_DEPRECATED \<or> ce_attr e = CMD_ATTR_HIDDEN then w
                    else vty_out w (''  '' @ ce_string e @ VTY_NEWLINE w)) cmds v)"

end
