(* ===== verification/Vty_Help.thy ===== *)
theory Vty_Help
  imports Vty_Cmd
begin

text \<open>
  Completion (TAB) and description (\<open>?\<close>) of the line being edited, of \<^verbatim>\<open>src/opbox/vty.c\<close>.  \<^verbatim>\<open>qsort\<close> with \<^verbatim>\<open>strcmp\<close> is \<open>sort\<close> in the lexicographic order of
  character codes; among tokens with equal \<^verbatim>\<open>cmd\<close>, whose order \<^verbatim>\<open>qsort\<close> leaves open, it keeps theirs.
\<close>

section \<open>Completion\<close>

definition cmd_entry_function :: "string option \<Rightarrow> cmd_token \<Rightarrow> string option" where
  "cmd_entry_function src token =
     (if TERMINAL_RECORD (terminal token) then None
      else
        (case src of
           None \<Rightarrow> Some (cmd token)
         | Some s \<Rightarrow> if strncmp_eq s (cmd token) (length s) then Some (cmd token) else None))"

definition cmd_unique_string :: "string list \<Rightarrow> string \<Rightarrow> bool" where
  "cmd_unique_string v str \<longleftrightarrow> str \<notin> set v"

fun common_prefix_len :: "string \<Rightarrow> string \<Rightarrow> nat" where
  "common_prefix_len (c # s) (d # t) = (if c \<noteq> d then 0 else Suc (common_prefix_len s t))"
| "common_prefix_len _ _ = 0"

fun lcd_loop :: "string list \<Rightarrow> nat option \<Rightarrow> nat option" where
  "lcd_loop (s1 # s2 # ss) lcd =
     (let j = common_prefix_len s1 s2 in
      lcd_loop (s2 # ss) (case lcd of None \<Rightarrow> Some j | Some l \<Rightarrow> if l > j then Some j else Some l))"
| "lcd_loop _ lcd = lcd"

definition cmd_lcd :: "string list \<Rightarrow> nat" where
  "cmd_lcd matched =
     (if length matched < 2 then 0 else (case lcd_loop matched None of Some l \<Rightarrow> l | None \<Rightarrow> 0))"

text \<open>
  The filter loop: the last argument list is what is left of the words; the match vector of the
  last word is the result.  As in the code, a result 2 of \<^verbatim>\<open>is_cmd_ambiguous\<close> is ignored.
\<close>

fun complete_loop ::
    "(string \<Rightarrow> bool) \<Rightarrow> string option list \<Rightarrow> nat \<Rightarrow> string option list \<Rightarrow> cmd_element option list \<Rightarrow>
     int + cmd_token list option list" where
  "complete_loop inet vline i [] cmds = Inl CMD_ERR_NO_MATCH"
| "complete_loop inet vline i (command # ws) cmds =
     (case cmd_vector_filter inet cmds FILTER_RELAXED vline i of
        (ret, cmds1, match, ms) \<Rightarrow>
          if ret \<noteq> CMD_SUCCESS then Inl ret
          else if ws = [] then Inr ms
          else
            (case is_cmd_ambiguous cmds1 command ms match of
               (r, cmds2) \<Rightarrow>
                 if r = 1 then Inl CMD_ERR_AMBIGUOUS
                 else complete_loop inet vline (i + 1) ws cmds2))"

fun collect_tokens :: "string option \<Rightarrow> cmd_token list \<Rightarrow> string list \<Rightarrow> string list" where
  "collect_tokens src [] mv = mv"
| "collect_tokens src (t # ts) mv =
     collect_tokens src ts
       (case cmd_entry_function src t of
          Some s \<Rightarrow> if cmd_unique_string mv s then mv @ [s] else mv
        | None \<Rightarrow> mv)"

fun collect_matches :: "string option \<Rightarrow> cmd_token list option list \<Rightarrow> string list \<Rightarrow> string list" where
  "collect_matches src [] mv = mv"
| "collect_matches src (None # ms) mv = collect_matches src ms mv"
| "collect_matches src (Some ts # ms) mv = collect_matches src ms (collect_tokens src ts mv)"

definition cmd_complete_command_real ::
    "(string \<Rightarrow> bool) \<Rightarrow> cmd_element option list \<Rightarrow> string option list \<Rightarrow> int \<times> string list option" where
  "cmd_complete_command_real inet commands vline =
     (if vline = [] then (CMD_ERR_NO_MATCH, None)
      else
        (case complete_loop inet vline 0 vline commands of
           Inl ret \<Rightarrow> (ret, None)
         | Inr ms \<Rightarrow>
             (let src = last vline;
                  mv = collect_matches src ms [] in
              if mv = [] then
                (if src = None then CMD_ERR_NOTHING_TODO else CMD_ERR_NO_MATCH, None)
              else if length mv = 1 then (CMD_COMPLETE_FULL_MATCH, Some mv)
              else
                (case src of
                   Some s \<Rightarrow>
                     (let lcd = cmd_lcd mv in
                      if lcd \<noteq> 0 \<and> length s < lcd then (CMD_COMPLETE_MATCH, Some [take lcd (hd mv)])
                      else (CMD_COMPLETE_LIST_MATCH, Some (sort mv)))
                 | None \<Rightarrow> (CMD_COMPLETE_LIST_MATCH, Some (sort mv))))))"

definition cmd_complete_command_lib ::
    "cmdvec \<Rightarrow> (string \<Rightarrow> bool) \<Rightarrow> string option list \<Rightarrow> vty \<Rightarrow> (int \<times> string list option) option" where
  "cmd_complete_command_lib cv inet vline v =
     map_option (\<lambda>cmds. cmd_complete_command_real inet cmds
                          (if cmd_try_do_shortcut (hd vline) then tl vline else vline))
       (cmd_node_vector cv (vnode v))"

definition vty_insert_word_overwrite :: "vty \<Rightarrow> string \<Rightarrow> vty" where
  "vty_insert_word_overwrite v str =
     (let v0 = v\<lparr>vfault := (vfault v \<or> vmax v \<le> vcp v)\<rparr>;
          nwrite = min (length str) (vmax v - vcp v - 1);
          v1 = vbuf_write v0 (vcp v) (take nwrite str);
          v2 = v1\<lparr>vcp := vcp v1 + nwrite\<rparr>;
          v3 = v2\<lparr>vlen := vcp v2\<rparr>;
          v4 = vbuf_set v3 (vlen v3) NUL
      in vty_write v4 (take nwrite str))"

definition vty_backward_pure_word :: "vty \<Rightarrow> vty" where
  "vty_backward_pure_word v =
     vty_loop (\<lambda>v. vcp v > 0 \<and> vbuf v ! (vcp v - 1) \<noteq> CHR '' '') vty_backward_char v"

definition pad_right :: "nat \<Rightarrow> string \<Rightarrow> string" where
  "pad_right n s = s @ replicate (n - length s) (CHR '' '')"

fun list_matches :: "nat \<Rightarrow> string list \<Rightarrow> vty \<Rightarrow> vty" where
  "list_matches i [] v = v"
| "list_matches i (s # ss) v =
     (let v1 = (if i \<noteq> 0 \<and> i mod 6 = 0 then vty_out v (VTY_NEWLINE v) else v)
      in list_matches (i + 1) ss (vty_out v1 (pad_right 10 s @ '' '')))"

text \<open>
  The line to complete or describe: the words of the buffer, and NULL when it ends in white space.
\<close>

definition line_words :: "vty \<Rightarrow> string option list option" where
  "line_words v =
     map_option (\<lambda>ws. if c_isspace (vbuf v ! (vlen v - 1)) then ws @ [None] else ws)
       (cmd_make_strvec (c_string (vbuf v)))"

definition vty_complete_command :: "cmdvec \<Rightarrow> (string \<Rightarrow> bool) \<Rightarrow> vty \<Rightarrow> vty" where
  "vty_complete_command cv inet v =
     (case line_words v of
        None \<Rightarrow> v
      | Some vline \<Rightarrow>
          (case cmd_complete_command_lib cv inet vline v of
             None \<Rightarrow> v\<lparr>vfault := True\<rparr>
           | Some (ret, matched) \<Rightarrow>
               (let v1 = vty_out v (VTY_NEWLINE v);
                    redraw = (\<lambda>w. vty_redraw_line (vty_prompt (cmd_prompt cv) w));
                    word = (case matched of Some (s # _) \<Rightarrow> s | _ \<Rightarrow> []) in
                if ret = CMD_ERR_AMBIGUOUS then
                  redraw (vty_out v1 (''% Ambiguous command.'' @ VTY_NEWLINE v1))
                else if ret = CMD_ERR_NO_MATCH then redraw v1
                else if ret = CMD_COMPLETE_FULL_MATCH then
                  vty_self_insert (vty_insert_word_overwrite (vty_backward_pure_word (redraw v1)) word) (CHR '' '')
                else if ret = CMD_COMPLETE_MATCH then
                  vty_insert_word_overwrite (vty_backward_pure_word (redraw v1)) word
                else if ret = CMD_COMPLETE_LIST_MATCH then
                  (let v2 = list_matches 0 (case matched of Some ss \<Rightarrow> ss | None \<Rightarrow> []) v1
                   in redraw (vty_out v2 (VTY_NEWLINE v2)))
                else if ret = CMD_ERR_NOTHING_TODO then redraw v1
                else v1)))"

section \<open>Description\<close>

definition desc_unique_string :: "cmd_token list \<Rightarrow> string \<Rightarrow> bool" where
  "desc_unique_string v str \<longleftrightarrow> str \<notin> cmd ` set v"

definition cmd_entry_function_desc :: "(string \<Rightarrow> bool) \<Rightarrow> string option \<Rightarrow> cmd_token \<Rightarrow> string option" where
  "cmd_entry_function_desc inet src token =
     (let dst = cmd token in
      case terminal token of
        TERMINAL_VARARG \<Rightarrow> Some dst
      | TERMINAL_RANGE \<Rightarrow> if cmd_range_match dst src then Some dst else None
      | TERMINAL_IPV6 \<Rightarrow> if cmd_ipv6_match inet src \<noteq> no_match then Some dst else None
      | TERMINAL_IPV6_PREFIX \<Rightarrow> if cmd_ipv6_prefix_match src \<noteq> no_match then Some dst else None
      | TERMINAL_IPV4 \<Rightarrow> if cmd_ipv4_match src \<noteq> no_match then Some dst else None
      | TERMINAL_IPV4_PREFIX \<Rightarrow> if cmd_ipv4_prefix_match src \<noteq> no_match then Some dst else None
      | TERMINAL_OPTION \<Rightarrow> Some dst
      | TERMINAL_VARIABLE \<Rightarrow> Some dst
      | TERMINAL_LITERAL \<Rightarrow>
          (case src of
             None \<Rightarrow> Some dst
           | Some s \<Rightarrow> if strncmp_eq s dst (length s) then Some dst else None)
      | TERMINAL_BUG \<Rightarrow> None)"

text \<open>
  The filter loop of \<^verbatim>\<open>cmd_describe_command_real\<close>: an error code, the tokens of a vararg match, or
  the commands, the last match type and the match vector.
\<close>

datatype describe_result =
    Desc_error int
  | Desc_vararg "cmd_token list"
  | Desc_matches "cmd_element option list" match_type "cmd_token list option list" "string option"

fun describe_loop ::
    "(string \<Rightarrow> bool) \<Rightarrow> string option list \<Rightarrow> nat \<Rightarrow> string option list \<Rightarrow> cmd_element option list \<Rightarrow>
     describe_result" where
  "describe_loop inet vline i [] cmds = Desc_error CMD_ERR_NO_MATCH"
| "describe_loop inet vline i (command # ws) cmds =
     (case cmd_vector_filter inet cmds FILTER_RELAXED vline i of
        (ret, cmds1, match, ms) \<Rightarrow>
          if ret \<noteq> CMD_SUCCESS then Desc_error ret
          else if ws = [] then Desc_matches cmds1 match ms command
          else if match = vararg_match then
            Desc_vararg (concat (map (\<lambda>m. case m of Some ts \<Rightarrow> ts | None \<Rightarrow> []) ms))
          else
            (case is_cmd_ambiguous cmds1 command ms match of
               (r, cmds2) \<Rightarrow>
                 if r = 1 then Desc_error CMD_ERR_AMBIGUOUS
                 else if r = 2 then Desc_error CMD_ERR_NO_MATCH
                 else describe_loop inet vline (i + 1) ws cmds2))"

text \<open>\<^verbatim>\<open>vector_unset\<close> of the last word, on the list.\<close>

definition trim_last :: "string option list \<Rightarrow> string option list" where
  "trim_last vline = rev (dropWhile (\<lambda>w. w = None) (rev (butlast vline)))"

definition empty_word :: "string option \<Rightarrow> bool" where
  "empty_word w \<longleftrightarrow> w = None \<or> w = Some []"

fun describe_tokens :: "(string \<Rightarrow> bool) \<Rightarrow> string option \<Rightarrow> cmd_token list \<Rightarrow> cmd_token list \<Rightarrow> cmd_token list" where
  "describe_tokens inet command [] mv = mv"
| "describe_tokens inet command (t # ts) mv =
     describe_tokens inet command ts
       (case cmd_entry_function_desc inet command t of
          Some s \<Rightarrow> if desc_unique_string mv s then mv @ [t] else mv
        | None \<Rightarrow> mv)"

fun describe_collect ::
    "(string \<Rightarrow> bool) \<Rightarrow> string option list \<Rightarrow> match_type \<Rightarrow> string option \<Rightarrow> cmd_element option list \<Rightarrow>
     cmd_token list option list \<Rightarrow> cmd_token list \<Rightarrow> nat \<Rightarrow> cmd_token list \<times> nat" where
  "describe_collect inet vline match command cmds [] mv found = (mv, found)"
| "describe_collect inet vline match command cmds (m # ms) mv found =
     (case cmds of
        [] \<Rightarrow> (mv, found)
      | None # cs \<Rightarrow> describe_collect inet vline match command cs ms mv found
      | Some e # cs \<Rightarrow>
          (let mv1 = (if empty_word (last vline) \<and> cmd_is_complete inet e (trim_last vline) \<and>
                         desc_unique_string mv command_cr \<and> match \<noteq> vararg_match
                      then mv @ [token_cr] else mv);
               mv2 = (case m of Some ts \<Rightarrow> describe_tokens inet command ts mv1 | None \<Rightarrow> mv1)
           in describe_collect inet vline match command cs ms mv2 (found + 1)))"

definition cmd_describe_sort :: "cmd_token list \<Rightarrow> cmd_token list" where
  "cmd_describe_sort mv = sort_key cmd mv"

definition cmd_describe_command_real ::
    "(string \<Rightarrow> bool) \<Rightarrow> cmd_element option list \<Rightarrow> string option list \<Rightarrow> int \<times> cmd_token list option" where
  "cmd_describe_command_real inet commands vline =
     (case describe_loop inet vline 0 vline commands of
        Desc_error ret \<Rightarrow> (ret, None)
      | Desc_vararg ts \<Rightarrow> (CMD_SUCCESS, Some (cmd_describe_sort (ts @ [token_cr])))
      | Desc_matches cmds match ms command \<Rightarrow>
          (case describe_collect inet vline match command cmds ms [] 0 of
             (mv, found) \<Rightarrow>
               (let mv1 = (if found = 0 \<and> empty_word (last vline) then mv @ [token_cr] else mv) in
                if mv1 = [] then (CMD_ERR_NO_MATCH, None)
                else (CMD_SUCCESS, Some (cmd_describe_sort mv1)))))"

definition cmd_describe_command ::
    "cmdvec \<Rightarrow> (string \<Rightarrow> bool) \<Rightarrow> string option list \<Rightarrow> vty \<Rightarrow> (int \<times> cmd_token list option) option" where
  "cmd_describe_command cv inet vline v =
     (let words = (if cmd_try_do_shortcut (hd vline) then tl vline else vline) in
      if words = [] then Some (CMD_ERR_NO_MATCH, None)
      else map_option (\<lambda>cmds. cmd_describe_command_real inet cmds words) (cmd_node_vector cv (vnode v)))"

definition shown_cmd :: "string \<Rightarrow> string" where
  "shown_cmd s = (if cur s = CHR ''.'' then tl s else s)"

definition describe_line :: "nat \<Rightarrow> string \<Rightarrow> string \<Rightarrow> vty \<Rightarrow> vty" where
  "describe_line cmd_width c d v = vty_out v (''  '' @ pad_right cmd_width c @ ''  '' @ d @ VTY_NEWLINE v)"

text \<open>The position of the last blank at or before \<open>pos\<close>, 0 when there is none after the first character.\<close>

fun fold_pos :: "string \<Rightarrow> nat \<Rightarrow> nat" where
  "fold_pos p 0 = 0"
| "fold_pos p (Suc pos) = (if p ! Suc pos = CHR '' '' then Suc pos else fold_pos p pos)"

function describe_fold_loop :: "nat \<Rightarrow> nat \<Rightarrow> string \<Rightarrow> string \<Rightarrow> vty \<Rightarrow> vty" where
  "describe_fold_loop cmd_width desc_width c p v =
     (if length p > desc_width \<and> fold_pos p desc_width \<noteq> 0 then
        (let pos = fold_pos p desc_width
         in describe_fold_loop cmd_width desc_width [] (drop (pos + 1) p)
              (describe_line cmd_width c (take pos p) v))
      else describe_line cmd_width c p v)"
  by pat_completeness auto
termination
  by (relation "measure (\<lambda>(cw, dw, c, p, v). length p)") auto

definition vty_describe_fold :: "vty \<Rightarrow> nat \<Rightarrow> nat \<Rightarrow> string \<Rightarrow> string \<Rightarrow> vty" where
  "vty_describe_fold v cmd_width desc_width c d =
     (if desc_width = 0 then describe_line cmd_width (shown_cmd c) d v
      else describe_fold_loop cmd_width desc_width (shown_cmd c) d v)"

definition describe_width :: "cmd_token list \<Rightarrow> nat" where
  "describe_width ts = fold (\<lambda>t w. max w (length (shown_cmd (cmd t)))) ts 0"

definition describe_token :: "nat \<Rightarrow> nat \<Rightarrow> cmd_token \<Rightarrow> vty \<Rightarrow> vty" where
  "describe_token width desc_width t v =
     (case desc t of
        None \<Rightarrow> vty_out v (''  '' @ shown_cmd (cmd t) @ VTY_NEWLINE v)
      | Some d \<Rightarrow>
          if desc_width \<ge> length d then describe_line width (shown_cmd (cmd t)) d v
          else vty_describe_fold v width desc_width (cmd t) d)"

definition describe_print :: "nat \<Rightarrow> cmd_token list \<Rightarrow> vty \<Rightarrow> vty" where
  "describe_print vwid ts v =
     (let width = describe_width ts;
          desc_width = nat ((int vwid - (int width + 6)) mod 2 ^ 32);
          v1 = fold (describe_token width desc_width)
                 (filter (\<lambda>t. cmd t \<noteq> [] \<and> cmd t \<noteq> command_cr) ts) v;
          crs = filter (\<lambda>t. cmd t = command_cr) ts
      in if crs = [] then v1 else describe_token width desc_width (last crs) v1)"

definition vty_describe_command :: "cmdvec \<Rightarrow> (string \<Rightarrow> bool) \<Rightarrow> vty \<Rightarrow> vty" where
  "vty_describe_command cv inet v =
     (let vline = (case line_words v of None \<Rightarrow> [None] | Some ws \<Rightarrow> ws) in
      case cmd_describe_command cv inet vline v of
        None \<Rightarrow> v\<lparr>vfault := True\<rparr>
      | Some (ret, describe) \<Rightarrow>
          (let v1 = vty_out v (VTY_NEWLINE v);
               v2 = (if ret = CMD_ERR_AMBIGUOUS then
                       vty_out v1 (''% Ambiguous command.'' @ VTY_NEWLINE v1)
                     else if ret = CMD_ERR_NO_MATCH then
                       vty_out v1 (''% There is no matched command.'' @ VTY_NEWLINE v1)
                     else
                       (case describe of
                          None \<Rightarrow> v1\<lparr>vfault := True\<rparr>
                        | Some ts \<Rightarrow> describe_print (vwidth v1) ts v1))
           in vty_redraw_line (vty_prompt (cmd_prompt cv) v2)))"

end
