(* ===== verification/Vty_Read.thy ===== *)
theory Vty_Read
  imports Vty_Help
begin

text \<open>
  The byte loop \<^verbatim>\<open>vty_read\<close> of \<^verbatim>\<open>src/opbox/vty.c\<close>: telnet commands, escape sequences, control keys and
  text.  One step takes the byte under \<^verbatim>\<open>i\<close> and the bytes after it, and returns how many of those it
  skips.
\<close>

section \<open>Definitions\<close>

definition vty_escape_map :: "char \<Rightarrow> vty \<Rightarrow> vty" where
  "vty_escape_map c v =
     (if c = CHR ''A'' then vty_previous_line v
      else if c = CHR ''B'' then vty_next_line v
      else if c = CHR ''C'' then vty_forward_char v
      else if c = CHR ''D'' then vty_backward_char v
      else v)\<lparr>vescape := VTY_NORMAL\<rparr>"

definition CONTROL :: "char \<Rightarrow> char" where
  "CONTROL c = char_of (of_char c - of_char (CHR ''@'') :: nat)"

definition pre_escape_key :: "(nat \<Rightarrow> string option) \<Rightarrow> char \<Rightarrow> vty \<Rightarrow> vty" where
  "pre_escape_key prompt c v =
     (if c = CHR ''['' then v\<lparr>vescape := VTY_ESCAPE\<rparr>
      else if c = CHR ''b'' then (vty_backward_word v)\<lparr>vescape := VTY_NORMAL\<rparr>
      else if c = CHR ''f'' then (vty_forward_word v)\<lparr>vescape := VTY_NORMAL\<rparr>
      else if c = CHR ''d'' then (vty_forward_kill_word prompt v)\<lparr>vescape := VTY_NORMAL\<rparr>
      else if c = CONTROL (CHR ''H'') \<or> c = CHR 0x7F then
        (vty_backward_kill_word prompt v)\<lparr>vescape := VTY_NORMAL\<rparr>
      else v\<lparr>vescape := VTY_NORMAL\<rparr>)"

definition edit_key :: "(nat \<Rightarrow> string option) \<Rightarrow> char \<Rightarrow> vty \<Rightarrow> vty" where
  "edit_key prompt c v =
     (if c = CONTROL (CHR ''A'') then vty_beginning_of_line v
      else if c = CONTROL (CHR ''B'') then vty_backward_char v
      else if c = CONTROL (CHR ''C'') then v
      else if c = CONTROL (CHR ''D'') then vty_delete_char prompt v
      else if c = CONTROL (CHR ''E'') then vty_end_of_line v
      else if c = CONTROL (CHR ''F'') then vty_forward_char v
      else if c = CONTROL (CHR ''H'') \<or> c = CHR 0x7F then vty_delete_backward_char prompt v
      else if c = CONTROL (CHR ''K'') then vty_kill_line v
      else if c = CONTROL (CHR ''N'') then vty_next_line v
      else if c = CONTROL (CHR ''P'') then vty_previous_line v
      else if c = CONTROL (CHR ''T'') then vty_transpose_chars v
      else if c = CONTROL (CHR ''U'') then vty_kill_line_from_beginning v
      else if c = CONTROL (CHR ''V'') then v\<lparr>vescape := VTY_LITERAL\<rparr>
      else if c = CONTROL (CHR ''W'') then vty_backward_kill_word prompt v
      else if of_char c > (31::nat) \<and> of_char c < (127::nat) then vty_self_insert v c
      else v)"

definition normal_key ::
    "cmdvec \<Rightarrow> (string \<Rightarrow> bool) \<Rightarrow> callback \<Rightarrow> char \<Rightarrow> char list \<Rightarrow> vty \<Rightarrow> nat \<times> vty" where
  "normal_key cv inet call c rest v =
     (if c = CHR 0x0A \<or> c = CHR 0x0D then
        (0, snd (vty_execute cv inet call (vty_out v (VTY_NEWLINE v))))
      else if c = CHR 0x09 then (0, vty_complete_command cv inet v)
      else if c = CHR ''?'' then (0, vty_describe_command cv inet v)
      else if c = CHR 0x1B then
        (if rest \<noteq> [] \<and> hd rest = CHR ''['' then (1, v\<lparr>vescape := VTY_ESCAPE\<rparr>)
         else (0, v\<lparr>vescape := VTY_PRE_ESCAPE\<rparr>))
      else (0, edit_key (cmd_prompt cv) c v))"

definition sb_store :: "char \<Rightarrow> vty \<Rightarrow> vty" where
  "sb_store c v =
     (if vsb_len v < length (vsb_buf v) then v\<lparr>vsb_buf := (vsb_buf v)[vsb_len v := c]\<rparr> else v)
       \<lparr>vsb_len := vsb_len v + 1\<rparr>"

definition key_step ::
    "cmdvec \<Rightarrow> (string \<Rightarrow> bool) \<Rightarrow> callback \<Rightarrow> char \<Rightarrow> char list \<Rightarrow> vty \<Rightarrow> nat \<times> vty" where
  "key_step cv inet call c rest v =
     (if vstatus v = VTY_MORE then
        (0, if c = CONTROL (CHR ''C'') \<or> c = CHR ''q'' \<or> c = CHR ''Q'' then vty_prompt (cmd_prompt cv) v else v)
      else if vescape v = VTY_ESCAPE then (0, vty_escape_map c v)
      else if vescape v = VTY_LITERAL then (0, (vty_self_insert v c)\<lparr>vescape := VTY_NORMAL\<rparr>)
      else if vescape v = VTY_PRE_ESCAPE then (0, pre_escape_key (cmd_prompt cv) c v)
      else normal_key cv inet call c rest v)"

definition read_step ::
    "cmdvec \<Rightarrow> (string \<Rightarrow> bool) \<Rightarrow> callback \<Rightarrow> char \<Rightarrow> char list \<Rightarrow> vty \<Rightarrow> nat \<times> vty" where
  "read_step cv inet call c rest v =
     (if c = TELNET_IAC \<and> \<not> viac v then (0, v\<lparr>viac := True\<rparr>)
      else
        (let v1 = (if c = TELNET_IAC then v\<lparr>viac := False\<rparr> else v) in
         if viac_sb_in_progress v1 \<and> \<not> viac v1 then (0, sb_store c v1)
         else if viac v1 then
           (case vty_telnet_option v1 c of (ret, v2) \<Rightarrow> (ret, v2\<lparr>viac := False\<rparr>))
         else key_step cv inet call c rest v1))"

function vty_read :: "cmdvec \<Rightarrow> (string \<Rightarrow> bool) \<Rightarrow> callback \<Rightarrow> char list \<Rightarrow> vty \<Rightarrow> vty" where
  "vty_read cv inet call [] v = v"
| "vty_read cv inet call (c # rest) v =
     (case read_step cv inet call c rest v of (skip, v1) \<Rightarrow> vty_read cv inet call (drop skip rest) v1)"
  by pat_completeness auto
termination
  by (relation "measure (\<lambda>(cv, inet, call, bs, v). length bs)") auto

end
