(* ===== verification/Vty_Select.thy ===== *)
theory Vty_Select
  imports Vty_Cmd
begin

text \<open>
  Command selection of \<^verbatim>\<open>src/opbox/vty.c\<close>: \<^verbatim>\<open>cmd_execute_command_real\<close> only calls commands of the node,
  and on a node of literal commands the filter passes implement a specification on word lists.
\<close>

section \<open>Nodes of literal commands\<close>

text \<open>
  The specification of command selection on a node whose commands consist of literal words: a word
  of the line abbreviates the command word at its position; if some remaining command has exactly
  that word only those stay, otherwise the abbreviated words must be the same.
\<close>

definition lit_token :: "cmd_token \<Rightarrow> bool" where
  "lit_token t \<longleftrightarrow> (case t of TOKEN_TERMINAL tt c d \<Rightarrow> tt = TERMINAL_LITERAL | _ \<Rightarrow> False)"

definition lit_words :: "cmd_element \<Rightarrow> string list" where
  "lit_words e = map cmd (ce_tokens e)"

definition lit_command :: "cmd_element \<Rightarrow> bool" where
  "lit_command e \<longleftrightarrow> list_all lit_token (ce_tokens e)"

definition abbreviates :: "string \<Rightarrow> string \<Rightarrow> bool" where
  "abbreviates w c \<longleftrightarrow> take (length w) c = w"

fun lit_match :: "string list \<Rightarrow> string list \<Rightarrow> nat \<Rightarrow> bool" where
  "lit_match (c # cs) (w # ws) 0 = abbreviates w c"
| "lit_match (c # cs) (w # ws) (Suc n) = (abbreviates w c \<and> lit_match cs ws n)"
| "lit_match _ _ _ = False"

definition lit_element :: "string list \<Rightarrow> nat \<Rightarrow> cmd_element" where
  "lit_element ws cb =
     \<lparr>ce_node = 0, ce_string = [], ce_doc = None, ce_tokens = map literal ws, ce_attr = 0, ce_daemon = False, ce_cb = cb\<rparr>"

lemma word_match_lit:
  assumes "lit_token t" "w \<noteq> []"
  shows "cmd_word_match inet t FILTER_RELAXED (Some w) =
    (if abbreviates w (cmd t) then (if cmd t = w then exact_match else partly_match) else no_match)"
  using assms by (auto simp: lit_token_def cmd_word_match_def abbreviates_def strncmp_eq_def split: cmd_token.splits)

lemma lit_terminal:
  "lit_token t \<Longrightarrow> terminal t = TERMINAL_LITERAL" "lit_token t \<Longrightarrow> \<exists>c d. t = TOKEN_TERMINAL TERMINAL_LITERAL c d"
  by (auto simp: lit_token_def split: cmd_token.splits)

lemma match_terminal_lit:
  assumes "lit_token t" "m_filter m = FILTER_RELAXED" "drop (m_word_index m) (m_vline m) = map Some (w # ws)" "w \<noteq> []"
  shows "cmd_matcher_match_terminal inet m t av =
    (if abbreviates w (cmd t) then
       (MATCHER_OK,
        (cmd_matcher_record_match m (if cmd t = w then exact_match else partly_match) t)
          \<lparr>m_word_index := Suc (m_word_index m)\<rparr>, av)
     else (MATCHER_NO_MATCH, m, av))"
    "drop (Suc (m_word_index m)) (m_vline m) = map Some ws"
    "m_word_index m < length (m_vline m)"
proof -
  show l: "m_word_index m < length (m_vline m)"
    using assms(3) by (metis drop_all leI list.distinct(1) list.simps(9))
  then have g: "m_vline m ! m_word_index m = Some w" and d: "drop (Suc (m_word_index m)) (m_vline m) = map Some ws"
    using assms(3) by (auto simp: Cons_nth_drop_Suc [symmetric])
  then show "drop (Suc (m_word_index m)) (m_vline m) = map Some ws" by simp
  have "abbreviates w w" by (simp add: abbreviates_def)
  with l g show "cmd_matcher_match_terminal inet m t av =
    (if abbreviates w (cmd t) then
       (MATCHER_OK,
        (cmd_matcher_record_match m (if cmd t = w then exact_match else partly_match) t)
          \<lparr>m_word_index := Suc (m_word_index m)\<rparr>, av)
     else (MATCHER_NO_MATCH, m, av))"
    using assms(1,2,4) lit_terminal(1) [OF assms(1)]
    by (simp add: cmd_matcher_match_terminal_def cmd_matcher_words_left_def cmd_matcher_get_word_def
        word_match_lit record_match_same Let_def)
qed

lemma lit_loop:
  assumes "list_all lit_token ts" "m_filter m = FILTER_RELAXED" "drop (m_word_index m) (m_vline m) = map Some ws"
    "[] \<notin> set ws" "m_index m = m_word_index m + n" "n < length ws"
    "m_match m = Some None" "m_match_type m = Some no_match"
  shows "if lit_match (map cmd ts) ws n then
      (\<exists>m'. element_match_loop inet ts m av = (Some MATCHER_OK, m', av) \<and>
        m_match m' = Some (Some [ts ! n]) \<and>
        m_match_type m' = Some (if cmd (ts ! n) = ws ! n then exact_match else partly_match))
    else
      (\<exists>r m'. element_match_loop inet ts m av = (r, m', av) \<and>
        m_match m' = Some None \<and> m_match_type m' = Some no_match \<and>
        (r = Some MATCHER_NO_MATCH \<or> r = None \<and> m_word_index m' \<le> m_index m))"
  using assms
proof (induction ts arbitrary: m ws n)
  case (Cons t ts)
  obtain w ws' where ws: "ws = w # ws'" using Cons.prems(6) by (cases ws) auto
  have lit: "lit_token t" "w \<noteq> []" using Cons.prems ws by auto
  obtain c d where t: "t = TOKEN_TERMINAL TERMINAL_LITERAL c d" using lit_terminal(2) [OF lit(1)] by blast
  note mt = match_terminal_lit [OF lit(1) Cons.prems(2) Cons.prems(3) [unfolded ws] lit(2)]
  show ?case
  proof (cases "abbreviates w (cmd t)")
    case False
    then show ?thesis using mt(1) [of inet av] Cons.prems t ws
      by (cases n) (simp_all add: MATCHER_ERROR_def)
  next
    case True
    let ?r = "cmd_matcher_record_match m (if cmd t = w then exact_match else partly_match) t"
    let ?m = "?r\<lparr>m_word_index := Suc (m_word_index m)\<rparr>"
    show ?thesis
    proof (cases n)
      case 0
      then show ?thesis using mt(1) [of inet av] Cons.prems t ws True
        by (simp add: MATCHER_ERROR_def cmd_matcher_record_match_def Let_def less_match_type_def)
    next
      case (Suc k)
      let ?m = "m\<lparr>m_word_index := Suc (m_word_index m)\<rparr>"
      have "?r = m" using Suc Cons.prems(5) by (simp add: cmd_matcher_record_match_def)
      then have st: "element_match_loop inet (t # ts) m av = element_match_loop inet ts ?m av"
        using mt(1) [of inet av] t True Suc Cons.prems(5) by (simp add: MATCHER_ERROR_def)
      have "if lit_match (map cmd ts) ws' k then
          (\<exists>m'. element_match_loop inet ts ?m av = (Some MATCHER_OK, m', av) \<and>
            m_match m' = Some (Some [ts ! k]) \<and>
            m_match_type m' = Some (if cmd (ts ! k) = ws' ! k then exact_match else partly_match))
        else
          (\<exists>r m'. element_match_loop inet ts ?m av = (r, m', av) \<and>
            m_match m' = Some None \<and> m_match_type m' = Some no_match \<and>
            (r = Some MATCHER_NO_MATCH \<or> r = None \<and> m_word_index m' \<le> m_index ?m))"
        by (rule Cons.IH) (use Cons.prems Suc ws mt(2) in simp_all)
      then show ?thesis unfolding st Suc ws by (auto simp: True split: if_splits)
    qed
  qed
qed simp


lemma lit_match_nth:
  "lit_match cs ws n \<Longrightarrow> n < length cs \<and> n < length ws \<and> abbreviates (ws ! n) (cs ! n)"
  by (induction cs ws n rule: lit_match.induct) auto

lemma element_match_lit:
  assumes "lit_command e" "[] \<notin> set ws" "i < length ws"
  shows "cmd_element_match inet (ce_tokens e) FILTER_RELAXED (map Some ws) i True (Some None) False =
    (if lit_match (lit_words e) ws i
     then (MATCHER_OK, Some (if lit_words e ! i = ws ! i then exact_match else partly_match),
           Some (Some [ce_tokens e ! i]), None)
     else (MATCHER_NO_MATCH, Some no_match, Some None, None))"
proof -
  let ?m = "cmd_matcher_init FILTER_RELAXED (map Some ws) i True (Some None)"
  have t: "list_all lit_token (ce_tokens e)" using assms(1) by (simp add: lit_command_def)
  note l = lit_loop [OF t, of ?m ws i inet None]
  have w: "ws ! k \<noteq> []" if "k \<le> i" for k using that assms(2,3) by (metis le_less_trans nth_mem)
  show ?thesis
  proof (cases "lit_match (lit_words e) ws i")
    case True
    then show ?thesis using l lit_match_nth [OF True] assms(2,3)
      by (auto simp: cmd_element_match_def cmd_matcher_init_def lit_words_def)
  next
    case False
    then obtain r m' where m': "element_match_loop inet (ce_tokens e) ?m None = (r, m', None)"
      "m_match m' = Some None" "m_match_type m' = Some no_match"
      "r = Some MATCHER_NO_MATCH \<or> r = None \<and> m_word_index m' \<le> i"
      using l assms(2,3) by (auto simp: cmd_matcher_init_def lit_words_def)
    then show ?thesis using False w [of "m_word_index m'"] assms(3)
      by (auto simp: cmd_element_match_def)
  qed
qed

definition lit_kept :: "string list \<Rightarrow> nat \<Rightarrow> cmd_element option \<Rightarrow> cmd_element option" where
  "lit_kept ws i c = (case c of Some e \<Rightarrow> if lit_match (lit_words e) ws i then Some e else None | None \<Rightarrow> None)"

definition lit_type :: "string list \<Rightarrow> nat \<Rightarrow> cmd_element \<Rightarrow> match_type" where
  "lit_type ws i e = (if lit_words e ! i = ws ! i then exact_match else partly_match)"

definition lit_ms :: "string list \<Rightarrow> nat \<Rightarrow> cmd_element option \<Rightarrow> cmd_token list option" where
  "lit_ms ws i c = map_option (\<lambda>e. [ce_tokens e ! i]) (lit_kept ws i c)"

fun lit_best :: "string list \<Rightarrow> nat \<Rightarrow> cmd_element option list \<Rightarrow> match_type \<Rightarrow> match_type" where
  "lit_best ws i [] b = b"
| "lit_best ws i (c # cs) b =
     lit_best ws i cs
       (case lit_kept ws i c of None \<Rightarrow> b | Some e \<Rightarrow> if lit_type ws i e > b then lit_type ws i e else b)"

definition lit_node :: "cmd_element option list \<Rightarrow> bool" where
  "lit_node cmds \<longleftrightarrow> (\<forall>e. Some e \<in> set cmds \<longrightarrow> lit_command e)"

lemma list_put_end: "length ms \<le> p \<Longrightarrow> list_put ms p x = ms @ replicate (p - length ms) None @ [x]"
  by (simp add: list_put_def Suc_diff_le list_update_append replicate_append_same [symmetric])

lemma filter_loop_lit:
  assumes "lit_node cs" "[] \<notin> set ws" "i < length ws" "length ms \<le> p"
  shows "\<exists>ms'. filter_loop inet FILTER_RELAXED (map Some ws) i p cs b ms =
      (CMD_SUCCESS, map (lit_kept ws i) cs, lit_best ws i cs b, ms') \<and>
      length ms' \<le> p + length cs \<and>
      ms' @ replicate (p + length cs - length ms') None = ms @ replicate (p - length ms) None @ map (lit_ms ws i) cs"
  using assms(1,4)
proof (induction cs arbitrary: p b ms)
  case (Cons c cs)
  have lit: "lit_node cs" using Cons.prems(1) by (simp add: lit_node_def)
  show ?case
  proof (cases c)
    case None
    obtain ms' where "filter_loop inet FILTER_RELAXED (map Some ws) i (Suc p) cs b ms =
        (CMD_SUCCESS, map (lit_kept ws i) cs, lit_best ws i cs b, ms')" "length ms' \<le> Suc p + length cs"
      "ms' @ replicate (Suc p + length cs - length ms') None =
        ms @ replicate (Suc p - length ms) None @ map (lit_ms ws i) cs"
      using Cons.IH [OF lit, of ms "Suc p" b] Cons.prems(2) by auto
    then show ?thesis using None Cons.prems(2)
      by (simp add: lit_kept_def lit_ms_def Suc_diff_le replicate_app_Cons_same)
  next
    case (Some e)
    have e: "lit_command e" using Cons.prems(1) Some by (simp add: lit_node_def)
    let ?x = "lit_ms ws i c" and ?b = "case lit_kept ws i c of None \<Rightarrow> b | Some e \<Rightarrow> if lit_type ws i e > b then lit_type ws i e else b"
    let ?ms = "list_put ms p ?x"
    have l: "length ?ms = Suc p" "?ms = ms @ replicate (p - length ms) None @ [?x]"
      using Cons.prems(2) by (simp_all add: list_put_end)
    obtain ms' where ms': "filter_loop inet FILTER_RELAXED (map Some ws) i (Suc p) cs ?b ?ms =
        (CMD_SUCCESS, map (lit_kept ws i) cs, lit_best ws i cs ?b, ms')" "length ms' \<le> Suc p + length cs"
      "ms' @ replicate (Suc p + length cs - length ms') None = ?ms @ map (lit_ms ws i) cs"
      using Cons.IH [OF lit, of ?ms "Suc p" ?b] l(1) by auto
    then show ?thesis using Some l(2) element_match_lit [OF e assms(2,3), of inet]
      by (auto simp: lit_kept_def lit_ms_def lit_type_def MATCHER_ERROR_def Let_def split: if_splits)
  qed
qed (auto simp: replicate_add [symmetric])


text \<open>The command words at position \<open>i\<close> that are still possible.\<close>

definition lit_cands :: "string list \<Rightarrow> nat \<Rightarrow> cmd_element option list \<Rightarrow> string list" where
  "lit_cands ws i cs = List.map_filter (\<lambda>c. map_option (\<lambda>e. lit_words e ! i) (lit_kept ws i c)) cs"

definition lit_exact :: "string list \<Rightarrow> nat \<Rightarrow> cmd_element option \<Rightarrow> cmd_element option" where
  "lit_exact ws i c =
     (case lit_kept ws i c of Some e \<Rightarrow> if lit_words e ! i = ws ! i then Some e else None | None \<Rightarrow> None)"

lemma lit_cands_simps [simp]:
  "lit_cands ws i [] = []"
  "lit_cands ws i (c # cs) =
     (case lit_kept ws i c of None \<Rightarrow> lit_cands ws i cs | Some e \<Rightarrow> lit_words e ! i # lit_cands ws i cs)"
  by (auto simp: lit_cands_def List.map_filter_simps split: option.splits)

lemma lit_best_eq:
  "lit_best ws i cs b =
     (if b = exact_match \<or> ws ! i \<in> set (lit_cands ws i cs) then exact_match
      else if lit_cands ws i cs \<noteq> [] \<and> b < partly_match then partly_match else b)"
proof (induction cs arbitrary: b)
  case (Cons c cs)
  have r: "b < exact_match \<longleftrightarrow> b \<noteq> exact_match" "b < partly_match \<longleftrightarrow> b \<noteq> partly_match \<and> b \<noteq> exact_match"
    "\<not> exact_match < partly_match"
    by (cases b; simp add: less_match_type_def)+
  show ?case
    by (cases "lit_kept ws i c") (simp_all add: Cons lit_type_def r)
qed simp

lemma ambiguous_pad:
  "ambiguous_loop mt c p (ms @ replicate k None) cmds matched = ambiguous_loop mt c p ms cmds matched"
proof (induction mt c p ms cmds matched rule: ambiguous_loop.induct)
  case (1 mt command i cmds matched)
  have "ambiguous_loop mt command i (replicate k None) cmds matched = (0, cmds)" for i
    by (induction k arbitrary: i) auto
  then show ?case by simp
qed (auto split: sum.splits)

lemma lit_kept_token:
  assumes "lit_node [c]" "lit_kept ws i c = Some e"
  obtains d where "ce_tokens e ! i = TOKEN_TERMINAL TERMINAL_LITERAL (lit_words e ! i) d"
    "abbreviates (ws ! i) (lit_words e ! i)" "lit_ms ws i c = Some [ce_tokens e ! i]"
proof -
  have c: "c = Some e" "lit_match (lit_words e) ws i" using assms(2) by (auto simp: lit_kept_def split: option.splits if_splits)
  then have n: "i < length (ce_tokens e)" "abbreviates (ws ! i) (lit_words e ! i)"
    using lit_match_nth [OF c(2)] by (auto simp: lit_words_def)
  then have "lit_token (ce_tokens e ! i)"
    using assms(1) c by (auto simp: lit_node_def lit_command_def list_all_length)
  then obtain w d where t: "ce_tokens e ! i = TOKEN_TERMINAL TERMINAL_LITERAL w d" using lit_terminal(2) by blast
  then have "lit_words e ! i = w" using n by (simp add: lit_words_def)
  with that [of d] t n(2) assms(2) show ?thesis by (simp add: lit_ms_def)
qed

lemma ambiguous_exact:
  assumes "lit_node cs"
  shows "ambiguous_loop exact_match (ws ! i) (length pre) (map (lit_ms ws i) cs) (pre @ map (lit_kept ws i) cs) matched =
    (0, pre @ map (lit_exact ws i) cs)"
  using assms
proof (induction cs arbitrary: pre)
  case (Cons c cs)
  then have IH: "ambiguous_loop exact_match (ws ! i) (Suc (length pre)) (map (lit_ms ws i) cs)
      (pre @ x # map (lit_kept ws i) cs) matched = (0, pre @ x # map (lit_exact ws i) cs)" for x
    using Cons.IH [of "pre @ [x]"] by (simp add: lit_node_def)
  have n: "lit_node [c]" using Cons.prems by (simp add: lit_node_def)
  show ?case
  proof (cases "lit_kept ws i c")
    case None
    then show ?thesis using IH [of None] by (simp add: lit_ms_def [of _ _ c] lit_exact_def [of _ _ c])
  next
    case (Some e)
    from lit_kept_token [OF n Some] obtain d where
      "ce_tokens e ! i = TOKEN_TERMINAL TERMINAL_LITERAL (lit_words e ! i) d" "lit_ms ws i c = Some [ce_tokens e ! i]"
      by blast
    then show ?thesis using IH [of None] IH [of "Some e"] Some
      by (auto simp: lit_exact_def [of _ _ c])
  qed
qed simp

lemma disagree_insert:
  "m = None \<or> m = Some a \<Longrightarrow>
   (\<exists>x y. x \<noteq> y \<and> x \<in> A \<and> (y \<in> A \<or> Some a = Some y)) \<longleftrightarrow>
   (\<exists>x y. x \<noteq> y \<and> x \<in> insert a A \<and> (y \<in> insert a A \<or> m = Some y))"
  by (elim disjE; simp; metis)

lemma ambiguous_partly:
  assumes "lit_node cs"
  shows "ambiguous_loop partly_match (ws ! i) p (map (lit_ms ws i) cs) cmds matched =
    (if \<exists>x y. x \<noteq> y \<and> x \<in> set (lit_cands ws i cs) \<and> (y \<in> set (lit_cands ws i cs) \<or> matched = Some y)
     then 1 else 0, cmds)"
  using assms
proof (induction cs arbitrary: p matched)
  case (Cons c cs)
  note IH = Cons.IH [of "Suc p"]
  have n: "lit_node [c]" and m: "lit_node cs" using Cons.prems by (simp_all add: lit_node_def)
  show ?case
  proof (cases "lit_kept ws i c")
    case None
    then have "ambiguous_loop partly_match (ws ! i) p (map (lit_ms ws i) (c # cs)) cmds matched =
        ambiguous_loop partly_match (ws ! i) (Suc p) (map (lit_ms ws i) cs) cmds matched"
      "lit_cands ws i (c # cs) = lit_cands ws i cs" by (simp_all add: lit_ms_def [of _ _ c])
    then show ?thesis using IH [OF m] by (simp only:)
  next
    case (Some e)
    from lit_kept_token [OF n Some] obtain d where
      d: "ce_tokens e ! i = TOKEN_TERMINAL TERMINAL_LITERAL (lit_words e ! i) d"
        "abbreviates (ws ! i) (lit_words e ! i)" "lit_ms ws i c = Some [ce_tokens e ! i]"
      by blast
    have d2: "strncmp_eq (ws ! i) (lit_words e ! i) (length (ws ! i))"
      using d(2) by (simp add: abbreviates_def strncmp_eq_def)
    show ?thesis
    proof (cases "matched \<noteq> None \<and> matched \<noteq> Some (lit_words e ! i)")
      case True
      then obtain y where y: "matched = Some y" "lit_words e ! i \<noteq> y" by auto
      then have "\<exists>x y. x \<noteq> y \<and> x \<in> set (lit_cands ws i (c # cs)) \<and>
          (y \<in> set (lit_cands ws i (c # cs)) \<or> matched = Some y)"
        using Some by (intro exI [of _ "lit_words e ! i"] exI [of _ y]) simp
      moreover have "ambiguous_loop partly_match (ws ! i) p (map (lit_ms ws i) (c # cs)) cmds matched = (1, cmds)"
        using d d2 y by simp
      ultimately show ?thesis by (simp only: if_True)
    next
      case False
      then have "ambiguous_loop partly_match (ws ! i) p (map (lit_ms ws i) (c # cs)) cmds matched =
          ambiguous_loop partly_match (ws ! i) (Suc p) (map (lit_ms ws i) cs) cmds (Some (lit_words e ! i))"
        using d d2 by auto
      moreover have "(\<exists>x y. x \<noteq> y \<and> x \<in> set (lit_cands ws i cs) \<and>
            (y \<in> set (lit_cands ws i cs) \<or> Some (lit_words e ! i) = Some y)) \<longleftrightarrow>
          (\<exists>x y. x \<noteq> y \<and> x \<in> set (lit_cands ws i (c # cs)) \<and>
            (y \<in> set (lit_cands ws i (c # cs)) \<or> matched = Some y))"
        using disagree_insert [of matched "lit_words e ! i" "set (lit_cands ws i cs)"] False Some by simp
      ultimately show ?thesis using IH [OF m, of "Some (lit_words e ! i)"] by simp
    qed
  qed
qed simp

definition lit_step :: "string list \<Rightarrow> nat \<Rightarrow> cmd_element option list \<Rightarrow> int + cmd_element option list" where
  "lit_step ws i cs =
     (if ws ! i \<in> set (lit_cands ws i cs) then Inr (map (lit_exact ws i) cs)
      else if \<exists>x\<in>set (lit_cands ws i cs). \<exists>y\<in>set (lit_cands ws i cs). x \<noteq> y then Inl CMD_ERR_AMBIGUOUS
      else Inr (map (lit_kept ws i) cs))"

lemma lit_cands_none: "lit_cands ws i cs = [] \<Longrightarrow> map (lit_ms ws i) cs = replicate (length cs) None"
  by (induction cs) (auto simp: lit_ms_def split: option.splits)

lemma step_lit:
  assumes "lit_node cs" "[] \<notin> set ws" "i < length ws"
  shows "\<exists>best ms. cmd_vector_filter inet cs FILTER_RELAXED (map Some ws) i =
      (CMD_SUCCESS, map (lit_kept ws i) cs, best, ms) \<and> best \<noteq> vararg_match \<and>
      is_cmd_ambiguous (map (lit_kept ws i) cs) (Some (ws ! i)) ms best =
        (case lit_step ws i cs of Inl r \<Rightarrow> (1, map (lit_kept ws i) cs) | Inr cs' \<Rightarrow> (0, cs'))"
proof -
  let ?c = "lit_cands ws i cs"
  obtain ms where ms: "cmd_vector_filter inet cs FILTER_RELAXED (map Some ws) i =
      (CMD_SUCCESS, map (lit_kept ws i) cs, lit_best ws i cs no_match, ms)"
    "ms @ replicate (length cs - length ms) None = map (lit_ms ws i) cs"
    using filter_loop_lit [OF assms, of "[]" 0 inet no_match] by (auto simp: cmd_vector_filter_def)
  have best: "lit_best ws i cs no_match =
      (if ws ! i \<in> set ?c then exact_match else if ?c \<noteq> [] then partly_match else no_match)"
    by (simp add: lit_best_eq less_match_type_def)
  have a: "is_cmd_ambiguous (map (lit_kept ws i) cs) (Some (ws ! i)) ms b =
      ambiguous_loop b (ws ! i) 0 (map (lit_ms ws i) cs) (map (lit_kept ws i) cs) None" for b
    using ambiguous_pad [of b "ws ! i" 0 ms "length cs - length ms" "map (lit_kept ws i) cs" None] ms(2)
    by (simp add: is_cmd_ambiguous_def)
  have none: "ambiguous_loop no_match (ws ! i) 0 (replicate k None) (map (lit_kept ws i) cs) None =
      (0, map (lit_kept ws i) cs)" for k
    using ambiguous_pad [of no_match "ws ! i" 0 "[]" k] by simp
  show ?thesis
    using ms(1) ambiguous_exact [OF assms(1), of ws i "[]" None]
      ambiguous_partly [OF assms(1), of ws i 0 "map (lit_kept ws i) cs" None] none lit_cands_none [of ws i cs]
    by (auto simp: best a lit_step_def)
qed


fun lit_run :: "string list \<Rightarrow> nat \<Rightarrow> string list \<Rightarrow> cmd_element option list \<Rightarrow> int + cmd_element option list" where
  "lit_run ws i [] cs = Inr cs"
| "lit_run ws i (w # r) cs = (case lit_step ws i cs of Inl ret \<Rightarrow> Inl ret | Inr cs' \<Rightarrow> lit_run ws (i + 1) r cs')"

definition lit_select :: "cmd_element option list \<Rightarrow> string list \<Rightarrow> int + (cmd_element \<times> args)" where
  "lit_select cs ws =
     (case lit_run ws 0 ws cs of
        Inl ret \<Rightarrow> Inl ret
      | Inr cs' \<Rightarrow>
          (case filter (\<lambda>e. list_all2 abbreviates ws (lit_words e)) (List.map_filter (\<lambda>c. c) cs') of
             [] \<Rightarrow> Inl (if List.map_filter (\<lambda>c. c) cs' = [] then CMD_ERR_NO_MATCH else CMD_ERR_INCOMPLETE)
           | [e] \<Rightarrow> Inr (e, Some [])
           | _ \<Rightarrow> Inl CMD_ERR_AMBIGUOUS))"

lemma lit_step_node: "lit_node cs \<Longrightarrow> lit_step ws i cs = Inr cs' \<Longrightarrow> lit_node cs'"
  by (auto simp: lit_step_def lit_node_def lit_exact_def lit_kept_def split: if_splits option.splits)

lemma lit_step_error: "lit_step ws i cs = Inl r \<Longrightarrow> r = CMD_ERR_AMBIGUOUS"
  by (auto simp: lit_step_def split: if_splits)

lemma execute_lit:
  assumes "lit_node cs" "[] \<notin> set ws" "drop i ws = r"
  shows "execute_loop inet FILTER_RELAXED (map Some ws) i (map Some r) cs = lit_run ws i r cs"
  using assms(1,3)
proof (induction r arbitrary: i cs)
  case (Cons w r)
  have i: "i < length ws" "ws ! i = w" "drop (Suc i) ws = r"
    using Cons.prems(2) by (metis drop_all leI list.distinct(1), metis nth_via_drop, metis drop_Suc_Cons drop_drop plus_1_eq_Suc drop0)
  obtain best ms where s: "cmd_vector_filter inet cs FILTER_RELAXED (map Some ws) i =
      (CMD_SUCCESS, map (lit_kept ws i) cs, best, ms)" "best \<noteq> vararg_match"
    "is_cmd_ambiguous (map (lit_kept ws i) cs) (Some w) ms best =
        (case lit_step ws i cs of Inl r \<Rightarrow> (1, map (lit_kept ws i) cs) | Inr cs' \<Rightarrow> (0, cs'))"
    using step_lit [OF Cons.prems(1) assms(2) i(1), of inet] i(2) by blast
  show ?case
  proof (cases "lit_step ws i cs")
    case (Inl ret)
    then show ?thesis using s lit_step_error [OF Inl] by simp
  next
    case (Inr cs')
    then show ?thesis using s Cons.IH [OF lit_step_node [OF Cons.prems(1) Inr] i(3)] by simp
  qed
qed simp

lemma lit_loop_all:
  assumes "list_all lit_token ts" "m_filter m = FILTER_RELAXED" "drop (m_word_index m) (m_vline m) = map Some ws"
    "[] \<notin> set ws" "length (m_vline m) \<le> m_index m"
  shows "if length ts \<le> length ws \<and> list_all2 abbreviates (take (length ts) ws) (map cmd ts)
    then \<exists>m'. element_match_loop inet ts m av = (None, m', av) \<and> m_word_index m' = m_word_index m + length ts
    else \<exists>r m'. element_match_loop inet ts m av = (Some r, m', av) \<and> (r = MATCHER_INCOMPLETE \<or> r = MATCHER_NO_MATCH)"
  using assms
proof (induction ts arbitrary: m ws)
  case (Cons t ts)
  have lit: "lit_token t" using Cons.prems by simp
  obtain c d where t: "t = TOKEN_TERMINAL TERMINAL_LITERAL c d" using lit_terminal(2) [OF lit] by blast
  show ?case
  proof (cases ws)
    case Nil
    with Cons.prems have "\<not> cmd_matcher_words_left m" by (simp add: cmd_matcher_words_left_def)
    with Nil t show ?thesis by (simp add: cmd_matcher_match_terminal_def MATCHER_ERROR_def)
  next
    case (Cons w ws')
    have w: "w \<noteq> []" using Cons Cons.prems by auto
    note mt = match_terminal_lit [OF lit Cons.prems(2) Cons.prems(3) [unfolded Cons] w]
    show ?thesis
    proof (cases "abbreviates w (cmd t)")
      case False
      then show ?thesis using mt(1) [of inet av] t Cons by (simp add: MATCHER_ERROR_def)
    next
      case True
      let ?m = "(cmd_matcher_record_match m (if cmd t = w then exact_match else partly_match) t)
          \<lparr>m_word_index := Suc (m_word_index m)\<rparr>"
      have st: "element_match_loop inet (t # ts) m av = element_match_loop inet ts ?m av"
        using mt(1) [of inet av] mt(3) t True Cons.prems(5) by (simp add: MATCHER_ERROR_def record_match_same)
      have "if length ts \<le> length ws' \<and> list_all2 abbreviates (take (length ts) ws') (map cmd ts)
        then \<exists>m'. element_match_loop inet ts ?m av = (None, m', av) \<and> m_word_index m' = m_word_index ?m + length ts
        else \<exists>r m'. element_match_loop inet ts ?m av = (Some r, m', av) \<and> (r = MATCHER_INCOMPLETE \<or> r = MATCHER_NO_MATCH)"
        by (rule Cons.IH) (use Cons.prems mt(2) Cons in \<open>simp_all add: record_match_same\<close>)
      then show ?thesis unfolding st Cons by (auto simp: True split: if_splits)
    qed
  qed
qed simp

lemma complete_lit:
  assumes "lit_command e" "[] \<notin> set ws" "length ws \<le> NO_INDEX"
  shows "cmd_is_complete inet e (map Some ws) \<longleftrightarrow> list_all2 abbreviates ws (lit_words e)"
    "list_all2 abbreviates ws (lit_words e) \<Longrightarrow> cmd_parse inet e (map Some ws) = (CMD_SUCCESS, Some [])"
proof -
  let ?m = "cmd_matcher_init FILTER_RELAXED (map Some ws) NO_INDEX False None"
  have t: "list_all lit_token (ce_tokens e)" using assms(1) by (simp add: lit_command_def)
  note l = lit_loop_all [OF t, of ?m ws inet]
  have w: "k < length ws \<Longrightarrow> ws ! k \<noteq> []" for k using assms(2) by (metis nth_mem)
  have eq: "length (ce_tokens e) \<le> length ws \<and> list_all2 abbreviates (take (length (ce_tokens e)) ws) (map cmd (ce_tokens e)) \<and>
      length ws \<le> length (ce_tokens e) \<longleftrightarrow> list_all2 abbreviates ws (lit_words e)"
    using list_all2_lengthD [of abbreviates ws "map cmd (ce_tokens e)"] by (auto simp: lit_words_def)
  show "cmd_is_complete inet e (map Some ws) \<longleftrightarrow> list_all2 abbreviates ws (lit_words e)"
  proof (cases "length (ce_tokens e) \<le> length ws \<and> list_all2 abbreviates (take (length (ce_tokens e)) ws) (map cmd (ce_tokens e))")
    case True
    then obtain m' where "element_match_loop inet (ce_tokens e) ?m None = (None, m', None)"
      "m_word_index m' = length (ce_tokens e)"
      using l [of None] assms by (auto simp: cmd_matcher_init_def)
    then show ?thesis using True eq w [of "length (ce_tokens e)"]
      by (auto simp: cmd_is_complete_def cmd_element_match_def)
  next
    case False
    then show ?thesis using l [of None] assms eq
      by (auto simp: cmd_is_complete_def cmd_element_match_def cmd_matcher_init_def)
  qed
  assume "list_all2 abbreviates ws (lit_words e)"
  then obtain m' where "element_match_loop inet (ce_tokens e) ?m (Some []) = (None, m', Some [])"
    "m_word_index m' = length (ce_tokens e)" "length ws = length (ce_tokens e)"
    using l [of "Some []"] assms eq by (auto simp: cmd_matcher_init_def)
  then show "cmd_parse inet e (map Some ws) = (CMD_SUCCESS, Some [])"
    by (simp add: cmd_parse_def cmd_element_match_def)
qed


section \<open>Lines\<close>

text \<open>A line as words, each followed by white space; only the last may end the line at once.\<close>

fun laid_out :: "(string \<times> string) list \<Rightarrow> bool" where
  "laid_out [] = False"
| "laid_out [(w, sep)] = (w \<noteq> [] \<and> list_all (\<lambda>c. \<not> c_isspace c) w \<and> list_all c_isspace sep)"
| "laid_out ((w, sep) # r) =
     (w \<noteq> [] \<and> list_all (\<lambda>c. \<not> c_isspace c) w \<and> sep \<noteq> [] \<and> list_all c_isspace sep \<and> laid_out r)"

definition lay_out :: "(string \<times> string) list \<Rightarrow> string" where
  "lay_out ps = concat (map (\<lambda>(w, sep). w @ sep) ps)"

lemma lay_out_hd: "laid_out ps \<Longrightarrow> \<exists>c s. lay_out ps = c # s \<and> \<not> c_isspace c \<and> c = hd (fst (hd ps))"
  by (induction ps rule: laid_out.induct) (auto simp: lay_out_def neq_Nil_conv)

lemma strvec_lay_out: "laid_out ps \<Longrightarrow> length ps \<le> n \<Longrightarrow> strvec_loop n (lay_out ps) = map fst ps"
proof (induction ps arbitrary: n rule: laid_out.induct)
  case (2 w sep)
  then obtain k where "n = Suc k" by (cases n) auto
  moreover have "takeWhile (\<lambda>c. \<not> c_isspace c) (w @ sep) = w" "dropWhile (\<lambda>c. \<not> c_isspace c) (w @ sep) = sep"
    using 2(1) by (cases sep; simp add: list_all_iff takeWhile_append2 dropWhile_append2)+
  moreover have "dropWhile c_isspace sep = []" using 2(1) by (simp add: list_all_iff)
  ultimately show ?case by (simp add: lay_out_def)
next
  case (3 w sep p r)
  then obtain k where k: "n = Suc k" "length (p # r) \<le> k" by (cases n) auto
  have l: "laid_out (p # r)" using 3(2) by simp
  obtain c t where ct: "lay_out (p # r) = c # t" "\<not> c_isspace c" using lay_out_hd [OF l] by blast
  obtain d sep' where sep: "sep = d # sep'" "c_isspace d" "list_all c_isspace sep'" using 3(2) by (cases sep) auto
  have "lay_out ((w, sep) # p # r) = w @ d # sep' @ c # t"
    using ct(1) sep(1) by (simp add: lay_out_def)
  moreover have "list_all (\<lambda>c. \<not> c_isspace c) w" using 3(2) by simp
  ultimately have "takeWhile (\<lambda>c. \<not> c_isspace c) (lay_out ((w, sep) # p # r)) = w"
    "dropWhile c_isspace (dropWhile (\<lambda>c. \<not> c_isspace c) (lay_out ((w, sep) # p # r))) = c # t"
    using sep(2,3) ct(2) by (auto simp: list_all_iff takeWhile_append dropWhile_append)
  then show ?case using 3(1) [OF l k(2)] ct(1) k(1) by (simp add: Let_def)
qed simp

lemma laid_out_length: "laid_out ps \<Longrightarrow> length ps \<le> length (lay_out ps)"
  by (induction ps rule: laid_out.induct) (auto simp: lay_out_def Suc_le_eq neq_Nil_conv)

lemma laid_out_words: "laid_out ps \<Longrightarrow> [] \<notin> set (map fst ps)"
  by (induction ps rule: laid_out.induct) auto

section \<open>Exact words\<close>

definition lit_same :: "string list \<Rightarrow> nat \<Rightarrow> cmd_element option \<Rightarrow> cmd_element option" where
  "lit_same ws i c =
     (case c of Some e \<Rightarrow> if i \<le> length (lit_words e) \<and> take i (lit_words e) = take i ws then Some e else None
      | None \<Rightarrow> None)"

lemma lit_match_same:
  "i < length ws \<Longrightarrow> i \<le> length cs \<Longrightarrow> take i cs = take i ws \<Longrightarrow>
   lit_match cs ws i \<longleftrightarrow> i < length cs \<and> abbreviates (ws ! i) (cs ! i)"
proof (induction cs ws i rule: lit_match.induct)
  case (2 c cs w ws n)
  then show ?case by (auto simp: abbreviates_def)
qed auto

lemma take_Suc_same:
  "i < length ws \<Longrightarrow> Suc i \<le> length cs \<and> take (Suc i) cs = take (Suc i) ws \<longleftrightarrow>
     i < length cs \<and> take i cs = take i ws \<and> cs ! i = ws ! i"
  by (auto simp: take_Suc_conv_app_nth)

lemma lit_exact_same:
  assumes "i < length ws"
  shows "lit_exact ws i (lit_same ws i c) = lit_same ws (Suc i) c"
  using assms take_Suc_same [OF assms] lit_match_same [OF assms]
  by (cases c) (auto simp: lit_exact_def lit_kept_def lit_same_def abbreviates_def)

lemma lit_run_exact:
  assumes "Some e \<in> set cs" "lit_words e = ws" "i \<le> length ws"
  shows "lit_run ws i (drop i ws) (map (lit_same ws i) cs) = Inr (map (lit_same ws (length ws)) cs)"
  using assms(3)
proof (induction "length ws - i" arbitrary: i)
  case (Suc n)
  then have i: "i < length ws" by simp
  have "lit_kept ws i (lit_same ws i (Some e)) = Some e"
    using assms(2) i lit_match_same [OF i, of ws] by (simp add: lit_kept_def lit_same_def abbreviates_def)
  then have "ws ! i \<in> set (lit_cands ws i (map (lit_same ws i) cs))"
    using assms(1,2) by (force simp: lit_cands_def map_filter_def)
  then have "lit_step ws i (map (lit_same ws i) cs) = Inr (map (lit_same ws (Suc i)) cs)"
    by (simp add: lit_step_def lit_exact_same [OF i])
  then show ?case
    using Suc(1) [of "Suc i"] Suc(2) i by (simp add: Cons_nth_drop_Suc [symmetric])
qed simp

lemma lit_select_exact:
  assumes "Some e \<in> set cs" "distinct (map lit_words (List.map_filter (\<lambda>c. c) cs))"
  shows "lit_select cs (lit_words e) = Inr (e, Some [])"
proof -
  let ?ws = "lit_words e" and ?es = "List.map_filter (\<lambda>c. c) cs"
  have "map (lit_same ?ws 0) cs = cs" by (auto simp: lit_same_def map_idI split: option.splits)
  then have r: "lit_run ?ws 0 ?ws cs = Inr (map (lit_same ?ws (length ?ws)) cs)"
    using lit_run_exact [OF assms(1) refl, of 0] by simp
  have refl2: "list_all2 abbreviates ws ws" for ws by (induction ws) (auto simp: abbreviates_def)
  have "filter (\<lambda>x. list_all2 abbreviates ?ws (lit_words x)) (List.map_filter (\<lambda>c. c) (map (lit_same ?ws (length ?ws)) cs)) =
      filter (\<lambda>x. lit_words x = ?ws) ?es"
    by (induction cs) (auto simp: List.map_filter_simps lit_same_def refl2 split: option.splits dest: list_all2_lengthD)
  moreover have "filter (\<lambda>x. f x = f a) xs = [a]" if "distinct (map f xs)" "a \<in> set xs" for f :: "cmd_element \<Rightarrow> string list" and xs a
    using that by (induction xs) (auto simp: filter_empty_conv rev_image_eqI)
  then have "filter (\<lambda>x. lit_words x = ?ws) ?es = [e]"
    using assms by (force simp: map_filter_def)
  ultimately show ?thesis using r by (simp add: lit_select_def)
qed


lemma lit_run_node: "lit_node cs \<Longrightarrow> lit_run ws i r cs = Inr cs' \<Longrightarrow> lit_node cs'"
  by (induction ws i r cs rule: lit_run.induct) (auto simp: lit_step_node split: sum.splits)

lemma cmd_select_lit:
  assumes "lit_node cs" and "[] \<notin> set ws" and "length ws \<le> NO_INDEX"
  shows "cmd_select inet_pton cs (map Some ws) FILTER_RELAXED = lit_select cs ws"
proof (cases "lit_run ws 0 ws cs")
  case (Inl ret)
  then show ?thesis using execute_lit [OF assms(1,2), of 0 ws inet_pton]
    by (simp add: cmd_select_def lit_select_def)
next
  case (Inr cs')
  have "lit_node cs'"
    using lit_run_node [OF assms(1) Inr] .
  then have e: "lit_command e" if "e \<in> set (List.map_filter (\<lambda>c. c) cs')" for e
    using that by (auto simp: lit_node_def map_filter_def)
  note c = complete_lit [OF e assms(2,3), of _ inet_pton]
  have f: "filter (\<lambda>e. cmd_is_complete inet_pton e (map Some ws)) (List.map_filter (\<lambda>c. c) cs') =
      filter (\<lambda>e. list_all2 abbreviates ws (lit_words e)) (List.map_filter (\<lambda>c. c) cs')"
    by (rule filter_cong) (simp_all add: c(1))
  let ?f = "filter (\<lambda>e. list_all2 abbreviates ws (lit_words e)) (List.map_filter (\<lambda>c. c) cs')"
  have "cmd_parse inet_pton e (map Some ws) = (CMD_SUCCESS, Some [])" if "?f = [e]" for e
  proof -
    from that have "e \<in> set ?f" by simp
    then show ?thesis using c(2) [of e] by simp
  qed
  then show ?thesis using Inr execute_lit [OF assms(1,2), of 0 ws inet_pton]
    by (cases ?f; cases "tl ?f") (auto simp: cmd_select_def lit_select_def Let_def f)
qed

section \<open>Selection only returns commands of the node\<close>

lemma filter_loop_subset:
  assumes "filter_loop inet filt vline index i cs best ms = (ret, cs', best', ms')"
  shows "length cs' = length cs \<and> (\<forall>e. Some e \<in> set cs' \<longrightarrow> Some e \<in> set cs) \<and>
    ret \<in> {CMD_SUCCESS, CMD_ERR_AMBIGUOUS, CMD_ERR_EXEED_ARGC_MAX}"
  using assms
  by (induction inet filt vline index i cs best ms arbitrary: cs' ret best' ms' rule: filter_loop.induct)
     (fastforce simp: Let_def split: prod.splits if_splits)+

lemma ambiguous_tokens_result: "ambiguous_tokens mt c ts f m = Inl r \<Longrightarrow> r = 1 \<or> r = 2"
  by (induction mt c ts f m rule: ambiguous_tokens.induct)
     (auto simp: Let_def split: cmd_token.splits match_type.splits if_splits)

lemma ambiguous_loop_subset:
  "ambiguous_loop mt c i ms cs m = (r, cs') \<Longrightarrow> (\<forall>e. Some e \<in> set cs' \<longrightarrow> Some e \<in> set cs)"
proof (induction mt c i ms cs m arbitrary: r cs' rule: ambiguous_loop.induct)
  case (3 mt command i ts ms cmds matched)
  show ?case
  proof (cases "ambiguous_tokens mt command ts False matched")
    case (Inr fm)
    obtain f m' where fm: "fm = (f, m')" by fastforce
    with 3(2) Inr have "\<forall>e. Some e \<in> set cs' \<longrightarrow> Some e \<in> set (if f then cmds else cmds[i := None])"
      using 3(1) [OF Inr, OF fm [symmetric]] by simp
    then show ?thesis using set_update_subset_insert [of cmds i None] by (auto split: if_splits)
  qed (use 3(2) in auto)
qed auto

lemma execute_loop_subset:
  assumes "execute_loop inet filt vline i ws cs = r"
  shows "case r of Inr cs' \<Rightarrow> (\<forall>e. Some e \<in> set cs' \<longrightarrow> Some e \<in> set cs)
    | Inl ret \<Rightarrow> ret \<in> {CMD_ERR_AMBIGUOUS, CMD_ERR_EXEED_ARGC_MAX, CMD_ERR_NO_MATCH}"
  using assms
proof (induction ws arbitrary: i cs)
  case (Cons w ws)
  obtain ret cs1 match ms where f: "cmd_vector_filter inet cs filt vline i = (ret, cs1, match, ms)"
    using prod_cases4 by blast
  note fs = filter_loop_subset [OF f [unfolded cmd_vector_filter_def]]
  obtain q cs2 where a: "is_cmd_ambiguous cs1 w ms match = (q, cs2)" by fastforce
  note as = ambiguous_loop_subset [OF a [unfolded is_cmd_ambiguous_def]]
  show ?case
  proof (cases "ret = CMD_SUCCESS \<and> match \<noteq> vararg_match \<and> q \<noteq> 1 \<and> q \<noteq> 2")
    case True
    then show ?thesis using Cons.IH [of "i + 1" cs2] Cons.prems f a fs as by (auto split: sum.splits)
  next
    case False
    then show ?thesis using Cons.prems f a fs by (auto split: if_splits)
  qed
qed auto

lemma cmd_select_result:
  "case cmd_select inet cs vline filt of
     Inl ret \<Rightarrow> ret \<in> {CMD_ERR_AMBIGUOUS, CMD_ERR_EXEED_ARGC_MAX, CMD_ERR_NO_MATCH, CMD_ERR_INCOMPLETE}
   | Inr (e, av) \<Rightarrow> Some e \<in> set cs \<and> cmd_is_complete inet e vline \<and> args_ok av"
proof (cases "execute_loop inet filt vline 0 vline cs")
  case (Inl ret)
  then show ?thesis using execute_loop_subset [OF Inl] by (auto simp: cmd_select_def)
next
  case (Inr cs')
  let ?f = "filter (\<lambda>e. cmd_is_complete inet e vline) (List.map_filter (\<lambda>c. c) cs')"
  have p: "fst (cmd_parse inet e vline) \<in> {CMD_SUCCESS, CMD_ERR_AMBIGUOUS, CMD_ERR_EXEED_ARGC_MAX, CMD_ERR_NO_MATCH, CMD_ERR_INCOMPLETE}"
    "args_ok (snd (cmd_parse inet e vline))" for e
    using element_match_loop_ok
    by (auto simp: cmd_parse_def cmd_element_match_def args_ok_def split: prod.splits matcher_rv.splits option.splits)
  have "last ?f \<in> set ?f" if "?f \<noteq> []" using that last_in_set by blast
  then have "Some (last ?f) \<in> set cs \<and> cmd_is_complete inet (last ?f) vline" if "?f \<noteq> []"
    using that execute_loop_subset [OF Inr] by (auto simp: map_filter_def)
  then show ?thesis using Inr p [of "last ?f"] 
    by (auto simp: cmd_select_def Let_def split: prod.splits)
qed

section \<open>Properties\<close>

text \<open>
  C20: on a node whose commands consist of literal words, selecting the command for a line of words
  is what the specification says: at each position the words of the line abbreviate the command
  words, an exact word wins over abbreviations, two different abbreviated words are an ambiguity,
  and the line must spell a whole command.  In particular the many filter passes never mix up the
  slots of the command vector and of the match vector.
\<close>

theorem cmd_select_literal:
  assumes "lit_node cs" and "[] \<notin> set ws" and "length ws \<le> NO_INDEX"
  shows "cmd_select inet_pton cs (map Some ws) FILTER_RELAXED = lit_select cs ws"
  using assms by (rule cmd_select_lit)

lemmas lit_eval = lit_run.simps lit_step_def lit_kept_def lit_exact_def lit_words_def lit_element_def
  literal_def abbreviates_def lit_node_def lit_command_def lit_token_def NO_INDEX_def List.map_filter_simps

theorem cmd_select_literal_witness:
  "cmd_select (\<lambda>s. False) [Some (lit_element [''show'', ''log''] 1), None, Some (lit_element [''show'', ''login''] 2)]
     (map Some [''sh'', ''log'']) FILTER_RELAXED = Inr (lit_element [''show'', ''log''] 1, Some []) \<and>
   cmd_select (\<lambda>s. False) [Some (lit_element [''show'', ''log''] 1), None, Some (lit_element [''show'', ''login''] 2)]
     (map Some [''sh'', ''lo'']) FILTER_RELAXED = Inl CMD_ERR_AMBIGUOUS"
  using cmd_select_literal [of "[Some (lit_element [''show'', ''log''] 1), None, Some (lit_element [''show'', ''login''] 2)]"
      "[''sh'', ''log'']" "\<lambda>s. False"]
    cmd_select_literal [of "[Some (lit_element [''show'', ''log''] 1), None, Some (lit_element [''show'', ''login''] 2)]"
      "[''sh'', ''lo'']" "\<lambda>s. False"]
  by (simp add: lit_select_def lit_eval)

lemma command_lit:
  assumes "cmd_node_vector cv (vnode v) = Some cs" and "lit_node cs"
    and "distinct (map lit_words (List.map_filter (\<lambda>c. c) cs))" and "Some e \<in> set cs" and "\<not> ce_daemon e"
    and "laid_out ps" and "map fst ps = lit_words e" and "list_all c_isspace lead"
    and "hd (fst (hd ps)) \<noteq> CHR ''!''" and "hd (fst (hd ps)) \<noteq> CHR ''#''" and "fst (hd ps) \<noteq> ''do''"
    and "length ps \<le> NO_INDEX" and "call (ce_cb e) (Some []) e v = (CMD_SUCCESS, w)"
  shows "vty_command cv inet_pton call v (lead @ lay_out ps) = (CMD_SUCCESS, w)"
proof -
  obtain c s where cs: "lay_out ps = c # s" "\<not> c_isspace c" "c = hd (fst (hd ps))"
    using lay_out_hd [OF assms(6)] by blast
  have "dropWhile c_isspace (lead @ lay_out ps) = lay_out ps"
    using assms(8) cs by (simp add: dropWhile_append list_all_iff)
  moreover have "strvec_loop (length (lay_out ps)) (lay_out ps) = lit_words e"
    using strvec_lay_out [OF assms(6) laid_out_length [OF assms(6)]] assms(7) by (simp only:)
  moreover have "lay_out ps \<noteq> []" "cur (lay_out ps) \<noteq> CHR ''!''" "cur (lay_out ps) \<noteq> CHR ''#''"
    using cs(1) assms(9,10) by (simp_all add: cur_def flip: cs(3))
  ultimately have vl: "cmd_make_strvec (lead @ lay_out ps) = Some (map Some (lit_words e))"
    by (simp only: cmd_make_strvec_def Let_def) simp
  have ne: "ps \<noteq> []" using assms(6) by auto
  then have "hd (map Some (lit_words e)) = Some (fst (hd ps))" by (simp add: hd_map flip: assms(7))
  then have "\<not> cmd_try_do_shortcut (hd (map Some (lit_words e)))"
    using assms(11) by (simp add: cmd_try_do_shortcut_def)
  moreover have "[] \<notin> set (lit_words e)" "length (lit_words e) \<le> NO_INDEX"
    using laid_out_words [OF assms(6)] assms(12) by (simp_all flip: assms(7))
  then have "cmd_select inet_pton cs (map Some (lit_words e)) FILTER_RELAXED = Inr (e, Some [])"
    using cmd_select_lit [OF assms(2)] lit_select_exact [OF assms(4,3)] by simp
  ultimately show ?thesis
    using assms(1,5,13)
    by (simp add: vl vty_command_def cmd_execute_command_def cmd_execute_command_real_def Let_def cmd_codes)
qed

text \<open>
  C19: entering the words of a literal command in a node of pairwise different literal commands,
  with any white space around them, calls exactly that command's callback with no arguments: the
  command is never ambiguous with one it is a prefix of or that is a prefix of it.
\<close>

theorem vty_command_runs_exact:
  assumes "cmd_node_vector cv (vnode v) = Some cs" and "lit_node cs"
    and "distinct (map lit_words (List.map_filter (\<lambda>c. c) cs))" and "Some e \<in> set cs" and "\<not> ce_daemon e"
    and "laid_out ps" and "map fst ps = lit_words e" and "list_all c_isspace lead"
    and "hd (fst (hd ps)) \<noteq> CHR ''!''" and "hd (fst (hd ps)) \<noteq> CHR ''#''" and "fst (hd ps) \<noteq> ''do''"
    and "length ps \<le> NO_INDEX" and "call (ce_cb e) (Some []) e v = (CMD_SUCCESS, w)"
  shows "vty_command cv inet_pton call v (lead @ lay_out ps) = (CMD_SUCCESS, w)"
  using assms by (rule command_lit)

theorem vty_command_runs_exact_witness:
  "vty_command [Some \<lparr>cn_prompt = ''> '', cn_cmd_vector = [Some (lit_element [''log''] 1), Some (lit_element [''log'', ''off''] 2)]\<rparr>]
     (\<lambda>s. False) (\<lambda>f as e v. (CMD_SUCCESS, vty_write v (if f = 1 then ''one'' else ''two''))) (vty_new_init 0)
     ('' '' @ lay_out [(''log'', ''  '')]) = (CMD_SUCCESS, vty_write (vty_new_init 0) ''one'')"
proof (rule vty_command_runs_exact [where e = "lit_element [''log''] 1" and
      cs = "[Some (lit_element [''log''] 1), Some (lit_element [''log'', ''off''] 2)]"])
qed (simp_all add: lit_eval cmd_node_vector_def cmdvec_slot_def vty_new_init_def c_isspace_def)

text \<open>
  C33: whatever the line, executing it in an installed node either leaves the terminal untouched and
  reports one of the error codes (or that a daemon command is to be forwarded), or calls the
  callback of a command of that node that the line completes, with at most \<^verbatim>\<open>CMD_ARGC_MAX\<close> arguments.
\<close>

theorem cmd_execute_command_real_safe:
  assumes "cmd_node_vector cv (vnode v) = Some cs"
    and "cmd_execute_command_real cv inet_pton call vline filt v = (ret, w)"
  shows "w = v \<and> ret \<in> {CMD_ERR_AMBIGUOUS, CMD_ERR_EXEED_ARGC_MAX, CMD_ERR_NO_MATCH, CMD_ERR_INCOMPLETE,
      CMD_SUCCESS_DAEMON} \<or>
    (\<exists>e argv. Some e \<in> set cs \<and> cmd_is_complete inet_pton e vline \<and> \<not> ce_daemon e \<and>
       (case argv of None \<Rightarrow> True | Some as \<Rightarrow> length as \<le> CMD_ARGC_MAX) \<and>
       call (ce_cb e) argv e v = (ret, w))"
  using assms cmd_select_result [of cs inet_pton vline filt]
  by (auto simp: cmd_execute_command_real_def args_ok_def split: sum.splits prod.splits if_splits)

theorem cmd_execute_command_real_safe_witness:
  "fst (cmd_execute_command_real [Some \<lparr>cn_prompt = ''> '', cn_cmd_vector = []\<rparr>] (\<lambda>s. False)
     (\<lambda>f as e v. (CMD_SUCCESS, v)) [Some ''x''] FILTER_RELAXED (vty_new_init 0)) \<noteq> CMD_SUCCESS"
proof -
  let ?cv = "[Some \<lparr>cn_prompt = ''> '', cn_cmd_vector = []\<rparr>]"
  obtain ret w where r: "cmd_execute_command_real ?cv (\<lambda>s. False) (\<lambda>f as e v. (CMD_SUCCESS, v)) [Some ''x'']
      FILTER_RELAXED (vty_new_init 0) = (ret, w)" by fastforce
  then show ?thesis
    using cmd_execute_command_real_safe [of ?cv "vty_new_init 0" "[]" "\<lambda>s. False" "\<lambda>f as e v. (CMD_SUCCESS, v)"
        "[Some ''x'']" FILTER_RELAXED ret w]
    by (auto simp: cmd_node_vector_def cmdvec_slot_def vty_new_init_def cmd_codes)
qed

end
