(* ===== verification/Vty_Session.thy ===== *)
theory Vty_Session
  imports Vty_Read Vty_Select
begin

text \<open>
  Terminal sessions: every operation of \<^verbatim>\<open>src/opbox/vty.c\<close> that \<^verbatim>\<open>vty_read\<close> reaches keeps the terminal
  well formed, whatever bytes arrive, provided the command callbacks do (locale \<open>terminal\<close>, which
  the command line server interprets); typing, splitting of reads and the window size negotiation.
\<close>

section \<open>Matching without an argument array never overflows it\<close>

lemma push_argument_none [simp]: "push_argument None a = (True, None)"
  by (simp add: push_argument_def Let_def)

lemma vararg_loop_none [simp]: "vararg_loop ws None = None"
  by (induction ws) auto

lemma match_terminal_none:
  "cmd_matcher_match_terminal inet m t None = (rv, m', av') \<Longrightarrow> rv \<noteq> MATCHER_EXCEED_ARGC_MAX \<and> av' = None"
  by (auto simp: cmd_matcher_match_terminal_def Let_def split: if_splits)

lemma match_multiple_none:
  "cmd_matcher_match_multiple inet m t None = (rv, m', av') \<Longrightarrow> rv \<noteq> MATCHER_EXCEED_ARGC_MAX \<and> av' = None"
  by (auto simp: cmd_matcher_match_multiple_def Let_def split: if_splits prod.splits)

lemma keyword_args_none:
  "keyword_args_loop inet ts rv m None = (ret, rv', m', av') \<Longrightarrow> rv \<noteq> MATCHER_EXCEED_ARGC_MAX \<Longrightarrow>
   ret \<noteq> Some MATCHER_EXCEED_ARGC_MAX \<and> rv' \<noteq> MATCHER_EXCEED_ARGC_MAX \<and> av' = None"
proof (induction ts arbitrary: rv m)
  case (Cons t ts)
  obtain rv1 m1 av1 where s: "(case t of
              TOKEN_TERMINAL _ _ _ \<Rightarrow> cmd_matcher_match_terminal inet m t None
            | TOKEN_MULTIPLE _ \<Rightarrow> cmd_matcher_match_multiple inet m t None
            | TOKEN_KEYWORD _ \<Rightarrow> (rv, m, None)) = (rv1, m1, av1)"
    using prod_cases3 by blast
  then have "rv1 \<noteq> MATCHER_EXCEED_ARGC_MAX" "av1 = None"
    using match_terminal_none match_multiple_none Cons.prems(2) by (auto split: cmd_token.splits)
  then show ?case using Cons.prems(1) s Cons.IH [of rv1 m1] by (auto split: if_splits)
qed auto

lemma read_keywords_none:
  "read_keywords_loop n inet kvs msk rv m None = (r, m', args') \<Longrightarrow> rv \<noteq> MATCHER_EXCEED_ARGC_MAX \<Longrightarrow>
   r \<noteq> MATCHER_EXCEED_ARGC_MAX \<and> args' = None"
proof (induction n arbitrary: msk rv m)
  case (Suc n)
  show ?case
  proof (cases "cmd_matcher_words_left m")
    case True
    obtain m1 f where sc: "keyword_scan inet False msk (cmd_matcher_get_word m) 0 kvs m no_match None = (m1, f)" by fastforce
    show ?thesis
    proof (cases "\<exists>k. f = Some (Some k) \<and> \<not> m_index m1 < Suc (m_word_index m1)")
      case True2: True
      then obtain k where k: "f = Some (Some k)" "\<not> m_index m1 < Suc (m_word_index m1)" by blast
      obtain ret rv1 m3 av where ka: "keyword_args_loop inet (tl (kvs ! k)) rv
          (m1\<lparr>m_word_index := m_word_index m1 + 1\<rparr>) None = (ret, rv1, m3, av)"
        using prod_cases4 by blast
      from keyword_args_none [OF ka Suc.prems(2)] show ?thesis
        using Suc.prems(1) True sc k ka Suc.IH [of "msk OR keyword_bit k" rv1 m3]
        by (auto simp: Let_def split: option.splits)
    next
      case False
      then show ?thesis using Suc.prems(1) True sc by (auto simp: Let_def split: option.splits if_splits)
    qed
  qed (use Suc.prems in auto)
qed auto

lemma element_match_none:
  "element_match_loop inet ts m None = (ret, m', av') \<Longrightarrow> ret \<noteq> Some MATCHER_EXCEED_ARGC_MAX"
proof (induction ts arbitrary: m)
  case (Cons t ts)
  obtain rv1 m1 av1 where s: "(case t of
              TOKEN_TERMINAL _ _ _ \<Rightarrow> cmd_matcher_match_terminal inet m t None
            | TOKEN_MULTIPLE _ \<Rightarrow> cmd_matcher_match_multiple inet m t None
            | TOKEN_KEYWORD _ \<Rightarrow> cmd_matcher_match_keyword inet m t None) = (rv1, m1, av1)"
    using prod_cases3 by blast
  have "rv1 \<noteq> MATCHER_EXCEED_ARGC_MAX \<and> av1 = None"
  proof (cases t)
    case (TOKEN_KEYWORD kvs)
    obtain r m2 args where rk: "cmd_matcher_read_keywords inet m t None = (r, m2, args)"
      using prod_cases3 by blast
    then have "r \<noteq> MATCHER_EXCEED_ARGC_MAX \<and> args = None"
      using read_keywords_none [OF rk [unfolded cmd_matcher_read_keywords_def]] by simp
    then show ?thesis using s TOKEN_KEYWORD rk
      by (auto simp: cmd_matcher_match_keyword_def cmd_matcher_build_keyword_args_def MATCHER_ERROR_def split: if_splits)
  qed (use s match_terminal_none match_multiple_none in auto)
  then show ?case using Cons.prems s Cons.IH [of m1] by (auto split: if_splits)
qed auto

lemma filter_no_exceed:
  "filter_loop inet filt vline i p cs best ms = (ret, cs', best', ms') \<Longrightarrow> ret \<in> {CMD_SUCCESS, CMD_ERR_AMBIGUOUS}"
proof (induction inet filt vline i p cs best ms arbitrary: ret cs' best' ms' rule: filter_loop.induct)
  case (3 inet filt vline index i e cs best ms)
  obtain rv mt mat av where m: "cmd_element_match inet (ce_tokens e) filt vline index True (Some None) False = (rv, mt, mat, av)"
    using prod_cases4 by blast
  then have "rv \<noteq> MATCHER_EXCEED_ARGC_MAX"
    using element_match_none [of inet "ce_tokens e"]
    by (auto simp: cmd_element_match_def split: prod.splits option.splits if_splits)
  then show ?case using 3 m by (auto simp: Let_def split: if_splits prod.splits)
qed (auto split: prod.splits)


section \<open>Well-formed sessions\<close>

text \<open>
  The terminal is well formed: the buffer holds a NUL-terminated text with the cursor in it, no
  access was out of bounds, the history ring is in range and the node is installed.
\<close>

definition session_ok :: "cmdvec \<Rightarrow> vty \<Rightarrow> bool" where
  "session_ok cv v \<longleftrightarrow> (\<exists>b a. zip_state v b a) \<and> hist_ok v \<and>
     length (vsb_buf v) = TELNET_NAWS_SB_LEN \<and> cmd_prompt cv (vnode v) \<noteq> None"

lemma session_okD:
  assumes "session_ok cv v"
  obtains b a where "zip_state v (rev b) a" "zip_state v (rev b) a"
  using assms by (auto simp: session_ok_def) (metis rev_rev_ident)

lemma session_ok_step:
  "session_ok cv v \<Longrightarrow> vctx w = vctx v \<Longrightarrow> zip_state w b a \<Longrightarrow> session_ok cv w"
  by (auto simp: session_ok_def vctx_def hist_ok_def)

lemma session_fields [simp]:
  "session_ok cv (v\<lparr>vescape := e\<rparr>) = session_ok cv v"
  "session_ok cv (v\<lparr>viac := i\<rparr>) = session_ok cv v"
  "session_ok cv (v\<lparr>viac_sb_in_progress := p\<rparr>) = session_ok cv v"
  "session_ok cv (v\<lparr>vsb_len := n\<rparr>) = session_ok cv v"
  "session_ok cv (v\<lparr>vwidth := x\<rparr>) = session_ok cv v"
  "session_ok cv (v\<lparr>vheight := x\<rparr>) = session_ok cv v"
  "session_ok cv (v\<lparr>vstatus := x\<rparr>) = session_ok cv v"
  "session_ok cv (v\<lparr>vsb_buf := (vsb_buf v)[k := c]\<rparr>) = session_ok cv v"
  by (simp_all add: session_ok_def zip_state_def hist_ok_def)

lemma session_node: "session_ok cv v \<Longrightarrow> cmd_prompt cv n \<noteq> None \<Longrightarrow> session_ok cv (v\<lparr>vnode := n\<rparr>)"
  by (simp add: session_ok_def zip_state_def hist_ok_def)

lemma session_edit:
  assumes "session_ok cv v"
  shows "session_ok cv (edit_run (cmd_prompt cv) c v)"
proof -
  from assms obtain b a where z: "zip_state v (rev b) a" by (rule session_okD)
  have "cmd_prompt cv (vnode v) \<noteq> None" using assms by (simp add: session_ok_def)
  from edit_run_step [of v b a "cmd_prompt cv" c, OF z this] assms show ?thesis
    by (blast intro: session_ok_step vctx_edit_run)
qed

lemmas session_edits [simp] =
  session_edit [where c = Ed_backward_char, simplified] session_edit [where c = Ed_forward_char, simplified]
  session_edit [where c = Ed_beginning_of_line, simplified] session_edit [where c = Ed_end_of_line, simplified]
  session_edit [where c = Ed_backward_word, simplified] session_edit [where c = Ed_forward_word, simplified]
  session_edit [where c = Ed_delete_char, simplified] session_edit [where c = Ed_delete_backward_char, simplified]
  session_edit [where c = Ed_kill_line, simplified] session_edit [where c = Ed_kill_line_from_beginning, simplified]
  session_edit [where c = Ed_forward_kill_word, simplified] session_edit [where c = Ed_backward_kill_word, simplified]
  session_edit [where c = Ed_transpose_chars, simplified] session_edit [where c = "Ed_self_insert x" for x, simplified]

lemma session_out [simp]: "session_ok cv v \<Longrightarrow> session_ok cv (vty_out v s)"
  by (auto simp: session_ok_def out_zip hist_ok_def vty_out_def zip_state_def)

lemma session_write [simp]: "session_ok cv v \<Longrightarrow> session_ok cv (vty_write v s)"
  by (auto simp: session_ok_def hist_ok_def vty_write_def zip_state_def)

lemma session_prompt [simp]: "session_ok cv v \<Longrightarrow> session_ok cv (vty_prompt (cmd_prompt cv) v)"
proof -
  assume s: "session_ok cv v"
  then have "cmd_prompt cv (vnode v) \<noteq> None" by (simp add: session_ok_def)
  with s show ?thesis by (auto simp: vty_prompt_def)
qed

lemma redraw_zip: "zip_state v b a \<Longrightarrow> zip_state (vty_redraw_line v) (b @ a) []"
  by (auto simp: zip_state_def vty_redraw_line_def vty_write_buf_def vty_write_def)

lemma session_redraw [simp]: "session_ok cv v \<Longrightarrow> session_ok cv (vty_redraw_line v)"
proof -
  assume s: "session_ok cv v"
  then obtain b a where z: "zip_state v b a" by (auto simp: session_ok_def)
  show ?thesis by (rule session_ok_step [OF s _ redraw_zip [OF z]]) (simp add: vctx_simps)
qed

lemma session_history_print:
  assumes "session_ok cv v" "k < 20" "vhist v ! k = Some s"
  shows "session_ok cv (vty_history_print (v\<lparr>vhp := k\<rparr>))"
proof -
  let ?v = "v\<lparr>vhp := k\<rparr>"
  from assms(1) obtain b a where z: "zip_state v b a" by (auto simp: session_ok_def)
  have ok: "session_ok cv ?v" using assms by (auto simp: session_ok_def zip_state_def hist_ok_def)
  have "Some s \<in> set (vhist v)" using assms by (metis hist_ok_def nth_mem session_ok_def)
  then have "length s < 1024" using assms(1) by (simp add: session_ok_def hist_ok_def)
  moreover have "edits None ?v b a" using z by (simp add: edits_def shown_def zip_state_def)
  ultimately have "zip_state (vty_history_print ?v) s []"
    using history_print_edits [of None ?v b a s] assms(3) by (simp add: edits_def)
  moreover have "vctx (vty_history_print ?v) = vctx ?v"
    by (simp add: vty_history_print_def Let_def vctx_simps split: option.splits)
  ultimately show ?thesis using ok session_ok_step by blast
qed

lemma session_lines [simp]:
  assumes "session_ok cv v"
  shows "session_ok cv (vty_previous_line v)" "session_ok cv (vty_next_line v)"
proof -
  have h: "vhp v < 20" using assms by (simp add: session_ok_def hist_ok_def)
  show "session_ok cv (vty_previous_line v)" "session_ok cv (vty_next_line v)"
    using assms h session_history_print [OF assms]
    by (auto simp: vty_previous_line_def vty_next_line_def VTY_HIST_CMD_SIZE_def Let_def)
qed

lemma session_escape_map [simp]: "session_ok cv v \<Longrightarrow> session_ok cv (vty_escape_map c v)"
  by (simp add: vty_escape_map_def)

lemma hist_add_zip: "zip_state (vty_hist_add v) b a = zip_state v b a"
  by (auto simp: vty_hist_add_def Let_def zip_state_def)

lemma session_hist_add [simp]:
  assumes "session_ok cv v"
  shows "session_ok cv (vty_hist_add v)"
proof -
  from assms obtain b a where z: "zip_state v b a" and h: "hist_ok v" by (auto simp: session_ok_def)
  have l: "length (c_string (vbuf v)) < 1024"
    using c_string_zip [OF z] c_string_length [of "b @ a"] z by (auto simp: zip_state_def)
  have "hist_ok (vty_hist_add v)"
  proof (cases "vlen v = 0")
    case True
    then show ?thesis using h by (simp add: vty_hist_add_def)
  next
    case False
    then show ?thesis using hist_add_eq [OF h] l h
      by (cases "hist_back v 0 = Some (c_string (vbuf v))")
         (auto simp: hist_ok_def dest: set_update_subset_insert [THEN subsetD])
  qed
  then show ?thesis using assms hist_add_zip [of v]
    by (auto simp: session_ok_def) (auto simp: vty_hist_add_def Let_def)
qed

lemma session_clear [simp]: "session_ok cv v \<Longrightarrow> session_ok cv (vty_clear_buf (v\<lparr>vcp := 0, vlen := 0\<rparr>))"
proof -
  assume s: "session_ok cv v"
  have n: "NUL # replicate 1023 NUL = replicate 1024 NUL" by (simp flip: replicate_Suc)
  have "zip_state (vty_clear_buf (v\<lparr>vcp := 0, vlen := 0\<rparr>)) [] []"
    using s by (intro zip_stateI [of _ _ _ "replicate 1023 NUL"])
      (auto simp: session_ok_def zip_state_def vty_clear_buf_def vbuf_write_def n)
  then show ?thesis using s
    by (rule_tac session_ok_step) (simp_all add: vctx_simps)
qed


section \<open>Completion and help keep the session well formed\<close>

lemma insert_word_zip:
  assumes "zip_state v b a"
  shows "zip_state (vty_insert_word_overwrite v s) (b @ take (1023 - length b) s) []"
proof -
  from assms obtain r where r: "vbuf v = b @ a @ NUL # r" "length b + length a + Suc (length r) = 1024"
    "vcp v = length b" "vlen v = length b + length a" "vmax v = 1024" "\<not> vfault v" "length (vbuf v) = 1024"
    by (rule zip_stateE)
  let ?s = "take (1023 - length b) s" and ?n = "min (length s) (1023 - length b)"
  have n: "min (length s) (vmax v - vcp v - 1) = ?n" "length ?s = ?n" "take ?n s = ?s" using r by (auto simp: min_def)
  have lb: "length b < 1024" using r by simp
  let ?rest = "drop ?n (a @ NUL # r)"
  have lx: "length (a @ NUL # r) = 1024 - length b" using r by simp
  have rest: "length ?rest = 1024 - length b - ?n" "length ?rest > 0"
    using lb by (simp_all only: length_drop lx)
  have d: "drop (length b + ?n) (vbuf v) = ?rest" using r(1) by simp
  have "vbuf (vty_insert_word_overwrite v s) = (b @ ?s @ ?rest)[length b + ?n := NUL]"
    using r n d by (simp add: vty_insert_word_overwrite_def vbuf_write_def vbuf_set_def vty_write_def Let_def)
  also have "\<dots> = (b @ ?s) @ NUL # tl ?rest"
    using rest(2) n(2) by (cases ?rest) (simp_all add: list_update_append)
  finally have buf: "vbuf (vty_insert_word_overwrite v s) = (b @ ?s) @ NUL # tl ?rest" .
  show ?thesis
  proof (rule zip_stateI)
    show "vbuf (vty_insert_word_overwrite v s) = (b @ ?s) @ [] @ NUL # tl ?rest" using buf by simp
    show "length (b @ ?s) + length ([] :: char list) + Suc (length (tl ?rest)) = 1024"
      using rest n(2) lb by auto
    show "\<not> vfault (vty_insert_word_overwrite v s)"
      using r lb n by (auto simp: vty_insert_word_overwrite_def vbuf_write_def vbuf_set_def vty_write_def Let_def)
  qed (use r n in \<open>auto simp: vty_insert_word_overwrite_def vbuf_write_def vbuf_set_def vty_write_def Let_def\<close>)
qed

lemma vctx_insert_word [vctx_simps]: "vctx (vty_insert_word_overwrite v s) = vctx v"
  by (simp add: vty_insert_word_overwrite_def Let_def vctx_simps)

lemma session_insert_word [simp]: "session_ok cv v \<Longrightarrow> session_ok cv (vty_insert_word_overwrite v s)"
proof -
  assume s: "session_ok cv v"
  then obtain b a where z: "zip_state v b a" by (auto simp: session_ok_def)
  show ?thesis by (rule session_ok_step [OF s _ insert_word_zip [OF z]]) (simp add: vctx_simps)
qed

lemma pure_word_zip:
  assumes "zip_state v b a"
  shows "zip_state (vty_backward_pure_word v) (rev (dropWhile (\<lambda>c. c \<noteq> CHR '' '') (rev b)))
    (rev (takeWhile (\<lambda>c. c \<noteq> CHR '' '') (rev b)) @ a)"
  using back_loop [of None v b a "\<lambda>c. c \<noteq> CHR '' ''"] assms
  by (simp add: vty_backward_pure_word_def edits_def shown_def)

lemma session_pure_word [simp]: "session_ok cv v \<Longrightarrow> session_ok cv (vty_backward_pure_word v)"
proof -
  assume s: "session_ok cv v"
  then obtain b a where z: "zip_state v b a" by (auto simp: session_ok_def)
  show ?thesis
    by (rule session_ok_step [OF s _ pure_word_zip [OF z]]) (simp add: vty_backward_pure_word_def vctx_while vctx_simps)
qed

lemma session_list_matches [simp]: "session_ok cv v \<Longrightarrow> session_ok cv (list_matches i ss v)"
  by (induction i ss v rule: list_matches.induct) (simp add: Let_def)+

lemma session_node_vector: "session_ok cv v \<Longrightarrow> \<exists>cs. cmd_node_vector cv (vnode v) = Some cs"
  by (auto simp: session_ok_def cmd_prompt_def cmd_node_vector_def)

lemma session_complete [simp]:
  assumes "session_ok cv v"
  shows "session_ok cv (vty_complete_command cv inet v)"
proof (cases "line_words v")
  case None
  then show ?thesis using assms by (simp add: vty_complete_command_def)
next
  case (Some vline)
  obtain ret m where "cmd_complete_command_lib cv inet vline v = Some (ret, m)"
    using session_node_vector [OF assms] by (fastforce simp: cmd_complete_command_lib_def)
  then show ?thesis using Some assms by (simp add: vty_complete_command_def Let_def)
qed

lemma describe_loop_error:
  "describe_loop inet vline i ws cs = Desc_error r \<Longrightarrow> r \<in> {CMD_ERR_AMBIGUOUS, CMD_ERR_NO_MATCH}"
proof (induction inet vline i ws cs rule: describe_loop.induct)
  case (2 inet vline i w ws cs)
  obtain ret cs1 match ms where f: "cmd_vector_filter inet cs FILTER_RELAXED vline i = (ret, cs1, match, ms)"
    using prod_cases4 by blast
  have "ret \<in> {CMD_SUCCESS, CMD_ERR_AMBIGUOUS}" using filter_no_exceed [OF f [unfolded cmd_vector_filter_def]] .
  then show ?case using 2 f by (auto split: if_splits prod.splits)
qed simp

lemma describe_result:
  assumes "session_ok cv v"
  shows "\<exists>ret d. cmd_describe_command cv inet vline v = Some (ret, d) \<and>
    (ret = CMD_ERR_AMBIGUOUS \<or> ret = CMD_ERR_NO_MATCH \<or> (\<exists>ts. d = Some ts))"
proof -
  obtain cs where cs: "cmd_node_vector cv (vnode v) = Some cs" using session_node_vector [OF assms] by blast
  have d: "fst r = CMD_ERR_AMBIGUOUS \<or> fst r = CMD_ERR_NO_MATCH \<or> (\<exists>ts. snd r = Some ts)"
    if "cmd_describe_command_real inet cs ws = r" for ws r
    using that describe_loop_error [of inet ws 0 ws cs]
    by (auto simp: cmd_describe_command_real_def Let_def split: describe_result.splits prod.splits if_splits)
  let ?ws = "if cmd_try_do_shortcut (hd vline) then tl vline else vline"
  show ?thesis
  proof (cases "?ws = []")
    case True
    then show ?thesis by (simp add: cmd_describe_command_def Let_def)
  next
    case False
    then have "cmd_describe_command cv inet vline v = Some (cmd_describe_command_real inet cs ?ws)"
      using cs by (simp add: cmd_describe_command_def Let_def)
    with d [OF refl, of ?ws] show ?thesis by (metis prod.collapse)
  qed
qed

lemma session_describe_line [simp]: "session_ok cv v \<Longrightarrow> session_ok cv (describe_line n c d v)"
  by (simp add: describe_line_def)

lemma session_describe_fold [simp]: "session_ok cv v \<Longrightarrow> session_ok cv (describe_fold_loop cw dw c p v)"
  by (induction cw dw c p v rule: describe_fold_loop.induct) (subst describe_fold_loop.simps, simp add: Let_def)

lemma session_describe_token [simp]: "session_ok cv v \<Longrightarrow> session_ok cv (describe_token w dw t v)"
  by (auto simp: describe_token_def vty_describe_fold_def simp del: describe_fold_loop.simps split: option.splits)

lemma session_fold: "(\<And>x w. session_ok cv w \<Longrightarrow> session_ok cv (f x w)) \<Longrightarrow> session_ok cv v \<Longrightarrow> session_ok cv (fold f xs v)"
  by (induction xs arbitrary: v) auto

lemma session_describe [simp]:
  assumes "session_ok cv v"
  shows "session_ok cv (vty_describe_command cv inet v)"
proof -
  have p: "session_ok cv (describe_print n ts w)" if "session_ok cv w" for n ts w
    using that by (simp add: describe_print_def Let_def session_fold)
  show ?thesis
    using assms p describe_result [OF assms, of inet "case line_words v of None \<Rightarrow> [None] | Some ws \<Rightarrow> ws"]
    by (auto simp: vty_describe_command_def Let_def)
qed


section \<open>The input loop\<close>

lemma session_sb_store [simp]: "session_ok cv (sb_store c v) = session_ok cv v"
  by (simp add: sb_store_def)

lemma session_telnet: "session_ok cv (snd (vty_telnet_option v c)) = session_ok cv v"
  by (simp add: vty_telnet_option_def)

lemma session_if: "session_ok cv x \<Longrightarrow> session_ok cv y \<Longrightarrow> session_ok cv (if b then x else y)"
  by simp

lemma session_snd_if: "session_ok cv (snd x) \<Longrightarrow> session_ok cv (snd y) \<Longrightarrow> session_ok cv (snd (if b then x else y))"
  by simp

lemma session_edit_key [simp]: "session_ok cv v \<Longrightarrow> session_ok cv (edit_key (cmd_prompt cv) c v)"
  unfolding edit_key_def by (intro session_if) simp_all

lemma session_pre_escape [simp]: "session_ok cv v \<Longrightarrow> session_ok cv (pre_escape_key (cmd_prompt cv) c v)"
  unfolding pre_escape_key_def by (intro session_if) simp_all

lemma vctx_list_matches [vctx_simps]: "vctx (list_matches i ss v) = vctx v"
  by (induction i ss v rule: list_matches.induct) (simp_all add: Let_def vctx_simps)

lemma vctx_pure_word [vctx_simps]: "vctx (vty_backward_pure_word v) = vctx v"
  by (simp add: vty_backward_pure_word_def vctx_while vctx_simps)

lemma vctx_complete [vctx_simps]: "vctx (vty_complete_command cv inet v) = vctx v"
  by (simp add: vty_complete_command_def Let_def vctx_simps split: option.splits prod.splits)

lemma vctx_describe_fold [vctx_simps]: "vctx (describe_fold_loop cw dw c p v) = vctx v"
  by (induction cw dw c p v rule: describe_fold_loop.induct)
     (subst describe_fold_loop.simps, simp add: Let_def describe_line_def vctx_simps)

lemma vctx_describe_token [vctx_simps]: "vctx (describe_token w dw t v) = vctx v"
  by (simp add: describe_token_def vty_describe_fold_def describe_line_def vctx_simps
      del: describe_fold_loop.simps split: option.splits)

lemma vctx_fold: "(\<And>x w. vctx (f x w) = vctx w) \<Longrightarrow> vctx (fold f xs v) = vctx v"
  by (induction xs arbitrary: v) auto

lemma vctx_describe [vctx_simps]: "vctx (vty_describe_command cv inet v) = vctx v"
  by (simp add: vty_describe_command_def describe_print_def Let_def vctx_simps vctx_fold
      split: option.splits prod.splits)

text \<open>The telnet state of a terminal, and whether it waits in the pager.\<close>

definition vtel :: "vty \<Rightarrow> bool \<times> bool \<times> bool" where
  "vtel v = (viac v, viac_sb_in_progress v, vstatus v = VTY_MORE)"

lemma vtel_ctx: "vctx w = vctx v \<Longrightarrow> vtel w = vtel v"
  by (simp add: vctx_def vtel_def)

lemmas vtel_ops [simp] = vctx_simps [THEN vtel_ctx]

lemma vtel_fields [simp]:
  "vtel (v\<lparr>vescape := e\<rparr>) = vtel v" "vtel (v\<lparr>vhp := k\<rparr>) = vtel v" "vtel (v\<lparr>vnode := k\<rparr>) = vtel v"
  by (simp_all add: vtel_def)

lemma vtel_history [simp]:
  "vtel (vty_previous_line v) = vtel v" "vtel (vty_next_line v) = vtel v" "vtel (vty_hist_add v) = vtel v"
proof -
  have h: "vtel (vty_history_print w) = vtel w" for w
    by (rule vtel_ctx) (simp add: vty_history_print_def Let_def vctx_simps split: option.splits)
  show "vtel (vty_previous_line v) = vtel v" "vtel (vty_next_line v) = vtel v" "vtel (vty_hist_add v) = vtel v"
    by (simp_all add: vty_previous_line_def vty_next_line_def Let_def h) (simp add: vty_hist_add_def Let_def vtel_def)
qed

lemma vtel_if: "vtel x = t \<Longrightarrow> vtel y = t \<Longrightarrow> vtel (if b then x else y) = t"
  "vtel (snd p) = t \<Longrightarrow> vtel (snd q) = t \<Longrightarrow> vtel (snd (if b then p else q)) = t"
  by simp_all

lemma vtel_keys [simp]:
  "vtel (edit_key prompt c v) = vtel v" "vtel (pre_escape_key prompt c v) = vtel v" "vtel (vty_escape_map c v) = vtel v"
  unfolding edit_key_def pre_escape_key_def vty_escape_map_def by (intro vtel_if, simp_all)+

lemma split_escape:
  assumes "\<not> viac v" "\<not> viac_sb_in_progress v"
  shows "vty_read cv inet call (CHR 0x1B # ys) v = vty_read cv inet call ys (vty_read cv inet call [CHR 0x1B] v)"
proof (cases "ys \<noteq> [] \<and> hd ys = CHR ''[''")
  case True
  then obtain zs where ys: "ys = CHR ''['' # zs" by (cases ys) auto
  have n: "CHR 0x1B \<noteq> TELNET_IAC" "CHR ''['' \<noteq> TELNET_IAC" by (simp_all add: TELNET_IAC_def)
  show ?thesis using assms n ys
    by (simp add: read_step_def key_step_def normal_key_def pre_escape_key_def VTY_PRE_ESCAPE_def VTY_ESCAPE_def
        VTY_LITERAL_def)
next
  case False
  have n: "CHR 0x1B \<noteq> TELNET_IAC" by (simp add: TELNET_IAC_def)
  show ?thesis using assms n False
    by (auto simp: read_step_def key_step_def normal_key_def)
qed

text \<open>
  What \<^verbatim>\<open>vty_read\<close> relies on in the command callbacks: they keep the session well formed, leave the
  telnet state alone and do not start the pager.
\<close>

locale terminal =
  fixes cv :: cmdvec and inet :: "string \<Rightarrow> bool" and call :: callback
  assumes callback_ok: "session_ok cv v \<Longrightarrow> session_ok cv (snd (call f av e v))"
    and callback_telnet: "viac (snd (call f av e v)) = viac v"
      "viac_sb_in_progress (snd (call f av e v)) = viac_sb_in_progress v"
    and callback_status: "vstatus v \<noteq> VTY_MORE \<Longrightarrow> vstatus (snd (call f av e v)) \<noteq> VTY_MORE"
begin

lemma execute_command_ok: "session_ok cv v \<Longrightarrow> session_ok cv (snd (cmd_execute_command cv inet call vline v))"
proof -
  assume s: "session_ok cv v"
  have r: "session_ok cv (snd (cmd_execute_command_real cv inet call ws filt v))" for ws filt
    using s session_node_vector [OF s] callback_ok [OF s]
    by (auto simp: cmd_execute_command_real_def split: sum.splits)
  show ?thesis
  proof (cases "cmd_try_do_shortcut (hd vline)")
    case True
    have p: "cmd_prompt cv (vnode v) \<noteq> None" using s by (simp add: session_ok_def)
    obtain ret w where w: "cmd_execute_command_real cv inet call (tl vline) FILTER_RELAXED v = (ret, w)" by fastforce
    then have "session_ok cv w" using r [of "tl vline" FILTER_RELAXED] by simp
    then show ?thesis using True w session_node [OF _ p] by (simp add: cmd_execute_command_def Let_def)
  qed (use r in \<open>simp add: cmd_execute_command_def Let_def\<close>)
qed

lemma command_ok: "session_ok cv v \<Longrightarrow> session_ok cv (snd (vty_command cv inet call v s))"
proof -
  assume s: "session_ok cv v"
  show ?thesis
  proof (cases "cmd_make_strvec s")
    case (Some vline)
    obtain ret w where w: "cmd_execute_command cv inet call vline v = (ret, w)" by fastforce
    then have "session_ok cv w" using execute_command_ok [OF s, of vline] by simp
    then show ?thesis using Some w by (simp add: vty_command_def)
  qed (use s in \<open>simp add: vty_command_def\<close>)
qed

lemma execute_ok: "session_ok cv v \<Longrightarrow> session_ok cv (snd (vty_execute cv inet call v))"
proof -
  assume s: "session_ok cv v"
  obtain ret w where w: "vty_command cv inet call v (c_string (vbuf v)) = (ret, w)" by fastforce
  with command_ok [OF s] have "session_ok cv w" by (metis snd_conv)
  with w show ?thesis by (simp add: vty_execute_def Let_def)
qed

lemma key_ok: "session_ok cv v \<Longrightarrow> session_ok cv (snd (key_step cv inet call c rest v))"
  unfolding key_step_def normal_key_def by (intro session_snd_if) (simp_all add: execute_ok)

lemma step_ok: "session_ok cv v \<Longrightarrow> session_ok cv (snd (read_step cv inet call c rest v))"
proof -
  assume s: "session_ok cv v"
  let ?v = "if c = TELNET_IAC then v\<lparr>viac := False\<rparr> else v"
  have "session_ok cv ?v" using s by simp
  moreover from this have "session_ok cv (snd (case vty_telnet_option ?v c of (ret, v2) \<Rightarrow> (ret, v2\<lparr>viac := False\<rparr>)))"
    using session_telnet [of cv ?v c] by (cases "vty_telnet_option ?v c") simp
  ultimately show ?thesis using s key_ok
    unfolding read_step_def Let_def by (intro session_snd_if) simp_all
qed

lemma read_ok: "session_ok cv v \<Longrightarrow> session_ok cv (vty_read cv inet call bs v)"
proof (induction bs arbitrary: v rule: measure_induct_rule [where f = length])
  case (less bs)
  show ?case
  proof (cases bs)
    case (Cons c rest)
    obtain k w where w: "read_step cv inet call c rest v = (k, w)" by fastforce
    then have "session_ok cv w" using step_ok [OF less.prems, of c rest] by simp
    then show ?thesis using less.IH [of "drop k rest" w] Cons w by simp
  qed (use less.prems in simp)
qed

lemma execute_telnet:
  assumes "vstatus v \<noteq> VTY_MORE"
  shows "vtel (snd (vty_execute cv inet call v)) = vtel v"
proof -
  have r: "vtel (snd (cmd_execute_command_real cv inet call ws filt v)) = vtel v" for ws filt
    using assms callback_telnet callback_status
    by (auto simp: cmd_execute_command_real_def vtel_def split: option.splits sum.splits)
  have c: "vtel (snd (cmd_execute_command cv inet call ws v)) = vtel v" for ws
    using r [of "tl ws" FILTER_RELAXED] r [of ws FILTER_RELAXED]
    by (cases "cmd_execute_command_real cv inet call (tl ws) FILTER_RELAXED v")
       (simp add: cmd_execute_command_def Let_def)
  have d: "vtel (snd (vty_command cv inet call v s)) = vtel v" for s
  proof (cases "cmd_make_strvec s")
    case (Some ws)
    then show ?thesis using c [of ws]
      by (cases "cmd_execute_command cv inet call ws v") (simp add: vty_command_def)
  qed (simp add: vty_command_def)
  show ?thesis
    using d [of "c_string (vbuf v)"]
    by (cases "vty_command cv inet call v (c_string (vbuf v))") (simp add: vty_execute_def Let_def)
qed

lemma key_telnet: "vtel (snd (key_step cv inet call c rest v)) = vtel v"
proof (cases "vstatus v = VTY_MORE")
  case False
  then have "vtel (snd (vty_execute cv inet call (vty_out v (VTY_NEWLINE v)))) = vtel v"
    using execute_telnet [of "vty_out v (VTY_NEWLINE v)"] by (simp add: vty_out_def vtel_def)
  then show ?thesis unfolding key_step_def normal_key_def by (intro vtel_if) simp_all
qed (simp add: key_step_def)

lemma read_plain:
  assumes "c \<noteq> TELNET_IAC" "\<not> viac v"
  shows "read_step cv inet call c rest v =
      (if viac_sb_in_progress v then (0, sb_store c v) else key_step cv inet call c rest v)"
    "\<not> viac (snd (read_step cv inet call c rest v))"
proof -
  show r: "read_step cv inet call c rest v =
      (if viac_sb_in_progress v then (0, sb_store c v) else key_step cv inet call c rest v)"
    using assms by (simp add: read_step_def)
  show "\<not> viac (snd (read_step cv inet call c rest v))"
    using assms(2) key_telnet [of c rest v] by (simp add: r vtel_def) (simp add: sb_store_def)
qed

lemma key_rest:
  assumes "c \<noteq> CHR 0x1B \<or> rest \<noteq> []"
  shows "key_step cv inet call c (rest @ ys) v = key_step cv inet call c rest v"
  using assms by (cases rest) (auto simp: key_step_def normal_key_def)

lemma read_split:
  assumes "TELNET_IAC \<notin> set xs" "\<not> viac v"
  shows "vty_read cv inet call (xs @ ys) v = vty_read cv inet call ys (vty_read cv inet call xs v)"
  using assms
proof (induction xs arbitrary: v rule: measure_induct_rule [where f = length])
  case (less xs)
  show ?case
  proof (cases xs)
    case (Cons c rest)
    then have c: "c \<noteq> TELNET_IAC" using less.prems by auto
    obtain k w where w: "read_step cv inet call c rest v = (k, w)" by fastforce
    have t: "\<not> viac w" using read_plain(2) [OF c less.prems(2), of rest] w by simp
    note st = read_plain(1) [OF c less.prems(2)]
    show ?thesis
    proof (cases "\<not> viac_sb_in_progress v \<and> c = CHR 0x1B \<and> rest = []")
      case True
      then show ?thesis using Cons less.prems(2) split_escape [of v cv inet call ys] by simp
    next
      case False
      then have "read_step cv inet call c (rest @ ys) v = (k, w)"
        using w key_rest [of c rest ys v] by (auto simp: st)
      moreover have "k \<le> length rest" using w by (auto simp: st key_step_def normal_key_def Suc_le_eq split: if_splits)
      moreover have "TELNET_IAC \<notin> set (drop k rest)" using less.prems(1) Cons by (auto dest: in_set_dropD)
      ultimately show ?thesis using less.IH [of "drop k rest" w] t w Cons by simp
    qed
  qed simp
qed

end


text \<open>The terminals a server can have: created in an installed node, then fed with reads.\<close>

inductive session :: "cmdvec \<Rightarrow> (string \<Rightarrow> bool) \<Rightarrow> callback \<Rightarrow> vty \<Rightarrow> bool" for cv inet call where
  start: "cmd_prompt cv n \<noteq> None \<Longrightarrow> session cv inet call (vty_create n host)"
| read: "session cv inet call v \<Longrightarrow> session cv inet call (vty_read cv inet call bs v)"

lemma session_ok_create: "cmd_prompt cv n \<noteq> None \<Longrightarrow> session_ok cv (vty_create n host)"
  using zip_new_init [of n]
  by (auto simp: session_ok_def vty_create_def zip_state_def hist_ok_def vty_new_init_def VTY_HIST_CMD_SIZE_def)

context terminal
begin

lemma step_more: "(vstatus (snd (read_step cv inet call c rest v)) = VTY_MORE) = (vstatus v = VTY_MORE)"
proof -
  have k: "(vstatus (snd (key_step cv inet call c rest w)) = VTY_MORE) = (vstatus w = VTY_MORE)" for w
    using key_telnet [of c rest w] by (simp add: vtel_def)
  have t: "vstatus (snd (case vty_telnet_option w c of (ret, v2) \<Rightarrow> (ret, v2\<lparr>viac := False\<rparr>))) = vstatus w" for w
    by (auto simp: vty_telnet_option_def split: if_splits)
  show ?thesis using t [of v] t [of "v\<lparr>viac := False\<rparr>"] k [of v] k [of "v\<lparr>viac := False\<rparr>"]
    unfolding read_step_def Let_def by (cases "c = TELNET_IAC") (simp_all add: sb_store_def)
qed

lemma read_more: "(vstatus (vty_read cv inet call bs v) = VTY_MORE) = (vstatus v = VTY_MORE)"
proof (induction bs arbitrary: v rule: measure_induct_rule [where f = length])
  case (less bs)
  show ?case
  proof (cases bs)
    case (Cons c rest)
    obtain k w where w: "read_step cv inet call c rest v = (k, w)" by fastforce
    then show ?thesis using less.IH [of "drop k rest" w] Cons step_more [of c rest v] by simp
  qed simp
qed

lemma session_ok_reachable: "session cv inet call v \<Longrightarrow> session_ok cv v"
  by (induction rule: session.induct) (simp_all add: session_ok_create read_ok)

end

section \<open>Typing\<close>

definition plain :: "vty \<Rightarrow> bool" where
  "plain v \<longleftrightarrow> \<not> viac v \<and> \<not> viac_sb_in_progress v \<and> vstatus v \<noteq> VTY_MORE \<and>
     vescape v \<notin> {VTY_PRE_ESCAPE, VTY_ESCAPE, VTY_LITERAL}"

definition printable :: "char \<Rightarrow> bool" where
  "printable c \<longleftrightarrow> of_char c > (31 :: nat) \<and> of_char c < (127 :: nat) \<and> c \<noteq> CHR ''?''"

lemma control_code:
  "CONTROL (CHR ''A'') = CHR 0x01" "CONTROL (CHR ''B'') = CHR 0x02" "CONTROL (CHR ''C'') = CHR 0x03"
  "CONTROL (CHR ''D'') = CHR 0x04" "CONTROL (CHR ''E'') = CHR 0x05" "CONTROL (CHR ''F'') = CHR 0x06"
  "CONTROL (CHR ''H'') = CHR 0x08" "CONTROL (CHR ''K'') = CHR 0x0B" "CONTROL (CHR ''N'') = CHR 0x0E"
  "CONTROL (CHR ''P'') = CHR 0x10" "CONTROL (CHR ''T'') = CHR 0x14" "CONTROL (CHR ''U'') = CHR 0x15"
  "CONTROL (CHR ''V'') = CHR 0x16" "CONTROL (CHR ''W'') = CHR 0x17"
  by code_simp+

lemma read_printable:
  assumes "printable c" "plain v"
  shows "read_step cv inet call c rest v = (0, vty_self_insert v c)"
proof -
  have n: "c \<noteq> d" if "of_char d < (32 :: nat) \<or> of_char d > (126 :: nat)" for d
    using assms(1) that by (auto simp: printable_def)
  have "c \<noteq> TELNET_IAC" by (rule n) (simp add: TELNET_IAC_def)
  moreover have "edit_key (cmd_prompt cv) c v = vty_self_insert v c"
    using assms(1) n by (simp add: edit_key_def control_code printable_def)
  ultimately show ?thesis using assms n
    by (simp add: read_step_def key_step_def normal_key_def plain_def printable_def)
qed

lemma plain_ctx: "vctx w = vctx v \<Longrightarrow> plain w = plain v"
  by (simp add: plain_def vctx_def)

lemma insert_zip:
  assumes "zip_state v b a" "length b + length a < 1023"
  shows "zip_state (vty_self_insert v c) (b @ [c]) a"
  using self_insert_edits [of None v b a c] assms by (simp add: edits_def shown_def)

lemma typed_zip:
  assumes "list_all printable s" "plain v" "zip_state v b a" "length b + length a + length s < 1024"
  shows "zip_state (vty_read cv inet call s v) (b @ s) a \<and> vctx (vty_read cv inet call s v) = vctx v \<and>
    vty_read cv inet call (s @ r) v = vty_read cv inet call r (vty_read cv inet call s v)"
  using assms
proof (induction s arbitrary: v b)
  case (Cons c s)
  let ?w = "vty_self_insert v c"
  have st: "read_step cv inet call c rest v = (0, ?w)" for rest using Cons.prems by (simp add: read_printable)
  have c: "vctx ?w = vctx v" by (simp add: vctx_simps)
  have "zip_state ?w (b @ [c]) a" using Cons.prems by (intro insert_zip) auto
  with Cons.IH [of ?w "b @ [c]"] Cons.prems plain_ctx [OF c] c st show ?case by simp
qed simp

section \<open>Telnet window size\<close>

definition telnet_escape :: "char list \<Rightarrow> char list" where
  "telnet_escape bs = concat (map (\<lambda>c. if c = TELNET_IAC then [c, c] else [c]) bs)"

lemma sb_store_flags: "viac (sb_store c v) = viac v" "viac_sb_in_progress (sb_store c v) = viac_sb_in_progress v"
  "vsb_len (sb_store c v) = Suc (vsb_len v)"
  by (simp_all add: sb_store_def)

lemma read_sb:
  assumes "\<not> viac v" "viac_sb_in_progress v"
  shows "vty_read cv inet call (telnet_escape bs @ r) v = vty_read cv inet call r (fold sb_store bs v)"
  using assms
proof (induction bs arbitrary: v)
  case (Cons c bs)
  have "vty_read cv inet call (telnet_escape (c # bs) @ r) v =
      vty_read cv inet call (telnet_escape bs @ r) (sb_store c v)"
  proof (cases "c = TELNET_IAC")
    case True
    have eq: "sb_store d (v\<lparr>viac := False\<rparr>) = sb_store d v" for d using Cons.prems(1) by (cases v) simp
    show ?thesis using Cons.prems True by (simp add: telnet_escape_def read_step_def eq)
  next
    case False
    then show ?thesis using Cons.prems by (simp add: telnet_escape_def read_step_def)
  qed
  then show ?case using Cons.IH [of "sb_store c v"] Cons.prems by (simp add: sb_store_flags)
qed (simp add: telnet_escape_def)


section \<open>Properties\<close>

text \<open>
  C35: the window size a telnet client announces is the one the terminal uses: reading the
  subnegotiation for any width and height below 65536, with each byte 255 doubled as telnet
  requires, stores exactly these numbers, and changes nothing of the line being edited.
\<close>

theorem naws_roundtrip:
  assumes "w < 65536" and "h < 65536" and "\<not> viac v" and "\<not> viac_sb_in_progress v"
    and "length (vsb_buf v) = TELNET_NAWS_SB_LEN"
  shows "\<exists>sb. vty_read cv inet_pton call
      (TELNET_IAC # TELNET_SB #
       telnet_escape [TELOPT_NAWS, char_of (w div 256), char_of (w mod 256), char_of (h div 256), char_of (h mod 256)] @
       [TELNET_IAC, TELNET_SE]) v =
    v\<lparr>vsb_buf := sb, vsb_len := 5, vwidth := w, vheight := h\<rparr>"
proof -
  let ?bs = "[TELOPT_NAWS, char_of (w div 256), char_of (w mod 256), char_of (h div 256), char_of (h mod 256)] :: char list"
  let ?v = "v\<lparr>vsb_len := 0, viac_sb_in_progress := True, viac := False\<rparr>"
  have ne: "TELNET_SB \<noteq> TELNET_IAC" "TELNET_SE \<noteq> TELNET_SB" "TELNET_SE \<noteq> TELNET_IAC"
    by (simp_all add: TELNET_SB_def TELNET_SE_def TELNET_IAC_def)
  obtain s0 s1 s2 s3 s4 where sb: "vsb_buf v = [s0, s1, s2, s3, s4]"
    using assms(5) by (auto simp: TELNET_NAWS_SB_LEN_def length_Suc_conv numeral_eq_Suc)
  have st: "fold sb_store ?bs ?v = ?v\<lparr>vsb_buf := ?bs, vsb_len := 5\<rparr>"
    by (simp add: sb_store_def sb)
  have tb: "two_bytes (char_of (w div 256)) (char_of (w mod 256)) = w"
    "two_bytes (char_of (h div 256)) (char_of (h mod 256)) = h"
    using assms(1,2) by (simp_all add: two_bytes_def of_char_of take_bit_eq_mod)
  have nul: "TELOPT_NAWS \<noteq> NUL" by (simp add: TELOPT_NAWS_def)
  have "vty_read cv inet_pton call (TELNET_IAC # TELNET_SB # xs) v = vty_read cv inet_pton call xs ?v" for xs
    using assms(3,4) ne by (simp add: read_step_def vty_telnet_option_def)
  moreover have "vty_read cv inet_pton call (telnet_escape ?bs @ [TELNET_IAC, TELNET_SE]) ?v =
      vty_read cv inet_pton call [TELNET_IAC, TELNET_SE] (?v\<lparr>vsb_buf := ?bs, vsb_len := 5\<rparr>)"
    by (subst read_sb) (simp_all only: st, simp_all)
  moreover have "vty_read cv inet_pton call [TELNET_IAC, TELNET_SE] (?v\<lparr>vsb_buf := ?bs, vsb_len := 5\<rparr>) =
      v\<lparr>vsb_buf := ?bs, vsb_len := 5, vwidth := w, vheight := h\<rparr>"
    using assms(3,4) ne nul tb by (simp add: read_step_def vty_telnet_option_def TELNET_NAWS_SB_LEN_def)
  ultimately show ?thesis by (intro exI [of _ ?bs]) simp
qed


theorem naws_roundtrip_witness:
  "vwidth (vty_read [] (\<lambda>s. False) (\<lambda>f as e v. (0, v))
     (TELNET_IAC # TELNET_SB # telnet_escape [TELOPT_NAWS, char_of (255 div 256 :: nat), char_of (255 mod 256 :: nat),
        char_of (24 div 256 :: nat), char_of (24 mod 256 :: nat)] @ [TELNET_IAC, TELNET_SE]) (vty_new_init 0)) = 255"
  using naws_roundtrip [of 255 24 "vty_new_init 0" "[]" "\<lambda>s. False" "\<lambda>f as e v. (0, v)"]
  by (auto simp: vty_new_init_def)

end
