(* ===== verification/Vty_Complete.thy ===== *)
theory Vty_Complete
  imports Vty_Session
begin

text \<open>
  Completion in \<^verbatim>\<open>src/opbox/vty.c\<close>: the candidates \<^verbatim>\<open>cmd_complete_command_real\<close> offers, their longest
  common prefix, and what the TAB key does to the line.
\<close>

section \<open>The longest common prefix\<close>

lemma common_prefix_le:
  "k \<le> common_prefix_len s t \<longleftrightarrow> k \<le> length s \<and> k \<le> length t \<and> take k s = take k t"
proof (induction s t arbitrary: k rule: common_prefix_len.induct)
  case (1 c s d t)
  then show ?case by (cases k) auto
qed auto

lemma lcd_loop_le:
  "ss \<noteq> [] \<Longrightarrow> \<exists>r. lcd_loop ss (Some l) = Some r \<and>
     (\<forall>k. k \<le> r \<longleftrightarrow> k \<le> l \<and> successively (\<lambda>s t. k \<le> common_prefix_len s t) ss)"
proof (induction ss arbitrary: l rule: induct_list012)
  case (3 s1 s2 ss)
  let ?j = "common_prefix_len s1 s2"
  obtain r where r: "lcd_loop (s2 # ss) (Some (if l > ?j then ?j else l)) = Some r"
    "\<forall>k. k \<le> r \<longleftrightarrow> k \<le> (if l > ?j then ?j else l) \<and> successively (\<lambda>s t. k \<le> common_prefix_len s t) (s2 # ss)"
    using 3(2) [of "if l > ?j then ?j else l"] by blast
  then show ?case by (auto simp: Let_def split: if_splits)
qed auto

lemma successively_prefix:
  "successively (\<lambda>s t. k \<le> common_prefix_len s t) (s # t # ss) \<longleftrightarrow>
   (\<forall>x\<in>set (s # t # ss). k \<le> length x \<and> take k x = take k s)"
  by (induction ss arbitrary: s t) (auto simp: common_prefix_le)

lemma cmd_lcd_le:
  assumes "2 \<le> length m"
  shows "k \<le> cmd_lcd m \<longleftrightarrow> (\<forall>s\<in>set m. k \<le> length s \<and> take k s = take k (hd m))"
proof -
  obtain s t ss where m: "m = s # t # ss" using assms by (auto simp: numeral_2_eq_2 Suc_le_length_iff)
  obtain r where "lcd_loop (t # ss) (Some (common_prefix_len s t)) = Some r"
    "\<forall>k. k \<le> r \<longleftrightarrow> k \<le> common_prefix_len s t \<and> successively (\<lambda>s t. k \<le> common_prefix_len s t) (t # ss)"
    using lcd_loop_le [of "t # ss" "common_prefix_len s t"] by blast
  then show ?thesis using successively_prefix [of k s t ss] by (auto simp: m cmd_lcd_def)
qed

lemma collect_tokens_set:
  "set (collect_tokens src ts mv) = set mv \<union> {x. \<exists>t\<in>set ts. cmd_entry_function src t = Some x}"
  by (induction src ts mv rule: collect_tokens.induct) (auto simp: cmd_unique_string_def split: option.splits)

lemma collect_tokens_distinct: "distinct mv \<Longrightarrow> distinct (collect_tokens src ts mv)"
  by (induction src ts mv rule: collect_tokens.induct) (auto simp: cmd_unique_string_def split: option.splits)

text \<open>The words offered by the tokens a filter pass matched.\<close>

definition offered :: "string option \<Rightarrow> cmd_token list option list \<Rightarrow> string set" where
  "offered src ms = {x. \<exists>ts t. Some ts \<in> set ms \<and> t \<in> set ts \<and> cmd_entry_function src t = Some x}"

lemma collect_matches_set: "set (collect_matches src ms mv) = set mv \<union> offered src ms"
  by (induction src ms mv rule: collect_matches.induct) (auto simp: offered_def collect_tokens_set)

lemma collect_matches_distinct: "distinct mv \<Longrightarrow> distinct (collect_matches src ms mv)"
  by (induction src ms mv rule: collect_matches.induct) (auto simp: collect_tokens_distinct)

lemma entry_prefix: "cmd_entry_function (Some w) t = Some x \<Longrightarrow> take (length w) x = w"
  by (auto simp: cmd_entry_function_def strncmp_eq_def split: if_splits)

text \<open>
  what completing a word offers: the candidates are exactly the literal words matched at the
  last position that start with the word, without duplicates; the result is either the only candidate, or the longest common prefix of the candidates when it extends
  the word, or all candidates in alphabetical order.
\<close>

theorem completion_candidates:
  assumes "cmd_complete_command_real inet_pton commands vline = (ret, Some matched)" and "last vline = Some w"
  shows "\<exists>ms cands. complete_loop inet_pton vline 0 vline commands = Inr ms \<and>
    distinct cands \<and> set cands = offered (Some w) ms \<and> (\<forall>c\<in>set cands. take (length w) c = w) \<and>
    (ret = CMD_COMPLETE_FULL_MATCH \<and> matched = cands \<and> length cands = 1 \<or>
     ret = CMD_COMPLETE_LIST_MATCH \<and> sorted matched \<and> mset matched = mset cands \<and> length cands \<ge> 2 \<or>
     ret = CMD_COMPLETE_MATCH \<and> length cands \<ge> 2 \<and>
       (\<exists>p. matched = [p] \<and> length w < length p \<and> take (length w) p = w \<and>
          (\<forall>c\<in>set cands. take (length p) c = p) \<and>
          (\<forall>q. (\<forall>c\<in>set cands. take (length q) c = q) \<longrightarrow> length q \<le> length p)))"
proof -
  obtain ms where ms: "complete_loop inet_pton vline 0 vline commands = Inr ms"
    using assms by (auto simp: cmd_complete_command_real_def split: if_splits sum.splits)
  let ?c = "collect_matches (Some w) ms []"
  have c: "distinct ?c" "set ?c = offered (Some w) ms" "\<forall>c\<in>set ?c. take (length w) c = w"
    using collect_matches_set [of "Some w" ms "[]"] by (auto simp: collect_matches_distinct offered_def entry_prefix)
  have r: "?c \<noteq> [] \<and> (ret, Some matched) = (if length ?c = 1 then (CMD_COMPLETE_FULL_MATCH, Some ?c)
      else if cmd_lcd ?c \<noteq> 0 \<and> length w < cmd_lcd ?c then (CMD_COMPLETE_MATCH, Some [take (cmd_lcd ?c) (hd ?c)])
      else (CMD_COMPLETE_LIST_MATCH, Some (sort ?c)))"
    using assms ms by (auto simp: cmd_complete_command_real_def Let_def split: if_splits)
  show ?thesis
  proof (cases "length ?c = 1")
    case True
    then show ?thesis using r c ms by (intro exI [of _ ms] exI [of _ ?c]) simp
  next
    case False
    then have l: "2 \<le> length ?c" using r by (cases ?c; cases "tl ?c") auto
    note lcd = cmd_lcd_le [OF l]
    let ?p = "take (cmd_lcd ?c) (hd ?c)"
    have all: "cmd_lcd ?c \<le> length x" "take (cmd_lcd ?c) x = ?p" if "x \<in> set ?c" for x
      using lcd [of "cmd_lcd ?c"] that by blast+
    have h: "hd ?c \<in> set ?c" using l by (cases ?c) auto
    then have lp: "length ?p = cmd_lcd ?c" using all(1) [OF h] by simp
    have longest: "length q \<le> length ?p" if "\<forall>c\<in>set ?c. take (length q) c = q" for q
    proof -
      have "length q \<le> length s \<and> take (length q) s = take (length q) (hd ?c)" if "s \<in> set ?c" for s
        using \<open>\<forall>c\<in>set ?c. take (length q) c = q\<close> that h by (metis length_take min.cobounded1)
      then show ?thesis using lcd [of "length q"] lp by simp
    qed
    have "take (length w) ?p = w" if "length w < cmd_lcd ?c" using that c(3) h by (simp add: min_def)
    moreover have "\<forall>c\<in>set ?c. take (length ?p) c = ?p" unfolding lp using all(2) by blast
    moreover have "ret = CMD_COMPLETE_LIST_MATCH \<and> matched = sort ?c \<or>
        ret = CMD_COMPLETE_MATCH \<and> matched = [?p] \<and> length w < cmd_lcd ?c"
      using r False by (auto split: if_splits)
    ultimately show ?thesis using c l lp longest
      by (intro exI [of _ ms] exI [of _ ?c]) (elim disjE conjE, simp add: ms, metis ms)
  qed
qed


lemma complete_log:
  "cmd_complete_command_real (\<lambda>s. False) [Some (lit_element [''log''] 1), Some (lit_element [''login''] 2)] [Some ''l''] =
    (CMD_COMPLETE_MATCH, Some [''log''])"
proof -
  let ?cs = "[Some (lit_element [''log''] 1), Some (lit_element [''login''] 2)]"
  have m: "cmd_element_match (\<lambda>s. False) (ce_tokens (lit_element [c] k)) FILTER_RELAXED [Some ''l''] 0 True (Some None) False =
      (MATCHER_OK, Some partly_match, Some (Some [literal c]), None)" if "c = ''log'' \<or> c = ''login''" for c k
    using element_match_lit [of "lit_element [c] k" "[''l'']" 0 "\<lambda>s. False"] that
    by (auto simp: lit_eval)
  have "cmd_vector_filter (\<lambda>s. False) ?cs FILTER_RELAXED [Some ''l''] 0 =
      (CMD_SUCCESS, ?cs, partly_match, [Some [literal ''log''], Some [literal ''login'']])"
    by (simp add: cmd_vector_filter_def m MATCHER_ERROR_def Let_def list_put_def less_match_type_def)
  then show ?thesis
    by (simp add: cmd_complete_command_real_def Let_def literal_def cmd_entry_function_def strncmp_eq_def
        cmd_unique_string_def cmd_lcd_def)
qed

theorem completion_candidates_witness:
  "\<exists>ms cands. complete_loop (\<lambda>s. False) [Some ''l''] 0 [Some ''l'']
      [Some (lit_element [''log''] 1), Some (lit_element [''login''] 2)] = Inr ms \<and> length cands \<ge> 2 \<and>
      set cands = offered (Some ''l'') ms \<and> (\<forall>c\<in>set cands. take 3 c = ''log'')"
  using completion_candidates [OF complete_log, of "''l''"]
  by (simp add: cmd_codes numeral_3_eq_3 del: complete_loop.simps) blast

text \<open>
  C34: the effect of TAB on the line: with a single candidate the last blank-separated piece of the
  whole text is replaced by it and a blank, with a longer common prefix by that prefix; the cursor
  is at the end, wherever it was before.
\<close>

theorem tab_replaces_word:
  assumes "session_ok cv v" and "zip_state v b a" and "line_words v = Some vline"
    and "cmd_complete_command_lib cv inet_pton vline v = Some (ret, Some [s])"
    and "length (b @ a) + length s < 1023"
    and "ret = CMD_COMPLETE_FULL_MATCH \<or> ret = CMD_COMPLETE_MATCH"
  shows "zip_state (vty_complete_command cv inet_pton v)
    (rev (dropWhile (\<lambda>c. c \<noteq> CHR '' '') (rev (b @ a))) @ s @ (if ret = CMD_COMPLETE_FULL_MATCH then '' '' else [])) []"
proof -
  let ?pre = "rev (dropWhile (\<lambda>c. c \<noteq> CHR '' '') (rev (b @ a)))"
  let ?v1 = "vty_out v (VTY_NEWLINE v)"
  let ?v2 = "vty_redraw_line (vty_prompt (cmd_prompt cv) ?v1)"
  let ?v3 = "vty_insert_word_overwrite (vty_backward_pure_word ?v2) s"
  obtain p where p: "cmd_prompt cv (vnode v) = Some p" using assms(1) by (auto simp: session_ok_def)
  have "zip_state (vty_prompt (cmd_prompt cv) ?v1) b a"
    using assms(2) p by (simp add: vty_prompt_def out_zip) (simp add: vty_out_def zip_state_def)
  then have z: "zip_state ?v2 (b @ a) []" by (rule redraw_zip)
  have l: "length ?pre \<le> length (b @ a)" using length_dropWhile_le [of "\<lambda>c. c \<noteq> CHR '' ''" "rev (b @ a)"] by simp
  have "zip_state ?v3 (?pre @ take (1023 - length ?pre) s) []"
    using insert_word_zip [OF pure_word_zip [OF z], of s] by simp
  moreover have "take (1023 - length ?pre) s = s" using l assms(5) by simp
  ultimately have z3: "zip_state ?v3 (?pre @ s) []" by (simp only:)
  then have "zip_state (vty_self_insert ?v3 (CHR '' '')) ((?pre @ s) @ '' '') []"
    using l assms(5) by (intro insert_zip) (simp_all only: length_append list.size)
  then show ?thesis using z3 assms(3,4,6)
    by (auto simp: vty_complete_command_def Let_def cmd_codes)
qed


theorem tab_replaces_word_witness:
  "zip_state (vty_complete_command
     [Some \<lparr>cn_prompt = ''> '', cn_cmd_vector = [Some (lit_element [''log''] 1), Some (lit_element [''login''] 2)]\<rparr>]
     (\<lambda>s. False) (vty_self_insert (vty_create 0 ''h'') (CHR ''l''))) ''log'' []"
proof -
  let ?cs = "[Some (lit_element [''log''] 1), Some (lit_element [''login''] 2)]"
  let ?cv = "[Some \<lparr>cn_prompt = ''> '', cn_cmd_vector = ?cs\<rparr>]"
  let ?v = "vty_self_insert (vty_create 0 ''h'') (CHR ''l'')"
  have ok: "session_ok ?cv (vty_create 0 ''h'')"
    by (rule session_ok_create) (simp add: cmd_prompt_def cmdvec_slot_def)
  have "zip_state (vty_create 0 ''h'') [] []" using zip_new_init [of 0] by (simp add: vty_create_def zip_state_def)
  then have z: "zip_state ?v ''l'' []" using insert_zip [of "vty_create 0 ''h''" "[]" "[]"] by simp
  have n: "vnode ?v = 0" using vctx_insert_delete(2) [of "vty_create 0 ''h''" "CHR ''l''"]
    by (simp add: vctx_def vty_create_def vty_new_init_def)
  have "c_string (vbuf ?v) = ''l''" using c_string_zip [OF z] by (simp add: c_string_def)
  moreover have "vbuf ?v ! (vlen ?v - 1) = CHR ''l''" using z by (auto simp: zip_state_def)
  ultimately have "line_words ?v = Some [Some ''l'']"
    by (simp add: line_words_def cmd_make_strvec_def c_isspace_def cur_def Let_def)
  moreover have "cmd_complete_command_lib ?cv (\<lambda>s. False) [Some ''l''] ?v = Some (CMD_COMPLETE_MATCH, Some [''log''])"
    using complete_log by (simp add: cmd_complete_command_lib_def cmd_node_vector_def cmdvec_slot_def n cmd_try_do_shortcut_def)
  ultimately show ?thesis
    using tab_replaces_word [OF session_edits(14) [OF ok] z, of "[Some ''l'']" "\<lambda>s. False" CMD_COMPLETE_MATCH "''log''"]
    by (simp add: cmd_codes)
qed

end
