(* ===== verification/Op_Cli.thy ===== *)
theory Op_Cli
  imports Op_Hash Vty_Complete
begin

text \<open>
  The command line server of \<^verbatim>\<open>src/base/opcli.c\<close>, with the option strings of \<^verbatim>\<open>src/opbox/ptelnet.c\<close> and the
  commands of \<^verbatim>\<open>src/module/opmgr/opmgr_cmd.c\<close>: the nodes and their callbacks, the installation of
  commands, the set-up of the command tree, and the clients.  A function pointer is a number,
  \<open>opcli_call\<close> says what it does.  The allocator, the event library and the system calls are
  arguments.  The list of clients holds, for each connection, its descriptor and terminal; the hash
  tables and the vectors point to the same elements, and the tokens an element gets on installation
  are not part of what the tables compare.
\<close>

section \<open>Nodes and callbacks\<close>

definition node_view :: nat where "node_view = 0"
definition node_enable :: nat where "node_enable = 1"
definition node_opmgr :: nat where "node_opmgr = 2"
definition node_op4g :: nat where "node_op4g = 3"
definition node_max :: nat where "node_max = 4"

lemmas node_codes = node_view_def node_enable_def node_opmgr_def node_op4g_def node_max_def

text \<open>\<^verbatim>\<open>cli_prefix\<close>: the prompt of a node, and the name and help of the command of the enable node that enters it.\<close>

definition cli_prefix :: "(string \<times> (string \<times> string) option) list" where
  "cli_prefix =
     [(''%s>'', None), (''%s#'', None),
      (''%s(opmgr)#'', Some (''opmgr'', ''opmgr module'' @ [CHR 0x0A])),
      (''%s(op4g)#'', Some (''op4G'', ''op4G module'' @ [CHR 0x0A]))]"

definition CLI_OUT_BUF_SIZE :: nat where "CLI_OUT_BUF_SIZE = 4096"

definition opcli_out :: "vty \<Rightarrow> string \<Rightarrow> vty" where
  "opcli_out v s =
     v\<lparr>vout := vout v @ take (CLI_OUT_BUF_SIZE - 1) s @ (if CLI_OUT_BUF_SIZE \<le> length s then [NUL] else []),
       voverread := (voverread v \<or> CLI_OUT_BUF_SIZE < length s)\<rparr>"

definition cmd_node_exit :: "vty \<Rightarrow> int \<times> vty" where
  "cmd_node_exit v =
     (0, if vnode v = node_view then v\<lparr>vstatus := VTY_CLOSE\<rparr>
         else if vnode v = node_enable then v\<lparr>vnode := node_view\<rparr>
         else if vnode v = node_opmgr \<or> vnode v = node_op4g then v\<lparr>vnode := node_enable\<rparr>
         else v)"

definition cmd_node_end :: "vty \<Rightarrow> int \<times> vty" where
  "cmd_node_end v = (0, v\<lparr>vnode := node_view\<rparr>)"

definition cmd_node_list :: "cmdvec \<Rightarrow> vty \<Rightarrow> int \<times> vty" where
  "cmd_node_list cv v = (0, vty_list cv v)"

definition cmd_node_enable :: "vty \<Rightarrow> int \<times> vty" where
  "cmd_node_enable v = (0, v\<lparr>vnode := node_enable\<rparr>)"

definition cmd_node_enable_module :: "cmd_element \<Rightarrow> vty \<Rightarrow> int \<times> vty" where
  "cmd_node_enable_module e v =
     (0, fold (\<lambda>i w. case snd (cli_prefix ! i) of
                 None \<Rightarrow> w
               | Some (c, h) \<Rightarrow> if ce_string e = c then w\<lparr>vnode := i\<rparr> else w)
           [0..<length cli_prefix] v)"

text \<open>
  The two commands of \<^verbatim>\<open>opmgr_cmd.c\<close> print what another module stores in their buffer: \<open>an_cpu_num\<close> is
  the number of processors it stored, \<open>an_cpu_row i\<close> the text of the \<open>i\<close>-th row as \<^verbatim>\<open>printf\<close> formats it, and
  \<open>an_mem_pool\<close> the bytes stored for the memory pools.  A row takes 104 bytes of the 2048-byte buffer,
  behind the four bytes of the number.
\<close>

record answers =
  an_cpu_num :: int
  an_cpu_row :: "nat \<Rightarrow> string"
  an_mem_pool :: string

definition CPU_BUF_SIZE :: nat where "CPU_BUF_SIZE = 2048"
definition sizeof_cpu_info_usage :: nat where "sizeof_cpu_info_usage = 104"

definition cmd_mgr_cpu_usage :: "answers \<Rightarrow> vty \<Rightarrow> int \<times> vty" where
  "cmd_mgr_cpu_usage an v =
     (0, fold (\<lambda>i w. opcli_out (w\<lparr>voverread := (voverread w \<or> CPU_BUF_SIZE < 4 + sizeof_cpu_info_usage * (i + 1))\<rparr>)
                  (an_cpu_row an i @ [CHR 0x0D, CHR 0x0A]))
           [0..<nat (an_cpu_num an + 1)]
           (opcli_out v (''name      %user       %nice       %system      %iowait      %steal      %usage'' @
              [CHR 0x0D, CHR 0x0A])))"

definition MEM_BUF_SIZE :: nat where "MEM_BUF_SIZE = 4096"

definition cmd_mem_pool_information :: "answers \<Rightarrow> vty \<Rightarrow> int \<times> vty" where
  "cmd_mem_pool_information an v =
     (0, opcli_out v (c_string (take (MEM_BUF_SIZE - 1) (an_mem_pool an)) @ [CHR 0x0D, CHR 0x0A]))"

text \<open>The function pointers, by number.\<close>

definition CB_EXIT :: nat where "CB_EXIT = 1"
definition CB_END :: nat where "CB_END = 2"
definition CB_LIST :: nat where "CB_LIST = 3"
definition CB_ENABLE :: nat where "CB_ENABLE = 4"
definition CB_MODULE :: nat where "CB_MODULE = 5"
definition CB_CPU :: nat where "CB_CPU = 6"
definition CB_MEM :: nat where "CB_MEM = 7"

lemmas cb_codes = CB_EXIT_def CB_END_def CB_LIST_def CB_ENABLE_def CB_MODULE_def CB_CPU_def CB_MEM_def

definition opcli_call :: "cmdvec \<Rightarrow> answers \<Rightarrow> callback" where
  "opcli_call cv an f av e v =
     (if f = CB_EXIT then cmd_node_exit v
      else if f = CB_END then cmd_node_end v
      else if f = CB_LIST then cmd_node_list cv v
      else if f = CB_ENABLE then cmd_node_enable v
      else if f = CB_MODULE then cmd_node_enable_module e v
      else if f = CB_CPU then cmd_mgr_cpu_usage an v
      else cmd_mem_pool_information an v)"

section \<open>Installing commands\<close>

definition node_hash :: "cmd_element \<Rightarrow> u64" where
  "node_hash e = (let ret = op_hash_string_loop (ce_string e) 0x100 0 in drop_bit 16 ret XOR ret)"

definition c_strcmp :: "string \<Rightarrow> string \<Rightarrow> int" where
  "c_strcmp s t = (if s = t then 0 else if s < t then - 1 else 1)"

definition node_compare :: "cmd_element \<Rightarrow> cmd_element \<Rightarrow> int" where
  "node_compare x y = c_strcmp (ce_string x) (ce_string y) OR (if ce_node x \<noteq> ce_node y then 1 else 0)"

record opcli_struct =
  cli_ip :: string
  cli_port :: u16
  cli_hash :: "cmd_element op_hash_st list"
  cli_vec :: cmdvec

text \<open>
  \<^verbatim>\<open>opcli_install_cmd_ex\<close>: \<open>tokens\<close> is the element's \<^verbatim>\<open>tokens\<close> field.  Its result is \<open>None\<close> when the
  format parser does not return.  The outcome of \<^verbatim>\<open>op_hash_insert\<close> is not looked at.
\<close>

definition opcli_install_cmd_ex ::
    "(nat \<Rightarrow> bool) \<Rightarrow> bool \<Rightarrow> opcli_struct \<Rightarrow> nat \<Rightarrow> cmd_element \<Rightarrow> cmd_token list option \<Rightarrow>
     (int \<times> opcli_struct) option" where
  "opcli_install_cmd_ex ra ca cli node e tokens =
     (if node \<ge> node_max then Some (- 1, cli)
      else
        (case op_hash_retrieve (cli_hash cli ! node) e of
           (data, h1) \<Rightarrow>
             (let cli1 = cli\<lparr>cli_hash := (cli_hash cli)[node := h1]\<rparr> in
              if data \<noteq> None then Some (- 1, cli1)
              else
                (let h2 = snd (op_hash_insert ra ca h1 e) in
                 map_option
                   (\<lambda>(ret, cv). (ret, cli1\<lparr>cli_hash := (cli_hash cli1)[node := h2], cli_vec := cv\<rparr>))
                   (install_element (cli_vec cli1) node e tokens)))))"

text \<open>\<open>mem\<close> says whether the three allocations of the element succeed.\<close>

definition new_element :: "nat \<Rightarrow> string \<Rightarrow> string \<Rightarrow> nat \<Rightarrow> cmd_element" where
  "new_element node c help cb =
     \<lparr>ce_node = node, ce_string = c, ce_doc = Some help, ce_tokens = [], ce_attr = 0, ce_daemon = False, ce_cb = cb\<rparr>"

definition opcli_install_cmd ::
    "bool \<Rightarrow> (nat \<Rightarrow> bool) \<Rightarrow> bool \<Rightarrow> opcli_struct \<Rightarrow> nat \<Rightarrow> string option \<Rightarrow> string option \<Rightarrow> nat option \<Rightarrow>
     (int \<times> opcli_struct) option" where
  "opcli_install_cmd mem ra ca cli node c help cb =
     (case (c, help, cb) of
        (Some c', Some h', Some f) \<Rightarrow>
          if node \<ge> node_max \<or> \<not> mem then Some (- 1, cli)
          else
            (let e = new_element node c' h' f in
             case op_hash_retrieve (cli_hash cli ! node) e of
               (data, h1) \<Rightarrow>
                 (let cli1 = cli\<lparr>cli_hash := (cli_hash cli)[node := h1]\<rparr> in
                  if data \<noteq> None then Some (- 1, cli1)
                  else
                    (let h2 = snd (op_hash_insert ra ca h1 e) in
                     map_option
                       (\<lambda>(ret, cv). (0, cli1\<lparr>cli_hash := (cli_hash cli1)[node := h2], cli_vec := cv\<rparr>))
                       (install_element (cli_vec cli1) node e None))))
      | _ \<Rightarrow> Some (- 1, cli))"

text \<open>The command tables.  The results of the installations are ignored, as in the code.\<close>

definition cmd_in_node :: "(string \<times> string \<times> nat) list" where
  "cmd_in_node =
     [(''exit'', ''exit to preview node'' @ [CHR 0x0A], CB_EXIT),
      (''end'', ''end to first node'' @ [CHR 0x0A], CB_END),
      (''list'', ''list install cmd in this node'' @ [CHR 0x0A], CB_LIST)]"

definition cmd_in_node_enable :: "(string \<times> string \<times> nat) list" where
  "cmd_in_node_enable =
     [(''opmgr'', ''opmgr module'' @ [CHR 0x0A], CB_MODULE), (''op4G'', ''op4G module'' @ [CHR 0x0A], CB_MODULE)]"

definition opmgr_cmd :: "(string \<times> string \<times> nat) list" where
  "opmgr_cmd =
     [(''show cpu usage'', ''show'' @ [CHR 0x0A] @ '' cpu'' @ [CHR 0x0A] @ '' usage'' @ [CHR 0x0A], CB_CPU),
      (''show memory pool information'', ''show'' @ [CHR 0x0A] @ '' memory '' @ [CHR 0x0A] @ '' pool'' @ [CHR 0x0A] @
         '' information'' @ [CHR 0x0A], CB_MEM)]"

fun install_table ::
    "(string \<Rightarrow> bool) \<Rightarrow> (nat \<Rightarrow> bool) \<Rightarrow> bool \<Rightarrow> nat \<Rightarrow> (string \<times> string \<times> nat) list \<Rightarrow> opcli_struct \<Rightarrow> opcli_struct option" where
  "install_table mem ra ca node [] cli = Some cli"
| "install_table mem ra ca node ((c, h, f) # cs) cli =
     (case opcli_install_cmd (mem c) ra ca cli node (Some c) (Some h) (Some f) of
        None \<Rightarrow> None
      | Some (ret, cli1) \<Rightarrow> install_table mem ra ca node cs cli1)"

definition install_default_cmd ::
    "(string \<Rightarrow> bool) \<Rightarrow> (nat \<Rightarrow> bool) \<Rightarrow> bool \<Rightarrow> nat \<Rightarrow> opcli_struct \<Rightarrow> opcli_struct option" where
  "install_default_cmd mem ra ca node_type cli =
     (case install_table mem ra ca node_type cmd_in_node cli of
        None \<Rightarrow> None
      | Some cli1 \<Rightarrow>
          if node_type = node_view then
            install_table mem ra ca node_type [(''enable'', ''into enable node'' @ [CHR 0x0A], CB_ENABLE)] cli1
          else if node_type = node_enable then install_table mem ra ca node_type cmd_in_node_enable cli1
          else Some cli1)"

text \<open>
  \<^verbatim>\<open>opcli_node_init\<close>.  \<open>lk\<close> says whether the mutex can be set up, \<open>hm i\<close> whether the hash table of node
  \<open>i\<close> can be allocated; the integer is the return code.  A node starts without commands.
\<close>

fun node_init_loop ::
    "(nat \<Rightarrow> bool) \<Rightarrow> (string \<Rightarrow> bool) \<Rightarrow> (nat \<Rightarrow> bool) \<Rightarrow> bool \<Rightarrow> nat \<Rightarrow> nat \<Rightarrow> opcli_struct \<Rightarrow> (int \<times> opcli_struct) option" where
  "node_init_loop hm mem ra ca i 0 cli = Some (0, cli)"
| "node_init_loop hm mem ra ca i (Suc n) cli =
     (case op_hash_new (hm i) (hm i) (Some node_hash) (Some node_compare) of
        None \<Rightarrow> Some (- 1, cli)
      | Some h \<Rightarrow>
          (let cli1 = cli\<lparr>cli_hash := cli_hash cli @ [h],
                 cli_vec := snd (install_node (cli_vec cli) i \<lparr>cn_prompt = fst (cli_prefix ! i), cn_cmd_vector = []\<rparr>)\<rparr>
           in case install_default_cmd mem ra ca i cli1 of
                None \<Rightarrow> None
              | Some cli2 \<Rightarrow> node_init_loop hm mem ra ca (i + 1) n cli2))"

definition opcli_node_init ::
    "bool \<Rightarrow> (nat \<Rightarrow> bool) \<Rightarrow> (string \<Rightarrow> bool) \<Rightarrow> (nat \<Rightarrow> bool) \<Rightarrow> bool \<Rightarrow> nat \<Rightarrow> opcli_struct \<Rightarrow>
     (int \<times> opcli_struct) option" where
  "opcli_node_init lk hm mem ra ca node_max_num cli =
     (if node_max_num = 0 \<or> \<not> lk then Some (- 1, cli) else node_init_loop hm mem ra ca 0 node_max_num cli)"

definition opmgr_cmd_init :: "(string \<Rightarrow> bool) \<Rightarrow> (nat \<Rightarrow> bool) \<Rightarrow> bool \<Rightarrow> opcli_struct \<Rightarrow> opcli_struct option" where
  "opmgr_cmd_init mem ra ca cli = install_table mem ra ca node_opmgr opmgr_cmd cli"

text \<open>
  \<^verbatim>\<open>opcli_init\<close>: the outcomes of its allocations, of the configuration file and of the event library
  are a record.  \<open>ie_ip\<close> and \<open>ie_port\<close> are the values in the configuration file.  The outer option is that
  of the format parser; the inner one is the pointer the function returns.
\<close>

record init_env =
  ie_calloc :: bool
  ie_load :: bool
  ie_ip :: "string option"
  ie_port :: int
  ie_lock :: bool
  ie_hash :: "nat \<Rightarrow> bool"
  ie_mem :: "string \<Rightarrow> bool"
  ie_realloc :: "nat \<Rightarrow> bool"
  ie_node :: bool
  ie_usock :: int
  ie_listen :: bool
  ie_threads :: bool

definition opcli_init :: "init_env \<Rightarrow> opcli_struct option option" where
  "opcli_init en =
     (if \<not> ie_calloc en \<or> \<not> ie_load en then Some None
      else
        (case ie_ip en of
           None \<Rightarrow> Some None
         | Some str \<Rightarrow>
             if ie_port en < 0 then Some None
             else if fst vty_init < 0 then Some None
             else
               (case opcli_node_init (ie_lock en) (ie_hash en) (ie_mem en) (ie_realloc en) (ie_node en) node_max
                       \<lparr>cli_ip = take 15 str, cli_port = word_of_int (ie_port en), cli_hash = [], cli_vec = snd vty_init\<rparr> of
                  None \<Rightarrow> None
                | Some (ret, cli) \<Rightarrow>
                    if ret < 0 \<or> ie_usock en < 0 \<or> \<not> ie_listen en \<or> \<not> ie_threads en then Some None
                    else Some (Some cli))))"

section \<open>Clients\<close>

definition ptelnet_will_echo :: string where "ptelnet_will_echo = [CHR 0xFF, CHR 0xFB, CHR 0x01]"
definition ptelnet_will_suppress_go_ahead :: string where
  "ptelnet_will_suppress_go_ahead = [CHR 0xFF, CHR 0xFB, CHR 0x03]"
definition ptelnet_dont_linemode :: string where "ptelnet_dont_linemode = [CHR 0xFF, CHR 0xFE, CHR 0x22]"
definition ptelnet_do_window_size :: string where "ptelnet_do_window_size = [CHR 0xFF, CHR 0xFD, CHR 0x1F]"

text \<open>\<open>wr k\<close> says whether the \<open>k\<close>-th \<^verbatim>\<open>write\<close> of the negotiation succeeds; the first failure ends it.\<close>

definition opcli_option_init :: "(nat \<Rightarrow> bool) \<Rightarrow> vty \<Rightarrow> vty" where
  "opcli_option_init wr v =
     (if \<not> wr 0 then v
      else (let v1 = vty_write v ptelnet_will_echo in
        if \<not> wr 1 then v1
        else (let v2 = vty_write v1 ptelnet_will_suppress_go_ahead in
          if \<not> wr 2 then v2
          else (let v3 = vty_write v2 ptelnet_dont_linemode in
            if \<not> wr 3 then v3 else vty_write v3 ptelnet_do_window_size))))"

type_synonym clients = "(nat \<times> vty) list"

text \<open>
  \<^verbatim>\<open>opcli_job\<close>: \<open>fd\<close> is what \<^verbatim>\<open>accept\<close> returned; \<open>c_ok\<close>, \<open>v_ok\<close>, \<open>e_ok\<close>, \<open>a_ok\<close> and \<open>k_ok\<close> are the outcomes of \<^verbatim>\<open>calloc\<close>,
  \<^verbatim>\<open>vty_create\<close>, \<^verbatim>\<open>event_new\<close>, \<^verbatim>\<open>event_add\<close> and \<^verbatim>\<open>pthread_kill\<close>.  The prompt is that of the node the vector holds.
\<close>

definition CLI_HOST :: string where "CLI_HOST = ''opserver''"

definition opcli_job ::
    "cmdvec \<Rightarrow> bool \<Rightarrow> bool \<Rightarrow> bool \<Rightarrow> bool \<Rightarrow> bool \<Rightarrow> (nat \<Rightarrow> bool) \<Rightarrow> int \<Rightarrow> clients \<Rightarrow> clients" where
  "opcli_job cv c_ok v_ok e_ok a_ok k_ok wr fd cs =
     (if fd < 0 then cs
      else if \<not> c_ok then cs
      else if \<not> v_ok then cs
      else if \<not> e_ok then cs
      else
        (let v = opcli_option_init wr (vty_create node_view CLI_HOST) in
         if \<not> a_ok then cs
         else if \<not> k_ok then (nat fd, v) # cs
         else
           (nat fd,
            case cmdvec_slot cv (vnode v) of
              None \<Rightarrow> v\<lparr>vfault := True\<rparr>
            | Some cn \<Rightarrow> opcli_out v (printf_s (cn_prompt cn) CLI_HOST)) # cs))"

definition opcli_client_free :: "nat \<Rightarrow> clients \<Rightarrow> clients" where
  "opcli_client_free fd cs = filter (\<lambda>c. fst c \<noteq> fd) cs"

text \<open>
  \<^verbatim>\<open>opcli_job_thread\<close> for the client \<open>c\<close>: \<open>ev_read\<close> says whether the event is \<^verbatim>\<open>EV_READ\<close>, \<open>ret\<close> is the result of \<^verbatim>\<open>read\<close>
  and \<open>bs\<close> the receive buffer after it.
\<close>

definition CLI_BUF_REQ_SIZE :: nat where "CLI_BUF_REQ_SIZE = 512"

definition opcli_job_thread ::
    "cmdvec \<Rightarrow> (string \<Rightarrow> bool) \<Rightarrow> callback \<Rightarrow> bool \<Rightarrow> int \<Rightarrow> char list \<Rightarrow> nat \<times> vty \<Rightarrow> clients \<Rightarrow> clients" where
  "opcli_job_thread cv inet call ev_read ret bs c cs =
     (if ret < 0 then cs
      else if ev_read \<and> ret = 0 then opcli_client_free (fst c) cs
      else
        (let w = vty_read cv inet call (take (nat ret) bs) (snd c);
             cs1 = map (\<lambda>d. if fst d = fst c then (fst d, w) else d) cs
         in if vstatus w = VTY_CLOSE then opcli_client_free (fst c) cs1 else cs1))"

section \<open>The command tables\<close>

definition cli_key :: "cmd_element \<Rightarrow> string \<times> nat" where
  "cli_key e = (ce_string e, ce_node e)"

lemma c_strcmp_eq: "c_strcmp s t = 0 \<longleftrightarrow> s = t"
  by (simp add: c_strcmp_def)

interpretation cmds: keyed_hash node_hash node_compare cli_key
proof
  show "node_compare x y = 0 \<longleftrightarrow> cli_key x = cli_key y" for x y
    by (auto simp: node_compare_def cli_key_def c_strcmp_eq or_eq_0_iff)
  show "cli_key x = cli_key y \<Longrightarrow> node_hash x = node_hash y" for x y
    by (simp add: node_hash_def cli_key_def)
qed

lemma insert_small:
  assumes "up_load lh = UP_LOAD" and "num_items lh < num_nodes lh"
  shows "op_hash_insert ra ca lh d = op_hash_insert (\<lambda>n. False) ca lh d"
    and "up_load (snd (op_hash_insert ra ca lh d)) = UP_LOAD"
    and "num_nodes (snd (op_hash_insert ra ca lh d)) = num_nodes lh"
    and "num_items (snd (op_hash_insert ra ca lh d)) \<le> num_items lh + 1"
    and "ca \<Longrightarrow> lh_error (snd (op_hash_insert ra ca lh d)) = 0"
    and "\<not> ca \<Longrightarrow> fst (op_hash_insert ra ca lh d) = None \<Longrightarrow>
      lh_error (snd (op_hash_insert ra ca lh d)) = 1 \<and> num_items (snd (op_hash_insert ra ca lh d)) = num_items lh"
proof -
  have "load (lh\<lparr>lh_error := 0\<rparr>) < UP_LOAD"
  proof -
    have "(num_items lh * 256) mod 2 ^ 64 \<le> num_items lh * 256" by (rule mod_less_eq_dividend)
    also have "\<dots> < 512 * num_nodes lh" using assms(2) by simp
    finally show ?thesis using assms(2)
      by (simp add: load_def UP_LOAD_def LH_LOAD_MULT_def less_mult_imp_div_less)
  qed
  then have i: "op_hash_insert ra ca lh d =
     (case getrn (lh\<lparr>lh_error := 0\<rparr>) d of (nn, k, lh) \<Rightarrow>
           let chain = lh_b lh ! nn in
           if k = length chain then
             (if \<not> ca then (None, lh\<lparr>lh_error := lh_error lh + 1\<rparr>)
              else (None, lh\<lparr>lh_b := (lh_b lh)[nn := chain @ [d]],
                             num_insert := num_insert lh + 1,
                             num_items := num_items lh + 1\<rparr>))
           else (Some (chain ! k),
                 lh\<lparr>lh_b := (lh_b lh)[nn := chain[k := d]],
                    num_replace := num_replace lh + 1\<rparr>))" for ra
    using assms(1) by (simp add: op_hash_insert_def Let_def)
  show "op_hash_insert ra ca lh d = op_hash_insert (\<lambda>n. False) ca lh d" by (simp only: i)
  show "up_load (snd (op_hash_insert ra ca lh d)) = UP_LOAD"
    "num_nodes (snd (op_hash_insert ra ca lh d)) = num_nodes lh"
    "num_items (snd (op_hash_insert ra ca lh d)) \<le> num_items lh + 1"
    using assms(1) by (simp_all add: i getrn_simp Let_def)
  show "ca \<Longrightarrow> lh_error (snd (op_hash_insert ra ca lh d)) = 0"
    "\<not> ca \<Longrightarrow> fst (op_hash_insert ra ca lh d) = None \<Longrightarrow>
      lh_error (snd (op_hash_insert ra ca lh d)) = 1 \<and> num_items (snd (op_hash_insert ra ca lh d)) = num_items lh"
    unfolding i by (simp_all add: getrn_simp Let_def split: if_splits)
qed

lemma insert_no_room:
  assumes i: "hash_inv MIN_NODES node_hash node_compare cli_key lh" and "up_load lh = UP_LOAD" and "num_items lh < num_nodes lh"
    and n: "hash_abs cli_key lh (cli_key d) = None"
  shows "fst (op_hash_insert ra False lh d) = None" "hash_inv MIN_NODES node_hash node_compare cli_key (snd (op_hash_insert ra False lh d))"
    "hash_abs cli_key (snd (op_hash_insert ra False lh d)) = hash_abs cli_key lh"
    "num_items (snd (op_hash_insert ra False lh d)) = num_items lh"
proof -
  note s = insert_small [OF assms(2,3), where ra = ra and ca = False and d = d]
  obtain old lh' where r: "op_hash_insert (\<lambda>n. False) False lh d = (old, lh')" by fastforce
  have sp: "hash_inv MIN_NODES node_hash node_compare cli_key lh' \<and>
    (lh_error lh' = 0 \<and> old = hash_abs cli_key lh (cli_key d) \<and> hash_abs cli_key lh' = (hash_abs cli_key lh)(cli_key d \<mapsto> d) \<or>
     lh_error lh' = 1 \<and> old = None \<and> hash_abs cli_key lh' = hash_abs cli_key lh)"
    using cmds.insert_spec [OF i _ r] by (simp add: realloc_ok_def)
  then have o: "old = None" using n by auto
  with r s(6) have "lh_error lh' = 1" "num_items lh' = num_items lh" by (simp_all add: s(1))
  with sp o r s(1) show "fst (op_hash_insert ra False lh d) = None"
    "hash_inv MIN_NODES node_hash node_compare cli_key (snd (op_hash_insert ra False lh d))"
    "hash_abs cli_key (snd (op_hash_insert ra False lh d)) = hash_abs cli_key lh"
    "num_items (snd (op_hash_insert ra False lh d)) = num_items lh" by simp_all
qed

lemma retrieve_small:
  "up_load (snd (op_hash_retrieve lh d)) = up_load lh" "num_nodes (snd (op_hash_retrieve lh d)) = num_nodes lh"
  "num_items (snd (op_hash_retrieve lh d)) = num_items lh"
  by (simp_all add: op_hash_retrieve_def getrn_simp Let_def)

text \<open>
  What holds of a node: the table and the vector have the same commands, each once.
\<close>

definition node_ok :: "nat \<Rightarrow> cmd_element op_hash_st \<Rightarrow> cmd_element list \<Rightarrow> bool" where
  "node_ok n h es \<longleftrightarrow>
     hash_inv MIN_NODES node_hash node_compare cli_key h \<and> up_load h = UP_LOAD \<and> num_nodes h = MIN_NODES div 2 \<and>
     num_items h \<le> length es \<and> dom (hash_abs cli_key h) = cli_key ` set es \<and> distinct (map cli_key es) \<and>
     (\<forall>e\<in>set es. ce_node e = n)"

definition cli_ok :: "opcli_struct \<Rightarrow> cmd_element list list \<Rightarrow> bool" where
  "cli_ok cli ess \<longleftrightarrow>
     length (cli_hash cli) = length ess \<and> (\<forall>n<length ess. node_ok n (cli_hash cli ! n) (ess ! n)) \<and>
     cli_vec cli = map (\<lambda>n. Some \<lparr>cn_prompt = fst (cli_prefix ! n), cn_cmd_vector = map Some (ess ! n)\<rparr>) [0..<length ess]"

lemma list_fill_Some: "list_fill (map Some es) x = map Some es @ [x]"
  by (induction es) simp_all

lemma node_ok_retrieve:
  assumes "node_ok n h es"
  shows "node_ok n (snd (op_hash_retrieve h e)) es"
    and "(fst (op_hash_retrieve h e) \<noteq> None) = (cli_key e \<in> cli_key ` set es)"
proof -
  show "node_ok n (snd (op_hash_retrieve h e)) es"
    using assms cmds.retrieve_spec(2,3) [of MIN_NODES h e] by (simp add: node_ok_def retrieve_small)
  have "(fst (op_hash_retrieve h e) \<noteq> None) = (cli_key e \<in> dom (hash_abs cli_key h))"
    using assms cmds.retrieve_spec(1) [of MIN_NODES h e] by (auto simp: node_ok_def)
  then show "(fst (op_hash_retrieve h e) \<noteq> None) = (cli_key e \<in> cli_key ` set es)"
    using assms by (simp add: node_ok_def)
qed

lemma node_ok_insert:
  assumes "node_ok n h es" and "cli_key e \<notin> cli_key ` set es" and "ce_node e = n" and "length es < 1024"
    and "cli_key e' = cli_key e"
  shows "node_ok n (snd (op_hash_insert ra True h e)) (es @ [e'])"
proof -
  have "num_items h < num_nodes h" "up_load h = UP_LOAD"
    using assms(1,4) by (simp_all add: node_ok_def MIN_NODES_def)
  note s = insert_small [OF this(2,1), where ra = ra and ca = True and d = e]
  obtain old h' where r: "op_hash_insert (\<lambda>n. False) True h e = (old, h')" by fastforce
  then have h': "snd (op_hash_insert ra True h e) = h'" using s(1) by simp
  have "hash_inv MIN_NODES node_hash node_compare cli_key h' \<and>
    hash_abs cli_key h' = (hash_abs cli_key h)(cli_key e \<mapsto> e)"
    using cmds.insert_spec [OF _ _ r, of MIN_NODES] assms(1) s(5) by (auto simp: node_ok_def realloc_ok_def h')
  moreover have "ce_node e' = n" using assms(3,5) by (simp add: cli_key_def)
  ultimately show ?thesis
    using assms s(2-4) by (auto simp: node_ok_def h')
qed

text \<open>One installation, while the node has fewer than 1024 commands and memory is available.\<close>

definition with_tokens :: "cmd_element \<Rightarrow> cmd_element" where
  "with_tokens e = e\<lparr>ce_tokens := the (the (cmd_parse_format (ce_string e) (ce_doc e)))\<rparr>"

lemma with_tokens_key [simp]: "cli_key (with_tokens e) = cli_key e"
  by (simp add: with_tokens_def cli_key_def)

lemma cli_ok_vec:
  assumes "cli_ok cli ess" "n < length ess"
  shows "cmdvec_slot (cli_vec cli) n = Some \<lparr>cn_prompt = fst (cli_prefix ! n), cn_cmd_vector = map Some (ess ! n)\<rparr>"
    "cmd_prompt (cli_vec cli) n = Some (fst (cli_prefix ! n))"
    "cmd_node_vector (cli_vec cli) n = Some (map Some (ess ! n))"
  using assms by (simp_all add: cli_ok_def cmdvec_slot_def cmd_prompt_def cmd_node_vector_def)

lemma map_upt_update:
  assumes "n < length xs"
  shows "(map (\<lambda>i. f i (xs ! i)) [0..<length xs])[n := f n y] = map (\<lambda>i. f i (xs[n := y] ! i)) [0..<length xs]"
  using assms by (intro nth_equalityI) (simp_all add: nth_list_update)

lemma install_cmd_spec:
  assumes ok: "cli_ok cli ess" and n: "n < length ess" "length ess \<le> node_max" and few: "length (ess ! n) < 1024"
    and parse: "cmd_parse_format c (Some h) = Some (Some ts)"
    and e_def: "e = new_element n c h f"
  shows "\<exists>ret cli'. opcli_install_cmd True ra True cli n (Some c) (Some h) (Some f) = Some (ret, cli') \<and>
    (if cli_key e \<in> cli_key ` set (ess ! n) then ret = - 1 \<and> cli_ok cli' ess
     else ret = 0 \<and> cli_ok cli' (ess[n := ess ! n @ [with_tokens e]]))"
proof -
  let ?h = "cli_hash cli ! n"
  obtain data h1 where r: "op_hash_retrieve ?h e = (data, h1)" by fastforce
  have nk: "node_ok n ?h (ess ! n)" using ok n by (simp add: cli_ok_def)
  have h1: "node_ok n h1 (ess ! n)" "(data \<noteq> None) = (cli_key e \<in> cli_key ` set (ess ! n))"
    using node_ok_retrieve [OF nk, of e] r by simp_all
  have l: "length (cli_hash cli) = length ess" using ok by (simp add: cli_ok_def)
  show ?thesis
  proof (cases "data = None")
    case False
    then show ?thesis
      using ok n r h1 l
      by (auto simp: opcli_install_cmd_def e_def [symmetric] Let_def cli_ok_def nth_list_update)
  next
    case True
    let ?h2 = "snd (op_hash_insert ra True h1 e)"
    have e: "ce_node e = n" "ce_string e = c" "ce_doc e = Some h" by (simp_all add: e_def new_element_def)
    have h2: "node_ok n ?h2 (ess ! n @ [with_tokens e])"
      using node_ok_insert [OF h1(1) _ e(1) few, where e' = "with_tokens e" and ra = ra] True h1(2) by auto
    have v: "cmdvec_slot (cli_vec cli) n = Some \<lparr>cn_prompt = fst (cli_prefix ! n), cn_cmd_vector = map Some (ess ! n)\<rparr>"
      using cli_ok_vec [OF ok n(1)] by simp
    have cv: "cli_vec cli = map (\<lambda>n. Some \<lparr>cn_prompt = fst (cli_prefix ! n), cn_cmd_vector = map Some (ess ! n)\<rparr>) [0..<length ess]"
      using ok by (simp add: cli_ok_def)
    have ie: "install_element (cli_vec cli) n e None =
        Some (0, map (\<lambda>i. Some \<lparr>cn_prompt = fst (cli_prefix ! i),
           cn_cmd_vector = map Some (ess[n := ess ! n @ [with_tokens e]] ! i)\<rparr>) [0..<length ess])"
      using map_upt_update [OF n(1), of "\<lambda>i es. Some \<lparr>cn_prompt = fst (cli_prefix ! i), cn_cmd_vector = map Some es\<rparr>"
          "ess ! n @ [with_tokens e]"]
      by (simp add: install_element_def v e parse list_fill_Some with_tokens_def flip: cv)
    have "\<not> node_max \<le> n" using n by simp
    then have "opcli_install_cmd True ra True cli n (Some c) (Some h) (Some f) =
      Some (0, cli\<lparr>cli_hash := (cli_hash cli)[n := ?h2], cli_vec := map (\<lambda>i. Some \<lparr>cn_prompt = fst (cli_prefix ! i),
           cn_cmd_vector = map Some (ess[n := ess ! n @ [with_tokens e]] ! i)\<rparr>) [0..<length ess]\<rparr>)"
      using True r by (simp add: opcli_install_cmd_def e_def [symmetric] Let_def ie)
    moreover have "cli_ok (cli\<lparr>cli_hash := (cli_hash cli)[n := ?h2], cli_vec := map (\<lambda>i. Some \<lparr>cn_prompt = fst (cli_prefix ! i),
           cn_cmd_vector = map Some (ess[n := ess ! n @ [with_tokens e]] ! i)\<rparr>) [0..<length ess]\<rparr>)
        (ess[n := ess ! n @ [with_tokens e]])"
      using ok h2 n l by (auto simp: cli_ok_def nth_list_update)
    ultimately show ?thesis using True h1(2) by auto
  qed
qed


lemma install_table_spec:
  assumes "cli_ok cli ess" and "n < length ess" and "length ess \<le> node_max" and "length (ess ! n) + length tbl \<le> 1024"
    and "\<forall>(c, h, f)\<in>set tbl. \<exists>ts. cmd_parse_format c (Some h) = Some (Some ts)"
    and "distinct (map fst tbl)" and "\<forall>c\<in>fst ` set tbl. (c, n) \<notin> cli_key ` set (ess ! n)"
  shows "\<exists>cli'. install_table (\<lambda>c. True) ra True n tbl cli = Some cli' \<and>
    cli_ok cli' (ess[n := ess ! n @ map (\<lambda>(c, h, f). with_tokens (new_element n c h f)) tbl])"
  using assms
proof (induction tbl arbitrary: cli ess)
  case (Cons t tbl)
  obtain c h f where t: "t = (c, h, f)" by (cases t)
  let ?e = "new_element n c h f"
  let ?ess = "ess[n := ess ! n @ [with_tokens ?e]]"
  have k: "cli_key ?e = (c, n)" by (simp add: cli_key_def new_element_def)
  obtain ts where ts: "cmd_parse_format c (Some h) = Some (Some ts)" using Cons.prems(5) t by auto
  have fresh: "cli_key ?e \<notin> cli_key ` set (ess ! n)" using Cons.prems(7) t k by auto
  obtain cli1 where c1: "opcli_install_cmd True ra True cli n (Some c) (Some h) (Some f) = Some (0, cli1)"
    "cli_ok cli1 ?ess"
    using install_cmd_spec [OF Cons.prems(1-3) _ ts refl, where ra = ra and f = f] Cons.prems(4) fresh by auto
  have "\<exists>cli'. install_table (\<lambda>c. True) ra True n tbl cli1 = Some cli' \<and>
    cli_ok cli' (?ess[n := ?ess ! n @ map (\<lambda>(c, h, f). with_tokens (new_element n c h f)) tbl])"
    by (rule Cons.IH [OF c1(2)]) (use Cons.prems t k in \<open>auto simp: Ball_def\<close>)
  then show ?case using c1(1) t Cons.prems(2) by simp
qed simp

text \<open>The commands as the parser of command strings reads them.\<close>

lemma parse_commands:
  "cmd_parse_format ''exit'' (Some (''exit to preview node'' @ [CHR 0x0A])) =
     Some (Some [TOKEN_TERMINAL TERMINAL_LITERAL ''exit'' (Some ''exit to preview node'')])"
  "cmd_parse_format ''end'' (Some (''end to first node'' @ [CHR 0x0A])) =
     Some (Some [TOKEN_TERMINAL TERMINAL_LITERAL ''end'' (Some ''end to first node'')])"
  "cmd_parse_format ''list'' (Some (''list install cmd in this node'' @ [CHR 0x0A])) =
     Some (Some [TOKEN_TERMINAL TERMINAL_LITERAL ''list'' (Some ''list install cmd in this node'')])"
  "cmd_parse_format ''enable'' (Some (''into enable node'' @ [CHR 0x0A])) =
     Some (Some [TOKEN_TERMINAL TERMINAL_LITERAL ''enable'' (Some ''into enable node'')])"
  "cmd_parse_format ''opmgr'' (Some (''opmgr module'' @ [CHR 0x0A])) =
     Some (Some [TOKEN_TERMINAL TERMINAL_LITERAL ''opmgr'' (Some ''opmgr module'')])"
  "cmd_parse_format ''op4G'' (Some (''op4G module'' @ [CHR 0x0A])) =
     Some (Some [TOKEN_TERMINAL TERMINAL_LITERAL ''op4G'' (Some ''op4G module'')])"
  unfolding cmd_parse_format_def parse_init_def
  by (simp_all add: parse_loop.simps fp_eval)

lemma parse_opmgr:
  "cmd_parse_format ''show cpu usage'' (Some (''show'' @ [CHR 0x0A] @ '' cpu'' @ [CHR 0x0A] @ '' usage'' @ [CHR 0x0A])) =
     Some (Some [TOKEN_TERMINAL TERMINAL_LITERAL ''show'' (Some ''show''), TOKEN_TERMINAL TERMINAL_LITERAL ''cpu'' (Some ''cpu''),
       TOKEN_TERMINAL TERMINAL_LITERAL ''usage'' (Some ''usage'')])"
  "cmd_parse_format ''show memory pool information''
      (Some (''show'' @ [CHR 0x0A] @ '' memory '' @ [CHR 0x0A] @ '' pool'' @ [CHR 0x0A] @ '' information'' @ [CHR 0x0A])) =
     Some (Some [TOKEN_TERMINAL TERMINAL_LITERAL ''show'' (Some ''show''), TOKEN_TERMINAL TERMINAL_LITERAL ''memory'' (Some ''memory ''),
       TOKEN_TERMINAL TERMINAL_LITERAL ''pool'' (Some ''pool''), TOKEN_TERMINAL TERMINAL_LITERAL ''information'' (Some ''information'')])"
  unfolding cmd_parse_format_def parse_init_def
  by (simp_all add: parse_loop.simps fp_eval)


definition default_cmds :: "nat \<Rightarrow> cmd_element list" where
  "default_cmds n = map (\<lambda>(c, h, f). with_tokens (new_element n c h f))
     (cmd_in_node @
      (if n = node_view then [(''enable'', ''into enable node'' @ [CHR 0x0A], CB_ENABLE)]
       else if n = node_enable then cmd_in_node_enable else []))"

lemma cli_ok_new_node:
  assumes "cli_ok cli ess" "length ess = i"
  shows "cli_ok (cli\<lparr>cli_hash := cli_hash cli @ [op_hash_init MIN_NODES node_hash node_compare],
      cli_vec := snd (install_node (cli_vec cli) i \<lparr>cn_prompt = fst (cli_prefix ! i), cn_cmd_vector = []\<rparr>)\<rparr>) (ess @ [[]])"
proof -
  have "node_ok i (op_hash_init MIN_NODES node_hash node_compare) []"
    by (simp add: node_ok_def op_hash_new_inv(2)) (simp add: op_hash_init_def)
  with assms show ?thesis
    by (auto simp: cli_ok_def install_node_def list_put_def nth_append less_Suc_eq list_update_append)
qed

lemma install_default_spec:
  assumes "cli_ok cli (ess @ [[]])" "length ess = i" "i < node_max"
  shows "\<exists>cli'. install_default_cmd (\<lambda>c. True) ra True i cli = Some cli' \<and> cli_ok cli' (ess @ [default_cmds i])"
proof -
  obtain cli1 where c1: "install_table (\<lambda>c. True) ra True i cmd_in_node cli = Some cli1"
    "cli_ok cli1 (ess @ [map (\<lambda>(c, h, f). with_tokens (new_element i c h f)) cmd_in_node])"
    using install_table_spec [OF assms(1), of i cmd_in_node ra] assms
    by (auto simp: parse_commands [simplified] cmd_in_node_def)
  have ext: "\<exists>cli'. install_table (\<lambda>c. True) ra True i tbl cli1 = Some cli' \<and>
      cli_ok cli' (ess @ [map (\<lambda>(c, h, f). with_tokens (new_element i c h f)) (cmd_in_node @ tbl)])"
    if "tbl = [(''enable'', ''into enable node'' @ [CHR 0x0A], CB_ENABLE)] \<or> tbl = cmd_in_node_enable" for tbl
    using install_table_spec [OF c1(2), of i tbl ra] assms(2,3) that
    by (auto simp: parse_commands [simplified] cmd_in_node_def cmd_in_node_enable_def cli_key_def with_tokens_def new_element_def)
  show ?thesis
    using c1 ext [of cmd_in_node_enable] ext [of "[(''enable'', ''into enable node'' @ [CHR 0x0A], CB_ENABLE)]"]
    by (auto simp: install_default_cmd_def default_cmds_def node_view_def node_enable_def)
qed

lemma node_init_spec:
  assumes "cli_ok cli ess" "length ess = i" "i + n \<le> node_max"
  shows "\<exists>cli'. node_init_loop (\<lambda>i. True) (\<lambda>c. True) ra True i n cli = Some (0, cli') \<and>
    cli_ok cli' (ess @ map default_cmds [i..<i + n])"
  using assms
proof (induction n arbitrary: cli ess i)
  case (Suc n)
  let ?cli1 = "cli\<lparr>cli_hash := cli_hash cli @ [op_hash_init MIN_NODES node_hash node_compare],
      cli_vec := snd (install_node (cli_vec cli) i \<lparr>cn_prompt = fst (cli_prefix ! i), cn_cmd_vector = []\<rparr>)\<rparr>"
  obtain cli2 where c2: "install_default_cmd (\<lambda>c. True) ra True i ?cli1 = Some cli2" "cli_ok cli2 (ess @ [default_cmds i])"
    using install_default_spec [OF cli_ok_new_node [OF Suc.prems(1,2)] Suc.prems(2), of ra] Suc.prems(3) by auto
  from Suc.IH [OF c2(2), of "i + 1"] Suc.prems obtain cli' where
    "node_init_loop (\<lambda>i. True) (\<lambda>c. True) ra True (i + 1) n cli2 = Some (0, cli')"
    "cli_ok cli' (ess @ default_cmds i # map default_cmds [i + 1..<i + 1 + n])" by auto
  with c2 show ?case by (auto simp: op_hash_new_inv(1) upt_conv_Cons simp flip: upt_Suc)
qed simp

text \<open>What \<^verbatim>\<open>opcli_init\<close> leaves behind, and the tree the server runs with.\<close>

definition shipped_cmds :: "cmd_element list list" where
  "shipped_cmds =
     (map default_cmds [0..<node_max])
       [node_opmgr := default_cmds node_opmgr @ map (\<lambda>(c, h, f). with_tokens (new_element node_opmgr c h f)) opmgr_cmd]"

lemma cli_ok_start: "cli_ok \<lparr>cli_ip = ip, cli_port = p, cli_hash = [], cli_vec = snd vty_init\<rparr> []"
  by (simp add: cli_ok_def vty_init_def)

lemma init_spec:
  assumes "ie_calloc en" "ie_load en" "ie_ip en = Some ip" "0 \<le> ie_port en" "ie_lock en" "ie_hash en = (\<lambda>i. True)"
    "ie_mem en = (\<lambda>c. True)" "ie_node en" "0 \<le> ie_usock en" "ie_listen en" "ie_threads en"
  shows "\<exists>cli. opcli_init en = Some (Some cli) \<and> cli_ok cli (map default_cmds [0..<node_max])"
  using node_init_spec [OF cli_ok_start refl, of node_max "ie_realloc en" "take 15 ip" "word_of_int (ie_port en)"] assms
  by (auto simp: opcli_init_def opcli_node_init_def vty_init_def node_max_def)

lemma opmgr_cmd_init_spec:
  assumes "cli_ok cli (map default_cmds [0..<node_max])"
  shows "\<exists>cli'. opmgr_cmd_init (\<lambda>c. True) ra True cli = Some cli' \<and> cli_ok cli' shipped_cmds"
proof -
  have n: "map default_cmds [0..<node_max] ! node_opmgr = default_cmds node_opmgr"
    by (simp add: node_opmgr_def node_max_def numeral_eq_Suc)
  have "\<exists>cli'. install_table (\<lambda>c. True) ra True node_opmgr opmgr_cmd cli = Some cli' \<and>
      cli_ok cli' ((map default_cmds [0..<node_max])[node_opmgr := map default_cmds [0..<node_max] ! node_opmgr @
        map (\<lambda>(c, h, f). with_tokens (new_element node_opmgr c h f)) opmgr_cmd])"
  proof (rule install_table_spec [OF assms])
    show "\<forall>(c, h, f)\<in>set opmgr_cmd. \<exists>ts. cmd_parse_format c (Some h) = Some (Some ts)"
      using parse_opmgr by (simp add: opmgr_cmd_def)
  qed (unfold n, simp_all add: node_codes opmgr_cmd_def default_cmds_def cmd_in_node_def cli_key_def with_tokens_def new_element_def)
  then show ?thesis by (simp only: opmgr_cmd_init_def shipped_cmds_def n)
qed

text \<open>
  A command whose place in the hash table cannot be allocated is installed all the same, so that a
  second installation does not find it.
\<close>

lemma install_cmd_unnoticed:
  assumes ok: "cli_ok cli ess" and n: "n < length ess" "length ess \<le> node_max" and few: "length (ess ! n) < 1024"
    and parse: "cmd_parse_format c (Some h) = Some (Some ts)" and fresh: "(c, n) \<notin> cli_key ` set (ess ! n)"
    and e_def: "e = new_element n c h f"
  obtains cli' where "opcli_install_cmd True ra False cli n (Some c) (Some h) (Some f) = Some (0, cli')"
    "cmd_node_vector (cli_vec cli') n = Some (map Some (ess ! n @ [with_tokens e]))"
    "node_ok n (cli_hash cli' ! n) (ess ! n)"
proof -
  let ?h = "cli_hash cli ! n"
  obtain data h1 where r: "op_hash_retrieve ?h e = (data, h1)" by fastforce
  have k: "cli_key e = (c, n)" "ce_string e = c" "ce_doc e = Some h" by (simp_all add: cli_key_def e_def new_element_def)
  have nk: "node_ok n ?h (ess ! n)" using ok n by (simp add: cli_ok_def)
  have h1: "node_ok n h1 (ess ! n)" and d: "data = None"
    using node_ok_retrieve [OF nk, of e] r fresh k(1) by simp_all
  let ?h2 = "snd (op_hash_insert ra False h1 e)"
  have sm: "num_items h1 < num_nodes h1" "up_load h1 = UP_LOAD" using h1 few by (simp_all add: node_ok_def MIN_NODES_def)
  note s = insert_small [OF sm(2,1), where ra = ra and ca = False and d = e]
  have ab: "hash_abs cli_key h1 (cli_key e) = None" using h1 fresh k(1) by (auto simp: node_ok_def)
  have h2: "node_ok n ?h2 (ess ! n)"
    using insert_no_room [OF _ sm(2,1) ab, of ra] h1 s by (auto simp: node_ok_def)
  have l: "length (cli_hash cli) = length ess" using ok by (simp add: cli_ok_def)
  have v: "cmdvec_slot (cli_vec cli) n = Some \<lparr>cn_prompt = fst (cli_prefix ! n), cn_cmd_vector = map Some (ess ! n)\<rparr>"
    using cli_ok_vec [OF ok n(1)] by simp
  show ?thesis
    using that h2 n l d r v parse
    by (simp add: opcli_install_cmd_def e_def [symmetric] Let_def install_element_def k list_fill_Some with_tokens_def
        cmd_node_vector_def cmdvec_slot_def split: if_splits)
qed

section \<open>A started tree\<close>

definition good_env :: init_env where
  "good_env = \<lparr>ie_calloc = True, ie_load = True, ie_ip = Some ''127.0.0.1'', ie_port = 2000, ie_lock = True,
     ie_hash = \<lambda>i. True, ie_mem = \<lambda>c. True, ie_realloc = \<lambda>n. True, ie_node = True, ie_usock = 3,
     ie_listen = True, ie_threads = True\<rparr>"

definition good_cli :: opcli_struct where
  "good_cli = the (opmgr_cmd_init (\<lambda>c. True) (\<lambda>n. True) True (the (the (opcli_init good_env))))"

section \<open>Properties\<close>

text \<open>
  \<^verbatim>\<open>opcli_install_cmd\<close> installs a command once: in a tree whose tables and vectors agree, a command
  string that is new in its node is appended to the vector with its parsed words and entered in the table, and
  0 is returned; a command string the node has is refused with -1 and nothing changes; the
  agreement is kept.
\<close>

theorem opcli_install_cmd_once:
  assumes "cli_ok cli ess" and "n < length ess" and "length ess \<le> node_max" and "length (ess ! n) < 1024"
    and "cmd_parse_format c (Some h) = Some (Some ts)" and "e = new_element n c h f"
  shows "\<exists>ret cli'. opcli_install_cmd True ra True cli n (Some c) (Some h) (Some f) = Some (ret, cli') \<and>
    (if cli_key e \<in> cli_key ` set (ess ! n) then ret = - 1 \<and> cli_ok cli' ess
     else ret = 0 \<and> cli_ok cli' (ess[n := ess ! n @ [with_tokens e]]))"
  using assms by (rule install_cmd_spec)

theorem opcli_install_cmd_once_witness:
  "\<exists>cli cli'. opcli_init good_env = Some (Some cli) \<and>
     opcli_install_cmd True (\<lambda>n. True) True cli 0 (Some ''list'') (Some (''list install cmd in this node'' @ [CHR 0x0A])) (Some 9) =
       Some (- 1, cli')"
proof -
  obtain cli where i: "opcli_init good_env = Some (Some cli)" "cli_ok cli (map default_cmds [0..<node_max])"
    using init_spec [of good_env] by (auto simp: good_env_def)
  let ?e = "new_element 0 ''list'' (''list install cmd in this node'' @ [CHR 0x0A]) 9"
  have d: "map default_cmds [0..<node_max] ! 0 = default_cmds 0" by (simp add: node_max_def)
  have k: "cli_key ?e \<in> cli_key ` set (default_cmds 0)"
    by (simp add: default_cmds_def cmd_in_node_def cli_key_def new_element_def with_tokens_def)
  have "length (default_cmds 0) < 1024" by (simp add: default_cmds_def cmd_in_node_def node_view_def)
  with opcli_install_cmd_once [OF i(2) _ _ _ parse_commands(3) refl, where n = 0 and f = 9 and ra = "\<lambda>n. True"] i(1) d k
  show ?thesis by (auto simp: node_max_def)
qed

end
