(* ===== verification/Op_Cli_Server.thy ===== *)
theory Op_Cli_Server
  imports Op_Cli
begin

text \<open>
  The running command line server: that the callbacks of \<^verbatim>\<open>opcli.c\<close> and \<^verbatim>\<open>opmgr_cmd.c\<close> meet the contract of the
  terminal (\<open>opcli_server\<close> is a sublocale of \<open>terminal\<close>, interpreted on the tree the program ships), the
  reachable states of the server and their invariant, the effect of typed command lines on the node,
  and a key sequence that leaves from any state.
\<close>

section \<open>Callbacks\<close>

lemma opcli_out_frame:
  "vctx (opcli_out v s) = vctx v" "zip_state (opcli_out v s) b a = zip_state v b a"
  by (simp_all add: opcli_out_def vctx_def zip_state_def)

lemma voverread_frame: "vctx (v\<lparr>voverread := x\<rparr>) = vctx v" "zip_state (v\<lparr>voverread := x\<rparr>) b a = zip_state v b a"
  by (simp_all add: vctx_def zip_state_def)

lemma session_frame: "vctx w = vctx v \<Longrightarrow> (\<And>b a. zip_state w b a = zip_state v b a) \<Longrightarrow> session_ok cv w = session_ok cv v"
  by (simp add: session_ok_def vctx_def hist_ok_def)

lemma fold_frame:
  assumes "\<And>x w. vctx (f x w) = vctx w" "\<And>x w b a. zip_state (f x w) b a = zip_state w b a"
  shows "vctx (fold f xs v) = vctx v" "zip_state (fold f xs v) b a = zip_state v b a"
  by (induction xs arbitrary: v) (auto simp: assms)

lemma print_frame:
  "vctx (snd (cmd_mgr_cpu_usage an v)) = vctx v" "zip_state (snd (cmd_mgr_cpu_usage an v)) b a = zip_state v b a"
  "vctx (snd (cmd_mem_pool_information an v)) = vctx v" "zip_state (snd (cmd_mem_pool_information an v)) b a = zip_state v b a"
  by (simp_all add: cmd_mgr_cpu_usage_def cmd_mem_pool_information_def fold_frame opcli_out_frame voverread_frame)

lemma list_frame:
  assumes "cmd_node_vector cv (vnode v) \<noteq> None"
  shows "vctx (vty_list cv v) = vctx v" "zip_state (vty_list cv v) b a = zip_state v b a"
proof -
  obtain cs where cs: "cmd_node_vector cv (vnode v) = Some cs" using assms by auto
  let ?f = "\<lambda>c w. case c of None \<Rightarrow> w
    | Some e \<Rightarrow> if ce_attr e = CMD_ATTR_DEPRECATED \<or> ce_attr e = CMD_ATTR_HIDDEN then w
        else vty_out w (''  '' @ ce_string e @ VTY_NEWLINE w)"
  have o: "zip_state (vty_out w s) b a = zip_state w b a" for w s b a by (simp add: vty_out_def zip_state_def)
  have f: "vctx (?f x w) = vctx w" "zip_state (?f x w) b a = zip_state w b a" for x w b a
    by (simp_all add: vctx_simps o split: option.splits)
  show "vctx (vty_list cv v) = vctx v" "zip_state (vty_list cv v) b a = zip_state v b a"
    using fold_frame [of ?f, OF f] cs by (simp_all add: vty_list_def)
qed

lemma enable_module_eq:
  "snd (cmd_node_enable_module e v) =
     (if ce_string e = ''opmgr'' then v\<lparr>vnode := node_opmgr\<rparr>
      else if ce_string e = ''op4G'' then v\<lparr>vnode := node_op4g\<rparr> else v)"
  by (simp add: cmd_node_enable_module_def cli_prefix_def upt_rec node_codes numeral_eq_Suc)

text \<open>A command tree with the four nodes, and the callbacks run on it.\<close>

locale opcli_server =
  fixes cv :: cmdvec and inet :: "string \<Rightarrow> bool" and an :: answers
  assumes node_prompts: "n < node_max \<Longrightarrow> cmd_prompt cv n \<noteq> None"
begin

lemma call_ok: "session_ok cv v \<Longrightarrow> session_ok cv (snd (opcli_call cv an f av e v))"
proof -
  assume s: "session_ok cv v"
  have p: "session_ok cv (snd (cmd_mgr_cpu_usage an v))" "session_ok cv (snd (cmd_mem_pool_information an v))"
    "session_ok cv (vty_list cv v)"
    using s session_node_vector [OF s]
    by (auto intro!: session_frame [THEN iffD2, OF _ _ s] simp: print_frame list_frame)
  have m: "session_ok cv (v\<lparr>vnode := k\<rparr>)" if "k < node_max" for k
    using session_node [OF s node_prompts [OF that]] .
  show ?thesis
    unfolding opcli_call_def
    by (intro session_snd_if)
      (use s p m in \<open>simp_all add: cmd_node_exit_def cmd_node_end_def cmd_node_list_def cmd_node_enable_def
        enable_module_eq node_codes\<close>)
qed

lemma call_flags:
  "viac (snd (opcli_call cv an f av e v)) = viac v"
  "viac_sb_in_progress (snd (opcli_call cv an f av e v)) = viac_sb_in_progress v"
  "vstatus v \<noteq> VTY_MORE \<Longrightarrow> vstatus (snd (opcli_call cv an f av e v)) \<noteq> VTY_MORE"
proof -
  have l: "vtel (vty_list cv v) = vtel v"
  proof (cases "cmd_node_vector cv (vnode v) = None")
    case True
    then show ?thesis by (simp add: vty_list_def vtel_def)
  qed (rule vtel_ctx, rule list_frame)
  have x: "viac (snd (cmd_node_exit v)) = viac v" "viac_sb_in_progress (snd (cmd_node_exit v)) = viac_sb_in_progress v"
    by (simp_all add: cmd_node_exit_def)
  have "vtel (snd (opcli_call cv an f av e v)) = vtel v" if "f \<noteq> CB_EXIT"
    unfolding opcli_call_def if_not_P [OF that]
    by (intro vtel_if) (simp_all add: l cmd_node_end_def cmd_node_list_def cmd_node_enable_def enable_module_eq
        vtel_ctx [OF print_frame(1)] vtel_ctx [OF print_frame(3)])
  then have o: "f \<noteq> CB_EXIT \<Longrightarrow> viac (snd (opcli_call cv an f av e v)) = viac v"
    "f \<noteq> CB_EXIT \<Longrightarrow> viac_sb_in_progress (snd (opcli_call cv an f av e v)) = viac_sb_in_progress v"
    "f \<noteq> CB_EXIT \<Longrightarrow> (vstatus (snd (opcli_call cv an f av e v)) = VTY_MORE) = (vstatus v = VTY_MORE)"
    by (simp_all add: vtel_def)
  have e: "opcli_call cv an CB_EXIT av e v = cmd_node_exit v" by (simp add: opcli_call_def)
  have m: "vstatus v \<noteq> VTY_MORE \<Longrightarrow> vstatus (snd (cmd_node_exit v)) \<noteq> VTY_MORE"
    by (simp add: cmd_node_exit_def VTY_CLOSE_def VTY_MORE_def)
  show "viac (snd (opcli_call cv an f av e v)) = viac v"
    "viac_sb_in_progress (snd (opcli_call cv an f av e v)) = viac_sb_in_progress v"
    "vstatus v \<noteq> VTY_MORE \<Longrightarrow> vstatus (snd (opcli_call cv an f av e v)) \<noteq> VTY_MORE"
    using o e x m by (cases "f = CB_EXIT"; simp)+
qed

end

sublocale opcli_server \<subseteq> terminal cv inet "opcli_call cv an"
  by unfold_locales (simp_all add: call_ok call_flags)


section \<open>The server\<close>

text \<open>
  The prompts of a tree, which no installation of a command changes.
\<close>

definition prompts :: "cmdvec \<Rightarrow> string option list" where
  "prompts cv = map (map_option cn_prompt) cv"

lemma cmd_prompt_prompts: "cmd_prompt cv n = (if n < length (prompts cv) then prompts cv ! n else None)"
  by (simp add: cmd_prompt_def cmdvec_slot_def prompts_def)

lemma session_ok_prompts: "prompts cv = prompts cv' \<Longrightarrow> session_ok cv v = session_ok cv' v"
  by (simp add: session_ok_def cmd_prompt_prompts)

lemma prompts_install_element: "install_element cv n e ts = Some (ret, cv') \<Longrightarrow> prompts cv' = prompts cv"
  by (auto simp: install_element_def cmdvec_slot_def prompts_def nth_list_update
      intro!: nth_equalityI split: if_splits option.splits)

lemma prompts_install_cmd:
  "opcli_install_cmd mem ra ca cli n c h f = Some (ret, cli') \<Longrightarrow> prompts (cli_vec cli') = prompts (cli_vec cli)"
  by (auto simp: opcli_install_cmd_def Let_def dest: prompts_install_element split: option.splits if_splits prod.splits)

lemma prompts_install_table:
  "install_table mem ra ca n cs cli = Some cli' \<Longrightarrow> prompts (cli_vec cli') = prompts (cli_vec cli)"
  by (induction mem ra ca n cs cli rule: install_table.induct)
     (auto dest: prompts_install_cmd split: option.splits prod.splits)

lemma prompts_default:
  "install_default_cmd mem ra ca n cli = Some cli' \<Longrightarrow> prompts (cli_vec cli') = prompts (cli_vec cli)"
  by (auto simp: install_default_cmd_def dest!: prompts_install_table prompts_install_cmd split: option.splits if_splits)

lemma prompts_node_init:
  assumes "node_init_loop hm mem ra ca i n cli = Some (0, cli')" "length (prompts (cli_vec cli)) = i"
  shows "prompts (cli_vec cli') = prompts (cli_vec cli) @ map (\<lambda>k. Some (fst (cli_prefix ! k))) [i..<i + n]"
  using assms
proof (induction hm mem ra ca i n cli rule: node_init_loop.induct)
  case (2 hm mem ra ca i n cli)
  obtain h cli2 where h: "op_hash_new (hm i) (hm i) (Some node_hash) (Some node_compare) = Some h"
    and c2: "install_default_cmd mem ra ca i (cli\<lparr>cli_hash := cli_hash cli @ [h],
       cli_vec := snd (install_node (cli_vec cli) i \<lparr>cn_prompt = fst (cli_prefix ! i), cn_cmd_vector = []\<rparr>)\<rparr>) = Some cli2"
    and l: "node_init_loop hm mem ra ca (i + 1) n cli2 = Some (0, cli')"
    using 2(2) by (auto simp: Let_def split: option.splits)
  have p: "prompts (cli_vec cli2) = prompts (cli_vec cli) @ [Some (fst (cli_prefix ! i))]"
    using prompts_default [OF c2] 2(3)
    by (simp add: install_node_def list_put_def prompts_def list_update_append)
  show ?case using 2(1) [OF h refl c2 l] p 2(3) by (simp add: upt_conv_Cons del: upt_Suc)
qed simp

lemma node_init_loop_zero: "node_init_loop hm mem ra ca i n cli = Some (ret, cli') \<Longrightarrow> ret = 0 \<or> ret = - 1"
  by (induction hm mem ra ca i n cli rule: node_init_loop.induct) (auto simp: Let_def split: option.splits)

definition node_prompt_list :: "string option list" where
  "node_prompt_list = map (\<lambda>k. Some (fst (cli_prefix ! k))) [0..<node_max]"

lemma prompts_init:
  assumes "opcli_init en = Some (Some cli)"
  shows "prompts (cli_vec cli) = node_prompt_list"
proof -
  obtain ip ret where l: "node_init_loop (ie_hash en) (ie_mem en) (ie_realloc en) (ie_node en) 0 node_max
      \<lparr>cli_ip = take 15 ip, cli_port = word_of_int (ie_port en), cli_hash = [], cli_vec = snd vty_init\<rparr> = Some (ret, cli)"
    and r: "\<not> ret < 0"
    using assms by (auto simp: opcli_init_def opcli_node_init_def vty_init_def node_max_def split: if_splits option.splits)
  then have "ret = 0" using node_init_loop_zero [OF l] by auto
  with l show ?thesis using prompts_node_init [of _ _ _ _ 0 node_max]
    by (simp add: node_prompt_list_def vty_init_def prompts_def [of "[]"])
qed

lemma port_install_cmd:
  "opcli_install_cmd mem ra ca cli n c h f = Some (ret, cli') \<Longrightarrow> cli_port cli' = cli_port cli"
  by (auto simp: opcli_install_cmd_def Let_def split: option.splits if_splits prod.splits)

lemma port_table: "install_table mem ra ca n cs cli = Some cli' \<Longrightarrow> cli_port cli' = cli_port cli"
  by (induction mem ra ca n cs cli rule: install_table.induct)
     (auto dest: port_install_cmd split: option.splits prod.splits)

lemma port_node_init: "node_init_loop hm mem ra ca i n cli = Some (ret, cli') \<Longrightarrow> cli_port cli' = cli_port cli"
proof (induction hm mem ra ca i n cli rule: node_init_loop.induct)
  case (2 hm mem ra ca i n cli)
  then show ?case
    by (auto simp: Let_def install_default_cmd_def dest!: port_table port_install_cmd split: option.splits if_splits)
qed simp

lemma port_init: "opcli_init en = Some (Some cli) \<Longrightarrow> cli_port cli = word_of_int (ie_port en)"
  by (auto simp: opcli_init_def opcli_node_init_def dest!: port_node_init split: if_splits option.splits)

text \<open>
  The states of the running server: a start, commands installed by the modules, connections
  accepted and bytes read, in any order and with any outcome of the allocations.  The system gives a
  new connection a descriptor that is not in use, and \<^verbatim>\<open>read\<close> returns at most the size of the buffer.
\<close>

record server_state =
  sv_cli :: opcli_struct
  sv_clients :: clients

inductive server :: "(string \<Rightarrow> bool) \<Rightarrow> answers \<Rightarrow> server_state \<Rightarrow> bool" for inet an where
  init: "opcli_init en = Some (Some cli) \<Longrightarrow> server inet an \<lparr>sv_cli = cli, sv_clients = []\<rparr>"
| install: "server inet an s \<Longrightarrow> opcli_install_cmd mem ra ca (sv_cli s) n c h f = Some (ret, cli) \<Longrightarrow>
    server inet an (s\<lparr>sv_cli := cli\<rparr>)"
| accept: "server inet an s \<Longrightarrow> nat fd \<notin> fst ` set (sv_clients s) \<Longrightarrow>
    server inet an (s\<lparr>sv_clients := opcli_job (cli_vec (sv_cli s)) c_ok v_ok e_ok a_ok k_ok wr fd (sv_clients s)\<rparr>)"
| read: "server inet an s \<Longrightarrow> (fd, v) \<in> set (sv_clients s) \<Longrightarrow> ret \<le> int (length bs) \<Longrightarrow> length bs = CLI_BUF_REQ_SIZE \<Longrightarrow>
    server inet an (s\<lparr>sv_clients := opcli_job_thread (cli_vec (sv_cli s)) inet (opcli_call (cli_vec (sv_cli s)) an) ev_read ret bs
      (fd, v) (sv_clients s)\<rparr>)"

definition client_ok :: "cmdvec \<Rightarrow> vty \<Rightarrow> bool" where
  "client_ok cv v \<longleftrightarrow> session_ok cv v \<and> vstatus v \<noteq> VTY_CLOSE \<and> vstatus v \<noteq> VTY_MORE"

definition server_ok :: "server_state \<Rightarrow> bool" where
  "server_ok s \<longleftrightarrow> prompts (cli_vec (sv_cli s)) = node_prompt_list \<and> distinct (map fst (sv_clients s)) \<and>
     (\<forall>(fd, v)\<in>set (sv_clients s). client_ok (cli_vec (sv_cli s)) v)"

lemma opcli_server_prompts: "prompts cv = node_prompt_list \<Longrightarrow> opcli_server cv"
  by unfold_locales (simp add: cmd_prompt_prompts node_prompt_list_def)

lemma option_init_frame:
  "vctx (opcli_option_init wr v) = vctx v" "zip_state (opcli_option_init wr v) b a = zip_state v b a"
  by (simp_all add: opcli_option_init_def Let_def vctx_simps) (simp add: vty_write_def zip_state_def)

lemma new_client_ok:
  assumes "prompts cv = node_prompt_list"
  shows "client_ok cv (opcli_option_init wr (vty_create node_view CLI_HOST))"
    "client_ok cv (opcli_out (opcli_option_init wr (vty_create node_view CLI_HOST)) s)"
    "cmdvec_slot cv (vnode (opcli_option_init wr (vty_create node_view CLI_HOST))) \<noteq> None"
proof -
  let ?v = "vty_create node_view CLI_HOST"
  have p: "cmd_prompt cv node_view \<noteq> None"
    using opcli_server.node_prompts [OF opcli_server_prompts [OF assms], of node_view] by (simp add: node_codes)
  then have s: "session_ok cv ?v" by (rule session_ok_create)
  have st: "vstatus ?v = VTY_NORMAL" "vnode ?v = node_view" by (simp_all add: vty_create_def vty_new_init_def)
  have f: "client_ok cv w" if "vctx w = vctx ?v" "\<And>b a. zip_state w b a = zip_state ?v b a" for w
    using session_frame [OF that] s st that(1) by (simp add: client_ok_def vctx_def VTY_NORMAL_def VTY_CLOSE_def VTY_MORE_def)
  show "client_ok cv (opcli_option_init wr ?v)" "client_ok cv (opcli_out (opcli_option_init wr ?v) s)"
    by (rule f; simp add: option_init_frame opcli_out_frame)+
  have "vnode (opcli_option_init wr ?v) = node_view" using option_init_frame(1) [of wr ?v] st by (simp add: vctx_def)
  then show "cmdvec_slot cv (vnode (opcli_option_init wr ?v)) \<noteq> None" using p by (simp add: cmd_prompt_def)
qed

lemma server_ok_accept:
  assumes "server_ok s" "nat fd \<notin> fst ` set (sv_clients s)"
  shows "server_ok (s\<lparr>sv_clients := opcli_job (cli_vec (sv_cli s)) c_ok v_ok e_ok a_ok k_ok wr fd (sv_clients s)\<rparr>)"
proof -
  have p: "prompts (cli_vec (sv_cli s)) = node_prompt_list" using assms by (simp add: server_ok_def)
  obtain cn where "cmdvec_slot (cli_vec (sv_cli s)) (vnode (opcli_option_init wr (vty_create node_view CLI_HOST))) = Some cn"
    using new_client_ok(3) [OF p] by blast
  then show ?thesis using assms new_client_ok(1,2) [OF p] p by (auto simp: server_ok_def opcli_job_def Let_def)
qed

context opcli_server
begin

lemma client_read:
  assumes "client_ok cv v" "vstatus (vty_read cv inet (opcli_call cv an) bs v) \<noteq> VTY_CLOSE"
  shows "client_ok cv (vty_read cv inet (opcli_call cv an) bs v)"
  using assms read_ok [of v bs] read_more [of bs v] by (simp add: client_ok_def)

lemma read_joined:
  assumes "TELNET_IAC \<notin> set xs" "\<not> viac v"
  shows "vty_read cv inet (opcli_call cv an) (xs @ ys) v =
    vty_read cv inet (opcli_call cv an) ys (vty_read cv inet (opcli_call cv an) xs v)"
  using assms by (rule read_split)

end

lemma server_ok_read:
  assumes "server_ok s" "(fd, v) \<in> set (sv_clients s)"
  shows "server_ok (s\<lparr>sv_clients := opcli_job_thread (cli_vec (sv_cli s)) inet (opcli_call (cli_vec (sv_cli s)) an) ev_read ret bs
      (fd, v) (sv_clients s)\<rparr>)"
proof -
  let ?cv = "cli_vec (sv_cli s)"
  let ?w = "vty_read ?cv inet (opcli_call ?cv an) (take (nat ret) bs) v"
  have p: "opcli_server ?cv" and d: "distinct (map fst (sv_clients s))" and v: "client_ok ?cv v"
    using assms opcli_server_prompts by (auto simp: server_ok_def)
  have w: "vstatus ?w \<noteq> VTY_CLOSE \<Longrightarrow> client_ok ?cv ?w" by (rule opcli_server.client_read [OF p v])
  define cs1 where "cs1 = map (\<lambda>d. if fst d = fd then (fst d, ?w) else d) (sv_clients s)"
  have "map fst cs1 = map fst (sv_clients s)" by (simp add: cs1_def)
  then have d1: "distinct (map fst cs1)" using d by (simp only:)
  have o: "client_ok ?cv x" if "(g, x) \<in> set cs1" "vstatus ?w \<noteq> VTY_CLOSE \<or> g \<noteq> fd" for g x
    using that assms(1) w by (auto simp: cs1_def server_ok_def split: if_splits)
  have f: "distinct (map fst (opcli_client_free fd cs))" if "distinct (map fst cs)" for cs
    using that by (induction cs) (auto simp: opcli_client_free_def)
  have j: "opcli_job_thread ?cv inet (opcli_call ?cv an) ev_read ret bs (fd, v) (sv_clients s) =
      (if ret < 0 then sv_clients s
       else if ev_read \<and> ret = 0 then opcli_client_free fd (sv_clients s)
       else if vstatus ?w = VTY_CLOSE then opcli_client_free fd cs1 else cs1)"
    by (simp add: opcli_job_thread_def Let_def cs1_def)
  show ?thesis
    unfolding j using assms(1) o f [OF d] f [OF d1] d1 by (auto simp: server_ok_def opcli_client_free_def)
qed

lemma server_reachable_ok: "server inet an s \<Longrightarrow> server_ok s"
proof (induction rule: server.induct)
  case (init en cli)
  then show ?case using prompts_init by (simp add: server_ok_def)
next
  case (install s mem ra ca n c h f ret cli)
  have "prompts (cli_vec cli) = prompts (cli_vec (sv_cli s))" using install.hyps by (simp add: prompts_install_cmd)
  then show ?case using install.IH session_ok_prompts [of "cli_vec cli" "cli_vec (sv_cli s)"]
    by (simp add: server_ok_def client_ok_def)
qed (simp_all add: server_ok_accept server_ok_read)


section \<open>Typing commands\<close>

text \<open>The tree after \<^verbatim>\<open>opcli_init\<close> and \<^verbatim>\<open>opmgr_cmd_init\<close>.\<close>

definition shipped_vec :: cmdvec where
  "shipped_vec = map (\<lambda>n. Some \<lparr>cn_prompt = fst (cli_prefix ! n), cn_cmd_vector = map Some (shipped_cmds ! n)\<rparr>) [0..<node_max]"

lemma shipped_vec_ok: "cli_ok cli shipped_cmds \<Longrightarrow> cli_vec cli = shipped_vec"
  by (simp add: cli_ok_def shipped_vec_def shipped_cmds_def)

lemma shipped_slot:
  "n < node_max \<Longrightarrow> cmd_node_vector shipped_vec n = Some (map Some (shipped_cmds ! n))"
  "n < node_max \<Longrightarrow> cmd_prompt shipped_vec n = Some (fst (cli_prefix ! n))"
  "\<not> n < node_max \<Longrightarrow> cmd_prompt shipped_vec n = None"
  by (simp_all add: shipped_vec_def cmd_node_vector_def cmd_prompt_def cmdvec_slot_def)

interpretation shipped: opcli_server shipped_vec inet an for inet an
  by unfold_locales (simp add: shipped_slot)

text \<open>What the tree has in each node: the command string, its words and its callback.\<close>

definition cmd_row :: "cmd_element \<Rightarrow> string \<times> string list \<times> nat" where
  "cmd_row e = (ce_string e, lit_words e, ce_cb e)"

definition base_rows :: "(string \<times> string list \<times> nat) list" where
  "base_rows = [(''exit'', [''exit''], CB_EXIT), (''end'', [''end''], CB_END), (''list'', [''list''], CB_LIST)]"

definition node_rows :: "nat \<Rightarrow> (string \<times> string list \<times> nat) list" where
  "node_rows n = base_rows @
     (if n = node_view then [(''enable'', [''enable''], CB_ENABLE)]
      else if n = node_enable then [(''opmgr'', [''opmgr''], CB_MODULE), (''op4G'', [''op4G''], CB_MODULE)]
      else if n = node_opmgr then
        [(''show cpu usage'', [''show'', ''cpu'', ''usage''], CB_CPU),
         (''show memory pool information'', [''show'', ''memory'', ''pool'', ''information''], CB_MEM)]
      else [])"

lemma shipped_nth:
  assumes "n < node_max"
  shows "shipped_cmds ! n = default_cmds n @
    (if n = node_opmgr then map (\<lambda>(c, h, f). with_tokens (new_element node_opmgr c h f)) opmgr_cmd else [])"
  using assms by (simp add: shipped_cmds_def nth_list_update node_opmgr_def node_max_def)

lemma row_parse:
  assumes "cmd_parse_format c (Some h) = Some (Some ts)"
  shows "cmd_row (with_tokens (new_element n c h f)) = (c, map cmd ts, f)"
    "lit_command (with_tokens (new_element n c h f)) = list_all lit_token ts"
  using assms by (simp_all add: cmd_row_def with_tokens_def new_element_def lit_words_def lit_command_def)

lemmas row_parses = parse_commands [simplified, THEN row_parse(1)] parse_commands [simplified, THEN row_parse(2)]
  parse_opmgr [simplified, THEN row_parse(1)] parse_opmgr [simplified, THEN row_parse(2)]

lemma daemon_new: "\<not> ce_daemon (with_tokens (new_element n c h f))"
  by (simp add: with_tokens_def new_element_def)

lemma map_filter_Some: "List.map_filter (\<lambda>c. c) (map Some xs) = xs"
  by (induction xs) (simp_all add: List.map_filter_simps)

lemma shipped_rows:
  assumes "n < node_max"
  shows "map cmd_row (shipped_cmds ! n) = node_rows n"
    "\<forall>e\<in>set (shipped_cmds ! n). lit_command e \<and> \<not> ce_daemon e"
proof -
  show "map cmd_row (shipped_cmds ! n) = node_rows n"
    using assms by (simp add: shipped_nth default_cmds_def cmd_in_node_def cmd_in_node_enable_def opmgr_cmd_def
      node_rows_def base_rows_def row_parses) (simp add: node_codes)
  show "\<forall>e\<in>set (shipped_cmds ! n). lit_command e \<and> \<not> ce_daemon e"
    using assms by (auto simp: shipped_nth default_cmds_def cmd_in_node_def cmd_in_node_enable_def opmgr_cmd_def
      row_parses lit_token_def daemon_new ball_Un split: if_splits)
qed

lemma shipped_node:
  assumes "n < node_max"
  shows "lit_node (map Some (shipped_cmds ! n))"
    "distinct (map lit_words (List.map_filter (\<lambda>c. c) (map Some (shipped_cmds ! n))))"
proof -
  show "lit_node (map Some (shipped_cmds ! n))" using shipped_rows(2) [OF assms] by (auto simp: lit_node_def)
  have "map lit_words (shipped_cmds ! n) = map (fst \<circ> snd) (map cmd_row (shipped_cmds ! n))"
    by (simp add: cmd_row_def)
  then have "map lit_words (shipped_cmds ! n) = map (fst \<circ> snd) (node_rows n)"
    by (simp only: shipped_rows(1) [OF assms])
  moreover have "distinct (map (fst \<circ> snd) (node_rows n))"
    by (auto simp: node_rows_def base_rows_def)
  ultimately show "distinct (map lit_words (List.map_filter (\<lambda>c. c) (map Some (shipped_cmds ! n))))"
    by (simp add: map_filter_Some)
qed

text \<open>The words of a command, typed with single blanks.\<close>

fun spaced :: "string list \<Rightarrow> (string \<times> string) list" where
  "spaced [] = []"
| "spaced [w] = [(w, [])]"
| "spaced (w # ws) = (w, '' '') # spaced ws"

lemma rows_typed:
  assumes "(c, ws, f) \<in> set (node_rows n)"
  shows "lay_out (spaced ws) = c" "laid_out (spaced ws)" "map fst (spaced ws) = ws"
    "hd (fst (hd (spaced ws))) \<noteq> CHR ''!''" "hd (fst (hd (spaced ws))) \<noteq> CHR ''#''" "fst (hd (spaced ws)) \<noteq> ''do''"
    "length (spaced ws) \<le> NO_INDEX" "list_all printable c" "length c < 1024" "NUL \<notin> set c"
  using assms
  by (auto simp: node_rows_def base_rows_def lay_out_def c_isspace_def NO_INDEX_def printable_def split: if_splits)

definition finish :: "cmdvec \<Rightarrow> vty \<Rightarrow> vty" where
  "finish cv w =
     (let v3 = vty_clear_buf ((if vtype w = VTY_TERM then vty_hist_add w else w)\<lparr>vcp := 0, vlen := 0\<rparr>)
      in if vstatus v3 \<noteq> VTY_CLOSE then vty_prompt (cmd_prompt cv) v3 else v3)"

lemma opcli_call_code: "fst (opcli_call cv an f av e v) = CMD_SUCCESS"
  by (simp add: opcli_call_def cmd_node_exit_def cmd_node_end_def cmd_node_list_def cmd_node_enable_def
      cmd_node_enable_module_def cmd_mgr_cpu_usage_def cmd_mem_pool_information_def CMD_SUCCESS_def)

lemma enter_line:
  assumes s: "vnode v < node_max" and p: "plain v" and z: "zip_state v [] []" and e: "e \<in> set (shipped_cmds ! vnode v)"
  obtains u where "vctx u = vctx v" "zip_state u (ce_string e) []"
    "\<And>r. vty_read shipped_vec inet (opcli_call shipped_vec an) (ce_string e @ CHR 0x0D # r) v =
      vty_read shipped_vec inet (opcli_call shipped_vec an) r
        (finish shipped_vec (snd (opcli_call shipped_vec an (ce_cb e) (Some []) e u)))"
proof -
  let ?call = "opcli_call shipped_vec an"
  let ?v1 = "vty_read shipped_vec inet ?call (ce_string e) v"
  let ?u = "vty_out ?v1 (VTY_NEWLINE ?v1)"
  have "cmd_row e \<in> set (node_rows (vnode v))"
    using e shipped_rows(1) [OF s] by (metis image_eqI set_map)
  then have row: "(ce_string e, lit_words e, ce_cb e) \<in> set (node_rows (vnode v))" by (simp add: cmd_row_def)
  note t = rows_typed [OF row]
  have ty: "zip_state ?v1 (ce_string e) []" "vctx ?v1 = vctx v"
    "vty_read shipped_vec inet ?call (ce_string e @ r) v = vty_read shipped_vec inet ?call r ?v1" for r
    using typed_zip [OF t(8) p z, of shipped_vec inet ?call] t(9) by simp_all
  have u: "vctx ?u = vctx v" "zip_state ?u (ce_string e) []"
    using ty by (simp_all add: vctx_simps) (simp add: vty_out_def zip_state_def)
  have line: "c_string (vbuf ?u) = lay_out (spaced (lit_words e))"
    using c_string_zip [OF u(2)] t(1,10) by (simp add: c_string_def takeWhile_eq_all_conv) (metis)
  obtain w where w: "?call (ce_cb e) (Some []) e ?u = (CMD_SUCCESS, w)"
    using opcli_call_code by (metis prod.collapse)
  have n: "vnode ?u = vnode v" using u(1) by (simp add: vctx_def)
  have "vty_command shipped_vec inet ?call ?u ([] @ lay_out (spaced (lit_words e))) = (CMD_SUCCESS, w)"
    by (rule command_lit [where cs = "map Some (shipped_cmds ! vnode v)" and e = e and call = ?call and w = w])
      (use n s e t w shipped_node [OF s] shipped_rows(2) [OF s] in \<open>simp_all add: shipped_slot\<close>)
  then have "vty_execute shipped_vec inet ?call ?u = (CMD_SUCCESS, finish shipped_vec w)"
    by (simp add: vty_execute_def line finish_def Let_def)
  moreover have "plain ?v1" using plain_ctx [OF ty(2)] p by simp
  then have "vty_read shipped_vec inet ?call (CHR 0x0D # r) ?v1 =
      vty_read shipped_vec inet ?call r (snd (vty_execute shipped_vec inet ?call ?u))" for r
    by (simp add: read_step_def TELNET_IAC_def plain_def key_step_def normal_key_def Let_def)
  ultimately show ?thesis using that [OF u] ty(3) w by simp
qed

lemma finish_frame:
  "vnode (finish cv w) = vnode w" "vstatus (finish cv w) = vstatus w" "vescape (finish cv w) = vescape w"
  "viac (finish cv w) = viac w" "viac_sb_in_progress (finish cv w) = viac_sb_in_progress w"
proof -
  let ?h = "if vtype w = VTY_TERM then vty_hist_add w else w"
  have h: "vnode ?h = vnode w" "vstatus ?h = vstatus w" "vescape ?h = vescape w" "viac ?h = viac w"
    "viac_sb_in_progress ?h = viac_sb_in_progress w"
    by (simp_all add: vty_hist_add_def Let_def)
  have "vctx (finish cv w) = vctx ?h" by (simp add: finish_def Let_def vctx_simps)
  then show "vnode (finish cv w) = vnode w" "vstatus (finish cv w) = vstatus w" "vescape (finish cv w) = vescape w"
    "viac (finish cv w) = viac w" "viac_sb_in_progress (finish cv w) = viac_sb_in_progress w"
    using h by (simp_all add: vctx_def)
qed

lemma finish_ok:
  assumes "session_ok cv w"
  shows "session_ok cv (finish cv w)" "zip_state (finish cv w) [] []"
proof -
  show s: "session_ok cv (finish cv w)" using assms by (simp add: finish_def Let_def)
  let ?h = "(if vtype w = VTY_TERM then vty_hist_add w else w)\<lparr>vcp := 0, vlen := 0\<rparr>"
  have "vlen (vty_clear_buf ?h) = 0" "vcp (vty_clear_buf ?h) = 0" by (simp_all add: vty_clear_buf_def vbuf_write_def)
  moreover have "vlen (vty_prompt p x) = vlen x" "vcp (vty_prompt p x) = vcp x" for p x
    by (simp_all add: vty_prompt_def vty_out_def split: option.splits)
  ultimately have "vlen (finish cv w) = 0" "vcp (finish cv w) = 0" by (simp_all add: finish_def Let_def)
  with s show "zip_state (finish cv w) [] []" by (auto simp: session_ok_def zip_state_def)
qed

text \<open>How the commands move between the nodes; \<open>None\<close> leaves the command line.\<close>

definition nav :: "nat \<Rightarrow> string \<Rightarrow> nat option" where
  "nav n c =
     (if c = ''exit'' then (if n = node_view then None else if n = node_enable then Some node_view else Some node_enable)
      else if c = ''end'' then Some node_view
      else if c = ''enable'' then Some node_enable
      else if c = ''opmgr'' then Some node_opmgr
      else if c = ''op4G'' then Some node_op4g
      else Some n)"

lemma row_cases:
  assumes "(c, ws, f) \<in> set (node_rows n)"
  shows "c = ''exit'' \<and> f = CB_EXIT \<or> c = ''end'' \<and> f = CB_END \<or> c = ''list'' \<and> f = CB_LIST \<or> c = ''enable'' \<and> f = CB_ENABLE \<or>
    (c = ''opmgr'' \<or> c = ''op4G'') \<and> f = CB_MODULE \<or> c = ''show cpu usage'' \<and> f = CB_CPU \<or>
    c = ''show memory pool information'' \<and> f = CB_MEM"
  using assms by (auto simp: node_rows_def base_rows_def split: if_splits)

lemma opcli_call_simps:
  "opcli_call cv an CB_EXIT av e v = cmd_node_exit v" "opcli_call cv an CB_END av e v = cmd_node_end v"
  "opcli_call cv an CB_LIST av e v = cmd_node_list cv v" "opcli_call cv an CB_ENABLE av e v = cmd_node_enable v"
  "opcli_call cv an CB_MODULE av e v = cmd_node_enable_module e v" "opcli_call cv an CB_CPU av e v = cmd_mgr_cpu_usage an v"
  "opcli_call cv an CB_MEM av e v = cmd_mem_pool_information an v"
  by (simp_all add: opcli_call_def cb_codes)

lemma call_nav:
  assumes "(ce_string e, ws, ce_cb e) \<in> set (node_rows (vnode u))" "vnode u < node_max"
    and w_def: "w = snd (opcli_call shipped_vec an (ce_cb e) av e u)"
  shows "vescape w = vescape u"
    "case nav (vnode u) (ce_string e) of None \<Rightarrow> vstatus w = VTY_CLOSE \<and> vnode w = vnode u | Some m \<Rightarrow> vnode w = m \<and> vstatus w = vstatus u"
proof -
  have "cmd_node_vector shipped_vec (vnode u) \<noteq> None" using shipped_slot(1) [OF assms(2)] by simp
  then have l: "vctx (vty_list shipped_vec u) = vctx u" by (rule list_frame)
  then have l': "vescape (vty_list shipped_vec u) = vescape u" "vnode (vty_list shipped_vec u) = vnode u"
    "vstatus (vty_list shipped_vec u) = vstatus u" by (simp_all add: vctx_def)
  have pr: "vescape (snd (cmd_mgr_cpu_usage an u)) = vescape u" "vnode (snd (cmd_mgr_cpu_usage an u)) = vnode u"
    "vstatus (snd (cmd_mgr_cpu_usage an u)) = vstatus u" "vescape (snd (cmd_mem_pool_information an u)) = vescape u"
    "vnode (snd (cmd_mem_pool_information an u)) = vnode u" "vstatus (snd (cmd_mem_pool_information an u)) = vstatus u"
    using print_frame(1,3) [of an u] by (simp_all add: vctx_def)
  consider "ce_string e = ''exit''" "ce_cb e = CB_EXIT" | "ce_string e = ''end''" "ce_cb e = CB_END"
    | "ce_string e = ''list''" "ce_cb e = CB_LIST" | "ce_string e = ''enable''" "ce_cb e = CB_ENABLE"
    | "ce_string e = ''opmgr'' \<or> ce_string e = ''op4G''" "ce_cb e = CB_MODULE"
    | "ce_string e = ''show cpu usage''" "ce_cb e = CB_CPU" | "ce_string e = ''show memory pool information''" "ce_cb e = CB_MEM"
    using row_cases [OF assms(1)] by blast
  then show "vescape w = vescape u"
    "case nav (vnode u) (ce_string e) of None \<Rightarrow> vstatus w = VTY_CLOSE \<and> vnode w = vnode u | Some m \<Rightarrow> vnode w = m \<and> vstatus w = vstatus u"
    by (cases; use assms(2) in \<open>auto simp: w_def opcli_call_simps nav_def cmd_node_exit_def cmd_node_end_def
        cmd_node_list_def cmd_node_enable_def enable_module_eq l' pr node_codes\<close>)+
qed

lemma client_node: "session_ok shipped_vec v \<Longrightarrow> vnode v < node_max"
  using shipped_slot(3) [of "vnode v"] by (cases "vnode v < node_max") (simp_all add: session_ok_def)

lemma typed_line:
  assumes ok: "session_ok shipped_vec v" and p: "plain v" and z: "zip_state v [] []" and c: "c \<in> fst ` set (node_rows (vnode v))"
  obtains w where "\<And>r. vty_read shipped_vec inet (opcli_call shipped_vec an) (c @ CHR 0x0D # r) v =
      vty_read shipped_vec inet (opcli_call shipped_vec an) r w"
    "session_ok shipped_vec w" "plain w" "zip_state w [] []"
    "case nav (vnode v) c of None \<Rightarrow> vstatus w = VTY_CLOSE \<and> vnode w = vnode v | Some m \<Rightarrow> vnode w = m \<and> vstatus w = vstatus v"
proof -
  have n: "vnode v < node_max" by (rule client_node [OF ok])
  obtain e where e: "e \<in> set (shipped_cmds ! vnode v)" "ce_string e = c"
    using c by (auto simp: cmd_row_def simp flip: shipped_rows(1) [OF n])
  then have row: "(ce_string e, lit_words e, ce_cb e) \<in> set (node_rows (vnode v))"
    by (auto simp: cmd_row_def simp flip: shipped_rows(1) [OF n])
  obtain u where u: "vctx u = vctx v" "zip_state u (ce_string e) []"
    "\<And>r. vty_read shipped_vec inet (opcli_call shipped_vec an) (ce_string e @ CHR 0x0D # r) v =
      vty_read shipped_vec inet (opcli_call shipped_vec an) r
        (finish shipped_vec (snd (opcli_call shipped_vec an (ce_cb e) (Some []) e u)))"
    using enter_line [OF n p z e(1), of inet an] by blast
  let ?w = "snd (opcli_call shipped_vec an (ce_cb e) (Some []) e u)"
  have uv: "vnode u = vnode v" "vstatus u = vstatus v" "vescape u = vescape v" "viac u = viac v"
    "viac_sb_in_progress u = viac_sb_in_progress v"
    using u(1) by (simp_all add: vctx_def)
  have su: "session_ok shipped_vec u" by (rule session_ok_step [OF ok u(1,2)])
  have sw: "session_ok shipped_vec ?w" by (rule shipped.call_ok [OF su])
  have nv: "vescape ?w = vescape v"
    "case nav (vnode v) c of None \<Rightarrow> vstatus ?w = VTY_CLOSE \<and> vnode ?w = vnode v | Some m \<Rightarrow> vnode ?w = m \<and> vstatus ?w = vstatus v"
    using call_nav [OF _ _ refl, of e "lit_words e" u an "Some []"] row n e(2) by (simp_all add: uv split: option.splits)
  have fl: "viac ?w = viac v" "viac_sb_in_progress ?w = viac_sb_in_progress v" by (simp_all add: shipped.call_flags uv)
  show ?thesis
  proof (rule that [of "finish shipped_vec ?w"])
    show "vty_read shipped_vec inet (opcli_call shipped_vec an) (c @ CHR 0x0D # r) v =
        vty_read shipped_vec inet (opcli_call shipped_vec an) r (finish shipped_vec ?w)" for r
      using u(3) e(2) by simp
    show "plain (finish shipped_vec ?w)"
      using nv fl p shipped.call_flags(3) [of u] by (simp add: finish_frame plain_def uv)
    show "case nav (vnode v) c of None \<Rightarrow> vstatus (finish shipped_vec ?w) = VTY_CLOSE \<and> vnode (finish shipped_vec ?w) = vnode v
     | Some m \<Rightarrow> vnode (finish shipped_vec ?w) = m \<and> vstatus (finish shipped_vec ?w) = vstatus v"
      using nv by (simp add: finish_frame split: option.splits)
  qed (simp_all add: finish_ok [OF sw])
qed

fun nav_path :: "nat \<Rightarrow> string list \<Rightarrow> nat option" where
  "nav_path n [] = Some n"
| "nav_path n (c # cs) =
     (if c \<in> fst ` set (node_rows n) then (case nav n c of None \<Rightarrow> None | Some m \<Rightarrow> nav_path m cs) else None)"

definition typed_lines :: "string list \<Rightarrow> char list" where
  "typed_lines cs = concat (map (\<lambda>c. c @ [CHR 0x0D]) cs)"

lemma navigation:
  assumes "session_ok shipped_vec v" "plain v" "zip_state v [] []" "nav_path (vnode v) cs = Some m"
  shows "\<exists>w. (\<forall>r. vty_read shipped_vec inet (opcli_call shipped_vec an) (typed_lines cs @ r) v =
        vty_read shipped_vec inet (opcli_call shipped_vec an) r w) \<and>
      vnode w = m \<and> vstatus w = vstatus v \<and> session_ok shipped_vec w \<and> plain w \<and> zip_state w [] []"
  using assms
proof (induction cs arbitrary: v)
  case Nil
  then show ?case by (intro exI [of _ v]) (simp add: typed_lines_def)
next
  case (Cons c cs)
  obtain n where n: "c \<in> fst ` set (node_rows (vnode v))" "nav (vnode v) c = Some n" "nav_path n cs = Some m"
    using Cons.prems(4) by (auto split: if_splits option.splits)
  obtain v1 where v1: "\<And>r. vty_read shipped_vec inet (opcli_call shipped_vec an) (c @ CHR 0x0D # r) v =
      vty_read shipped_vec inet (opcli_call shipped_vec an) r v1"
    "session_ok shipped_vec v1" "plain v1" "zip_state v1 [] []"
    "case nav (vnode v) c of None \<Rightarrow> vstatus v1 = VTY_CLOSE \<and> vnode v1 = vnode v | Some m \<Rightarrow> vnode v1 = m \<and> vstatus v1 = vstatus v"
    using typed_line [OF Cons.prems(1-3) n(1), of inet an] by blast
  have m: "vnode v1 = n" "vstatus v1 = vstatus v" using v1(5) n(2) by simp_all
  from Cons.IH [OF v1(2-4)] m n(3) obtain w where
    "\<And>r. vty_read shipped_vec inet (opcli_call shipped_vec an) (typed_lines cs @ r) v1 =
        vty_read shipped_vec inet (opcli_call shipped_vec an) r w"
    "vnode w = m" "vstatus w = vstatus v" "session_ok shipped_vec w" "plain w" "zip_state w [] []" by auto
  then show ?case using v1(1) by (intro exI [of _ w]) (simp add: typed_lines_def)
qed

section \<open>Leaving\<close>

text \<open>
  A key sequence that ends the session from any state: it closes a telnet command or
  subnegotiation, ends an escape sequence, empties the line and enters \<^verbatim>\<open>end\<close> and \<^verbatim>\<open>exit\<close>.
\<close>

definition leave_keys :: "char list" where
  "leave_keys = [TELNET_IAC, TELNET_SE, TELNET_IAC, TELNET_SE, CHR ''x'', CHR 0x15] @ typed_lines [''end'', ''exit'']"

lemma key_no_rest:
  assumes "c \<noteq> CHR 0x1B"
  shows "key_step cv inet call c rest v = (0, snd (key_step cv inet call c [] v))"
  using assms by (simp add: key_step_def normal_key_def)

lemma step_telnet:
  assumes "c = TELNET_IAC \<or> c = TELNET_SE"
  shows "read_step cv inet call c rest v = (0, snd (read_step cv inet call c [] v))"
proof -
  have k: "key_step cv inet call c rest w = (0, snd (key_step cv inet call c [] w))" for w
    by (rule key_no_rest) (use assms in \<open>auto simp: TELNET_IAC_def TELNET_SE_def\<close>)
  have t: "c \<noteq> TELNET_IAC \<Longrightarrow> fst (vty_telnet_option w c) = 0" for w
    using assms by (auto simp: vty_telnet_option_def TELNET_IAC_def TELNET_SE_def TELNET_SB_def)
  show ?thesis
    using k [of v] k [of "v\<lparr>viac := False\<rparr>"] t [of v]
    by (auto simp: read_step_def Let_def split: prod.splits)
qed

context terminal
begin

lemma telnet_pair:
  assumes "session_ok cv v" "vstatus v \<noteq> VTY_MORE"
  obtains w where "\<And>r. vty_read cv inet call (TELNET_IAC # TELNET_SE # r) v = vty_read cv inet call r w"
    "session_ok cv w" "vstatus w \<noteq> VTY_MORE" "\<not> viac w" "\<not> viac v \<Longrightarrow> \<not> viac_sb_in_progress w"
proof -
  let ?v = "snd (read_step cv inet call TELNET_IAC [] v)"
  let ?w = "snd (read_step cv inet call TELNET_SE [] ?v)"
  have ne: "TELNET_SE \<noteq> TELNET_IAC" "TELNET_SE \<noteq> TELNET_SB" by (simp_all add: TELNET_IAC_def TELNET_SE_def TELNET_SB_def)
  have r: "vty_read cv inet call (TELNET_IAC # TELNET_SE # r) v = vty_read cv inet call r ?w" for r
    by (simp add: step_telnet [of TELNET_IAC cv inet call "TELNET_SE # r"] step_telnet [of TELNET_SE cv inet call r])
  have ok: "session_ok cv ?w" "vstatus ?w \<noteq> VTY_MORE" using assms by (simp_all add: step_ok step_more)
  show ?thesis
  proof (cases "viac v")
    case False
    then have "?v = v\<lparr>viac := True\<rparr>" by (simp add: read_step_def)
    then have "\<not> viac ?w" "\<not> viac_sb_in_progress ?w"
      using ne by (simp_all add: read_step_def vty_telnet_option_def Let_def)
    then show ?thesis using that [OF r ok] by simp
  next
    case True
    have "viac (snd (key_step cv inet call TELNET_IAC [] (v\<lparr>viac := False\<rparr>))) = False"
      using key_telnet [of TELNET_IAC "[]" "v\<lparr>viac := False\<rparr>"] by (simp add: vtel_def)
    then have "\<not> viac ?v" using True by (simp add: read_step_def sb_store_def Let_def)
    then have "\<not> viac ?w" by (rule read_plain(2) [OF ne(1)])
    then show ?thesis using that [OF r ok] True by simp
  qed
qed

lemma end_escape:
  assumes "session_ok cv v" "vstatus v \<noteq> VTY_MORE" "\<not> viac v" "\<not> viac_sb_in_progress v"
  obtains w where "\<And>r. vty_read cv inet call (CHR ''x'' # r) v = vty_read cv inet call r w" "session_ok cv w" "plain w"
proof -
  let ?w = "snd (key_step cv inet call (CHR ''x'') [] v)"
  have r: "vty_read cv inet call (CHR ''x'' # r) v = vty_read cv inet call r ?w" for r
    using assms(3,4) key_no_rest [of "CHR ''x''" cv inet call r v] read_plain(1) [of "CHR ''x''" v]
    by (simp add: TELNET_IAC_def)
  have f: "vtel ?w = vtel v" by (rule key_telnet)
  have "vescape ?w \<notin> {VTY_PRE_ESCAPE, VTY_ESCAPE, VTY_LITERAL}"
  proof (cases "vescape v \<in> {VTY_PRE_ESCAPE, VTY_ESCAPE, VTY_LITERAL}")
    case True
    then show ?thesis using assms(2)
      by (auto simp: key_step_def vty_escape_map_def pre_escape_key_def control_code VTY_NORMAL_def VTY_PRE_ESCAPE_def
          VTY_ESCAPE_def VTY_LITERAL_def)
  next
    case False
    then have "?w = vty_self_insert v (CHR ''x'')"
      using assms(2) by (simp add: key_step_def normal_key_def edit_key_def control_code)
    moreover have "vctx (vty_self_insert v (CHR ''x'')) = vctx v" by (simp add: vctx_simps)
    ultimately show ?thesis using False by (simp add: vctx_def)
  qed
  then have "plain ?w" using f assms(2-4) by (simp add: plain_def vtel_def)
  then show ?thesis using that [OF r] key_ok [OF assms(1)] by simp
qed

lemma empty_line:
  assumes "session_ok cv v" "plain v"
  obtains w where "\<And>r. vty_read cv inet call (CHR 0x15 # r) v = vty_read cv inet call r w" "session_ok cv w" "plain w"
    "zip_state w [] []"
proof -
  let ?w = "vty_kill_line_from_beginning v"
  have "read_step cv inet call (CHR 0x15) r v = (0, ?w)" for r
    using assms(2) by (simp add: read_step_def TELNET_IAC_def plain_def key_step_def normal_key_def edit_key_def control_code Let_def)
  then have r: "vty_read cv inet call (CHR 0x15 # r) v = vty_read cv inet call r ?w" for r by simp
  obtain b a where "zip_state v b a" using assms(1) by (auto simp: session_ok_def)
  then have z: "zip_state ?w [] []" using kill_from_beginning_edits [of None v b a] by (simp add: edits_def shown_def)
  have c: "vctx ?w = vctx v" by (simp add: vctx_simps)
  show ?thesis using that [OF r session_ok_step [OF assms(1) c z] _ z] plain_ctx [OF c] assms(2) by simp
qed

end

lemma leave_closes:
  assumes "session_ok shipped_vec v" "vstatus v \<noteq> VTY_MORE"
  shows "vstatus (vty_read shipped_vec inet (opcli_call shipped_vec an) leave_keys v) = VTY_CLOSE"
proof -
  let ?rd = "vty_read shipped_vec inet (opcli_call shipped_vec an)"
  obtain v1 where v1: "\<And>r. ?rd (TELNET_IAC # TELNET_SE # r) v = ?rd r v1" "session_ok shipped_vec v1" "vstatus v1 \<noteq> VTY_MORE" "\<not> viac v1"
    using shipped.telnet_pair [OF assms] by blast
  obtain v2 where v2: "\<And>r. ?rd (TELNET_IAC # TELNET_SE # r) v1 = ?rd r v2" "session_ok shipped_vec v2" "vstatus v2 \<noteq> VTY_MORE"
    "\<not> viac v2" "\<not> viac_sb_in_progress v2"
    using shipped.telnet_pair [OF v1(2,3)] v1(4) by blast
  obtain v3 where v3: "\<And>r. ?rd (CHR ''x'' # r) v2 = ?rd r v3" "session_ok shipped_vec v3" "plain v3"
    using shipped.end_escape [OF v2(2-5)] by blast
  obtain v4 where v4: "\<And>r. ?rd (CHR 0x15 # r) v3 = ?rd r v4" "session_ok shipped_vec v4" "plain v4" "zip_state v4 [] []"
    using shipped.empty_line [OF v3(2,3)] by blast
  have rows: "''end'' \<in> fst ` set (node_rows n)" "''exit'' \<in> fst ` set (node_rows n)" for n
    by (simp_all add: node_rows_def base_rows_def)
  obtain v5 where v5: "\<And>r. ?rd (''end'' @ CHR 0x0D # r) v4 = ?rd r v5" "session_ok shipped_vec v5" "plain v5" "zip_state v5 [] []"
    "case nav (vnode v4) ''end'' of None \<Rightarrow> vstatus v5 = VTY_CLOSE \<and> vnode v5 = vnode v4 | Some m \<Rightarrow> vnode v5 = m \<and> vstatus v5 = vstatus v4"
    using typed_line [OF v4(2-4) rows(1), of inet an] by blast
  have n5: "vnode v5 = node_view" using v5(5) by (simp add: nav_def)
  obtain v6 where v6: "\<And>r. ?rd (''exit'' @ CHR 0x0D # r) v5 = ?rd r v6" "session_ok shipped_vec v6" "plain v6" "zip_state v6 [] []"
    "case nav (vnode v5) ''exit'' of None \<Rightarrow> vstatus v6 = VTY_CLOSE \<and> vnode v6 = vnode v5 | Some m \<Rightarrow> vnode v6 = m \<and> vstatus v6 = vstatus v5"
    using typed_line [OF v5(2-4) rows(2), of inet an] by blast
  have c6: "vstatus v6 = VTY_CLOSE" using v6(5) n5 by (simp add: nav_def)
  show ?thesis
    using v1(1) v2(1) v3(1) v4(1) v5(1) v6(1) c6 by (simp add: leave_keys_def typed_lines_def del: vty_read.simps(2))
qed

section \<open>A started server\<close>

definition started :: server_state where
  "started = \<lparr>sv_cli = good_cli,
     sv_clients = opcli_job (cli_vec good_cli) True True True True True (\<lambda>k. True) 5 []\<rparr>"

definition quiet :: answers where
  "quiet = \<lparr>an_cpu_num = 0, an_cpu_row = \<lambda>i. [], an_mem_pool = []\<rparr>"

lemma server_install_table:
  assumes "install_table mem ra ca n cs cli = Some cli'" "server inet an \<lparr>sv_cli = cli, sv_clients = []\<rparr>"
  shows "server inet an \<lparr>sv_cli = cli', sv_clients = []\<rparr>"
  using assms
proof (induction mem ra ca n cs cli rule: install_table.induct)
  case (2 mem ra ca node c h f cs cli)
  obtain ret cli1 where c1: "opcli_install_cmd (mem c) ra ca cli node (Some c) (Some h) (Some f) = Some (ret, cli1)"
    "install_table mem ra ca node cs cli1 = Some cli'"
    using 2(2) by (auto split: option.splits)
  have "server inet an \<lparr>sv_cli = cli1, sv_clients = []\<rparr>"
    using server.install [OF 2(3), of "mem c" ra ca node "Some c" "Some h" "Some f" ret cli1] c1(1) by simp
  then show ?case using 2(1) [OF c1(1) refl c1(2)] by simp
qed simp

lemma started_server: "server inet an started" "cli_vec (sv_cli started) = shipped_vec"
proof -
  obtain cli where i: "opcli_init good_env = Some (Some cli)" "cli_ok cli (map default_cmds [0..<node_max])"
    using init_spec [of good_env] by (auto simp: good_env_def)
  obtain cli' where o: "opmgr_cmd_init (\<lambda>c. True) (\<lambda>n. True) True cli = Some cli'" "cli_ok cli' shipped_cmds"
    using opmgr_cmd_init_spec [OF i(2)] by blast
  have g: "good_cli = cli'" using i(1) o(1) by (simp add: good_cli_def)
  have "server inet an \<lparr>sv_cli = cli, sv_clients = []\<rparr>" using i(1) by (rule server.init)
  then have "server inet an \<lparr>sv_cli = cli', sv_clients = []\<rparr>"
    using server_install_table o(1) by (simp add: opmgr_cmd_init_def)
  from server.accept [OF this, of 5 True True True True True "\<lambda>k. True"]
  show "server inet an started" by (simp add: started_def g)
  show "cli_vec (sv_cli started) = shipped_vec" using shipped_vec_ok [OF o(2)] by (simp add: started_def g)
qed

definition new_client :: vty where
  "new_client = opcli_out (opcli_option_init (\<lambda>k. True) (vty_create node_view CLI_HOST)) (printf_s ''%s>'' CLI_HOST)"

lemma started_clients: "sv_clients started = [(5, new_client)]"
proof -
  have "vnode (opcli_option_init wr (vty_create node_view CLI_HOST)) = node_view" for wr
    using option_init_frame(1) [of wr "vty_create node_view CLI_HOST"]
    by (simp add: vctx_def vty_create_def vty_new_init_def)
  moreover have "cli_vec good_cli = shipped_vec" using started_server(2) by (simp add: started_def)
  ultimately show ?thesis
    by (simp add: started_def opcli_job_def Let_def new_client_def shipped_vec_def cmdvec_slot_def node_codes cli_prefix_def)
qed

lemma new_client_fresh:
  "vnode new_client = node_view" "plain new_client" "zip_state new_client [] []" "session_ok shipped_vec new_client"
proof -
  have c: "vctx new_client = vctx (vty_create node_view CLI_HOST)"
    by (simp add: new_client_def opcli_out_frame option_init_frame)
  then show "vnode new_client = node_view" "plain new_client"
    by (simp_all add: vctx_def plain_def vty_create_def vty_new_init_def VTY_NORMAL_def VTY_MORE_def VTY_PRE_ESCAPE_def
        VTY_ESCAPE_def VTY_LITERAL_def)
  show z: "zip_state new_client [] []"
  proof -
    have "zip_state (vty_create node_view CLI_HOST) [] []"
      using zip_new_init [of node_view] by (simp add: vty_create_def zip_state_def)
    then show ?thesis by (simp add: new_client_def opcli_out_frame option_init_frame)
  qed
  have "session_ok shipped_vec (vty_create node_view CLI_HOST)"
    by (rule session_ok_create) (simp add: shipped_slot node_codes)
  then show "session_ok shipped_vec new_client" using session_ok_step c z by blast
qed

section \<open>Properties\<close>



text \<open>
  C18: start-up builds the command tree: when memory, the configuration and the sockets are available,
  \<^verbatim>\<open>opcli_init\<close> and \<^verbatim>\<open>opmgr_cmd_init\<close> return with, in each of the four nodes, exactly the commands of the tables
  with the words the format parser makes of them, each once and also in the node's hash table, and
  with the configured port modulo 65536.
\<close>

theorem opcli_start_up:
  assumes "ie_calloc en" and "ie_load en" and "ie_ip en = Some ip" and "0 \<le> ie_port en" and "ie_lock en"
    and "ie_hash en = (\<lambda>i. True)" and "ie_mem en = (\<lambda>c. True)" and "ie_node en" and "0 \<le> ie_usock en"
    and "ie_listen en" and "ie_threads en"
  shows "\<exists>cli cli'. opcli_init en = Some (Some cli) \<and> opmgr_cmd_init (\<lambda>c. True) ra True cli = Some cli' \<and>
    (\<forall>n<node_max. \<exists>es. cmd_node_vector (cli_vec cli') n = Some (map Some es) \<and> map cmd_row es = node_rows n \<and>
       dom (hash_abs cli_key (cli_hash cli' ! n)) = cli_key ` set es) \<and>
    unat (cli_port cli') = nat (ie_port en) mod 65536"
proof -
  obtain cli where c: "opcli_init en = Some (Some cli)" "cli_ok cli (map default_cmds [0..<node_max])"
    using init_spec [OF assms] by blast
  obtain cli' where c': "opmgr_cmd_init (\<lambda>c. True) ra True cli = Some cli'" "cli_ok cli' shipped_cmds"
    using opmgr_cmd_init_spec [OF c(2)] by blast
  have l: "length shipped_cmds = node_max" by (simp add: shipped_cmds_def)
  have "\<exists>es. cmd_node_vector (cli_vec cli') n = Some (map Some es) \<and> map cmd_row es = node_rows n \<and>
       dom (hash_abs cli_key (cli_hash cli' ! n)) = cli_key ` set es" if "n < node_max" for n
    using cli_ok_vec(3) [OF c'(2)] shipped_rows(1) [OF that] c'(2) that l
    by (intro exI [of _ "shipped_cmds ! n"]) (simp add: cli_ok_def node_ok_def)
  moreover have "unat (cli_port cli') = nat (ie_port en) mod 65536"
    using port_init [OF c(1)] port_table [OF c'(1) [unfolded opmgr_cmd_init_def]] assms(4)
    by (simp add: unat_eq_nat_uint uint_word_of_int nat_mod_distrib)
  ultimately show ?thesis using c(1) c'(1) by blast
qed

theorem opcli_start_up_witness:
  "\<exists>cli cli'. opcli_init good_env = Some (Some cli) \<and> opmgr_cmd_init (\<lambda>c. True) (\<lambda>n. True) True cli = Some cli' \<and>
    unat (cli_port cli') = 2000"
  using opcli_start_up [of good_env "''127.0.0.1''" "\<lambda>n. True"] by (auto simp: good_env_def)



text \<open>
  C17: typing command lines walks the node diagram: from an empty line in any node of the shipped
  tree, entering commands of the nodes passed leaves the terminal in the node the diagram gives,
  open and with an empty line again, through the editor, the splitting of the line, the
  selection among the installed commands and the callbacks.
\<close>

theorem cli_navigation_refines:
  assumes "session_ok shipped_vec v" and "plain v" and "zip_state v [] []" and "nav_path (vnode v) cs = Some m"
  shows "vnode (vty_read shipped_vec inet (opcli_call shipped_vec an) (typed_lines cs) v) = m \<and>
    vstatus (vty_read shipped_vec inet (opcli_call shipped_vec an) (typed_lines cs) v) = vstatus v \<and>
    zip_state (vty_read shipped_vec inet (opcli_call shipped_vec an) (typed_lines cs) v) [] []"
proof -
  obtain w where w: "\<forall>r. vty_read shipped_vec inet (opcli_call shipped_vec an) (typed_lines cs @ r) v =
      vty_read shipped_vec inet (opcli_call shipped_vec an) r w"
    "vnode w = m" "vstatus w = vstatus v" "zip_state w [] []"
    using navigation [OF assms, of inet an] by blast
  from w(1) [rule_format, of "[]"] w(2-4) show ?thesis by simp
qed

theorem cli_navigation_refines_witness:
  "vnode (vty_read shipped_vec (\<lambda>s. False) (opcli_call shipped_vec quiet)
     (typed_lines [''enable'', ''opmgr'', ''show cpu usage'', ''exit'', ''op4G'']) new_client) = node_op4g"
proof -
  have "nav_path (vnode new_client) [''enable'', ''opmgr'', ''show cpu usage'', ''exit'', ''op4G''] = Some node_op4g"
    unfolding new_client_fresh(1) by (simp add: node_rows_def base_rows_def nav_def) (simp add: node_codes)
  from cli_navigation_refines [OF new_client_fresh(4,2,3) this] show ?thesis by blast
qed



end
