(* ===== verification/Op_Parser.thy ===== *)
theory Op_Parser
  imports C_Text
begin

text \<open>
  The configuration file reader of \<^verbatim>\<open>src/opbox/parser.c\<close>: lines with continuations, comments, and their
  division into tokens.  A file system is a function from names to texts.  The result \<open>None\<close> of a reader
  is the crash on a continuation at the end of the file; the memory for lines and parsers is taken
  to be available, as the code does.
\<close>

section \<open>Reading lines\<close>

text \<open>
  A parser over an open file: \<open>p_fp\<close> is what is left of the file, \<open>p_fault\<close> is raised by an access
  outside the line buffer.
\<close>

record parser_t =
  p_fp :: string
  p_data :: "string option"
  p_line :: string
  p_lineno :: nat
  p_fault :: bool

abbreviation NL :: char where "NL \<equiv> CHR 0x0A"

definition config_open2 :: "(string \<Rightarrow> string option) \<Rightarrow> string \<Rightarrow> parser_t option" where
  "config_open2 fs filename =
     (case fs filename of
        None \<Rightarrow> None
      | Some text \<Rightarrow> Some \<lparr>p_fp = text, p_data = None, p_line = [], p_lineno = 0, p_fault = False\<rparr>)"

definition config_open :: "(string \<Rightarrow> string option) \<Rightarrow> string \<Rightarrow> parser_t option" where
  "config_open fs filename = config_open2 fs filename"

text \<open>\<^verbatim>\<open>getline\<close>: the next line with its newline, or \<open>None\<close> (\<^verbatim>\<open>-1\<close>) at the end of the file.\<close>

definition c_getline :: "string \<Rightarrow> (string \<times> string) option" where
  "c_getline s =
     (if s = [] then None
      else let l = takeWhile (\<lambda>c. c \<noteq> NL) s; r = dropWhile (\<lambda>c. c \<noteq> NL) s
           in Some (if r = [] then (l, []) else (l @ [NL], tl r)))"

lemma c_getline_shorter: "c_getline s = Some (l, r) \<Longrightarrow> length r < length s"
proof -
  assume g: "c_getline s = Some (l, r)"
  let ?d = "dropWhile (\<lambda>c. c \<noteq> NL) s"
  from g have "s \<noteq> []" "r = [] \<or> r = tl ?d" by (auto simp: c_getline_def Let_def split: if_splits)
  moreover have "length ?d \<le> length s" by (rule length_dropWhile_le)
  moreover have "length (tl ?d) = length ?d - 1" by simp
  ultimately show ?thesis by (cases s) (auto simp del: dropWhile.simps)
qed

text \<open>
  The loop of \<^verbatim>\<open>get_line_with_continuation\<close> on a line just read.  A backslash at the end of the
  last line makes \<^verbatim>\<open>nlen\<close>, which is unsigned, \<^verbatim>\<open>SIZE_MAX\<close>: the test \<^verbatim>\<open>nlen <= 0\<close> does not stop it and \<^verbatim>\<open>memcpy\<close> copies
  that many bytes; the result is \<open>None\<close> then.
\<close>

function continue_line :: "string \<Rightarrow> string \<Rightarrow> nat \<Rightarrow> (string \<times> string \<times> nat) option" where
  "continue_line line fp lineno =
     (let l1 = (if line \<noteq> [] \<and> last line = NL then butlast line else line) in
      if l1 = [] \<or> last l1 \<noteq> CHR 0x5C then Some (l1, fp, lineno + 1)
      else
        (case c_getline fp of
           None \<Rightarrow> None
         | Some (nline, fp1) \<Rightarrow> continue_line (butlast l1 @ nline) fp1 (lineno + 1)))"
  by pat_completeness auto
termination
  by (relation "measure (\<lambda>(line, fp, lineno). length fp)") (auto dest: c_getline_shorter)

declare continue_line.simps [simp del]

text \<open>
  \<^verbatim>\<open>get_line_with_continuation\<close>.  At the end of the file \<^verbatim>\<open>len\<close>, which is unsigned too, is \<^verbatim>\<open>SIZE_MAX\<close>: the function
  reads and writes just before the buffer, in bytes of the allocator that are no newline and no
  backslash, and the result converts to \<^verbatim>\<open>-1\<close>.
\<close>

definition get_line_with_continuation :: "parser_t \<Rightarrow> (int \<times> parser_t) option" where
  "get_line_with_continuation p =
     (case c_getline (p_fp p) of
        None \<Rightarrow> Some (- 1, p\<lparr>p_lineno := p_lineno p + 1, p_fault := True\<rparr>)
      | Some (line, fp) \<Rightarrow>
          (case continue_line line fp (p_lineno p) of
             None \<Rightarrow> None
           | Some (l, fp1, no) \<Rightarrow> Some (int (length l), p\<lparr>p_fp := fp1, p_line := l, p_lineno := no\<rparr>)))"

definition skip_non_whitespace :: "string \<Rightarrow> string" where
  "skip_non_whitespace s = dropWhile (\<lambda>c. c \<noteq> NUL \<and> c \<noteq> CHR '' '' \<and> \<not> (9 \<le> (of_char c :: nat) \<and> (of_char c :: nat) \<le> 13)) s"

definition skip_whitespace :: "string \<Rightarrow> string" where
  "skip_whitespace s = dropWhile (\<lambda>c. c = CHR '' '' \<or> (9 \<le> (of_char c :: nat) \<and> (of_char c :: nat) \<le> 13)) s"

section \<open>Tokens\<close>

definition PARSE_COLLAPSE :: u32 where "PARSE_COLLAPSE = 0x00010000"
definition PARSE_TRIM :: u32 where "PARSE_TRIM = 0x00020000"
definition PARSE_GREEDY :: u32 where "PARSE_GREEDY = 0x00040000"
definition PARSE_MIN_DIE :: u32 where "PARSE_MIN_DIE = 0x00100000"
definition PARSE_KEEP_COPY :: u32 where "PARSE_KEEP_COPY = 0x00200000"
definition PARSE_EOL_COMMENTS :: u32 where "PARSE_EOL_COMMENTS = 0x00400000"
definition PARSE_ALT_COMMENTS :: u32 where "PARSE_ALT_COMMENTS = 0x00800000"
definition PARSE_WS_COMMENTS :: u32 where "PARSE_WS_COMMENTS = 0x01000000"
definition PARSE_NORMAL :: u32 where
  "PARSE_NORMAL = PARSE_COLLAPSE OR PARSE_TRIM OR PARSE_GREEDY OR PARSE_EOL_COMMENTS"

definition flag_on :: "u32 \<Rightarrow> u32 \<Rightarrow> bool" where
  "flag_on flags f \<longleftrightarrow> flags AND f \<noteq> 0"

text \<open>
  One turn of the token loop on the rest of the line: the token, the rest after it, and
  whether the trimming of the last token ran out of it at the front.  \<open>greedy\<close> is the case of the last token
  under \<^verbatim>\<open>PARSE_GREEDY\<close>.
\<close>

definition pin_token :: "u32 \<Rightarrow> string \<Rightarrow> bool \<Rightarrow> string \<Rightarrow> string \<times> string \<times> bool" where
  "pin_token flags delims greedy line =
     (let eol = flag_on flags PARSE_EOL_COMMENTS;
          stop = (\<lambda>c. c \<in> set (if cur delims \<noteq> NUL \<and> eol then delims else tl delims));
          tok = (if \<not> greedy then takeWhile (\<lambda>c. \<not> stop c) line
                 else let seg = (if eol then takeWhile (\<lambda>c. c \<noteq> cur delims) line else line)
                      in if flag_on flags PARSE_TRIM then rev (dropWhile (\<lambda>c. c \<in> set (tl delims)) (rev seg)) else seg);
          r = drop (length tok) line;
          r1 = (if eol \<and> cur r = cur delims then [] else tl r);
          r2 = (if flag_on flags PARSE_COLLAPSE then dropWhile (\<lambda>c. c \<in> set (tl delims)) r1 else r1)
      in (tok, r2, greedy \<and> flag_on flags PARSE_TRIM \<and> tok = []))"

fun token_loop :: "u32 \<Rightarrow> string \<Rightarrow> nat \<Rightarrow> string \<Rightarrow> string list \<times> bool" where
  "token_loop flags delims 0 line = ([], False)"
| "token_loop flags delims (Suc left) line =
     (case pin_token flags delims (left = 0 \<and> flag_on flags PARSE_GREEDY) line of
        (tok, rest, bad) \<Rightarrow>
          if rest \<noteq> [] \<and> cur rest \<noteq> cur delims \<and> left \<noteq> 0
          then (case token_loop flags delims left rest of (toks, bad1) \<Rightarrow> (tok # toks, bad \<or> bad1))
          else ([tok], bad))"

lemma continue_line_shorter: "continue_line line fp no = Some (l, fp1, no1) \<Longrightarrow> length fp1 \<le> length fp"
proof (induction line fp no rule: continue_line.induct)
  case (1 line fp lineno)
  let ?l1 = "if line \<noteq> [] \<and> last line = NL then butlast line else line"
  show ?case
  proof (cases "?l1 = [] \<or> last ?l1 \<noteq> CHR 0x5C")
    case True
    then show ?thesis using "1.prems" by (subst (asm) continue_line.simps) (simp add: Let_def)
  next
    case False
    then obtain nline fp2 where g: "c_getline fp = Some (nline, fp2)"
      "continue_line (butlast ?l1 @ nline) fp2 (lineno + 1) = Some (l, fp1, no1)"
      using "1.prems" by (subst (asm) continue_line.simps) (auto simp: Let_def split: option.splits if_splits)
    then show ?thesis using "1.IH" [OF refl False g(1) refl g(2)] c_getline_shorter [OF g(1)] by simp
  qed
qed

lemma get_line_shorter:
  "get_line_with_continuation p = Some (ret, p1) \<Longrightarrow> \<not> ret < 0 \<Longrightarrow> length (p_fp p1) < length (p_fp p)"
  by (auto simp: get_line_with_continuation_def dest!: continue_line_shorter c_getline_shorter split: option.splits)

text \<open>\<^verbatim>\<open>config_read_ex\<close>: the number of tokens, the tokens and the parser afterwards.\<close>

function config_read_ex :: "parser_t \<Rightarrow> u32 \<Rightarrow> string \<Rightarrow> (nat \<times> string list \<times> parser_t) option" where
  "config_read_ex p flags delims0 =
     (let alt = (if flag_on flags PARSE_ALT_COMMENTS then cur delims0 else NUL);
          delims = (if flag_on flags PARSE_ALT_COMMENTS then tl delims0 else delims0);
          ntokens = unat (flags AND 0xFF);
          mintokens = unat (drop_bit 8 flags AND 0xFF)
      in case get_line_with_continuation p of
           None \<Rightarrow> None
         | Some (ret, p1) \<Rightarrow>
             if ret < 0 then Some (0, [], p1)
             else
               (let line = (if flag_on flags PARSE_TRIM
                            then dropWhile (\<lambda>c. c \<in> set (tl delims)) (c_string (p_line p1)) else c_string (p_line p1));
                    q = (if flag_on flags PARSE_WS_COMMENTS then skip_whitespace line else line)
                in if cur q = NUL \<or> cur q = cur delims \<or> cur q = alt then config_read_ex p1 flags delims0
                   else
                     (let p2 = (if flag_on flags PARSE_KEEP_COPY then p1\<lparr>p_data := Some line\<rparr> else p1);
                          (toks, bad) = token_loop flags delims ntokens line;
                          p3 = p2\<lparr>p_fault := (p_fault p2 \<or> bad)\<rparr>
                      in if length toks < mintokens then config_read_ex p3 flags delims0
                         else Some (length toks, toks, p3))))"
  by pat_completeness auto
termination
  by (relation "measure (\<lambda>(p, flags, delims). length (p_fp p))") (auto dest!: get_line_shorter)

declare config_read_ex.simps [simp del]

definition config_read :: "parser_t \<Rightarrow> nat \<Rightarrow> nat \<Rightarrow> string \<Rightarrow> u32 \<Rightarrow> (nat \<times> string list \<times> parser_t) option" where
  "config_read p mx mn str flags =
     config_read_ex p (flags OR push_bit 8 (of_nat mn AND 0xFF) OR (of_nat mx AND 0xFF)) str"

end
