(* ===== verification/Op_Cron.thy ===== *)
theory Op_Cron
  imports Op_Parser
begin

text \<open>
  The cron service of \<^verbatim>\<open>src/module/timer_service/timer_service.c\<close>: the fields of a crontab line, the loading of
  crontab files, and the turn of the timer thread that flags, starts and collects jobs.  The file
  system, the directory, \<^verbatim>\<open>localtime\<close>, \<^verbatim>\<open>vfork\<close> and \<^verbatim>\<open>waitpid\<close> are arguments; memory is taken to be available, as the code
  does.  The result \<open>None\<close> is a crash.
\<close>

section \<open>Data\<close>

text \<open>
  \<^verbatim>\<open>CronLine\<close>: the five tables \<^verbatim>\<open>cl_Dow\<close>, \<^verbatim>\<open>cl_Mons\<close>, \<^verbatim>\<open>cl_Hrs\<close>, \<^verbatim>\<open>cl_Days\<close>, \<^verbatim>\<open>cl_Mins\<close> are one region \<open>cl_tab\<close>, as they lie
  in the structure, because a negative number makes \<^verbatim>\<open>ParseField\<close> write in front of its table.  The first
  eight entries are the bytes of the pointer \<^verbatim>\<open>cl_shell\<close>, which is assigned after the fields are parsed.
\<close>

record CronLine =
  cl_cmd :: string
  cl_pid :: int
  cl_mailto :: "string option"
  cl_shell :: "string option"
  cl_tab :: "bool list"

record CronFile =
  cf_lines :: "CronLine list"
  cf_username :: string
  cf_wants_starting :: bool
  cf_has_running :: bool
  cf_deleted :: bool

definition CL_DOW :: nat where "CL_DOW = 8"
definition CL_MONS :: nat where "CL_MONS = 15"
definition CL_HRS :: nat where "CL_HRS = 27"
definition CL_DAYS :: nat where "CL_DAYS = 51"
definition CL_MINS :: nat where "CL_MINS = 83"
definition CL_END :: nat where "CL_END = 143"

lemmas cl_offsets = CL_DOW_def CL_MONS_def CL_HRS_def CL_DAYS_def CL_MINS_def CL_END_def

definition START_ME_NORMAL :: int where "START_ME_NORMAL = - 1"
definition MAXLINES :: nat where "MAXLINES = 65535"

definition DowAry :: string where "DowAry = ''sunmontuewedthufrisat''"

definition MonAry :: string where "MonAry = ''janfebmaraprmayjunjulaugsepoctnovdec''"

section \<open>Fields\<close>

text \<open>The remainder of the division of C, which truncates towards zero.\<close>

definition c_rem :: "int \<Rightarrow> int \<Rightarrow> int" where
  "c_rem a m = (if 0 \<le> a then a mod m else - ((- a) mod m))"

definition tab_set :: "nat \<Rightarrow> int \<Rightarrow> bool list \<Rightarrow> bool list" where
  "tab_set base n tab = tab[nat (int base + n) := True]"

text \<open>The \<^verbatim>\<open>do\<close> loop that fills the table; \<open>failsafe\<close> counts down from 1024.\<close>

fun fill_loop :: "nat \<Rightarrow> int \<Rightarrow> nat \<Rightarrow> int \<Rightarrow> int \<Rightarrow> int \<Rightarrow> int \<Rightarrow> bool list \<Rightarrow> bool \<times> bool list" where
  "fill_loop base m 0 n1 n2 s0 skip tab = (False, tab)"
| "fill_loop base m (Suc failsafe) n1 n2 s0 skip tab =
     (let n = c_rem (n1 + 1) m;
          s = s0 - 1;
          tab1 = (if s = 0 then tab_set base (c_rem n m) tab else tab);
          s1 = (if s = 0 then skip else s)
      in if failsafe = 0 then (False, tab1)
         else if n \<noteq> n2 then fill_loop base m failsafe n n2 s1 skip tab1
         else (True, tab1))"

definition c_tolower :: "char \<Rightarrow> char" where
  "c_tolower c = (if 65 \<le> (of_char c :: nat) \<and> (of_char c :: nat) \<le> 90 then char_of ((of_char c :: nat) + 32) else c)"

text \<open>
  The loop over the names: \<^verbatim>\<open>strncasecmp(ptr, &names[i], 3) == 0\<close>, in steps of three characters; the result is
  the number of the name.
\<close>

function find_name :: "string \<Rightarrow> nat \<Rightarrow> string \<Rightarrow> nat option" where
  "find_name names i ptr =
     (if names = [] then None
      else if map c_tolower (take 3 ptr) = map c_tolower (take 3 names) then Some (i div 3)
      else find_name (drop 3 names) (i + 3) ptr)"
  by pat_completeness auto
termination
  by (relation "measure (\<lambda>(names, i, ptr). length names)") auto

declare find_name.simps [simp del]

text \<open>
  The value at the cursor: \<^verbatim>\<open>*\<close>, a number or a name.  The result is \<open>None\<close> when there is none, else the
  rest and the new \<^verbatim>\<open>n1\<close> and \<^verbatim>\<open>n2\<close>.
\<close>

definition field_value ::
    "int \<Rightarrow> int \<Rightarrow> string option \<Rightarrow> string \<Rightarrow> int \<Rightarrow> int \<Rightarrow> (string \<times> int \<times> int) option" where
  "field_value m off names ptr n1 n2 =
     (if cur ptr = CHR ''*'' then Some (tl ptr, 0, m - 1)
      else if c_isdigit (cur ptr) then
        (case c_strtol ptr of
           (v, endp) \<Rightarrow> Some (if n1 < 0 then (endp, to_int32 (v + off), n2) else (endp, n1, to_int32 (v + off))))
      else
        (case names of
           None \<Rightarrow> None
         | Some nms \<Rightarrow>
             (case find_name nms 0 ptr of
                None \<Rightarrow> None
              | Some i \<Rightarrow> Some (if n1 < 0 then (drop 3 ptr, int i, n2) else (drop 3 ptr, n1, int i)))))"

lemma c_strto_shorter: "c_strto s = Some (g, n, r) \<Longrightarrow> length r \<le> length s"
proof -
  assume s: "c_strto s = Some (g, n, r)"
  let ?s1 = "dropWhile c_isspace s"
  let ?s2 = "if cur ?s1 = CHR ''-'' \<or> cur ?s1 = CHR ''+'' then tl ?s1 else ?s1"
  have "r = dropWhile c_isdigit ?s2" using s by (auto simp: c_strto_def Let_def split: if_splits)
  then have "length r \<le> length ?s2" using length_dropWhile_le [of c_isdigit ?s2] by simp
  also have "\<dots> \<le> length ?s1" by simp
  also have "\<dots> \<le> length s" by (rule length_dropWhile_le)
  finally show ?thesis .
qed

lemma c_strtol_shorter: "c_strtol s = (v, e) \<Longrightarrow> length e \<le> length s"
  using c_strto_shorter by (fastforce simp: c_strtol_def split: option.splits prod.splits)

lemma c_strtol_digit: "c_isdigit (cur s) \<Longrightarrow> c_strtol s = (v, e) \<Longrightarrow> length e < length s"
proof -
  assume d: "c_isdigit (cur s)" and e: "c_strtol s = (v, e)"
  obtain c cs where s: "s = c # cs" using d by (cases s) (auto simp: cur_def c_isdigit_def)
  then have c: "c_isdigit c" using d by (simp add: cur_def)
  have "e = dropWhile c_isdigit cs"
    using e c digit_not_space [OF c] s by (auto simp: c_strtol_def c_strto_def Let_def cur_def split: if_splits)
  then show ?thesis using s length_dropWhile_le [of c_isdigit cs] by simp
qed

lemma find_name_nonempty: "find_name names i ptr = Some k \<Longrightarrow> ptr \<noteq> []"
proof (induction names i ptr rule: find_name.induct)
  case (1 names i ptr)
  then show ?case by (subst (asm) (2) find_name.simps) (auto split: if_splits)
qed

lemma cur_nonempty: "cur s = CHR ''*'' \<Longrightarrow> s \<noteq> []"
  by (auto simp: cur_def)

lemma field_value_shorter: "field_value m off names ptr n1 n2 = Some (r, n1', n2') \<Longrightarrow> length r < length ptr"
  by (auto simp: field_value_def dest: c_strtol_digit find_name_nonempty cur_nonempty
      split: if_splits prod.splits option.splits)

text \<open>
  \<^verbatim>\<open>ParseField\<close> from the cursor on.  The first component of the result is false when the error message is logged;
  what the table has got by then stays in it.
\<close>

function parse_field ::
    "nat \<Rightarrow> int \<Rightarrow> int \<Rightarrow> string option \<Rightarrow> string \<Rightarrow> int \<Rightarrow> int \<Rightarrow> bool list \<Rightarrow> bool \<times> bool list" where
  "parse_field base m off names ptr n1 n2 tab =
     (case field_value m off names ptr n1 n2 of
        None \<Rightarrow> (False, tab)
      | Some (ptr1, n1', n2') \<Rightarrow>
          if cur ptr1 = CHR ''-'' \<and> n2' < 0 then parse_field base m off names (tl ptr1) n1' n2' tab
          else
            (let n2'' = (if n2' < 0 then n1' else n2');
                 (skip, ptr2) = (if cur ptr1 = CHR ''/'' then (case c_strtol (tl ptr1) of (v, e) \<Rightarrow> (to_int32 v, e))
                                 else (1, ptr1));
                 (ok, tab1) = fill_loop base m 1024 (n1' - 1) n2'' 1 skip tab
             in if \<not> ok then (False, tab1)
                else if cur ptr2 = CHR '','' then parse_field base m off names (tl ptr2) (- 1) (- 1) tab1
                else (ptr2 = [], tab1)))"
  by pat_completeness auto
termination
proof (relation "measure (\<lambda>(base, m, off, names, ptr, n1, n2, tab). length ptr)", goal_cases)
  case (2 base m off names ptr n1 n2 tab x a b aa ba)
  then show ?case by (auto dest!: field_value_shorter)
next
  case (3 base m off names ptr n1 n2 tab)
  then show ?case
    by (auto dest!: field_value_shorter c_strtol_shorter split: if_splits prod.splits)
qed simp

declare parse_field.simps [simp del]

definition ParseField :: "nat \<Rightarrow> int \<Rightarrow> int \<Rightarrow> string option \<Rightarrow> string \<Rightarrow> bool list \<Rightarrow> bool \<times> bool list" where
  "ParseField base modvalue off names ptr tab = parse_field base modvalue off names ptr (- 1) (- 1) tab"

definition tab_slice :: "nat \<Rightarrow> nat \<Rightarrow> bool list \<Rightarrow> bool list" where
  "tab_slice a b tab = take (b - a) (drop a tab)"

definition FixDayDow :: "bool list \<Rightarrow> bool list" where
  "FixDayDow tab =
     (let weekUsed = (False \<in> set (tab_slice CL_DOW CL_MONS tab));
          daysUsed = (False \<in> set (tab_slice CL_DAYS CL_MINS tab))
      in if weekUsed \<noteq> daysUsed then
           (if weekUsed then take CL_DAYS tab @ replicate 32 False @ drop CL_MINS tab
            else take CL_DOW tab @ replicate 7 False @ drop CL_MONS tab)
         else tab)"

section \<open>Loading\<close>

text \<open>
  \<^verbatim>\<open>delete_cronfile\<close>: the files of a name lose the lines that do not run; a file without running lines goes.
\<close>

definition delete_file :: "string \<Rightarrow> CronFile \<Rightarrow> CronFile option" where
  "delete_file userName file =
     (if userName = cf_username file then
        (let lines = filter (\<lambda>l. cl_pid l > 0) (cf_lines file) in
         if lines = [] then None
         else Some (file\<lparr>cf_lines := lines, cf_has_running := True, cf_deleted := True\<rparr>))
      else Some file)"

definition delete_cronfile :: "string \<Rightarrow> CronFile list \<Rightarrow> CronFile list" where
  "delete_cronfile userName files = List.map_filter (delete_file userName) files"

fun is_prefixed_with :: "string \<Rightarrow> string \<Rightarrow> string option" where
  "is_prefixed_with s [] = Some s"
| "is_prefixed_with s (k # ks) = (if cur s \<noteq> k then None else is_prefixed_with (tl s) ks)"

text \<open>The special entries: name, and the fields for hour, day, month and weekday; \<^verbatim>\<open>reboot\<close> has none.\<close>

definition SpecAry :: "(string \<times> (string \<times> string \<times> string \<times> string) option) list" where
  "SpecAry =
     [(''yearly'', Some (''0'', ''1'', ''1'', ''*'')), (''annually'', Some (''0'', ''1'', ''1'', ''*'')),
      (''monthly'', Some (''0'', ''1'', ''*'', ''*'')), (''weekly'', Some (''0'', ''*'', ''*'', ''0'')),
      (''daily'', Some (''0'', ''*'', ''*'', ''*'')), (''midnight'', Some (''0'', ''*'', ''*'', ''*'')),
      (''hourly'', Some (''*'', ''*'', ''*'', ''*'')), (''reboot'', None)]"

text \<open>
  What one line of a crontab asks for: nothing, the settings \<^verbatim>\<open>MAILTO\<close> and \<^verbatim>\<open>SHELL\<close>, a job at
  start-up, or a job with its five fields.
\<close>

datatype cron_entry =
    Entry_skip
  | Entry_mailto "string option"
  | Entry_shell string
  | Entry_reboot string
  | Entry_job string string string string string string

definition classify :: "nat \<Rightarrow> string list \<Rightarrow> string \<Rightarrow> cron_entry" where
  "classify n tokens data =
     (let t0 = tokens ! 0 in
      if is_prefixed_with t0 ''MAILTO='' \<noteq> None then
        Entry_mailto (if drop 7 t0 \<noteq> [] then Some (drop 7 t0) else None)
      else if is_prefixed_with t0 ''SHELL='' \<noteq> None then Entry_shell (drop 6 t0)
      else if cur t0 = CHR ''@'' then
        (if n < 2 then Entry_skip
         else
           (let command = skip_whitespace (skip_non_whitespace (skip_whitespace data)) in
            case map_of SpecAry (tl t0) of
              None \<Rightarrow> Entry_skip
            | Some None \<Rightarrow> Entry_reboot command
            | Some (Some (hr, dy, mo, wd)) \<Rightarrow> Entry_job ''0'' hr dy mo wd command))
      else if n < 6 then Entry_skip
      else Entry_job (tokens ! 0) (tokens ! 1) (tokens ! 2) (tokens ! 3) (tokens ! 4) (tokens ! 5))"

definition parse_fields :: "string \<Rightarrow> string \<Rightarrow> string \<Rightarrow> string \<Rightarrow> string \<Rightarrow> bool list" where
  "parse_fields mi hr dy mo wd =
     (let tab0 = replicate CL_END False;
          tab1 = snd (ParseField CL_MINS 60 0 None mi tab0);
          tab2 = snd (ParseField CL_HRS 24 0 None hr tab1);
          tab3 = snd (ParseField CL_DAYS 32 0 None dy tab2);
          tab4 = snd (ParseField CL_MONS 12 (- 1) (Some MonAry) mo tab3);
          tab5 = snd (ParseField CL_DOW 7 0 (Some DowAry) wd tab4)
      in FixDayDow tab5)"

text \<open>The loop of \<^verbatim>\<open>load_crontab\<close>, over the lines of the file; \<open>maxLines\<close> counts down from \<^verbatim>\<open>MAXLINES\<close>.\<close>

fun load_loop ::
    "nat \<Rightarrow> parser_t \<Rightarrow> string option \<Rightarrow> string option \<Rightarrow> CronFile \<Rightarrow> CronFile option" where
  "load_loop 0 p mailTo shell file = Some file"
| "load_loop (Suc maxLines) p mailTo shell file =
     (if maxLines = 0 then Some file
      else
        (case config_read p 6 1 (''# '' @ [CHR 0x09]) (PARSE_NORMAL OR PARSE_KEEP_COPY) of
           None \<Rightarrow> None
         | Some (n, tokens, p1) \<Rightarrow>
             if n = 0 then Some file
             else
               (let add = (\<lambda>l. cf_lines_update (\<lambda>ls. ls @ [l\<lparr>cl_mailto := mailTo, cl_shell := shell\<rparr>])) in
                case classify n tokens (the (p_data p1)) of
                  Entry_skip \<Rightarrow> load_loop maxLines p1 mailTo shell file
                | Entry_mailto to \<Rightarrow> load_loop maxLines p1 to shell file
                | Entry_shell sh \<Rightarrow> load_loop maxLines p1 mailTo (Some sh) file
                | Entry_reboot command \<Rightarrow>
                    load_loop maxLines p1 mailTo shell
                      (add \<lparr>cl_cmd = command, cl_pid = START_ME_NORMAL, cl_mailto = None, cl_shell = None,
                          cl_tab = replicate CL_END False\<rparr> (file\<lparr>cf_wants_starting := True\<rparr>))
                | Entry_job mi hr dy mo wd command \<Rightarrow>
                    load_loop maxLines p1 mailTo shell
                      (add \<lparr>cl_cmd = command, cl_pid = 0, cl_mailto = None, cl_shell = None,
                          cl_tab = parse_fields mi hr dy mo wd\<rparr> file))))"


text \<open>\<^verbatim>\<open>load_crontab\<close>: \<open>fs\<close> is the file system, \<open>stat_ok\<close> says whether \<^verbatim>\<open>fstat\<close> succeeds.\<close>

definition load_crontab ::
    "(string \<Rightarrow> string option) \<Rightarrow> bool \<Rightarrow> string \<Rightarrow> CronFile list \<Rightarrow> CronFile list option" where
  "load_crontab fs stat_ok fileName files =
     (let files1 = delete_cronfile fileName files in
      case config_open fs fileName of
        None \<Rightarrow> Some files1
      | Some p \<Rightarrow>
          if \<not> stat_ok then Some files1
          else
            (case load_loop MAXLINES p None None
                    \<lparr>cf_lines = [], cf_username = fileName, cf_wants_starting = False, cf_has_running = False,
                     cf_deleted = False\<rparr> of
               None \<Rightarrow> None
             | Some file \<Rightarrow> Some (file # files1)))"

text \<open>
  \<^verbatim>\<open>rescan_crontab_dir\<close>: first every file that is not marked deleted is deleted, starting again after
  each; then the directory is read.  \<open>dir\<close> is the list of its entries, \<open>None\<close> when it cannot be opened.
\<close>

definition undeleted :: "CronFile list \<Rightarrow> nat" where
  "undeleted files = length (filter (\<lambda>f. \<not> cf_deleted f) files)"

lemma delete_undeleted:
  "f \<in> set files \<Longrightarrow> \<not> cf_deleted f \<Longrightarrow> undeleted (delete_cronfile (cf_username f) files) < undeleted files"
proof (induction files)
  case (Cons g files)
  have le: "undeleted (delete_cronfile n fs) \<le> undeleted fs" for n fs
    by (induction fs) (auto simp: undeleted_def delete_cronfile_def delete_file_def Let_def List.map_filter_simps)
  show ?case
  proof (cases "f = g")
    case True
    then show ?thesis using Cons.prems le [of "cf_username g" files]
      by (auto simp: undeleted_def delete_cronfile_def delete_file_def Let_def List.map_filter_simps)
  next
    case False
    then show ?thesis using Cons
      by (auto simp: undeleted_def delete_cronfile_def delete_file_def Let_def List.map_filter_simps)
  qed
qed simp

function delete_all :: "CronFile list \<Rightarrow> CronFile list" where
  "delete_all files =
     (case find (\<lambda>f. \<not> cf_deleted f) files of
        None \<Rightarrow> files
      | Some f \<Rightarrow> delete_all (delete_cronfile (cf_username f) files))"
  by pat_completeness auto
termination
  by (relation "measure undeleted") (auto simp: find_Some_iff intro!: delete_undeleted)

declare delete_all.simps [simp del]

fun load_dir ::
    "(string \<Rightarrow> string option) \<Rightarrow> string \<Rightarrow> string list \<Rightarrow> CronFile list \<Rightarrow> CronFile list option" where
  "load_dir fs dir_name [] files = Some files"
| "load_dir fs dir_name (d # ds) files =
     (if CHR ''.'' \<in> set d then load_dir fs dir_name ds files
      else
        (case load_crontab fs True (take 495 (dir_name @ ''/'' @ d)) files of
           None \<Rightarrow> None
         | Some files1 \<Rightarrow> load_dir fs dir_name ds files1))"

definition rescan_crontab_dir ::
    "(string \<Rightarrow> string option) \<Rightarrow> string \<Rightarrow> string list option \<Rightarrow> CronFile list \<Rightarrow> CronFile list option" where
  "rescan_crontab_dir fs dir_name dir files =
     (case dir of None \<Rightarrow> None | Some ds \<Rightarrow> load_dir fs dir_name ds (delete_all files))"

section \<open>Running jobs\<close>

definition process_finished_job :: "CronLine \<Rightarrow> CronLine" where
  "process_finished_job line = line\<lparr>cl_pid := 0\<rparr>"

text \<open>
  \<^verbatim>\<open>start_one_job\<close> in the parent: \<open>pid\<close> is the result of \<^verbatim>\<open>vfork\<close>.  The first component is what the child
  executes, the shell and the command.
\<close>

definition default_shell :: string where "default_shell = ''/bin/bash''"

definition start_one_job :: "int \<Rightarrow> CronLine \<Rightarrow> (string \<times> string) list \<times> int \<times> CronLine" where
  "start_one_job pid line =
     (let shell = (case cl_shell line of Some sh \<Rightarrow> sh | None \<Rightarrow> default_shell);
          p = (if pid < 0 then 0 else pid)
      in (if pid < 0 then [] else [(shell, cl_cmd line)], p, line\<lparr>cl_pid := p\<rparr>))"

record tm =
  tm_min :: nat
  tm_hour :: nat
  tm_mday :: nat
  tm_mon :: nat
  tm_wday :: nat

definition line_matches :: "tm \<Rightarrow> CronLine \<Rightarrow> bool" where
  "line_matches ptm line \<longleftrightarrow>
     cl_tab line ! (CL_MINS + tm_min ptm) \<and> cl_tab line ! (CL_HRS + tm_hour ptm) \<and>
     (cl_tab line ! (CL_DAYS + tm_mday ptm) \<or> cl_tab line ! (CL_DOW + tm_wday ptm)) \<and>
     cl_tab line ! (CL_MONS + tm_mon ptm)"

definition flag_line :: "tm \<Rightarrow> CronLine \<Rightarrow> CronLine" where
  "flag_line ptm line = (if line_matches ptm line \<and> cl_pid line = 0 then line\<lparr>cl_pid := - 1\<rparr> else line)"

definition flag_file :: "tm \<Rightarrow> CronFile \<Rightarrow> CronFile" where
  "flag_file ptm file =
     (if cf_deleted file then file
      else file\<lparr>cf_lines := map (flag_line ptm) (cf_lines file),
                cf_wants_starting := (cf_wants_starting file \<or>
                  (\<exists>l\<in>set (cf_lines file). line_matches ptm l \<and> cl_pid l = 0))\<rparr>)"

text \<open>
  The loop of \<^verbatim>\<open>flag_starting_jobs\<close> over the minutes; \<open>localtime\<close> is that of the C library with the system's time zone.
\<close>

function flag_loop :: "(int \<Rightarrow> tm) \<Rightarrow> int \<Rightarrow> int \<Rightarrow> int \<Rightarrow> CronFile list \<Rightarrow> CronFile list" where
  "flag_loop localtime t t1 t2 files =
     (if t \<le> t2 then
        flag_loop localtime (t + 60) t1 t2 (if t \<le> t1 then files else map (flag_file (localtime t)) files)
      else files)"
  by pat_completeness auto
termination
  by (relation "measure (\<lambda>(lt, t, t1, t2, files). nat (t2 + 60 - t))") auto

declare flag_loop.simps [simp del]

definition flag_starting_jobs :: "(int \<Rightarrow> tm) \<Rightarrow> int \<Rightarrow> int \<Rightarrow> CronFile list \<Rightarrow> CronFile list" where
  "flag_starting_jobs localtime t1 t2 files = flag_loop localtime (t1 - c_rem t1 60) t1 t2 files"

text \<open>
  \<^verbatim>\<open>start_jobs\<close>: \<open>vfork k\<close> is the result of the \<open>k\<close>-th call of \<^verbatim>\<open>vfork\<close>.  The results are the lines, whether a job
  runs now, the number of calls so far and what was executed.
\<close>

fun start_lines ::
    "int \<Rightarrow> (nat \<Rightarrow> int) \<Rightarrow> nat \<Rightarrow> CronLine list \<Rightarrow> CronLine list \<times> bool \<times> nat \<times> (string \<times> string) list" where
  "start_lines wants vfork k [] = ([], False, k, [])"
| "start_lines wants vfork k (l # ls) =
     (if cl_pid l \<noteq> wants then (case start_lines wants vfork k ls of (ls', run, k', ex) \<Rightarrow> (l # ls', run, k', ex))
      else
        (case start_one_job (vfork k) l of
           (ex1, pid, l1) \<Rightarrow>
             (case start_lines wants vfork (Suc k) ls of (ls', run, k', ex) \<Rightarrow> (l1 # ls', pid > 0 \<or> run, k', ex1 @ ex))))"

fun start_jobs ::
    "int \<Rightarrow> (nat \<Rightarrow> int) \<Rightarrow> nat \<Rightarrow> CronFile list \<Rightarrow> CronFile list \<times> (string \<times> string) list" where
  "start_jobs wants vfork k [] = ([], [])"
| "start_jobs wants vfork k (f # fs) =
     (if \<not> cf_wants_starting f then (case start_jobs wants vfork k fs of (fs', ex) \<Rightarrow> (f # fs', ex))
      else
        (case start_lines wants vfork k (cf_lines f) of
           (ls, run, k', ex) \<Rightarrow>
             (case start_jobs wants vfork k' fs of
                (fs', ex') \<Rightarrow>
                  (f\<lparr>cf_lines := ls, cf_wants_starting := False, cf_has_running := (cf_has_running f \<or> run)\<rparr> # fs', ex @ ex'))))"

text \<open>\<^verbatim>\<open>check_completions\<close>: \<open>waitpid\<close> is its result for a process that is polled.\<close>

definition complete_line :: "(int \<Rightarrow> int) \<Rightarrow> CronLine \<Rightarrow> CronLine" where
  "complete_line waitpid l =
     (if cl_pid l \<le> 0 then l
      else (let r = waitpid (cl_pid l) in if r < 0 \<or> r = cl_pid l then process_finished_job l else l))"

definition complete_file :: "(int \<Rightarrow> int) \<Rightarrow> CronFile \<Rightarrow> CronFile" where
  "complete_file waitpid f =
     (if \<not> cf_has_running f then f
      else (let ls = map (complete_line waitpid) (cf_lines f)
            in f\<lparr>cf_lines := ls, cf_has_running := (\<exists>l\<in>set ls. cl_pid l > 0)\<rparr>))"

definition check_completions :: "(int \<Rightarrow> int) \<Rightarrow> CronFile list \<Rightarrow> nat \<times> CronFile list" where
  "check_completions waitpid files =
     (let fs = map (complete_file waitpid) files
      in (length (filter cf_has_running fs), fs))"

text \<open>
  One turn of \<^verbatim>\<open>timer_routine\<close> between the times \<open>t1\<close> and \<open>t2\<close>: what is executed, the new sleeping time and the files.
  \<open>rescan\<close> says whether a rescan is asked for.
\<close>

record timer_env =
  te_fs :: "string \<Rightarrow> string option"
  te_dir_name :: string
  te_dir :: "string list option"
  te_localtime :: "int \<Rightarrow> tm"
  te_vfork :: "nat \<Rightarrow> int"
  te_waitpid :: "int \<Rightarrow> int"

definition timer_turn ::
    "timer_env \<Rightarrow> int \<Rightarrow> int \<Rightarrow> bool \<Rightarrow> nat \<Rightarrow> CronFile list \<Rightarrow> ((string \<times> string) list \<times> nat \<times> CronFile list) option" where
  "timer_turn te t1 t2 rescan sleep_time files =
     (case (if rescan then rescan_crontab_dir (te_fs te) (te_dir_name te) (te_dir te) files else Some files) of
        None \<Rightarrow> None
      | Some files1 \<Rightarrow>
          (let dt = t2 - t1 in
           if dt < - 60 * 60 \<or> dt > 60 * 60 then Some ([], sleep_time, files1)
           else if dt > 0 then
             (let files2 = flag_starting_jobs (te_localtime te) t1 t2 files1;
                  (files3, ex) = start_jobs START_ME_NORMAL (te_vfork te) 0 files2;
                  (running, files4) = check_completions (te_waitpid te) files3
              in Some (ex, if running > 0 then 10 else 60, files4))
           else Some ([], sleep_time, files1)))"

text \<open>
  \<^verbatim>\<open>timer_service_init\<close>: \<open>conf\<close> is the directory in the configuration file, \<open>threads\<close> says whether the thread can be
  started.  The outer option is a crash, the inner one the returned pointer.
\<close>

definition timer_service_init ::
    "bool \<Rightarrow> string option \<Rightarrow> (string \<Rightarrow> string option) \<Rightarrow> (string \<Rightarrow> string list option) \<Rightarrow> bool \<Rightarrow>
     (string \<times> CronFile list) option option" where
  "timer_service_init load conf fs dirs threads =
     (if \<not> load then Some None
      else
        (case conf of
           None \<Rightarrow> Some None
         | Some str \<Rightarrow>
             (let dir_name = take 127 str in
              case rescan_crontab_dir fs dir_name (dirs dir_name) [] of
                None \<Rightarrow> None
              | Some files \<Rightarrow> if threads then Some (Some (dir_name, files)) else Some None)))"

end
