(* ===== verification/Cron_Fields.thy ===== *)
theory Cron_Fields
  imports Op_Cron
begin

text \<open>
  The fields of a crontab line: what a field says, how it is written, and that \<^verbatim>\<open>ParseField\<close> and
  \<^verbatim>\<open>FixDayDow\<close> set the tables of a line so that \<^verbatim>\<open>flag_starting_jobs\<close> finds exactly the times the fields
  say.
\<close>

section \<open>Filling a table\<close>

text \<open>The table with the positions of a set marked.\<close>

definition tab_or :: "bool list \<Rightarrow> nat set \<Rightarrow> bool list" where
  "tab_or tab S = map (\<lambda>j. tab ! j \<or> j \<in> S) [0..<length tab]"

lemma length_tab_or [simp]: "length (tab_or tab S) = length tab"
  by (simp add: tab_or_def)

lemma nth_tab_or [simp]: "j < length tab \<Longrightarrow> tab_or tab S ! j = (tab ! j \<or> j \<in> S)"
  by (simp add: tab_or_def)

lemma tab_or_empty [simp]: "tab_or tab {} = tab"
  by (simp add: tab_or_def map_nth)

lemma tab_or_tab_or [simp]: "tab_or (tab_or tab S) T = tab_or tab (S \<union> T)"
  by (intro nth_equalityI) auto

lemma tab_set_or: "tab_set base (int n) tab = tab_or tab {base + n}"
proof (rule nth_equalityI)
  show "tab_set base (int n) tab ! j = tab_or tab {base + n} ! j" if "j < length (tab_set base (int n) tab)" for j
    using that by (cases "j = base + n") (simp_all add: tab_set_def nat_int_add)
qed (simp add: tab_set_def)

text \<open>The positions from \<open>a\<close> on, \<open>d\<close> steps around the table of length \<open>m\<close>, every \<open>skip\<close>-th of them.\<close>

definition marks :: "nat \<Rightarrow> nat \<Rightarrow> nat \<Rightarrow> nat \<Rightarrow> nat \<Rightarrow> nat \<Rightarrow> nat set" where
  "marks base m a i d skip = {base + (a + k) mod m | k. i \<le> k \<and> k \<le> d \<and> skip dvd k}"

lemma marks_step:
  "i \<le> d \<Longrightarrow> marks base m a i d skip =
     (if skip dvd i then {base + (a + i) mod m} else {}) \<union> marks base m a (Suc i) d skip"
  unfolding marks_def by (auto simp: Suc_le_eq le_less)

lemma marks_end: "marks base m a (Suc d) d skip = {}"
  by (auto simp: marks_def)

lemma c_rem_int: "c_rem (int a) (int m) = int (a mod m)"
  by (simp add: c_rem_def zmod_int)

lemma c_rem_mod: "0 \<le> a \<Longrightarrow> c_rem a m = a mod m"
  by (simp add: c_rem_def)

lemma countdown:
  assumes "0 < (skip :: nat)"
  shows "(- int i) mod int skip = 0 \<longleftrightarrow> skip dvd i"
    "(- int i) mod int skip = 0 \<Longrightarrow> int skip - 1 = (- int (Suc i)) mod int skip"
    "(- int i) mod int skip \<noteq> 0 \<Longrightarrow> (- int i) mod int skip - 1 = (- int (Suc i)) mod int skip"
proof -
  show "(- int i) mod int skip = 0 \<longleftrightarrow> skip dvd i"
    by (simp add: mod_eq_0_iff_dvd)
  have m: "(- int (Suc i)) mod int skip = ((- int i) mod int skip - 1) mod int skip"
    by (simp only: mod_diff_left_eq) (simp add: minus_diff_commute)
  show "(- int i) mod int skip = 0 \<Longrightarrow> int skip - 1 = (- int (Suc i)) mod int skip"
    using assms by (simp only: m) (simp add: zmod_minus1)
  show "(- int i) mod int skip \<noteq> 0 \<Longrightarrow> (- int i) mod int skip - 1 = (- int (Suc i)) mod int skip"
    using assms pos_mod_bound [of "int skip" "- int i"] pos_mod_sign [of "int skip" "- int i"]
    by (simp only: m) (subst mod_pos_pos_trivial; linarith)
qed

lemma fill_step:
  assumes "0 < skip" "0 < m" "c_rem (n + 1) (int m) = int ((a + i) mod m)"
  shows "fill_loop base (int m) (Suc (Suc f)) n n2 (1 + (- int i) mod int skip) (int skip) tab =
    (let tab1 = (if skip dvd i then tab_or tab {base + (a + i) mod m} else tab)
     in if int ((a + i) mod m) \<noteq> n2
        then fill_loop base (int m) (Suc f) (int ((a + i) mod m)) n2 (1 + (- int (Suc i)) mod int skip) (int skip) tab1
        else (True, tab1))"
proof -
  let ?x = "(- int i) mod int skip"
  let ?n = "(a + i) mod m"
  have s: "(if 1 + ?x - 1 = 0 then int skip else 1 + ?x - 1) = 1 + (- int (Suc i)) mod int skip"
    using countdown [OF assms(1), of i] by (cases "?x = 0") simp_all
  have r: "c_rem (int ?n) (int m) = int ?n" by (simp add: c_rem_int del: of_nat_mod)
  have t: "(if 1 + ?x - 1 = 0 then tab_set base (c_rem (int ?n) (int m)) tab else tab) =
      (if skip dvd i then tab_or tab {base + ?n} else tab)"
    using countdown(1) [OF assms(1), of i] by (simp add: r tab_set_or del: of_nat_mod)
  show ?thesis unfolding fill_loop.simps assms(3) Let_def s t by simp
qed

lemma fill_spec:
  assumes "i \<le> d" "d < m" "0 < skip" "d - i + 1 < f"
    and "c_rem (n + 1) (int m) = int ((a + i) mod m)"
  shows "fill_loop base (int m) f n (int ((a + d) mod m)) (1 + (- int i) mod int skip) (int skip) tab =
    (True, tab_or tab (marks base m a i d skip))"
  using assms
proof (induction "d - i" arbitrary: i f n tab)
  case 0
  have i: "i = d" using 0 by simp
  have m: "0 < m" using 0 by simp
  obtain f' where f: "f = Suc (Suc f')" using 0 i by (auto simp: less_iff_Suc_add)
  show ?case
    unfolding f i using fill_step [OF 0(4) m 0(6) [unfolded i], of base f' "int ((a + d) mod m)" tab]
    by (simp add: marks_step marks_end del: of_nat_mod)
next
  case (Suc k)
  have lt: "i < d" and m: "0 < m" using Suc by simp_all
  obtain f' where f: "f = Suc (Suc f')" using Suc(6) by (auto simp: less_iff_Suc_add)
  have ne: "(a + i) mod m \<noteq> (a + d) mod m"
  proof
    assume "(a + i) mod m = (a + d) mod m"
    then have "m dvd (a + d) - (a + i)" using lt by (metis add_left_mono less_imp_le mod_eq_dvd_iff_nat)
    then have "m dvd d - i" by simp
    then show False using lt Suc(4) by (metis diff_le_self le_less_trans nat_dvd_not_less zero_less_diff)
  qed
  have n: "c_rem (int ((a + i) mod m) + 1) (int m) = int ((a + Suc i) mod m)"
  proof -
    have "int ((a + i) mod m) + 1 = int (Suc ((a + i) mod m))" by simp
    then show ?thesis by (simp only: c_rem_int) (simp add: mod_Suc_eq del: of_nat_mod of_nat_Suc)
  qed
  let ?tab = "if skip dvd i then tab_or tab {base + (a + i) mod m} else tab"
  have "fill_loop base (int m) (Suc f') (int ((a + i) mod m)) (int ((a + d) mod m)) (1 + (- int (Suc i)) mod int skip) (int skip) ?tab =
      (True, tab_or ?tab (marks base m a (Suc i) d skip))"
    by (rule Suc(1)) (use Suc lt n f in auto)
  moreover have "tab_or ?tab (marks base m a (Suc i) d skip) = tab_or tab (marks base m a i d skip)"
    using lt by (simp add: marks_step [of i])
  ultimately show ?case
    unfolding f using fill_step [OF Suc(5) m Suc(7), of base f' "int ((a + d) mod m)" tab] ne
    by (simp only: Let_def of_nat_eq_iff) simp
qed

section \<open>Crontab fields\<close>

text \<open>
  The fields a crontab can hold: a list of ranges, each with an optional step.  A value is written as a
  number or as the first three letters of a name.
\<close>

datatype cron_val = Num nat | Name string

datatype cron_range = Every | One cron_val | Span cron_val cron_val

type_synonym cron_item = "cron_range \<times> nat option"

fun val_text :: "cron_val \<Rightarrow> string" where
  "val_text (Num k) = dec_text k"
| "val_text (Name w) = w"

fun range_text :: "cron_range \<Rightarrow> string" where
  "range_text Every = ''*''"
| "range_text (One v) = val_text v"
| "range_text (Span v w) = val_text v @ ''-'' @ val_text w"

fun item_text :: "cron_item \<Rightarrow> string" where
  "item_text (r, None) = range_text r"
| "item_text (r, Some k) = range_text r @ ''/'' @ dec_text k"

fun field_text :: "cron_item list \<Rightarrow> string" where
  "field_text [] = []"
| "field_text [it] = item_text it"
| "field_text (it # its) = item_text it @ '','' @ field_text its"

text \<open>
  The position a value stands for in a table of length \<open>m\<close>: a number shifted by the offset, or the place
  of a name among the names, in upper or lower case.
\<close>

definition nth_name :: "string \<Rightarrow> nat \<Rightarrow> string" where
  "nth_name nms n = take 3 (drop (3 * n) nms)"

fun val_index :: "nat \<Rightarrow> int \<Rightarrow> string option \<Rightarrow> cron_val \<Rightarrow> nat option" where
  "val_index m off names (Num k) =
     (if 0 \<le> int k + off \<and> int k + off < int m then Some (nat (int k + off)) else None)"
| "val_index m off None (Name w) = None"
| "val_index m off (Some nms) (Name w) = find (\<lambda>n. nth_name nms n = map c_tolower w) [0..<m]"

text \<open>The positions of a range; a range whose end lies before its start goes on at the front of the table.\<close>

fun item_ok :: "nat \<Rightarrow> int \<Rightarrow> string option \<Rightarrow> cron_item \<Rightarrow> bool" where
  "item_ok m off names (r, st) \<longleftrightarrow>
     (case st of None \<Rightarrow> True | Some k \<Rightarrow> 0 < k \<and> k < 2 ^ 31) \<and>
     (case r of Every \<Rightarrow> True
      | One v \<Rightarrow> val_index m off names v \<noteq> None
      | Span v w \<Rightarrow> val_index m off names v \<noteq> None \<and> val_index m off names w \<noteq> None)"

fun item_set :: "nat \<Rightarrow> int \<Rightarrow> string option \<Rightarrow> cron_item \<Rightarrow> nat set" where
  "item_set m off names (r, st) =
     (let k = (case st of None \<Rightarrow> 1 | Some k \<Rightarrow> k) in
      case r of
        Every \<Rightarrow> {j. j < m \<and> k dvd j}
      | One v \<Rightarrow> {the (val_index m off names v)}
      | Span v w \<Rightarrow>
          (let a = the (val_index m off names v); b = the (val_index m off names w)
           in if a \<le> b then {j. a \<le> j \<and> j \<le> b \<and> k dvd j - a}
              else {j. a \<le> j \<and> j < m \<and> k dvd j - a} \<union> {j. j \<le> b \<and> k dvd j + m - a}))"

definition field_ok :: "nat \<Rightarrow> int \<Rightarrow> string option \<Rightarrow> cron_item list \<Rightarrow> bool" where
  "field_ok m off names its \<longleftrightarrow> its \<noteq> [] \<and> (\<forall>it\<in>set its. item_ok m off names it)"

definition field_set :: "nat \<Rightarrow> int \<Rightarrow> string option \<Rightarrow> cron_item list \<Rightarrow> nat set" where
  "field_set m off names its = (\<Union>it\<in>set its. item_set m off names it)"

section \<open>Reading a value\<close>

text \<open>What the tables of names must offer: three small letters each, no two alike.\<close>

definition small_letter :: "char \<Rightarrow> bool" where
  "small_letter c \<longleftrightarrow> c \<in> set ''abcdefghijklmnopqrstuvwxyz''"

definition names_ok :: "nat \<Rightarrow> string option \<Rightarrow> bool" where
  "names_ok m names \<longleftrightarrow>
     (case names of None \<Rightarrow> True
      | Some nms \<Rightarrow> length nms = 3 * m \<and> distinct (map (nth_name nms) [0..<m]) \<and>
          (\<forall>c\<in>set nms. small_letter c))"

lemma names_ok_shipped: "names_ok 12 (Some MonAry)" "names_ok 7 (Some DowAry)"
  unfolding names_ok_def small_letter_def MonAry_def DowAry_def by (simp; code_simp)+

lemma tolower_letter: "small_letter c \<Longrightarrow> c_tolower c = c"
  by (auto simp: c_tolower_def small_letter_def)

lemma letter_chars:
  assumes "small_letter (c_tolower c)"
  shows "c \<notin> set (''*-/, #@'' @ [NUL, CHR 0x0A, CHR 0x09, CHR 0x5C])" "\<not> c_isdigit c"
proof -
  have "\<forall>c\<in>set (''*-/, #@'' @ [NUL, CHR 0x0A, CHR 0x09, CHR 0x5C] @ ''0123456789''). \<not> small_letter (c_tolower c)"
    unfolding small_letter_def c_tolower_def by code_simp
  then show "c \<notin> set (''*-/, #@'' @ [NUL, CHR 0x0A, CHR 0x09, CHR 0x5C])" "\<not> c_isdigit c"
    using assms unfolding c_isdigit_def set_append by blast+
qed

lemma nth_name_chars: "set (nth_name nms n) \<subseteq> set nms"
  unfolding nth_name_def by (meson order_trans set_drop_subset set_take_subset)

lemma find_name_nth:
  assumes "length w = 3" "n < m" "length nms = 3 * m"
    "map c_tolower (nth_name nms n) = map c_tolower w"
    "\<forall>k<n. map c_tolower (nth_name nms k) \<noteq> map c_tolower w"
  shows "find_name nms i (w @ r) = Some ((i + 3 * n) div 3)"
  using assms
proof (induction n arbitrary: nms i m)
  case 0
  then show ?case by (subst find_name.simps) (auto simp: nth_name_def)
next
  case (Suc n)
  have ne: "map c_tolower (take 3 nms) \<noteq> map c_tolower w" using Suc.prems(5) by (auto simp: nth_name_def)
  have d: "nth_name (drop 3 nms) k = nth_name nms (Suc k)" for k by (simp add: nth_name_def add.commute)
  have "find_name (drop 3 nms) (i + 3) (w @ r) = Some ((i + 3 + 3 * n) div 3)"
    by (rule Suc.IH [of "m - 1"]) (use Suc.prems in \<open>auto simp: d\<close>)
  then show ?case using ne Suc.prems(1,2,3) by (subst find_name.simps) (auto simp: add.assoc)
qed

lemma find_upt: "find P [0..<m] = Some n \<Longrightarrow> n < m \<and> P n \<and> (\<forall>k<n. \<not> P k)"
  by (auto simp: find_Some_iff)

lemma name_value:
  assumes "names_ok m names" "val_index m off names (Name w) = Some n"
  shows "field_value (int m) off names (w @ r) n1 n2 = Some (if n1 < 0 then (r, int n, n2) else (r, n1, int n))"
    "length w = 3" "\<forall>c\<in>set w. small_letter (c_tolower c)"
proof -
  obtain nms where nms: "names = Some nms" using assms(2) by (cases names) auto
  have f: "n < m" "nth_name nms n = map c_tolower w" "\<forall>k<n. nth_name nms k \<noteq> map c_tolower w"
    using assms(2) find_upt [of "\<lambda>n. nth_name nms n = map c_tolower w" m n] by (auto simp: nms)
  have l: "length nms = 3 * m" "\<forall>c\<in>set nms. small_letter c"
    using assms(1) by (auto simp: names_ok_def nms)
  have low: "map c_tolower (nth_name nms k) = nth_name nms k" for k
    using nth_name_chars [of nms k] l(2) by (intro map_idI tolower_letter) auto
  show w: "length w = 3" using arg_cong [OF f(2), of length] f(1) l(1) by (simp add: nth_name_def)
  show c: "\<forall>c\<in>set w. small_letter (c_tolower c)"
  proof
    fix c assume "c \<in> set w"
    then have "c_tolower c \<in> set (nth_name nms n)" by (simp add: f(2))
    then show "small_letter (c_tolower c)" using nth_name_chars [of nms n] l(2) by blast
  qed
  have fn: "find_name nms 0 (w @ r) = Some n"
    using find_name_nth [OF w f(1) l(1), unfolded low, OF f(2,3), of 0 r] by simp
  obtain c cs where cs: "w = c # cs" using w by (cases w) auto
  have "cur (w @ r) \<noteq> CHR ''*''" "\<not> c_isdigit (cur (w @ r))"
    using letter_chars [of c] c by (auto simp: cs cur_def)
  then show "field_value (int m) off names (w @ r) n1 n2 = Some (if n1 < 0 then (r, int n, n2) else (r, n1, int n))"
    using w by (simp add: field_value_def nms fn)
qed

lemma to_int32_id: "- (2 ^ 31) \<le> x \<Longrightarrow> x < 2 ^ 31 \<Longrightarrow> to_int32 x = x"
  by (simp add: to_int32_def)

lemma value_read:
  assumes "names_ok m names" "val_index m off names v = Some n" "\<not> c_isdigit (cur r)" "m < 2 ^ 31" "\<bar>off\<bar> \<le> 1"
  shows "field_value (int m) off names (val_text v @ r) n1 n2 = Some (if n1 < 0 then (r, int n, n2) else (r, n1, int n))"
proof (cases v)
  case (Num k)
  have k: "int n = int k + off" "n < m" using assms(2) Num by (auto split: if_splits)
  have t: "c_strtol (dec_text k @ r) = (int k, r)" using k assms(3-5) by (intro c_strtol_text) auto
  obtain c cs where d: "dec_text k = c # cs" "c_isdigit c"
    using dec_text_digits [of k] by (cases "dec_text k") auto
  then have h: "cur (dec_text k @ r) = c" "c \<noteq> CHR ''*''" by (auto simp: cur_def c_isdigit_def)
  have i: "to_int32 (int k + off) = int n" using k assms(4,5) by (subst to_int32_id) auto
  show ?thesis using h d(2) by (simp add: field_value_def t i Num)
qed (use name_value [OF assms(1)] assms(2) in simp)

lemma val_index_less: "val_index m off names v = Some n \<Longrightarrow> n < m"
  by (cases "(m, off, names, v)" rule: val_index.cases) (auto simp: find_Some_iff split: if_splits)

section \<open>Reading a field\<close>

fun step_text :: "nat option \<Rightarrow> string" where
  "step_text None = []"
| "step_text (Some k) = ''/'' @ dec_text k"

fun step_of :: "nat option \<Rightarrow> nat" where
  "step_of None = 1"
| "step_of (Some k) = k"

lemma item_text_step: "item_text (r, st) = range_text r @ step_text st"
  by (cases st) simp_all

lemma item_start: "r = [] \<or> cur r = CHR '','' \<Longrightarrow>
    cur (step_text st @ r) \<noteq> CHR ''-'' \<and> \<not> c_isdigit (cur (step_text st @ r))"
  by (cases st; cases r) (auto simp: cur_def c_isdigit_def)

lemma fill_range:
  assumes "a < m" "b < m" "0 < k" "m \<le> 1000"
  shows "fill_loop base (int m) 1024 (int a - 1) (int b) 1 (int k) tab =
    (True, tab_or tab (marks base m a 0 ((b + m - a) mod m) k))"
proof -
  let ?d = "(b + m - a) mod m"
  have "(a + ?d) mod m = (a + (b + m - a)) mod m" by (simp add: mod_simps)
  also have "\<dots> = b" using assms by simp
  finally have e: "(a + ?d) mod m = b" .
  have d: "?d < m" using assms by simp
  have "fill_loop base (int m) 1024 (int a - 1) (int ((a + ?d) mod m)) (1 + (- int 0) mod int k) (int k) tab =
      (True, tab_or tab (marks base m a 0 ?d k))"
  proof (rule fill_spec [OF _ d assms(3)])
    show "?d - 0 + 1 < 1024" using d assms(4) by linarith
    show "c_rem (int a - 1 + 1) (int m) = int ((a + 0) mod m)" using assms(1) by (simp add: c_rem_def)
  qed simp
  then show ?thesis by (simp add: e)
qed

lemma parse_tail:
  assumes v: "field_value (int m) off names ptr n1 n2 = Some (step_text st @ r, int a, n2')"
    and n2: "n2' < 0 \<and> b = a \<or> n2' = int b" and ab: "a < m" "b < m" "m \<le> 1000"
    and st: "0 < step_of st" "step_of st < 2 ^ 31" and r: "r = [] \<or> cur r = CHR '',''"
  shows "parse_field base (int m) off names ptr n1 n2 tab =
    (let tab1 = tab_or tab (marks base m a 0 ((b + m - a) mod m) (step_of st))
     in if r \<noteq> [] then parse_field base (int m) off names (tl r) (- 1) (- 1) tab1 else (True, tab1))"
proof -
  have n2'': "(if n2' < 0 then int a else n2') = int b" using n2 by auto
  have s: "(if cur (step_text st @ r) = CHR ''/'' then (case c_strtol (tl (step_text st @ r)) of (v, e) \<Rightarrow> (to_int32 v, e))
        else (1, step_text st @ r)) = (int (step_of st), r)"
  proof (cases st)
    case None
    then show ?thesis using r by (auto simp: cur_def)
  next
    case (Some k)
    have d: "\<not> c_isdigit (cur r)" using r by (auto simp: cur_def c_isdigit_def)
    have "c_strtol (dec_text k @ r) = (int k, r)" by (rule c_strtol_text [OF _ d]) (use st Some in simp)
    then show ?thesis using st Some by (simp add: cur_def to_int32_id)
  qed
  have c: "cur r = CHR '','' \<longleftrightarrow> r \<noteq> []" using r by (auto simp: cur_def)
  show ?thesis
    by (subst parse_field.simps)
      (simp add: v item_start [OF r] n2'' s fill_range [OF ab(1,2) st(1) ab(3)] c Let_def del: of_nat_less_iff)
qed

lemma marks_image: "marks base m a 0 d k = (+) base ` {(a + i) mod m | i. i \<le> d \<and> k dvd i}"
  by (auto simp: marks_def)

lemma marks_range:
  assumes "a < m" "b < m" "0 < k"
  shows "marks base m a 0 ((b + m - a) mod m) k =
    (+) base ` (if a \<le> b then {j. a \<le> j \<and> j \<le> b \<and> k dvd j - a}
      else {j. a \<le> j \<and> j < m \<and> k dvd j - a} \<union> {j. j \<le> b \<and> k dvd j + m - a})"
proof (cases "a \<le> b")
  case True
  then have d: "(b + m - a) mod m = b - a" using assms by (simp add: mod_if)
  have "{(a + i) mod m | i. i \<le> b - a \<and> k dvd i} = {j. a \<le> j \<and> j \<le> b \<and> k dvd j - a}"
  proof (intro equalityI subsetI)
    fix j assume "j \<in> {j. a \<le> j \<and> j \<le> b \<and> k dvd j - a}"
    then show "j \<in> {(a + i) mod m | i. i \<le> b - a \<and> k dvd i}" using assms by (intro CollectI exI [of _ "j - a"]) auto
  qed (use True assms in auto)
  then show ?thesis using True by (simp add: marks_image d)
next
  case False
  then have d: "(b + m - a) mod m = b + m - a" using assms by simp
  have "{(a + i) mod m | i. i \<le> b + m - a \<and> k dvd i} =
      {j. a \<le> j \<and> j < m \<and> k dvd j - a} \<union> {j. j \<le> b \<and> k dvd j + m - a}" (is "?L = ?R")
  proof (intro equalityI subsetI)
    fix j assume "j \<in> ?L"
    then obtain i where i: "j = (a + i) mod m" "i \<le> b + m - a" "k dvd i" by blast
    show "j \<in> ?R"
    proof (cases "a + i < m")
      case False
      then have "j = a + i - m" using i False assms \<open>\<not> a \<le> b\<close> by (simp add: mod_if)
      moreover have "j \<le> b" "k dvd j + m - a" using calculation i False assms(1) by auto
      ultimately show ?thesis by simp
    qed (use i in auto)
  next
    fix j assume "j \<in> ?R"
    then consider "a \<le> j" "j < m" "k dvd j - a" | "j \<le> b" "k dvd j + m - a" by blast
    then show "j \<in> ?L"
    proof cases
      case 1
      then show ?thesis using False by (intro CollectI exI [of _ "j - a"]) auto
    next
      case 2
      then show ?thesis using False assms by (intro CollectI exI [of _ "j + m - a"]) auto
    qed
  qed
  then show ?thesis using False by (simp add: marks_image d)
qed

lemma parse_field_item:
  assumes ok: "item_ok m off names it" and nm: "names_ok m names" and m: "0 < m" "m \<le> 1000" and off: "\<bar>off\<bar> \<le> 1"
    and r: "r = [] \<or> cur r = CHR '',''"
  shows "parse_field base (int m) off names (item_text it @ r) (- 1) (- 1) tab =
    (let tab1 = tab_or tab ((+) base ` item_set m off names it)
     in if r \<noteq> [] then parse_field base (int m) off names (tl r) (- 1) (- 1) tab1 else (True, tab1))"
proof -
  obtain rg st where it: "it = (rg, st)" by fastforce
  have st: "0 < step_of st" "step_of st < 2 ^ 31" using ok by (cases st; simp add: it)+
  have stc: "(case st of None \<Rightarrow> 1 | Some k \<Rightarrow> k) = step_of st" by (cases st) simp_all
  have s: "\<not> c_isdigit (cur (step_text st @ r))" using item_start [OF r] by simp
  have rd: "field_value (int m) off names (val_text v @ q) n1 n2 = Some (if n1 < 0 then (q, int n, n2) else (q, n1, int n))"
    if "val_index m off names v = Some n" "\<not> c_isdigit (cur q)" for v n q n1 n2
    using value_read [OF nm that] m off by simp
  note tail = parse_tail [OF _ _ _ _ m(2) st r]
  show ?thesis
  proof (cases rg)
    case Every
    have "field_value (int m) off names (item_text it @ r) (- 1) (- 1) = Some (step_text st @ r, int 0, int (m - 1))"
      using m by (simp add: it item_text_step Every field_value_def cur_def of_nat_diff)
    from tail [OF this, of "m - 1"] show ?thesis
      using m st marks_range [of 0 m "m - 1" "step_of st" base] by (simp add: it Every stc Let_def Suc_le_eq less_Suc_eq_le [symmetric])
  next
    case (One v)
    then obtain n where n: "val_index m off names v = Some n" using ok by (auto simp: it)
    have "field_value (int m) off names (item_text it @ r) (- 1) (- 1) = Some (step_text st @ r, int n, - 1)"
      using rd [OF n s] by (simp add: it item_text_step One)
    moreover have "marks base m n 0 0 (step_of st) = {base + n}" using val_index_less [OF n] by (auto simp: marks_def)
    ultimately show ?thesis
      using tail [of off names "item_text it @ r" "- 1" "- 1" n "- 1" n base tab] val_index_less [OF n] n by (simp add: it One Let_def)
  next
    case (Span v w)
    then obtain a b where n: "val_index m off names v = Some a" "val_index m off names w = Some b" using ok by (auto simp: it)
    let ?q = "val_text w @ step_text st @ r"
    have f1: "field_value (int m) off names (item_text it @ r) (- 1) (- 1) = Some (''-'' @ ?q, int a, - 1)"
      using rd [OF n(1), of "''-'' @ ?q"] by (simp add: it item_text_step Span cur_def c_isdigit_def)
    have f2: "field_value (int m) off names ?q (int a) (- 1) = Some (step_text st @ r, int a, int b)"
      using rd [OF n(2) s] by simp
    have "parse_field base (int m) off names (item_text it @ r) (- 1) (- 1) tab =
        parse_field base (int m) off names ?q (int a) (- 1) tab"
      by (subst parse_field.simps) (simp add: f1 cur_def)
    with tail [OF f2, of b base tab] show ?thesis
      using st val_index_less [OF n(1)] val_index_less [OF n(2)] marks_range [of a m b "step_of st" base] n
      by (simp add: it Span stc Let_def)
  qed
qed

lemma field_text_Cons: "its \<noteq> [] \<Longrightarrow> field_text (it # its) = item_text it @ '','' @ field_text its"
  by (cases its) simp_all

lemma ParseField_text:
  assumes "field_ok m off names its" "names_ok m names" "0 < m" "m \<le> 1000" "\<bar>off\<bar> \<le> 1"
  shows "ParseField base (int m) off names (field_text its) tab = (True, tab_or tab ((+) base ` field_set m off names its))"
  unfolding ParseField_def using assms(1)
proof (induction its arbitrary: tab rule: field_text.induct)
  case (2 it)
  then show ?case using parse_field_item [OF _ assms(2-5), of it "[]" base tab] by (simp add: field_ok_def field_set_def)
next
  case (3 it it2 its)
  have ok: "item_ok m off names it" "field_ok m off names (it2 # its)" using "3.prems" by (auto simp: field_ok_def)
  show ?case
    using parse_field_item [OF ok(1) assms(2-5), of "'','' @ field_text (it2 # its)" base tab] "3.IH" [OF ok(2)]
    by (simp add: Let_def cur_def field_set_def image_Un image_UN)
qed (simp add: field_ok_def)

section \<open>The times of a line\<close>

record cron_spec =
  sp_min :: "cron_item list"
  sp_hour :: "cron_item list"
  sp_mday :: "cron_item list"
  sp_mon :: "cron_item list"
  sp_wday :: "cron_item list"

definition spec_ok :: "cron_spec \<Rightarrow> bool" where
  "spec_ok s \<longleftrightarrow> field_ok 60 0 None (sp_min s) \<and> field_ok 24 0 None (sp_hour s) \<and> field_ok 32 0 None (sp_mday s) \<and>
     field_ok 12 (- 1) (Some MonAry) (sp_mon s) \<and> field_ok 7 0 (Some DowAry) (sp_wday s)"

text \<open>
  The days of the month and of the week: when one of the two leaves nothing out and the other does,
  only the other counts; else either of the two is enough.
\<close>

definition mdays :: "cron_spec \<Rightarrow> nat set" where "mdays s = field_set 32 0 None (sp_mday s)"
definition wdays :: "cron_spec \<Rightarrow> nat set" where "wdays s = field_set 7 0 (Some DowAry) (sp_wday s)"

definition day_matches :: "cron_spec \<Rightarrow> nat \<Rightarrow> nat \<Rightarrow> bool" where
  "day_matches s d w \<longleftrightarrow>
     (if mdays s = {..<32} \<and> wdays s \<noteq> {..<7} then w \<in> wdays s
      else if mdays s \<noteq> {..<32} \<and> wdays s = {..<7} then d \<in> mdays s
      else d \<in> mdays s \<or> w \<in> wdays s)"

definition spec_matches :: "cron_spec \<Rightarrow> tm \<Rightarrow> bool" where
  "spec_matches s ptm \<longleftrightarrow>
     tm_min ptm \<in> field_set 60 0 None (sp_min s) \<and> tm_hour ptm \<in> field_set 24 0 None (sp_hour s) \<and>
     day_matches s (tm_mday ptm) (tm_wday ptm) \<and> tm_mon ptm \<in> field_set 12 (- 1) (Some MonAry) (sp_mon s)"

definition tm_ok :: "tm \<Rightarrow> bool" where
  "tm_ok ptm \<longleftrightarrow> tm_min ptm < 60 \<and> tm_hour ptm < 24 \<and> tm_mday ptm < 32 \<and> tm_mon ptm < 12 \<and> tm_wday ptm < 7"

definition spec_tab :: "cron_spec \<Rightarrow> bool list" where
  "spec_tab s = parse_fields (field_text (sp_min s)) (field_text (sp_hour s)) (field_text (sp_mday s))
     (field_text (sp_mon s)) (field_text (sp_wday s))"

lemma the_index_less: "val_index m off names v \<noteq> None \<Longrightarrow> the (val_index m off names v) < m"
  using val_index_less by auto

lemma item_set_less: "0 < m \<Longrightarrow> item_ok m off names it \<Longrightarrow> item_set m off names it \<subseteq> {..<m}"
  by (cases it; cases "fst it") (auto simp: Let_def simp del: not_None_eq dest!: the_index_less split: if_splits)

lemma field_set_less: "0 < m \<Longrightarrow> field_ok m off names its \<Longrightarrow> j \<in> field_set m off names its \<Longrightarrow> j < m"
  using item_set_less unfolding field_ok_def field_set_def by blast

text \<open>The five tables before the days are adjusted.\<close>

definition raw_set :: "cron_spec \<Rightarrow> nat set" where
  "raw_set s = (+) CL_MINS ` field_set 60 0 None (sp_min s) \<union> (+) CL_HRS ` field_set 24 0 None (sp_hour s) \<union>
     (+) CL_DAYS ` mdays s \<union> (+) CL_MONS ` field_set 12 (- 1) (Some MonAry) (sp_mon s) \<union> (+) CL_DOW ` wdays s"

definition raw_tab :: "cron_spec \<Rightarrow> bool list" where
  "raw_tab s = tab_or (replicate CL_END False) (raw_set s)"

lemma parse_fields_text: "spec_ok s \<Longrightarrow> spec_tab s = FixDayDow (raw_tab s)"
  using ParseField_text [of 60 0 None "sp_min s"] ParseField_text [of 24 0 None "sp_hour s"]
    ParseField_text [of 32 0 None "sp_mday s"] ParseField_text [of 12 "- 1" "Some MonAry" "sp_mon s"]
    ParseField_text [of 7 0 "Some DowAry" "sp_wday s"] names_ok_shipped
  by (simp add: spec_tab_def parse_fields_def spec_ok_def raw_tab_def raw_set_def names_ok_def [of _ None] Let_def
      mdays_def wdays_def Un_assoc)

lemma raw_set_at:
  assumes "spec_ok s"
  shows "j < 60 \<Longrightarrow> CL_MINS + j \<in> raw_set s \<longleftrightarrow> j \<in> field_set 60 0 None (sp_min s)"
    "j < 24 \<Longrightarrow> CL_HRS + j \<in> raw_set s \<longleftrightarrow> j \<in> field_set 24 0 None (sp_hour s)"
    "j < 32 \<Longrightarrow> CL_DAYS + j \<in> raw_set s \<longleftrightarrow> j \<in> mdays s"
    "j < 12 \<Longrightarrow> CL_MONS + j \<in> raw_set s \<longleftrightarrow> j \<in> field_set 12 (- 1) (Some MonAry) (sp_mon s)"
    "j < 7 \<Longrightarrow> CL_DOW + j \<in> raw_set s \<longleftrightarrow> j \<in> wdays s"
proof -
  have l: "j \<in> field_set 60 0 None (sp_min s) \<Longrightarrow> j < 60" "j \<in> field_set 24 0 None (sp_hour s) \<Longrightarrow> j < 24"
    "j \<in> mdays s \<Longrightarrow> j < 32" "j \<in> field_set 12 (- 1) (Some MonAry) (sp_mon s) \<Longrightarrow> j < 12" "j \<in> wdays s \<Longrightarrow> j < 7" for j
    using assms field_set_less by (auto simp: spec_ok_def mdays_def wdays_def)
  show "j < 60 \<Longrightarrow> CL_MINS + j \<in> raw_set s \<longleftrightarrow> j \<in> field_set 60 0 None (sp_min s)"
    "j < 24 \<Longrightarrow> CL_HRS + j \<in> raw_set s \<longleftrightarrow> j \<in> field_set 24 0 None (sp_hour s)"
    "j < 32 \<Longrightarrow> CL_DAYS + j \<in> raw_set s \<longleftrightarrow> j \<in> mdays s"
    "j < 12 \<Longrightarrow> CL_MONS + j \<in> raw_set s \<longleftrightarrow> j \<in> field_set 12 (- 1) (Some MonAry) (sp_mon s)"
    "j < 7 \<Longrightarrow> CL_DOW + j \<in> raw_set s \<longleftrightarrow> j \<in> wdays s"
    unfolding raw_set_def cl_offsets by (auto dest: l)
qed

lemma length_raw_tab: "length (raw_tab s) = CL_END"
  by (simp add: raw_tab_def)

lemma nth_raw_tab: "i < CL_END \<Longrightarrow> raw_tab s ! i \<longleftrightarrow> i \<in> raw_set s"
  by (simp add: raw_tab_def)

lemma slice_used:
  assumes "length tab = CL_END" "a + n \<le> CL_END" "S \<subseteq> {..<n}" "\<And>j. j < n \<Longrightarrow> tab ! (a + j) \<longleftrightarrow> j \<in> S"
  shows "False \<in> set (tab_slice a (a + n) tab) \<longleftrightarrow> S \<noteq> {..<n}"
proof -
  have "False \<in> set (tab_slice a (a + n) tab) \<longleftrightarrow> (\<exists>j<n. \<not> tab ! (a + j))"
    using assms(1,2) by (auto simp: tab_slice_def in_set_conv_nth)
  also have "\<dots> \<longleftrightarrow> S \<noteq> {..<n}" using assms(3,4) by auto
  finally show ?thesis .
qed

lemma used_days:
  assumes "spec_ok s"
  shows "False \<in> set (tab_slice CL_DOW CL_MONS (raw_tab s)) \<longleftrightarrow> wdays s \<noteq> {..<7}"
    "False \<in> set (tab_slice CL_DAYS CL_MINS (raw_tab s)) \<longleftrightarrow> mdays s \<noteq> {..<32}"
proof -
  have l: "wdays s \<subseteq> {..<7}" "mdays s \<subseteq> {..<32}"
    using assms field_set_less by (auto simp: spec_ok_def mdays_def wdays_def)
  have o: "CL_MONS = CL_DOW + 7" "CL_MINS = CL_DAYS + 32" "CL_DOW + 7 \<le> CL_END" "CL_DAYS + 32 \<le> CL_END" by (simp_all add: cl_offsets)
  show "False \<in> set (tab_slice CL_DOW CL_MONS (raw_tab s)) \<longleftrightarrow> wdays s \<noteq> {..<7}"
    unfolding o(1) using o(3) by (intro slice_used [OF length_raw_tab _ l(1)]) (simp_all add: nth_raw_tab raw_set_at(5) [OF assms])
  show "False \<in> set (tab_slice CL_DAYS CL_MINS (raw_tab s)) \<longleftrightarrow> mdays s \<noteq> {..<32}"
    unfolding o(2) using o(4) by (intro slice_used [OF length_raw_tab _ l(2)]) (simp_all add: nth_raw_tab raw_set_at(3) [OF assms])
qed

lemma length_FixDayDow: "length tab = CL_END \<Longrightarrow> length (FixDayDow tab) = CL_END"
  by (simp add: FixDayDow_def Let_def cl_offsets)

lemma line_matches_spec:
  assumes "spec_ok s" "tm_ok ptm" "cl_tab l = spec_tab s"
  shows "line_matches ptm l \<longleftrightarrow> spec_matches s ptm"
proof -
  note r = raw_set_at [OF assms(1)] nth_raw_tab [of _ s] length_raw_tab [of s]
  have t: "tm_min ptm < 60" "tm_hour ptm < 24" "tm_mday ptm < 32" "tm_mon ptm < 12" "tm_wday ptm < 7"
    using assms(2) by (simp_all add: tm_ok_def)
  consider "mdays s = {..<32}" "wdays s \<noteq> {..<7}" | "mdays s \<noteq> {..<32}" "wdays s = {..<7}"
    | "(mdays s = {..<32}) = (wdays s = {..<7})" by blast
  then show ?thesis
  proof cases
    case 1
    then have "spec_tab s = take CL_DAYS (raw_tab s) @ replicate 32 False @ drop CL_MINS (raw_tab s)"
      using used_days [OF assms(1)] by (simp add: parse_fields_text [OF assms(1)] FixDayDow_def Let_def)
    then show ?thesis using 1 t r
      by (simp add: line_matches_def spec_matches_def day_matches_def assms(3) nth_append cl_offsets)
  next
    case 2
    then have "spec_tab s = take CL_DOW (raw_tab s) @ replicate 7 False @ drop CL_MONS (raw_tab s)"
      using used_days [OF assms(1)] by (simp add: parse_fields_text [OF assms(1)] FixDayDow_def Let_def)
    then show ?thesis using 2 t r
      by (simp add: line_matches_def spec_matches_def day_matches_def assms(3) nth_append cl_offsets)
  next
    case 3
    then have "spec_tab s = raw_tab s"
      using used_days [OF assms(1)] by (auto simp: parse_fields_text [OF assms(1)] FixDayDow_def Let_def)
    then show ?thesis using 3 t r
      by (auto simp: line_matches_def spec_matches_def day_matches_def assms(3) cl_offsets)
  qed
qed

section \<open>Values outside of the table\<close>

lemma fill_never:
  assumes "0 < m" "int m \<le> n2"
  shows "c_rem (n + 1) (int m) = int ((a + i) mod m) \<Longrightarrow>
    fill_loop base (int m) (Suc f) n n2 1 1 tab = (False, tab_or tab ((\<lambda>k. base + (a + k) mod m) ` {i..i + f}))"
proof (induction f arbitrary: i n tab)
  case 0
  have r: "c_rem (int ((a + i) mod m)) (int m) = int ((a + i) mod m)" by (simp add: c_rem_int del: of_nat_mod)
  show ?case using 0 by (simp add: Let_def r tab_set_or del: of_nat_mod)
next
  case (Suc f)
  have n: "c_rem (int ((a + i) mod m) + 1) (int m) = int ((a + Suc i) mod m)"
  proof -
    have "int ((a + i) mod m) + 1 = int (Suc ((a + i) mod m))" by simp
    then show ?thesis by (simp only: c_rem_int) (simp add: mod_Suc_eq del: of_nat_mod of_nat_Suc)
  qed
  have ne: "int ((a + i) mod m) \<noteq> n2" using assms by (metis mod_less_divisor not_le of_nat_less_iff)
  have s: "{i..i + Suc f} = insert i {Suc i..Suc i + f}" by auto
  show ?case
    using fill_step [of 1 m n a i base f n2 tab] Suc.IH [OF n] ne Suc.prems assms(1) unfolding s
    by (simp del: of_nat_mod)
qed

lemma all_residues:
  assumes "0 < m" "m \<le> Suc f"
  shows "(\<lambda>k. (a + k) mod m) ` {0..0 + f} = {..<(m::nat)}"
proof
  show "{..<m} \<subseteq> (\<lambda>k. (a + k) mod m) ` {0..0 + f}"
  proof
    fix j assume j: "j \<in> {..<m}"
    let ?k = "(j + m - a mod m) mod m"
    have "(a + ?k) mod m = (a mod m + (j + m - a mod m)) mod m" by (simp add: mod_simps)
    also have "a mod m + (j + m - a mod m) = j + m" using mod_less_divisor [OF assms(1), of a] by simp
    also have "(j + m) mod m = j" using j by simp
    finally have "(a + ?k) mod m = j" .
    moreover have "?k \<le> f" using assms mod_less_divisor [OF assms(1), of "j + m - a mod m"] by linarith
    ultimately show "j \<in> (\<lambda>k. (a + k) mod m) ` {0..0 + f}" by (intro image_eqI [of _ _ ?k]) auto
  qed
qed (use assms in auto)

text \<open>
  C38: A field that names one number behind the end of its table is reported as an error, but only after
  every entry of the table is set: the line then runs at all of them.
\<close>

theorem ParseField_beyond_sets_all:
  assumes "m \<le> n" "0 < m" "m \<le> 1024" "n < 2 ^ 31"
  shows "ParseField base (int m) 0 names (dec_text n) tab = (False, tab_or tab ((+) base ` {..<m}))"
proof -
  obtain c cs where d: "dec_text n = c # cs" "c_isdigit c" using dec_text_digits [of n] by (cases "dec_text n") auto
  have t: "c_strtol (dec_text n) = (int n, [])"
    using c_strtol_text [of n "[]"] assms(4) by (simp add: cur_def c_isdigit_def)
  have "c \<noteq> CHR ''*''" using d(2) by (auto simp: c_isdigit_def)
  then have v: "field_value (int m) 0 names (dec_text n) (- 1) (- 1) = Some ([], int n, - 1)"
    using d t assms(4) by (simp add: field_value_def cur_def to_int32_id)
  have "(\<lambda>k. base + (n + k) mod m) ` {0..0 + 1023} = (+) base ` {..<m}"
    using arg_cong [OF all_residues [OF assms(2), of 1023 n], of "image ((+) base)"] assms(3) by (simp add: image_image)
  moreover have "c_rem (int n - 1 + 1) (int m) = int ((n + 0) mod m)" by (simp add: c_rem_def zmod_int)
  ultimately have "fill_loop base (int m) (Suc 1023) (int n - 1) (int n) 1 1 tab = (False, tab_or tab ((+) base ` {..<m}))"
    using fill_never [OF assms(2), of "int n" "int n - 1" n 0 base 1023 tab] assms(1) by simp
  then show ?thesis unfolding ParseField_def by (subst parse_field.simps) (simp add: v cur_def)
qed

theorem ParseField_beyond_sets_all_witness:
  "ParseField CL_MINS 60 0 None ''60'' (replicate CL_END False) =
     (False, tab_or (replicate CL_END False) ((+) CL_MINS ` {..<60}))"
proof -
  have "dec_text 60 = ''60''" by code_simp
  then show ?thesis using ParseField_beyond_sets_all [of 60 60 CL_MINS None "replicate CL_END False"] by simp
qed

end
