(* ===== verification/Cron_Files.thy ===== *)
theory Cron_Files
  imports Cron_Fields
begin

text \<open>
  Crontab files: what a file holds, how it is written, and that \<^verbatim>\<open>load_crontab\<close> reads it back; which
  jobs a turn of the timer thread starts.
\<close>

section \<open>Reading a crontab\<close>

abbreviation cron_delims :: string where "cron_delims \<equiv> ''# '' @ [CHR 0x09]"

definition cron_flags :: u32 where
  "cron_flags = (PARSE_NORMAL OR PARSE_KEEP_COPY) OR push_bit 8 (of_nat 1 AND 0xFF) OR (of_nat 6 AND 0xFF)"

lemma cron_flags_on:
  "flag_on cron_flags PARSE_COLLAPSE" "flag_on cron_flags PARSE_TRIM" "flag_on cron_flags PARSE_GREEDY"
  "flag_on cron_flags PARSE_EOL_COMMENTS" "flag_on cron_flags PARSE_KEEP_COPY"
  "\<not> flag_on cron_flags PARSE_ALT_COMMENTS" "\<not> flag_on cron_flags PARSE_WS_COMMENTS"
  "unat (cron_flags AND 0xFF) = 6" "unat (drop_bit 8 cron_flags AND 0xFF) = 1"
  unfolding flag_on_def cron_flags_def PARSE_NORMAL_def PARSE_COLLAPSE_def PARSE_TRIM_def PARSE_GREEDY_def
    PARSE_EOL_COMMENTS_def PARSE_KEEP_COPY_def PARSE_ALT_COMMENTS_def PARSE_WS_COMMENTS_def
  by code_simp+

lemma config_read_cron: "config_read p 6 1 cron_delims (PARSE_NORMAL OR PARSE_KEEP_COPY) = config_read_ex p cron_flags cron_delims"
  by (simp add: config_read_def cron_flags_def)

text \<open>A line the file holds: no newline in it, no end of string, no continuation.\<close>

definition line_ok :: "string \<Rightarrow> bool" where
  "line_ok l \<longleftrightarrow> NL \<notin> set l \<and> NUL \<notin> set l \<and> (l \<noteq> [] \<longrightarrow> last l \<noteq> CHR 0x5C)"

lemma getline_text: "NL \<notin> set l \<Longrightarrow> c_getline (l @ NL # rest) = Some (l @ [NL], rest)"
proof -
  assume "NL \<notin> set l"
  then have n: "x \<in> set l \<Longrightarrow> x \<noteq> NL" for x by auto
  show ?thesis using takeWhile_append2 [of l, OF n] dropWhile_append2 [of l, OF n] by (simp add: c_getline_def Let_def)
qed

lemma get_line_text:
  assumes "line_ok l" "p_fp p = l @ NL # rest"
  shows "get_line_with_continuation p =
    Some (int (length l), p\<lparr>p_fp := rest, p_line := l, p_lineno := p_lineno p + 1\<rparr>)"
proof -
  have "continue_line (l @ [NL]) rest (p_lineno p) = Some (l, rest, p_lineno p + 1)"
    using assms(1) by (subst continue_line.simps) (auto simp: line_ok_def Let_def)
  then show ?thesis using assms getline_text [of l rest] by (simp add: get_line_with_continuation_def line_ok_def)
qed

lemma c_string_id: "NUL \<notin> set l \<Longrightarrow> c_string l = l"
  by (auto simp: c_string_def takeWhile_eq_all_conv)

definition gap :: "char \<Rightarrow> bool" where "gap c \<longleftrightarrow> c = CHR '' '' \<or> c = CHR 0x09"

lemma gap_delims: "c \<in> set (tl cron_delims) \<longleftrightarrow> gap c" "c \<in> set cron_delims \<longleftrightarrow> gap c \<or> c = CHR ''#''"
  by (auto simp: gap_def)

lemma cur_append: "cur (l @ r) = (if l = [] then cur r else cur l)"
  by (cases l) (simp_all add: cur_def)

lemma cur_NUL: "NUL \<notin> set l \<Longrightarrow> cur l = NUL \<longleftrightarrow> l = []"
  by (cases l) (auto simp: cur_def)

lemma read_comment:
  assumes "line_ok l" "p_fp p = l @ NL # rest" "l = [] \<or> cur l = CHR ''#''"
  shows "config_read_ex p cron_flags cron_delims =
    config_read_ex (p\<lparr>p_fp := rest, p_line := l, p_lineno := p_lineno p + 1\<rparr>) cron_flags cron_delims"
proof -
  have "dropWhile (\<lambda>c. c = CHR '' '' \<or> c = CHR 0x09) l = l" using assms(3) by (cases l) (auto simp: cur_def)
  then show ?thesis
    using assms(1,3) get_line_text [OF assms(1,2)] c_string_id [of l]
    by (subst config_read_ex.simps) (auto simp: cron_flags_on Let_def line_ok_def cur_def)
qed

lemma read_tokens:
  assumes "line_ok l" "p_fp p = l @ NL # rest" "l \<noteq> []" "\<not> gap (cur l)" "cur l \<noteq> CHR ''#''"
    and "token_loop cron_flags cron_delims 6 l = (toks, bad)" "toks \<noteq> []"
  shows "config_read_ex p cron_flags cron_delims =
    Some (length toks, toks, p\<lparr>p_fp := rest, p_data := Some l, p_line := l, p_lineno := p_lineno p + 1, p_fault := p_fault p \<or> bad\<rparr>)"
proof -
  have d: "dropWhile (\<lambda>c. c = CHR '' '' \<or> c = CHR 0x09) l = l" using assms(3,4) by (cases l) (auto simp: cur_def gap_def)
  have n: "cur l \<noteq> NUL" using assms(1,3) by (simp add: cur_NUL line_ok_def)
  have c: "c_string l = l" using assms(1) by (simp add: c_string_id line_ok_def)
  have t: "\<not> length toks < 1" using assms(7) by (cases toks) auto
  show ?thesis
    using get_line_text [OF assms(1,2)] assms(5,6) d n t
    by (subst config_read_ex.simps) (simp add: cron_flags_on Let_def c cur_def)
qed

definition word_ok :: "string \<Rightarrow> bool" where
  "word_ok w \<longleftrightarrow> (\<forall>c\<in>set w. \<not> gap c \<and> c \<noteq> CHR ''#'')"

lemma pin_word:
  assumes "word_ok w" "r = [] \<or> \<not> gap (cur r)"
  shows "pin_token cron_flags cron_delims False (w @ CHR '' '' # r) = (w, r, False)"
    "pin_token cron_flags cron_delims False w = (w, [], False)"
proof -
  have t: "takeWhile (\<lambda>c. c \<noteq> CHR ''#'' \<and> c \<noteq> CHR '' '' \<and> c \<noteq> CHR 0x09) (w @ q) = w" if "q = [] \<or> gap (cur q)" for q
    using assms(1) that by (cases q) (auto simp: word_ok_def gap_def cur_def takeWhile_append2 takeWhile_tail)
  have d: "dropWhile (\<lambda>c. c = CHR '' '' \<or> c = CHR 0x09) r = r" using assms(2) by (cases r) (auto simp: gap_def cur_def)
  show "pin_token cron_flags cron_delims False (w @ CHR '' '' # r) = (w, r, False)"
    using t [of "CHR '' '' # r"] d by (simp add: pin_token_def cron_flags_on Let_def cur_def gap_def)
  show "pin_token cron_flags cron_delims False w = (w, [], False)"
    by (simp add: pin_token_def cron_flags_on Let_def cur_def t [of "[]", simplified append_Nil2 cur_def])
qed

definition command_ok :: "string \<Rightarrow> bool" where
  "command_ok c \<longleftrightarrow> c \<noteq> [] \<and> \<not> gap (cur c) \<and> \<not> gap (last c) \<and> last c \<noteq> CHR 0x5C \<and>
     (\<forall>x\<in>set c. x \<notin> {CHR ''#'', NUL, NL})"

lemma pin_command:
  assumes "command_ok c"
  shows "pin_token cron_flags cron_delims True c = (c, [], False)"
proof -
  have s: "takeWhile (\<lambda>x. x \<noteq> CHR ''#'') c = c" using assms by (auto simp: command_ok_def takeWhile_eq_all_conv)
  obtain x xs where x: "rev c = x # xs" using assms by (cases "rev c") (auto simp: command_ok_def)
  then have "last c = x" by (metis last_rev list.sel(1) rev_rev_ident hd_rev)
  then have "dropWhile (\<lambda>c. c = CHR '' '' \<or> c = CHR 0x09) (rev c) = rev c"
    using assms x by (simp add: command_ok_def gap_def)
  moreover have "\<exists>x\<in>set c. x \<noteq> CHR '' '' \<and> x \<noteq> CHR 0x09"
    using assms by (intro bexI [of _ "last c"]) (simp_all add: command_ok_def gap_def)
  ultimately show ?thesis by (simp add: pin_token_def cron_flags_on Let_def s cur_def)
qed

lemma loop_word:
  assumes "word_ok w" "r \<noteq> []" "\<not> gap (cur r)" "cur r \<noteq> CHR ''#''" "k \<noteq> 0"
  shows "token_loop cron_flags cron_delims (Suc k) (w @ CHR '' '' # r) =
    (case token_loop cron_flags cron_delims k r of (toks, bad) \<Rightarrow> (w # toks, bad))"
proof -
  have c: "cur cron_delims = CHR ''#''" by (simp add: cur_def)
  show ?thesis using assms pin_word(1) [of w r] by (simp add: c [simplified] split: prod.splits)
qed

lemma loop_last: "word_ok w \<Longrightarrow> k \<noteq> 0 \<Longrightarrow> token_loop cron_flags cron_delims (Suc k) w = ([w], False)"
  using pin_word(2) [of w "[]"] by simp

lemma loop_command: "command_ok c \<Longrightarrow> token_loop cron_flags cron_delims (Suc 0) c = ([c], False)"
  using pin_command [of c] by (simp add: cron_flags_on)

lemma token_loop_some: "token_loop fl d (Suc k) l = (toks, bad) \<Longrightarrow> toks \<noteq> []"
  by (auto split: prod.splits if_splits)

section \<open>Lines\<close>

text \<open>The lines of a crontab.\<close>

datatype cron_line =
    Comment string
  | Mailto string
  | Shell string
  | Job cron_spec string
  | Special string string

definition spec_text :: "cron_spec \<Rightarrow> string" where
  "spec_text s = field_text (sp_min s) @ '' '' @ field_text (sp_hour s) @ '' '' @ field_text (sp_mday s) @ '' '' @
     field_text (sp_mon s) @ '' '' @ field_text (sp_wday s)"

fun line_text :: "cron_line \<Rightarrow> string" where
  "line_text (Comment t) = ''#'' @ t"
| "line_text (Mailto t) = ''MAILTO='' @ t"
| "line_text (Shell t) = ''SHELL='' @ t"
| "line_text (Job s c) = spec_text s @ '' '' @ c"
| "line_text (Special n c) = ''@'' @ n @ '' '' @ c"

text \<open>The times of the special entries.\<close>

definition special_specs :: "(string \<times> cron_spec option) list" where
  "special_specs =
     (let at = (\<lambda>v. [(One (Num v), None)]); every = [(Every, None)];
          sp = (\<lambda>h d m w. Some \<lparr>sp_min = at 0, sp_hour = h, sp_mday = d, sp_mon = m, sp_wday = w\<rparr>)
      in [(''yearly'', sp (at 0) (at 1) (at 1) every), (''annually'', sp (at 0) (at 1) (at 1) every),
          (''monthly'', sp (at 0) (at 1) every every), (''weekly'', sp (at 0) every every (at 0)),
          (''daily'', sp (at 0) every every every), (''midnight'', sp (at 0) every every every),
          (''hourly'', sp every every every every), (''reboot'', None)])"

definition plain :: "char \<Rightarrow> bool" where
  "plain c \<longleftrightarrow> c \<noteq> NUL \<and> c \<noteq> CHR '' '' \<and> \<not> (9 \<le> (of_char c :: nat) \<and> (of_char c :: nat) \<le> 13)"

fun cron_line_ok :: "cron_line \<Rightarrow> bool" where
  "cron_line_ok (Comment t) = line_ok (''#'' @ t)"
| "cron_line_ok (Mailto t) = (line_ok t \<and> word_ok t)"
| "cron_line_ok (Shell t) = (line_ok t \<and> word_ok t)"
| "cron_line_ok (Job s c) = (spec_ok s \<and> command_ok c)"
| "cron_line_ok (Special n c) = (n \<in> fst ` set special_specs \<and> command_ok c \<and> plain (cur c))"

text \<open>The jobs of the lines, with the settings in force where they stand.\<close>

fun jobs_of :: "string option \<Rightarrow> string option \<Rightarrow> cron_line list \<Rightarrow> CronLine list" where
  "jobs_of mailTo shell [] = []"
| "jobs_of mailTo shell (Comment t # ls) = jobs_of mailTo shell ls"
| "jobs_of mailTo shell (Mailto t # ls) = jobs_of (if t = [] then None else Some t) shell ls"
| "jobs_of mailTo shell (Shell t # ls) = jobs_of mailTo (Some t) ls"
| "jobs_of mailTo shell (Job s c # ls) =
     \<lparr>cl_cmd = c, cl_pid = 0, cl_mailto = mailTo, cl_shell = shell, cl_tab = spec_tab s\<rparr> # jobs_of mailTo shell ls"
| "jobs_of mailTo shell (Special n c # ls) =
     (case the (map_of special_specs n) of
        None \<Rightarrow> \<lparr>cl_cmd = c, cl_pid = START_ME_NORMAL, cl_mailto = mailTo, cl_shell = shell, cl_tab = replicate CL_END False\<rparr>
      | Some s \<Rightarrow> \<lparr>cl_cmd = c, cl_pid = 0, cl_mailto = mailTo, cl_shell = shell, cl_tab = spec_tab s\<rparr>)
     # jobs_of mailTo shell ls"

fun at_reboot :: "cron_line \<Rightarrow> bool" where
  "at_reboot (Special n c) = (n = ''reboot'')"
| "at_reboot _ = False"

fun is_comment :: "cron_line \<Rightarrow> bool" where
  "is_comment (Comment t) = True"
| "is_comment _ = False"

definition crontab_text :: "cron_line list \<Rightarrow> string" where
  "crontab_text ls = concat (map (\<lambda>l. line_text l @ [NL]) ls)"

section \<open>Field texts are words\<close>

definition field_char :: "char \<Rightarrow> bool" where
  "field_char c \<longleftrightarrow> c \<in> set ''0123456789*-/,'' \<or> small_letter (c_tolower c)"

lemma field_char_word: "field_char c \<Longrightarrow> \<not> gap c \<and> c \<notin> {CHR ''#'', NUL, NL, CHR 0x5C, CHR ''@''}"
proof -
  assume "field_char c"
  then consider "c \<in> set ''0123456789*-/,''" | "small_letter (c_tolower c)" unfolding field_char_def by blast
  then show ?thesis
  proof cases
    case 1
    have "\<forall>c\<in>set ''0123456789*-/,''. \<not> gap c \<and> c \<notin> {CHR ''#'', NUL, NL, CHR 0x5C, CHR ''@''}"
      unfolding gap_def by code_simp
    then show ?thesis using 1 by blast
  qed (use letter_chars [of c] in \<open>auto simp: gap_def\<close>)
qed

lemma field_char_marks [simp]:
  "field_char (CHR ''*'')" "field_char (CHR ''-'')" "field_char (CHR ''/'')" "field_char (CHR '','')"
  by (simp_all add: field_char_def)

lemma dec_text_chars [simp]: "list_all field_char (dec_text k)"
proof -
  have "\<forall>c\<in>set ''0123456789''. field_char c" by (simp add: field_char_def)
  then show ?thesis using dec_text_digits(1) [of k] unfolding c_isdigit_def list_all_iff by blast
qed

lemma val_text_chars:
  assumes "names_ok m names" "val_index m off names v \<noteq> None"
  shows "list_all field_char (val_text v)"
proof (cases v)
  case (Name w)
  then show ?thesis using name_value(3) [OF assms(1)] assms(2) unfolding field_char_def list_all_iff by auto
qed simp

lemma item_text_chars:
  assumes "names_ok m names" "item_ok m off names it"
  shows "list_all field_char (item_text it)"
proof (cases it)
  case (Pair r st)
  have "list_all field_char (range_text r)"
    using assms(2) val_text_chars [OF assms(1), of off] by (cases r) (auto simp: Pair)
  moreover have "list_all field_char (step_text st)" by (cases st) simp_all
  ultimately show ?thesis by (simp only: Pair item_text_step list_all_append)
qed

lemma field_text_chars:
  assumes "names_ok m names" "field_ok m off names its"
  shows "list_all field_char (field_text its)"
  using assms(2)
proof (induction its rule: field_text.induct)
  case (3 it it2 its)
  then have "field_ok m off names (it2 # its)" "item_ok m off names it" by (auto simp: field_ok_def)
  then show ?case using 3 item_text_chars [OF assms(1), of off it] by (simp only: field_text.simps list_all_append) simp
qed (use item_text_chars [OF assms(1), of off] in \<open>simp_all add: field_ok_def\<close>)

lemma val_text_nonempty: "names_ok m names \<Longrightarrow> val_index m off names v \<noteq> None \<Longrightarrow> val_text v \<noteq> []"
  using name_value(2) dec_text_digits(2) by (cases v) fastforce+

lemma field_text_nonempty:
  assumes "names_ok m names" "field_ok m off names its"
  shows "field_text its \<noteq> []"
proof -
  obtain it its' where its: "its = it # its'" "item_ok m off names it"
    using assms(2) by (cases its) (auto simp: field_ok_def)
  then have "item_text it \<noteq> []"
    using val_text_nonempty [OF assms(1)] by (cases it; cases "fst it"; cases "snd it") (auto simp del: not_None_eq)
  then show ?thesis using its by (cases its') simp_all
qed

text \<open>A word that can start a line, or follow a blank.\<close>

definition head_word :: "string \<Rightarrow> bool" where
  "head_word w \<longleftrightarrow> w \<noteq> [] \<and> word_ok w \<and> NL \<notin> set w \<and> NUL \<notin> set w \<and> cur w \<noteq> CHR ''@''"

lemma field_word:
  assumes "names_ok m names" "field_ok m off names its"
  shows "head_word (field_text its)"
proof -
  have c: "\<forall>c\<in>set (field_text its). field_char c" using field_text_chars [OF assms] by (simp add: list_all_iff)
  have n: "field_text its \<noteq> []" using field_text_nonempty [OF assms] .
  then have "cur (field_text its) \<in> set (field_text its)" by (cases "field_text its") (simp_all add: cur_def)
  then show ?thesis using n c field_char_word unfolding head_word_def word_ok_def by blast
qed

lemma spec_words:
  assumes "spec_ok s"
  shows "head_word (field_text (sp_min s))" "head_word (field_text (sp_hour s))" "head_word (field_text (sp_mday s))"
    "head_word (field_text (sp_mon s))" "head_word (field_text (sp_wday s))"
proof -
  have n: "names_ok m None" for m by (simp add: names_ok_def)
  show "head_word (field_text (sp_min s))" "head_word (field_text (sp_hour s))" "head_word (field_text (sp_mday s))"
    "head_word (field_text (sp_mon s))" "head_word (field_text (sp_wday s))"
    using assms unfolding spec_ok_def
    by (auto intro: field_word [OF n] field_word [OF names_ok_shipped(1)] field_word [OF names_ok_shipped(2)])
qed

section \<open>Reading the lines\<close>

lemma minute_head:
  assumes "field_ok m off None its"
  shows "cur (field_text its) \<noteq> CHR ''M'' \<and> cur (field_text its) \<noteq> CHR ''S''"
proof -
  obtain it its' where its: "its = it # its'" "item_ok m off None it"
    using assms by (cases its) (auto simp: field_ok_def)
  obtain r st where it: "it = (r, st)" by fastforce
  have d: "c_isdigit (cur (dec_text k @ q))" for k q
    using dec_text_digits [of k] by (cases "dec_text k") (simp_all add: cur_def)
  have v: "c_isdigit (cur (val_text v @ q))" if "val_index m off None v \<noteq> None" for v q using that d by (cases v) auto
  have t: "cur (range_text r @ q) = CHR ''*'' \<or> c_isdigit (cur (range_text r @ q))" for q
    using its(2) v by (cases r) (simp_all add: it cur_def [of "_ # _"])
  have "\<exists>q. field_text its = range_text r @ q" using its(1) by (cases its') (simp_all add: it item_text_step)
  then obtain q where q: "field_text its = range_text r @ q" by blast
  show ?thesis using t [of q] unfolding q by (auto simp: c_isdigit_def)
qed

lemma not_prefixed: "cur s \<noteq> k \<Longrightarrow> is_prefixed_with s (k # ks) = None"
  by simp

lemma prefixed: "is_prefixed_with (k @ t) k = Some t"
  by (induction k) (simp_all add: cur_def)

lemma cur_word: "w \<noteq> [] \<Longrightarrow> cur (w @ r) = cur w"
  by (simp add: cur_append)

lemma head_word_cur: "head_word w \<Longrightarrow> \<not> gap (cur w) \<and> cur w \<noteq> CHR ''#''"
  by (cases w) (auto simp: head_word_def word_ok_def cur_def)

lemma command_cur: "command_ok c \<Longrightarrow> c \<noteq> [] \<and> \<not> gap (cur c) \<and> cur c \<noteq> CHR ''#''"
  by (cases c) (auto simp: command_ok_def cur_def)

lemma loop_head:
  assumes "head_word w" "head_word v \<or> command_ok v" "k \<noteq> 0"
  shows "token_loop cron_flags cron_delims (Suc k) (w @ CHR '' '' # v @ r) =
    (case token_loop cron_flags cron_delims k (v @ r) of (toks, bad) \<Rightarrow> (w # toks, bad))"
proof (rule loop_word)
  have "v \<noteq> []" "\<not> gap (cur v) \<and> cur v \<noteq> CHR ''#''"
    using assms(2) head_word_cur command_cur by (auto simp: head_word_def)
  then show "v @ r \<noteq> []" "\<not> gap (cur (v @ r))" "cur (v @ r) \<noteq> CHR ''#''" by (simp_all add: cur_word)
qed (use assms in \<open>simp_all add: head_word_def\<close>)

lemma job_tokens:
  assumes "spec_ok s" "command_ok c"
  shows "token_loop cron_flags cron_delims 6 (line_text (Job s c)) =
    ([field_text (sp_min s), field_text (sp_hour s), field_text (sp_mday s), field_text (sp_mon s), field_text (sp_wday s), c], False)"
proof -
  note w = spec_words [OF assms(1)]
  have six: "(6::nat) = Suc 5" "(5::nat) = Suc 4" "(4::nat) = Suc 3" "(3::nat) = Suc 2" "(2::nat) = Suc 1" "(1::nat) = Suc 0" by simp_all
  have k: "(5::nat) \<noteq> 0" "(4::nat) \<noteq> 0" "(3::nat) \<noteq> 0" "(2::nat) \<noteq> 0" "(1::nat) \<noteq> 0" by simp_all
  have e: "line_text (Job s c) = field_text (sp_min s) @ CHR '' '' # field_text (sp_hour s) @ CHR '' '' # field_text (sp_mday s) @
      CHR '' '' # field_text (sp_mon s) @ CHR '' '' # field_text (sp_wday s) @ CHR '' '' # c @ []"
    by (simp add: spec_text_def)
  have l1: "token_loop cron_flags cron_delims 1 (c @ []) = ([c], False)" using loop_command [OF assms(2)] by simp
  note l2 = loop_head [OF w(5) disjI2 [OF assms(2)] k(5), of "[]", unfolded l1, folded six(5)]
  note l3 = loop_head [OF w(4) disjI1 [OF w(5)] k(4), of "CHR '' '' # c @ []", unfolded l2, folded six(4)]
  note l4 = loop_head [OF w(3) disjI1 [OF w(4)] k(3), of "CHR '' '' # field_text (sp_wday s) @ CHR '' '' # c @ []", unfolded l3, folded six(3)]
  note l5 = loop_head [OF w(2) disjI1 [OF w(3)] k(2), of "CHR '' '' # field_text (sp_mon s) @ CHR '' '' # field_text (sp_wday s) @ CHR '' '' # c @ []", unfolded l4, folded six(2)]
  note l6 = loop_head [OF w(1) disjI1 [OF w(2)] k(1), of "CHR '' '' # field_text (sp_mday s) @ CHR '' '' # field_text (sp_mon s) @ CHR '' '' # field_text (sp_wday s) @ CHR '' '' # c @ []", unfolded l5, folded six(1)]
  show ?thesis unfolding e l6 by simp
qed

lemma job_line_ok:
  assumes "spec_ok s" "command_ok c"
  shows "line_ok (line_text (Job s c))"
proof -
  have "NL \<notin> set c" "NUL \<notin> set c" "c \<noteq> []" "last c \<noteq> CHR 0x5C" using assms(2) unfolding command_ok_def by blast+
  then show ?thesis using spec_words [OF assms(1)] by (simp add: line_ok_def head_word_def spec_text_def)
qed

lemma classify_job:
  assumes "spec_ok s"
  shows "classify 6 [field_text (sp_min s), field_text (sp_hour s), field_text (sp_mday s), field_text (sp_mon s), field_text (sp_wday s), c] d =
    Entry_job (field_text (sp_min s)) (field_text (sp_hour s)) (field_text (sp_mday s)) (field_text (sp_mon s)) (field_text (sp_wday s)) c"
proof -
  have "cur (field_text (sp_min s)) \<noteq> CHR ''M'' \<and> cur (field_text (sp_min s)) \<noteq> CHR ''S''"
    using assms minute_head [of 60 0 "sp_min s"] by (simp add: spec_ok_def)
  then show ?thesis using spec_words(1) [OF assms] by (simp add: classify_def Let_def head_word_def)
qed

lemma read_job:
  assumes "spec_ok s" "command_ok c" "p_fp p = line_text (Job s c) @ NL # rest"
  shows "\<exists>toks p1. config_read_ex p cron_flags cron_delims = Some (6, toks, p1) \<and> p_fp p1 = rest \<and>
    classify 6 toks (the (p_data p1)) = Entry_job (field_text (sp_min s)) (field_text (sp_hour s)) (field_text (sp_mday s))
      (field_text (sp_mon s)) (field_text (sp_wday s)) c"
proof -
  note w = spec_words(1) [OF assms(1)]
  have l: "line_text (Job s c) \<noteq> []" "\<not> gap (cur (line_text (Job s c)))" "cur (line_text (Job s c)) \<noteq> CHR ''#''"
    using w head_word_cur [OF w] by (simp_all add: spec_text_def head_word_def cur_word)
  show ?thesis
    using read_tokens [OF job_line_ok [OF assms(1,2)] assms(3) l job_tokens [OF assms(1,2)]] classify_job [OF assms(1), of c] by simp
qed

lemma read_setting:
  assumes "line_ok t" "word_ok t" "k = ''MAILTO='' \<or> k = ''SHELL=''" "p_fp p = (k @ t) @ NL # rest"
  shows "\<exists>p1. config_read_ex p cron_flags cron_delims = Some (1, [k @ t], p1) \<and> p_fp p1 = rest"
proof -
  have k: "word_ok k" "NL \<notin> set k" "NUL \<notin> set k" "last k = CHR ''=''" "k \<noteq> []" "cur k = CHR ''M'' \<or> cur k = CHR ''S''"
    using assms(3) by (elim disjE; simp add: word_ok_def gap_def cur_def)+
  have w: "word_ok (k @ t)" using assms(2) k(1) by (simp add: word_ok_def ball_Un)
  have l: "line_ok (k @ t)" using assms(1) k by (simp add: line_ok_def last_append)
  have c: "k @ t \<noteq> []" "\<not> gap (cur (k @ t))" "cur (k @ t) \<noteq> CHR ''#''"
    using k(5,6) by (simp, auto simp: cur_word gap_def)
  have six: "(6::nat) = Suc 5" by simp
  have "token_loop cron_flags cron_delims 6 (k @ t) = ([k @ t], False)" unfolding six by (rule loop_last [OF w]) simp
  from read_tokens [OF l assms(4) c this] show ?thesis by simp
qed

lemma dec_text_small: "dec_text 0 = ''0''" "dec_text (Suc 0) = ''1''"
  by code_simp+

lemma special_entry:
  assumes "n \<in> fst ` set special_specs"
  shows "head_word n" "\<forall>c\<in>set n. \<not> (9 \<le> (of_char c :: nat) \<and> (of_char c :: nat) \<le> 13)"
    "map_of SpecAry n = Some (map_option (\<lambda>s. (field_text (sp_hour s), field_text (sp_mday s), field_text (sp_mon s),
       field_text (sp_wday s))) (the (map_of special_specs n)))"
    "the (map_of special_specs n) = Some s \<Longrightarrow> spec_ok s \<and> field_text (sp_min s) = ''0''"
    "n = ''reboot'' \<longleftrightarrow> the (map_of special_specs n) = None"
proof -
  let ?P = "\<lambda>n. head_word n \<and> (\<forall>c\<in>set n. \<not> (9 \<le> (of_char c :: nat) \<and> (of_char c :: nat) \<le> 13))"
  have "list_all ?P (map fst special_specs)"
    by (simp add: special_specs_def Let_def head_word_def word_ok_def gap_def cur_def)
  then show "head_word n" "\<forall>c\<in>set n. \<not> (9 \<le> (of_char c :: nat) \<and> (of_char c :: nat) \<le> 13)"
    using assms by (auto simp: list_all_iff)
  let ?Q = "\<lambda>n. map_of SpecAry n = Some (map_option (\<lambda>s. (field_text (sp_hour s), field_text (sp_mday s), field_text (sp_mon s),
       field_text (sp_wday s))) (the (map_of special_specs n))) \<and> (n = ''reboot'' \<longleftrightarrow> the (map_of special_specs n) = None)"
  have "list_all ?Q (map fst special_specs)"
    by (simp add: special_specs_def Let_def SpecAry_def dec_text_small)
  then show "map_of SpecAry n = Some (map_option (\<lambda>s. (field_text (sp_hour s), field_text (sp_mday s), field_text (sp_mon s),
       field_text (sp_wday s))) (the (map_of special_specs n)))" "n = ''reboot'' \<longleftrightarrow> the (map_of special_specs n) = None"
    using assms by (auto simp: list_all_iff)
  let ?R = "\<lambda>n. case the (map_of special_specs n) of None \<Rightarrow> True | Some s \<Rightarrow> spec_ok s \<and> field_text (sp_min s) = ''0''"
  have "list_all ?R (map fst special_specs)"
    by (simp add: special_specs_def Let_def spec_ok_def field_ok_def dec_text_small)
  then show "the (map_of special_specs n) = Some s \<Longrightarrow> spec_ok s \<and> field_text (sp_min s) = ''0''"
    using assms by (auto simp: list_all_iff split: option.splits)
qed

lemma skip_words:
  assumes "\<forall>x\<in>set w. plain x" "w \<noteq> []" "plain (cur c)"
  shows "skip_whitespace (skip_non_whitespace (skip_whitespace (w @ CHR '' '' # c))) = c"
proof -
  have 1: "skip_whitespace (u @ r) = u @ r" if "u \<noteq> []" "plain (cur u)" for u r
    using that by (cases u) (auto simp: skip_whitespace_def plain_def cur_def)
  have "plain (cur w)" using assms(1,2) by (cases w) (simp_all add: cur_def)
  then have 2: "skip_whitespace (w @ CHR '' '' # c) = w @ CHR '' '' # c" using 1 assms(2) by blast
  have 3: "skip_non_whitespace (w @ CHR '' '' # c) = CHR '' '' # c"
    unfolding skip_non_whitespace_def using assms(1) by (subst dropWhile_append2) (auto simp: plain_def)
  have "c \<noteq> []" using assms(3) by (auto simp: plain_def cur_def)
  then have 4: "skip_whitespace (CHR '' '' # c) = c"
    using 1 [of c "[]"] assms(3) by (simp add: skip_whitespace_def)
  show ?thesis unfolding 2 3 4 ..
qed

lemma read_special:
  assumes "n \<in> fst ` set special_specs" "command_ok c" "plain (cur c)" "p_fp p = line_text (Special n c) @ NL # rest"
  shows "\<exists>k toks p1. config_read_ex p cron_flags cron_delims = Some (k, toks, p1) \<and> k \<noteq> 0 \<and> p_fp p1 = rest \<and>
    classify k toks (the (p_data p1)) =
      (case the (map_of special_specs n) of
         None \<Rightarrow> Entry_reboot c
       | Some s \<Rightarrow> Entry_job (field_text (sp_min s)) (field_text (sp_hour s)) (field_text (sp_mday s)) (field_text (sp_mon s))
           (field_text (sp_wday s)) c)"
proof -
  note n = special_entry [OF assms(1)]
  let ?l = "(CHR ''@'' # n) @ CHR '' '' # c"
  have t: "line_text (Special n c) = ?l" by simp
  have hw: "word_ok (CHR ''@'' # n)" "NL \<notin> set n" "NUL \<notin> set n" using n(1) by (auto simp: head_word_def word_ok_def gap_def)
  have l: "line_ok ?l" using assms(2) hw unfolding command_ok_def line_ok_def by auto
  have six: "(6::nat) = Suc (Suc 4)" by simp
  obtain toks bad where tk: "token_loop cron_flags cron_delims (Suc 4) c = (toks, bad)" by fastforce
  have ne: "toks \<noteq> []" using token_loop_some [OF tk] .
  have "token_loop cron_flags cron_delims 6 ?l = ((CHR ''@'' # n) # toks, bad)"
    unfolding six using loop_word [OF hw(1), of c "Suc 4"] command_cur [OF assms(2)] tk by simp
  from read_tokens [OF l assms(4) [unfolded t] _ _ _ this]
  have r: "config_read_ex p cron_flags cron_delims = Some (Suc (length toks), (CHR ''@'' # n) # toks,
      p\<lparr>p_fp := rest, p_data := Some ?l, p_line := ?l, p_lineno := p_lineno p + 1, p_fault := p_fault p \<or> bad\<rparr>)"
    by (simp add: cur_def gap_def)
  have c: "\<forall>x\<in>set (CHR ''@'' # n). plain x" using n(1,2) hw by (auto simp: plain_def word_ok_def gap_def)
  have "\<not> Suc (length toks) < 2" using ne by (cases toks) simp_all
  then have "classify (Suc (length toks)) ((CHR ''@'' # n) # toks) ?l =
      (case the (map_of special_specs n) of
         None \<Rightarrow> Entry_reboot c
       | Some s \<Rightarrow> Entry_job (field_text (sp_min s)) (field_text (sp_hour s)) (field_text (sp_mday s)) (field_text (sp_mon s))
           (field_text (sp_wday s)) c)"
    using skip_words [OF c _ assms(3)] n(3,4)
    by (cases "the (map_of special_specs n)") (auto simp: classify_def Let_def cur_def)
  then show ?thesis using r by simp
qed

section \<open>Loading\<close>

lemma read_eof: "p_fp p = [] \<Longrightarrow> \<exists>p1. config_read_ex p cron_flags cron_delims = Some (0, [], p1)"
  by (subst config_read_ex.simps) (simp add: get_line_with_continuation_def c_getline_def Let_def)

definition new_line :: "string option \<Rightarrow> string option \<Rightarrow> string \<Rightarrow> int \<Rightarrow> bool list \<Rightarrow> CronLine" where
  "new_line mailTo shell c pid tab = \<lparr>cl_cmd = c, cl_pid = pid, cl_mailto = mailTo, cl_shell = shell, cl_tab = tab\<rparr>"

definition add_line :: "CronLine \<Rightarrow> CronFile \<Rightarrow> CronFile" where
  "add_line l = cf_lines_update (\<lambda>ls. ls @ [l])"

lemma load_loop_read:
  assumes "config_read_ex p cron_flags cron_delims = Some (n, toks, p1)" "n \<noteq> 0" "mx \<noteq> 0"
  shows "load_loop (Suc mx) p mailTo shell file =
    (case classify n toks (the (p_data p1)) of
       Entry_skip \<Rightarrow> load_loop mx p1 mailTo shell file
     | Entry_mailto to \<Rightarrow> load_loop mx p1 to shell file
     | Entry_shell sh \<Rightarrow> load_loop mx p1 mailTo (Some sh) file
     | Entry_reboot c \<Rightarrow> load_loop mx p1 mailTo shell
         (add_line (new_line mailTo shell c START_ME_NORMAL (replicate CL_END False)) (file\<lparr>cf_wants_starting := True\<rparr>))
     | Entry_job mi hr dy mo wd c \<Rightarrow> load_loop mx p1 mailTo shell
         (add_line (new_line mailTo shell c 0 (parse_fields mi hr dy mo wd)) file))"
  unfolding load_loop.simps config_read_cron using assms
  by (simp add: Let_def add_line_def new_line_def split: cron_entry.split)

lemma load_loop_comment:
  "config_read_ex p cron_flags cron_delims = config_read_ex p1 cron_flags cron_delims \<Longrightarrow>
     load_loop mx p mailTo shell file = load_loop mx p1 mailTo shell file"
  by (cases mx; simp only: load_loop.simps config_read_cron)

lemma crontab_text_Cons: "crontab_text (l # ls) = line_text l @ NL # crontab_text ls"
  by (simp add: crontab_text_def)

definition entries :: "cron_line list \<Rightarrow> nat" where
  "entries ls = length (filter (\<lambda>l. \<not> is_comment l) ls)"

text \<open>A file with the lines of a crontab added.\<close>

definition loaded :: "string option \<Rightarrow> string option \<Rightarrow> cron_line list \<Rightarrow> CronFile \<Rightarrow> CronFile" where
  "loaded mailTo shell ls file = file\<lparr>cf_lines := cf_lines file @ jobs_of mailTo shell ls,
     cf_wants_starting := cf_wants_starting file \<or> (\<exists>l\<in>set ls. at_reboot l)\<rparr>"

lemma loaded_Nil: "loaded mailTo shell [] file = file"
  by (simp add: loaded_def)

lemma loaded_Cons:
  "loaded mailTo shell (Comment t # ls) file = loaded mailTo shell ls file"
  "loaded mailTo shell (Mailto t # ls) file = loaded (if t = [] then None else Some t) shell ls file"
  "loaded mailTo shell (Shell t # ls) file = loaded mailTo (Some t) ls file"
  "loaded mailTo shell (Job s c # ls) file = loaded mailTo shell ls (add_line (new_line mailTo shell c 0 (spec_tab s)) file)"
  "n \<in> fst ` set special_specs \<Longrightarrow> loaded mailTo shell (Special n c # ls) file =
     (case the (map_of special_specs n) of
        None \<Rightarrow> loaded mailTo shell ls
          (add_line (new_line mailTo shell c START_ME_NORMAL (replicate CL_END False)) (file\<lparr>cf_wants_starting := True\<rparr>))
      | Some s \<Rightarrow> loaded mailTo shell ls (add_line (new_line mailTo shell c 0 (spec_tab s)) file))"
  using special_entry(5) [of n]
  by (auto simp: loaded_def add_line_def new_line_def split: option.splits)

lemma load_lines:
  "\<forall>l\<in>set ls. cron_line_ok l \<Longrightarrow> p_fp p = crontab_text ls \<Longrightarrow> entries ls + 1 < mx \<Longrightarrow>
     load_loop mx p mailTo shell f = Some (loaded mailTo shell ls f)"
proof (induction ls arbitrary: p mx mailTo shell f)
  case Nil
  then obtain p1 where "config_read_ex p cron_flags cron_delims = Some (0, [], p1)" using read_eof [of p] by (auto simp: crontab_text_def)
  moreover obtain my where "mx = Suc my" "my \<noteq> 0" using Nil by (cases mx) auto
  ultimately show ?case by (simp only: load_loop.simps config_read_cron loaded_Nil) simp
next
  case (Cons l ls)
  note fp = Cons.prems(2) [unfolded crontab_text_Cons]
  have ls: "\<forall>l\<in>set ls. cron_line_ok l" and ok: "cron_line_ok l" using Cons.prems(1) by simp_all
  show ?case
  proof (cases "is_comment l")
    case True
    then obtain t where l: "l = Comment t" by (cases l) auto
    let ?p1 = "p\<lparr>p_fp := crontab_text ls, p_line := line_text l, p_lineno := p_lineno p + 1\<rparr>"
    have r: "config_read_ex p cron_flags cron_delims = config_read_ex ?p1 cron_flags cron_delims"
      by (rule read_comment [OF _ fp]) (use ok in \<open>auto simp: l cur_def\<close>)
    have "load_loop mx ?p1 mailTo shell f = Some (loaded mailTo shell ls f)"
      by (rule Cons.IH [OF ls]) (use Cons.prems(3) in \<open>simp_all add: entries_def l\<close>)
    then show ?thesis unfolding load_loop_comment [OF r] by (simp only: l loaded_Cons)
  next
    case False
    then obtain my where mx: "mx = Suc my" "my \<noteq> 0" "entries ls + 1 < my"
      using Cons.prems(3) by (cases mx) (auto simp: entries_def)
    note IH = Cons.IH [OF ls _ mx(3)]
    note step = load_loop_read [OF _ _ mx(2), folded mx(1)]
    show ?thesis
    proof (cases l)
      case (Mailto t)
      with ok fp obtain p1 where r: "config_read_ex p cron_flags cron_delims = Some (1, [''MAILTO='' @ t], p1)" "p_fp p1 = crontab_text ls"
        using read_setting [of t "''MAILTO=''" p "crontab_text ls"] by auto
      have "classify 1 [''MAILTO='' @ t] d = Entry_mailto (if t = [] then None else Some t)" for d
        using prefixed [of "''MAILTO=''" t] by (simp add: classify_def Let_def)
      then show ?thesis using step [OF r(1)] IH [OF r(2)] by (simp add: Mailto loaded_Cons)
    next
      case (Shell t)
      with ok fp obtain p1 where r: "config_read_ex p cron_flags cron_delims = Some (1, [''SHELL='' @ t], p1)" "p_fp p1 = crontab_text ls"
        using read_setting [of t "''SHELL=''" p "crontab_text ls"] by auto
      have "classify 1 [''SHELL='' @ t] d = Entry_shell t" for d
        using prefixed [of "''SHELL=''" t] by (simp add: classify_def Let_def cur_def)
      then show ?thesis using step [OF r(1)] IH [OF r(2)] by (simp add: Shell loaded_Cons)
    next
      case (Job s c)
      with ok fp read_job [of s c p "crontab_text ls"] show ?thesis using step IH
        by (auto simp: loaded_Cons spec_tab_def)
    next
      case (Special n c)
      have n: "n \<in> fst ` set special_specs" "command_ok c" "plain (cur c)" using ok by (simp_all add: Special)
      from read_special [OF n fp [unfolded Special]] obtain k toks p1 where
        r: "config_read_ex p cron_flags cron_delims = Some (k, toks, p1)" "k \<noteq> 0" "p_fp p1 = crontab_text ls"
        and c: "classify k toks (the (p_data p1)) =
          (case the (map_of special_specs n) of
             None \<Rightarrow> Entry_reboot c
           | Some s \<Rightarrow> Entry_job (field_text (sp_min s)) (field_text (sp_hour s)) (field_text (sp_mday s)) (field_text (sp_mon s))
               (field_text (sp_wday s)) c)" by blast
      show ?thesis using step [OF r(1,2)] IH [OF r(3)]
        by (cases "the (map_of special_specs n)") (simp_all add: Special c loaded_Cons(5) [OF n(1)] spec_tab_def)
    qed (use False in simp)
  qed
qed

definition empty_file :: "string \<Rightarrow> CronFile" where
  "empty_file name = \<lparr>cf_lines = [], cf_username = name, cf_wants_starting = False, cf_has_running = False, cf_deleted = False\<rparr>"

lemma load_crontab_text:
  assumes "\<forall>l\<in>set ls. cron_line_ok l" "fs name = Some (crontab_text ls)" "entries ls + 1 < MAXLINES"
  shows "load_crontab fs True name files = Some (loaded None None ls (empty_file name) # delete_cronfile name files)"
proof -
  let ?p = "\<lparr>p_fp = crontab_text ls, p_data = None, p_line = [], p_lineno = 0, p_fault = False\<rparr>"
  have "load_loop MAXLINES ?p None None (empty_file name) = Some (loaded None None ls (empty_file name))"
    by (rule load_lines [OF assms(1) _ assms(3)]) simp
  then show ?thesis by (simp add: load_crontab_def config_open_def config_open2_def assms(2) empty_file_def Let_def)
qed

section \<open>Flagging\<close>

text \<open>The files with the dormant lines that are due marked to start.\<close>

definition flag_due :: "(CronLine \<Rightarrow> bool) \<Rightarrow> CronFile \<Rightarrow> CronFile" where
  "flag_due due file =
     (if cf_deleted file then file
      else file\<lparr>cf_lines := map (\<lambda>l. if due l \<and> cl_pid l = 0 then l\<lparr>cl_pid := - 1\<rparr> else l) (cf_lines file),
                cf_wants_starting := cf_wants_starting file \<or> (\<exists>l\<in>set (cf_lines file). due l \<and> cl_pid l = 0)\<rparr>)"

lemma flag_file_due: "flag_file ptm = flag_due (line_matches ptm)"
  by (rule ext) (simp add: flag_file_def flag_due_def flag_line_def [abs_def])

lemma flag_due_comp:
  assumes "\<And>l x. due2 (l\<lparr>cl_pid := x\<rparr>) = due2 l"
  shows "flag_due due2 (flag_due due1 file) = flag_due (\<lambda>l. due1 l \<or> due2 l) file"
proof -
  let ?m = "\<lambda>due l. if due l \<and> cl_pid l = 0 then l\<lparr>cl_pid := - 1\<rparr> else l"
  have m: "?m due2 (?m due1 l) = ?m (\<lambda>l. due1 l \<or> due2 l) l" for l by simp
  have w: "(due1 l \<and> cl_pid l = 0) \<or> (due2 (?m due1 l) \<and> cl_pid (?m due1 l) = 0) \<longleftrightarrow> (due1 l \<or> due2 l) \<and> cl_pid l = 0" for l
    using assms by auto
  have "(\<exists>l\<in>set ls. due1 l \<and> cl_pid l = 0) \<or> (\<exists>l\<in>?m due1 ` set ls. due2 l \<and> cl_pid l = 0) \<longleftrightarrow>
      (\<exists>l\<in>set ls. (due1 l \<or> due2 l) \<and> cl_pid l = 0)" for ls
    unfolding w [symmetric] by blast
  then show ?thesis unfolding flag_due_def by (simp add: m comp_def disj_assoc)
qed

lemma flag_due_none: "flag_due (\<lambda>l. False) file = file"
  by (simp add: flag_due_def)

lemma line_matches_pid: "line_matches ptm (l\<lparr>cl_pid := x\<rparr>) = line_matches ptm l"
  by (simp add: line_matches_def)

lemma flag_loop_due:
  "60 dvd t \<Longrightarrow> flag_loop lt t t1 t2 files =
     map (flag_due (\<lambda>l. \<exists>u. t \<le> u \<and> t1 < u \<and> u \<le> t2 \<and> 60 dvd u \<and> line_matches (lt u) l)) files"
proof (induction lt t t1 t2 files rule: flag_loop.induct)
  case (1 lt t t1 t2 files)
  let ?D = "\<lambda>t l. \<exists>u. t \<le> u \<and> t1 < u \<and> u \<le> t2 \<and> 60 dvd u \<and> line_matches (lt u) l"
  show ?case
  proof (cases "t \<le> t2")
    case True
    have next_min: "60 dvd u \<and> t \<le> u \<longleftrightarrow> u = t \<or> 60 dvd u \<and> t + 60 \<le> u" for u
      using "1.prems" by (auto elim!: dvdE)
    have D: "?D t l \<longleftrightarrow> t1 < t \<and> line_matches (lt t) l \<or> ?D (t + 60) l" for l
      using next_min True by (metis (no_types, opaque_lifting))
    have IH: "flag_loop lt (t + 60) t1 t2 (if t \<le> t1 then files else map (flag_file (lt t)) files) =
        map (flag_due (?D (t + 60))) (if t \<le> t1 then files else map (flag_file (lt t)) files)"
      by (rule "1.IH" [OF True]) (use "1.prems" in simp)
    have c: "flag_due (?D (t + 60)) (flag_due (line_matches (lt t)) f) = flag_due (\<lambda>l. line_matches (lt t) l \<or> ?D (t + 60) l) f" for f
      by (rule flag_due_comp) (simp add: line_matches_pid)
    show ?thesis
    proof (cases "t \<le> t1")
      case True
      then have "?D t = ?D (t + 60)" using D by auto
      then show ?thesis using IH \<open>t \<le> t2\<close> True by (subst flag_loop.simps) simp
    next
      case False
      then have "?D t = (\<lambda>l. line_matches (lt t) l \<or> ?D (t + 60) l)" using D by auto
      then show ?thesis using IH \<open>t \<le> t2\<close> False by (subst flag_loop.simps) (simp add: flag_file_due c)
    qed
  next
    case False
    then have "?D t = (\<lambda>l. False)" by auto
    then show ?thesis using False by (subst flag_loop.simps) (simp add: flag_due_none [abs_def])
  qed
qed

lemma minute_start: "60 dvd t1 - c_rem t1 60" "t1 < u \<Longrightarrow> 60 dvd u \<Longrightarrow> t1 - c_rem t1 60 \<le> u"
proof -
  show d: "60 dvd t1 - c_rem t1 60"
  proof (cases "0 \<le> t1")
    case False
    have "60 dvd - t1 - (- t1) mod 60" by (rule dvd_minus_mod)
    then have "60 dvd - (- t1 - (- t1) mod 60)" by (simp only: dvd_minus_iff)
    then show ?thesis using False by (simp add: c_rem_def add.commute)
  qed (simp add: c_rem_def dvd_minus_mod)
  assume u: "t1 < u" "60 dvd u"
  have "t1 - c_rem t1 60 < t1 + 60" using pos_mod_bound [of 60 "- t1"] pos_mod_sign [of 60 t1] by (auto simp: c_rem_def)
  with u d show "t1 - c_rem t1 60 \<le> u" by (auto elim!: dvdE)
qed

definition due_between :: "(int \<Rightarrow> tm) \<Rightarrow> int \<Rightarrow> int \<Rightarrow> (tm \<Rightarrow> bool) \<Rightarrow> bool" where
  "due_between lt t1 t2 P \<longleftrightarrow> (\<exists>u. t1 < u \<and> u \<le> t2 \<and> 60 dvd u \<and> P (lt u))"

lemma flag_starting_jobs_due:
  "flag_starting_jobs lt t1 t2 files = map (flag_due (\<lambda>l. due_between lt t1 t2 (\<lambda>ptm. line_matches ptm l))) files"
proof -
  have "(\<exists>u. t1 - c_rem t1 60 \<le> u \<and> t1 < u \<and> u \<le> t2 \<and> 60 dvd u \<and> line_matches (lt u) l) \<longleftrightarrow>
      due_between lt t1 t2 (\<lambda>ptm. line_matches ptm l)" for l
    using minute_start(2) [of t1] unfolding due_between_def by blast
  then show ?thesis unfolding flag_starting_jobs_def flag_loop_due [OF minute_start(1)] by simp
qed

section \<open>The jobs that are due\<close>

text \<open>The times of the jobs of a crontab, in the order of its lines; a job at start-up has none.\<close>

fun job_of :: "cron_line \<Rightarrow> (cron_spec option \<times> string) option" where
  "job_of (Job s c) = Some (Some s, c)"
| "job_of (Special n c) = Some (the (map_of special_specs n), c)"
| "job_of _ = None"

lemma jobs_of_specs:
  "\<forall>l\<in>set ls. cron_line_ok l \<Longrightarrow> list_all2 (\<lambda>(s, c) l. cl_cmd l = c \<and>
     (case s of None \<Rightarrow> cl_pid l = START_ME_NORMAL
      | Some s \<Rightarrow> cl_pid l = 0 \<and> spec_ok s \<and> cl_tab l = spec_tab s)) (List.map_filter job_of ls) (jobs_of mailTo shell ls)"
proof (induction ls arbitrary: mailTo shell)
  case (Cons l ls)
  then show ?case
    by (cases l) (auto simp: List.map_filter_simps intro: special_entry(4) [THEN conjunct1, OF rev_image_eqI] split: option.split)
qed (simp add: List.map_filter_simps)

text \<open>
  C21: A crontab file that holds comments, settings, jobs with their five fields and special entries loads
  without a crash into one file in front of the others.  It has the jobs of the lines in their order with
  their commands, and after the jobs between two times are flagged, exactly those wait to be started
  that the fields give for a full minute after the first and not after the second of the times, and
  those that run at start-up.
\<close>

theorem crontab_jobs_due:
  assumes "\<forall>l\<in>set ls. cron_line_ok l" "fs name = Some (crontab_text ls)" "entries ls + 1 < MAXLINES"
    and "\<And>t. tm_ok (lt t)"
  shows "\<exists>f. load_crontab fs True name files = Some (f # delete_cronfile name files) \<and>
    list_all2 (\<lambda>(s, c) l. cl_cmd l = c \<and>
        (cl_pid l = START_ME_NORMAL \<longleftrightarrow> (case s of None \<Rightarrow> True | Some s \<Rightarrow> due_between lt t1 t2 (spec_matches s))))
      (List.map_filter job_of ls) (cf_lines (hd (flag_starting_jobs lt t1 t2 (f # files))))"
proof (intro exI conjI)
  let ?f = "loaded None None ls (empty_file name)"
  show "load_crontab fs True name files = Some (?f # delete_cronfile name files)"
    by (rule load_crontab_text [of ls fs name, OF assms(1-3)])
  let ?mark = "\<lambda>l. if due_between lt t1 t2 (\<lambda>ptm. line_matches ptm l) \<and> cl_pid l = 0 then l\<lparr>cl_pid := - 1\<rparr> else l"
  have e: "cf_lines (hd (flag_starting_jobs lt t1 t2 (?f # files))) = map ?mark (jobs_of None None ls)"
    by (simp add: flag_starting_jobs_due flag_due_def loaded_def empty_file_def)
  have d: "due_between lt t1 t2 (\<lambda>ptm. line_matches ptm l) = due_between lt t1 t2 (spec_matches s)"
    if "spec_ok s" "cl_tab l = spec_tab s" for s l
    using line_matches_spec [OF that(1) assms(4) that(2)] by (simp add: due_between_def)
  show "list_all2 (\<lambda>(s, c) l. cl_cmd l = c \<and>
        (cl_pid l = START_ME_NORMAL \<longleftrightarrow> (case s of None \<Rightarrow> True | Some s \<Rightarrow> due_between lt t1 t2 (spec_matches s))))
      (List.map_filter job_of ls) (cf_lines (hd (flag_starting_jobs lt t1 t2 (?f # files))))"
    unfolding e list_all2_map2
    by (rule list_all2_mono [OF jobs_of_specs [OF assms(1)]]) (auto simp: START_ME_NORMAL_def d split: option.splits)
qed

definition sample_spec :: cron_spec where
  "sample_spec = \<lparr>sp_min = [(Every, Some 20)], sp_hour = [(Span (Num 22) (Num 4), None), (One (Num 12), None)], sp_mday = [(Every, None)],
     sp_mon = [(Every, None)], sp_wday = [(Span (Name ''Mon'') (Name ''fri''), None)]\<rparr>"

definition sample_crontab :: "cron_line list" where
  "sample_crontab =
     [Comment '' nightly'', Shell ''/bin/sh'', Job sample_spec ''backup -q'', Special ''reboot'' ''start'']"

lemma sample_names:
  "find (\<lambda>n. nth_name DowAry n = map c_tolower ''Mon'') [0..<7] = Some 1"
  "find (\<lambda>n. nth_name DowAry n = map c_tolower ''fri'') [0..<7] = Some 5"
  by code_simp+

lemma sample_crontab_ok:
  "\<forall>l\<in>set sample_crontab. cron_line_ok l"
  "crontab_text sample_crontab = ''# nightly'' @ [NL] @ ''SHELL=/bin/sh'' @ [NL] @ ''*/20 22-4,12 * * Mon-fri backup -q'' @ [NL] @
     ''@reboot start'' @ [NL]"
  "entries sample_crontab + 1 < MAXLINES"
proof -
  have d: "dec_text 20 = ''20''" "dec_text 22 = ''22''" "dec_text 4 = ''4''" "dec_text 12 = ''12''" by code_simp+
  show "\<forall>l\<in>set sample_crontab. cron_line_ok l"
    by (simp add: sample_crontab_def sample_spec_def line_ok_def word_ok_def gap_def command_ok_def cur_def plain_def spec_ok_def field_ok_def
        special_specs_def Let_def sample_names [simplified])
  show "crontab_text sample_crontab = ''# nightly'' @ [NL] @ ''SHELL=/bin/sh'' @ [NL] @ ''*/20 22-4,12 * * Mon-fri backup -q'' @ [NL] @
     ''@reboot start'' @ [NL]"
    by (simp add: sample_crontab_def sample_spec_def crontab_text_def spec_text_def d)
  show "entries sample_crontab + 1 < MAXLINES" by (simp add: sample_crontab_def entries_def MAXLINES_def)
qed

definition utc_hour :: "int \<Rightarrow> tm" where
  "utc_hour t = \<lparr>tm_min = nat ((t div 60) mod 60), tm_hour = nat ((t div 3600) mod 24), tm_mday = 1, tm_mon = 0, tm_wday = 4\<rparr>"

lemma utc_hour_ok: "tm_ok (utc_hour t)"
  by (simp add: tm_ok_def utc_hour_def nat_less_iff)

theorem crontab_jobs_due_witness:
  "\<exists>f. load_crontab (\<lambda>n. Some (''# nightly'' @ [NL] @ ''SHELL=/bin/sh'' @ [NL] @ ''*/20 22-4,12 * * Mon-fri backup -q'' @ [NL] @
       ''@reboot start'' @ [NL])) True ''/cron/root'' [] = Some (f # delete_cronfile ''/cron/root'' []) \<and>
    list_all2 (\<lambda>(s, c) l. cl_cmd l = c \<and>
        (cl_pid l = START_ME_NORMAL \<longleftrightarrow> (case s of None \<Rightarrow> True | Some s \<Rightarrow> due_between utc_hour 0 90 (spec_matches s))))
      (List.map_filter job_of sample_crontab) (cf_lines (hd (flag_starting_jobs utc_hour 0 90 [f])))"
  using crontab_jobs_due [of sample_crontab "\<lambda>n. Some (crontab_text sample_crontab)" "''/cron/root''" utc_hour "[]" 0 90]
    sample_crontab_ok utc_hour_ok by (simp only: refl simp_thms)

end
