(* ===== verification/Cron_Timer.thy ===== *)
theory Cron_Timer
  imports Cron_Files
begin

text \<open>
  The timer thread: the type of its state, kept by every operation on any crontab text, and what a
  turn of the thread executes.
\<close>

section \<open>The states of the timer thread\<close>

text \<open>
  The type of the state.  Each line has its five tables, and its process number is that of a process, 0 or
  \<^verbatim>\<open>START_ME_NORMAL\<close>.  A file says that it has running jobs exactly when it has, it says that it wants to start
  jobs when one waits, and none waits in a file that is deleted.
\<close>

definition line_typed :: "CronLine \<Rightarrow> bool" where
  "line_typed l \<longleftrightarrow> length (cl_tab l) = CL_END \<and> START_ME_NORMAL \<le> cl_pid l"

definition waits :: "CronFile \<Rightarrow> bool" where
  "waits f \<longleftrightarrow> (\<exists>l\<in>set (cf_lines f). cl_pid l = START_ME_NORMAL)"

definition runs :: "CronFile \<Rightarrow> bool" where
  "runs f \<longleftrightarrow> (\<exists>l\<in>set (cf_lines f). 0 < cl_pid l)"

definition file_typed :: "CronFile \<Rightarrow> bool" where
  "file_typed f \<longleftrightarrow> (\<forall>l\<in>set (cf_lines f). line_typed l) \<and> (cf_has_running f \<longleftrightarrow> runs f) \<and>
     (waits f \<longrightarrow> cf_wants_starting f \<and> \<not> cf_deleted f)"

definition files_typed :: "CronFile list \<Rightarrow> bool" where
  "files_typed files \<longleftrightarrow> (\<forall>f\<in>set files. file_typed f)"

lemma length_fill_loop: "length (snd (fill_loop base m k n1 n2 s0 skip tab)) = length tab"
  by (induction base m k n1 n2 s0 skip tab rule: fill_loop.induct) (simp_all add: Let_def tab_set_def)

lemma length_parse_field: "length (snd (parse_field base m off names ptr n1 n2 tab)) = length tab"
proof (induction base m off names ptr n1 n2 tab rule: parse_field.induct)
  case (1 base m off names ptr n1 n2 tab)
  show ?case
  proof (cases "field_value m off names ptr n1 n2")
    case None
    then show ?thesis by (subst parse_field.simps) simp
  next
    case (Some v)
    obtain ptr1 n1' n2' where v: "v = (ptr1, n1', n2')" by (cases v)
    show ?thesis
    proof (cases "cur ptr1 = CHR ''-'' \<and> n2' < 0")
      case True
      then show ?thesis using "1.IH"(1) [OF Some v [symmetric] refl True] Some v by (subst parse_field.simps) simp
    next
      case False
      obtain skip ptr2 where s: "(if cur ptr1 = CHR ''/'' then (case c_strtol (tl ptr1) of (v, e) \<Rightarrow> (to_int32 v, e)) else (1, ptr1)) = (skip, ptr2)"
        by fastforce
      obtain ok tab1 where f: "fill_loop base m 1024 (n1' - 1) (if n2' < 0 then n1' else n2') 1 skip tab = (ok, tab1)" by fastforce
      have l: "length tab1 = length tab" using length_fill_loop [of base m 1024 "n1' - 1" _ 1 skip tab] f by (metis snd_conv)
      have "ok \<Longrightarrow> cur ptr2 = CHR '','' \<Longrightarrow> length (snd (parse_field base m off names (tl ptr2) (- 1) (- 1) tab1)) = length tab1"
        using "1.IH"(2) [OF Some v [symmetric] refl False refl s [symmetric] refl f [symmetric] refl] by simp
      then show ?thesis using Some v s f l by (subst parse_field.simps) (simp add: if_not_P [OF False] Let_def)
    qed
  qed
qed

lemma length_parse_fields: "length (parse_fields mi hr dy mo wd) = CL_END"
  unfolding parse_fields_def Let_def ParseField_def by (rule length_FixDayDow) (simp add: length_parse_field)

lemma load_loop_typed:
  "load_loop mx p mailTo shell f = Some f' \<Longrightarrow> file_typed f \<Longrightarrow> \<not> cf_deleted f \<Longrightarrow> file_typed f' \<and> \<not> cf_deleted f'"
proof (induction mx p mailTo shell f rule: load_loop.induct)
  case (2 mx p mailTo shell f)
  have tj: "file_typed (cf_lines_update (\<lambda>ls. ls @ [l]) f)" if "line_typed l" "cl_pid l = 0" for l
    using "2.prems"(2,3) that by (auto simp: file_typed_def waits_def runs_def START_ME_NORMAL_def)
  have tr: "file_typed (cf_lines_update (\<lambda>ls. ls @ [l]) (f\<lparr>cf_wants_starting := True\<rparr>))"
    if "line_typed l" "cl_pid l = START_ME_NORMAL" for l
    using "2.prems"(2,3) that by (auto simp: file_typed_def waits_def runs_def START_ME_NORMAL_def)
  show ?case
  proof (cases "mx = 0")
    case False
    then obtain n toks p1 where r: "config_read p 6 1 (''# '' @ [CHR 0x09]) (PARSE_NORMAL OR PARSE_KEEP_COPY) = Some (n, toks, p1)"
      using "2.prems"(1) by (auto split: option.splits simp del: append.simps)
    show ?thesis
    proof (cases "n = 0")
      case n: False
      note IH = "2.IH" [OF False r refl refl n refl]
      show ?thesis
      proof (cases "classify n toks (the (p_data p1))")
        case Entry_skip
        then show ?thesis using "2.prems" False r n IH(1) by (simp add: Let_def)
      next
        case (Entry_mailto to)
        then show ?thesis using "2.prems" False r n IH(2) by (simp add: Let_def)
      next
        case (Entry_shell sh)
        then show ?thesis using "2.prems" False r n IH(3) by (simp add: Let_def)
      next
        case (Entry_reboot c)
        then show ?thesis using "2.prems" False r n IH(4) tr
          by (simp add: Let_def line_typed_def)
      next
        case (Entry_job mi hr dy mo wd c)
        then show ?thesis using "2.prems" False r n IH(5) tj
          by (simp add: Let_def line_typed_def length_parse_fields START_ME_NORMAL_def)
      qed
    qed (use "2.prems" False r in simp)
  qed (use "2.prems" in simp)
qed simp

lemma delete_file_typed: "file_typed f \<Longrightarrow> delete_file n f = Some f' \<Longrightarrow> file_typed f'"
  by (cases "filter (\<lambda>l. cl_pid l > 0) (cf_lines f)")
    (auto simp: delete_file_def Let_def file_typed_def waits_def runs_def START_ME_NORMAL_def filter_eq_Cons_iff split: if_splits)

lemma delete_cronfile_typed: "files_typed files \<Longrightarrow> files_typed (delete_cronfile n files)"
  using delete_file_typed by (auto simp: files_typed_def delete_cronfile_def List.map_filter_def)

lemma load_crontab_typed:
  assumes "files_typed files" "load_crontab fs st name files = Some files'"
  shows "files_typed files'"
proof -
  have e: "file_typed \<lparr>cf_lines = [], cf_username = name, cf_wants_starting = False, cf_has_running = False, cf_deleted = False\<rparr>"
    by (simp add: file_typed_def waits_def runs_def)
  show ?thesis
    using assms(2) delete_cronfile_typed [OF assms(1), of name] load_loop_typed [OF _ e]
    by (auto simp: load_crontab_def Let_def files_typed_def split: option.splits if_splits)
qed

lemma delete_all_typed: "files_typed files \<Longrightarrow> files_typed (delete_all files)"
proof (induction files rule: delete_all.induct)
  case (1 files)
  then show ?case by (subst delete_all.simps) (auto simp: delete_cronfile_typed split: option.splits)
qed

lemma load_dir_typed: "files_typed files \<Longrightarrow> load_dir fs dn ds files = Some files' \<Longrightarrow> files_typed files'"
  by (induction fs dn ds files rule: load_dir.induct) (auto dest: load_crontab_typed split: if_splits option.splits)

lemma rescan_typed: "files_typed files \<Longrightarrow> rescan_crontab_dir fs dn ds files = Some files' \<Longrightarrow> files_typed files'"
  using load_dir_typed [OF delete_all_typed] by (auto simp: rescan_crontab_dir_def split: option.splits)

lemma flag_due_typed: "file_typed f \<Longrightarrow> file_typed (flag_due D f)"
  by (auto simp: flag_due_def file_typed_def waits_def runs_def line_typed_def START_ME_NORMAL_def)

lemma start_lines_typed:
  "\<forall>l\<in>set ls. line_typed l \<Longrightarrow> start_lines START_ME_NORMAL vfork k ls = (ls', run, k', ex) \<Longrightarrow>
     (\<forall>l\<in>set ls'. line_typed l \<and> cl_pid l \<noteq> START_ME_NORMAL) \<and>
     ((\<exists>l\<in>set ls'. 0 < cl_pid l) \<longleftrightarrow> (\<exists>l\<in>set ls. 0 < cl_pid l) \<or> run)"
proof (induction ls arbitrary: k ls' run k' ex)
  case (Cons l ls)
  have l: "line_typed l" "\<forall>l\<in>set ls. line_typed l" using Cons.prems(1) by simp_all
  show ?case
  proof (cases "cl_pid l = START_ME_NORMAL")
    case True
    obtain ls1 run1 k1 ex1 where r: "start_lines START_ME_NORMAL vfork (Suc k) ls = (ls1, run1, k1, ex1)" by (metis prod_cases4)
    let ?p = "if vfork k < 0 then 0 else vfork k"
    have e: "ls' = l\<lparr>cl_pid := ?p\<rparr> # ls1" "run = (?p > 0 \<or> run1)"
      using Cons.prems(2) True r by (auto simp: start_one_job_def Let_def)
    have "line_typed (l\<lparr>cl_pid := ?p\<rparr>)" "?p \<noteq> START_ME_NORMAL" using l(1) by (auto simp: line_typed_def START_ME_NORMAL_def)
    then show ?thesis using Cons.IH [OF l(2) r] True unfolding e by (auto simp: START_ME_NORMAL_def)
  next
    case False
    obtain ls1 run1 k1 ex1 where r: "start_lines START_ME_NORMAL vfork k ls = (ls1, run1, k1, ex1)" by (metis prod_cases4)
    have e: "ls' = l # ls1" "run = run1" using Cons.prems(2) False r by auto
    show ?thesis using Cons.IH [OF l(2) r] False l(1) unfolding e by auto
  qed
qed simp

lemma start_jobs_typed:
  "files_typed files \<Longrightarrow> start_jobs START_ME_NORMAL vfork k files = (files', ex) \<Longrightarrow>
     files_typed files' \<and> (\<forall>f\<in>set files'. \<not> waits f)"
proof (induction files arbitrary: k files' ex)
  case (Cons f fs)
  have f: "file_typed f" "files_typed fs" using Cons.prems(1) by (simp_all add: files_typed_def)
  show ?case
  proof (cases "cf_wants_starting f")
    case False
    then obtain fs' ex' where r: "start_jobs START_ME_NORMAL vfork k fs = (fs', ex')" "files' = f # fs'"
      using Cons.prems(2) by (auto split: prod.splits)
    then show ?thesis using Cons.IH [OF f(2) r(1)] f(1) False by (auto simp: files_typed_def file_typed_def)
  next
    case True
    obtain ls run k' ex1 where s: "start_lines START_ME_NORMAL vfork k (cf_lines f) = (ls, run, k', ex1)" by (metis prod_cases4)
    then obtain fs' ex' where r: "start_jobs START_ME_NORMAL vfork k' fs = (fs', ex')"
      "files' = f\<lparr>cf_lines := ls, cf_wants_starting := False, cf_has_running := (cf_has_running f \<or> run)\<rparr> # fs'"
      using Cons.prems(2) True by (auto split: prod.splits)
    have "\<forall>l\<in>set (cf_lines f). line_typed l" using f(1) by (simp add: file_typed_def)
    note t = start_lines_typed [OF this s]
    have "file_typed (hd files') \<and> \<not> waits (hd files')" using t f(1) by (auto simp: r(2) file_typed_def waits_def runs_def)
    moreover have "files_typed fs' \<and> (\<forall>f\<in>set fs'. \<not> waits f)"
      by (rule Cons.IH [OF f(2) r(1)])
    ultimately show ?thesis by (simp add: r(2) files_typed_def)
  qed
qed (simp add: files_typed_def)

lemma complete_file_typed: "file_typed f \<Longrightarrow> \<not> waits f \<Longrightarrow> file_typed (complete_file wp f) \<and> \<not> waits (complete_file wp f)"
  by (auto simp: complete_file_def complete_line_def process_finished_job_def Let_def file_typed_def waits_def runs_def
      line_typed_def START_ME_NORMAL_def)

lemma check_completions_typed:
  assumes "files_typed files" "\<forall>f\<in>set files. \<not> waits f" "check_completions wp files = (n, files')"
  shows "files_typed files'" "\<forall>f\<in>set files'. \<not> waits f" "n > 0 \<longleftrightarrow> (\<exists>f\<in>set files'. runs f)"
proof -
  have f: "files' = map (complete_file wp) files" "n = length (filter cf_has_running files')"
    using assms(3) by (auto simp: check_completions_def Let_def)
  show t: "files_typed files'" "\<forall>f\<in>set files'. \<not> waits f"
    using assms(1,2) complete_file_typed by (auto simp: f(1) files_typed_def)
  show "n > 0 \<longleftrightarrow> (\<exists>f\<in>set files'. runs f)"
    using t(1) by (auto simp: f(2) files_typed_def file_typed_def filter_empty_conv)
qed

lemma timer_turn_typed:
  assumes "files_typed files" "timer_turn te t1 t2 rescan sl files = Some (ex, sl', files')"
  shows "files_typed files'"
    "0 < t2 - t1 \<and> t2 - t1 \<le> 3600 \<Longrightarrow> (\<forall>f\<in>set files'. \<not> waits f) \<and> sl' = (if \<exists>f\<in>set files'. runs f then 10 else 60)"
proof -
  obtain files1 where f1: "(if rescan then rescan_crontab_dir (te_fs te) (te_dir_name te) (te_dir te) files else Some files) = Some files1"
    "files_typed files1"
    using assms rescan_typed [OF assms(1)] by (auto simp: timer_turn_def split: option.splits if_splits)
  let ?f2 = "flag_starting_jobs (te_localtime te) t1 t2 files1"
  have t2: "files_typed ?f2" using f1(2) flag_due_typed by (auto simp: flag_starting_jobs_due files_typed_def)
  obtain f3 ex3 where f3: "start_jobs START_ME_NORMAL (te_vfork te) 0 ?f2 = (f3, ex3)" by fastforce
  note t3 = start_jobs_typed [OF t2 f3]
  obtain n f4 where f4: "check_completions (te_waitpid te) f3 = (n, f4)" by fastforce
  note t4 = check_completions_typed [OF conjunct1 [OF t3] conjunct2 [OF t3] f4]
  have r: "(ex, sl', files') = (if t2 - t1 < - 3600 \<or> 3600 < t2 - t1 then ([], sl, files1)
      else if 0 < t2 - t1 then (ex3, if n > 0 then 10 else 60, f4) else ([], sl, files1))"
    using assms(2) unfolding timer_turn_def f1(1) by (auto simp: Let_def f3 f4 split: if_splits)
  show "files_typed files'" using r f1(2) t4(1) by (auto split: if_splits)
  show "0 < t2 - t1 \<and> t2 - t1 \<le> 3600 \<Longrightarrow> (\<forall>f\<in>set files'. \<not> waits f) \<and> sl' = (if \<exists>f\<in>set files'. runs f then 10 else 60)"
    using r t4(2,3) by auto
qed

text \<open>The states of the service: after the start, and after each turn of the thread.\<close>

inductive timer_state :: "CronFile list \<Rightarrow> bool" where
  init: "timer_service_init load conf fs dirs threads = Some (Some (dir, files)) \<Longrightarrow> timer_state files"
| turn: "timer_state files \<Longrightarrow> timer_turn te t1 t2 rescan sl files = Some (ex, sl', files') \<Longrightarrow> timer_state files'"

lemma timer_state_files_typed: "timer_state files \<Longrightarrow> files_typed files"
proof (induction rule: timer_state.induct)
  case (init load conf fs dirs threads dir files)
  then show ?case
    by (auto simp: timer_service_init_def Let_def files_typed_def split: if_splits option.splits
        dest!: rescan_typed [rotated])
next
  case (turn files te t1 t2 rescan sl ex sl' files')
  then show ?case using timer_turn_typed(1) by blast
qed

section \<open>What a turn executes\<close>

definition exec_of :: "CronLine \<Rightarrow> string \<times> string" where
  "exec_of l = (case cl_shell l of Some sh \<Rightarrow> sh | None \<Rightarrow> default_shell, cl_cmd l)"

definition waiting :: "CronLine list \<Rightarrow> (string \<times> string) list" where
  "waiting ls = map exec_of (filter (\<lambda>l. cl_pid l = START_ME_NORMAL) ls)"

lemma start_lines_exec:
  assumes "\<And>k. 0 < vfork k"
  shows "start_lines START_ME_NORMAL vfork k ls = (ls', run, k', ex) \<Longrightarrow> ex = waiting ls"
proof (induction ls arbitrary: k ls' run k' ex)
  case (Cons l ls)
  obtain ls1 run1 k1 ex1 where r: "start_lines START_ME_NORMAL vfork k ls = (ls1, run1, k1, ex1)" by (metis prod_cases4)
  obtain ls2 run2 k2 ex2 where q: "start_lines START_ME_NORMAL vfork (Suc k) ls = (ls2, run2, k2, ex2)" by (metis prod_cases4)
  show ?case using Cons.prems Cons.IH [OF r] Cons.IH [OF q] r q assms [of k]
    by (auto simp: waiting_def start_one_job_def exec_of_def Let_def split: if_splits)
qed (simp add: waiting_def)

lemma start_jobs_exec:
  assumes "\<And>k. 0 < vfork k"
  shows "files_typed files \<Longrightarrow> start_jobs START_ME_NORMAL vfork k files = (files', ex) \<Longrightarrow>
    ex = concat (map (\<lambda>f. waiting (cf_lines f)) files)"
proof (induction files arbitrary: k files' ex)
  case (Cons f fs)
  have t: "files_typed fs" and f: "\<not> cf_wants_starting f \<Longrightarrow> waiting (cf_lines f) = []"
    using Cons.prems(1) by (auto simp: files_typed_def file_typed_def waits_def waiting_def filter_empty_conv)
  obtain ls run k' ex1 where s: "start_lines START_ME_NORMAL vfork k (cf_lines f) = (ls, run, k', ex1)" by (metis prod_cases4)
  obtain fs1 ex2 where r: "start_jobs START_ME_NORMAL vfork k fs = (fs1, ex2)" by fastforce
  obtain fs2 ex3 where q: "start_jobs START_ME_NORMAL vfork k' fs = (fs2, ex3)" by fastforce
  show ?case using Cons.prems(2) Cons.IH [OF t r] Cons.IH [OF t q] start_lines_exec [OF assms s] f s r q
    by (auto split: if_splits)
qed simp

lemma waiting_due:
  "\<not> cf_deleted f \<Longrightarrow> waiting (cf_lines (flag_due D f)) =
     map exec_of (filter (\<lambda>l. cl_pid l = START_ME_NORMAL \<or> cl_pid l = 0 \<and> D l) (cf_lines f))"
proof -
  let ?m = "\<lambda>l. if D l \<and> cl_pid l = 0 then l\<lparr>cl_pid := - 1\<rparr> else l"
  have w: "cl_pid (?m l) = START_ME_NORMAL \<longleftrightarrow> cl_pid l = START_ME_NORMAL \<or> cl_pid l = 0 \<and> D l" for l
    by (auto simp: START_ME_NORMAL_def)
  have e: "exec_of (?m l) = exec_of l" for l by (simp add: exec_of_def)
  have "map exec_of (filter (\<lambda>l. cl_pid l = START_ME_NORMAL) (map ?m ls)) =
      map exec_of (filter (\<lambda>l. cl_pid l = START_ME_NORMAL \<or> cl_pid l = 0 \<and> D l) ls)" for ls
    by (simp only: filter_map map_map comp_def w e)
  moreover assume "\<not> cf_deleted f"
  ultimately show ?thesis by (simp add: waiting_def flag_due_def)
qed

lemma waiting_deleted: "file_typed f \<Longrightarrow> cf_deleted f \<Longrightarrow> waiting (cf_lines (flag_due D f)) = []"
  by (auto simp: waiting_def flag_due_def file_typed_def waits_def filter_empty_conv)

text \<open>The lines of a file that a turn has to start, with the condition for a dormant line to be due.\<close>

definition to_start :: "(CronLine \<Rightarrow> bool) \<Rightarrow> CronFile \<Rightarrow> (string \<times> string) list" where
  "to_start due f =
     (if cf_deleted f then []
      else map exec_of (filter (\<lambda>l. cl_pid l = START_ME_NORMAL \<or> cl_pid l = 0 \<and> due l) (cf_lines f)))"

lemma turn_executes:
  assumes "files_typed files" "\<And>k. 0 < te_vfork te k" "0 < t2 - t1" "t2 - t1 \<le> 3600"
  shows "\<exists>sl' files'. timer_turn te t1 t2 False sl files =
    Some (concat (map (to_start (\<lambda>l. due_between (te_localtime te) t1 t2 (\<lambda>ptm. line_matches ptm l))) files), sl', files')"
proof -
  let ?D = "\<lambda>l. due_between (te_localtime te) t1 t2 (\<lambda>ptm. line_matches ptm l)"
  let ?f2 = "flag_starting_jobs (te_localtime te) t1 t2 files"
  have f2: "?f2 = map (flag_due ?D) files" by (rule flag_starting_jobs_due)
  have t2: "files_typed ?f2" using assms(1) flag_due_typed by (auto simp: f2 files_typed_def)
  obtain f3 ex3 where f3: "start_jobs START_ME_NORMAL (te_vfork te) 0 ?f2 = (f3, ex3)" by fastforce
  obtain n f4 where f4: "check_completions (te_waitpid te) f3 = (n, f4)" by fastforce
  have "waiting (cf_lines (flag_due ?D f)) = to_start ?D f" if "f \<in> set files" for f
    using that assms(1) waiting_due [of f ?D] waiting_deleted [of f ?D] by (cases "cf_deleted f") (auto simp: to_start_def files_typed_def)
  then have "map ((\<lambda>f. waiting (cf_lines f)) \<circ> flag_due ?D) files = map (to_start ?D) files" by simp
  then have "ex3 = concat (map (to_start ?D) files)"
    using start_jobs_exec [OF assms(2) t2 f3] by (simp only: f2 map_map)
  then show ?thesis using assms(3,4) unfolding timer_turn_def by (simp add: Let_def f3 f4)
qed

text \<open>
  C37: In every state of the timer service, whatever the crontab files hold, each line has its five tables of
  the right length and a process number that is a process, 0 or \<^verbatim>\<open>START_ME_NORMAL\<close>; a file is marked running
  exactly when one of its lines runs; and when a line waits to be started its file is marked so and
  is not deleted.
\<close>

theorem timer_state_typed:
  assumes "timer_state files" "f \<in> set files"
  shows "(\<forall>l\<in>set (cf_lines f). length (cl_tab l) = CL_END \<and> START_ME_NORMAL \<le> cl_pid l) \<and>
    (cf_has_running f \<longleftrightarrow> (\<exists>l\<in>set (cf_lines f). 0 < cl_pid l)) \<and>
    ((\<exists>l\<in>set (cf_lines f). cl_pid l = START_ME_NORMAL) \<longrightarrow> cf_wants_starting f \<and> \<not> cf_deleted f)"
  using timer_state_files_typed [OF assms(1)] assms(2)
  unfolding files_typed_def file_typed_def line_typed_def runs_def waits_def by blast

definition sample_fs :: "string \<Rightarrow> string option" where
  "sample_fs n = (if n = ''/cron/root'' then Some (crontab_text sample_crontab) else None)"

definition sample_file :: CronFile where
  "sample_file = loaded None None sample_crontab (empty_file ''/cron/root'')"

lemma sample_state: "timer_state [sample_file]"
proof (rule timer_state.init)
  have "load_crontab sample_fs True ''/cron/root'' [] = Some [sample_file]"
    using load_crontab_text [of sample_crontab sample_fs "''/cron/root''" "[]"] sample_crontab_ok(1,3)
    by (simp add: sample_fs_def sample_file_def delete_cronfile_def List.map_filter_simps)
  then show "timer_service_init True (Some ''/cron'') sample_fs (\<lambda>d. Some [''root'']) True = Some (Some (''/cron'', [sample_file]))"
    by (simp add: timer_service_init_def Let_def rescan_crontab_dir_def delete_all.simps)
qed

theorem timer_state_typed_witness:
  "timer_state [sample_file] \<and> length (cf_lines sample_file) = 2 \<and>
    list_all (\<lambda>l. length (cl_tab l) = CL_END \<and> START_ME_NORMAL \<le> cl_pid l) (cf_lines sample_file) \<and> cf_wants_starting sample_file"
proof -
  have l: "cf_lines sample_file = jobs_of None None sample_crontab" by (simp add: sample_file_def loaded_def empty_file_def)
  have n: "length (cf_lines sample_file) = 2" by (simp add: l sample_crontab_def)
  have w: "\<exists>l\<in>set (cf_lines sample_file). cl_pid l = START_ME_NORMAL"
    by (simp add: l sample_crontab_def special_specs_def Let_def)
  show ?thesis using timer_state_typed [OF sample_state, of sample_file] sample_state n w by (simp add: list_all_iff)
qed

text \<open>
  C9: From every state of the timer service, a turn without rescan in which the time moves by at most an hour
  returns when processes can be created.  It executes, in the order of the files and their lines, exactly
  the waiting lines and the dormant lines whose tables have a full minute of the interval, each with its own
  shell or the default one; afterwards no line waits, and the thread sleeps ten seconds when a job runs and
  a minute when none does.
\<close>

theorem timer_turn_executes_due:
  assumes "timer_state files" "\<And>k. 0 < te_vfork te k" "0 < t2 - t1" "t2 - t1 \<le> 3600"
  shows "\<exists>sl' files'. timer_turn te t1 t2 False sl files =
      Some (concat (map (to_start (\<lambda>l. due_between (te_localtime te) t1 t2 (\<lambda>ptm. line_matches ptm l))) files), sl', files') \<and>
    (\<forall>f\<in>set files'. \<forall>l\<in>set (cf_lines f). cl_pid l \<noteq> START_ME_NORMAL) \<and>
    sl' = (if \<exists>f\<in>set files'. \<exists>l\<in>set (cf_lines f). 0 < cl_pid l then 10 else 60)"
proof -
  note t = timer_state_files_typed [OF assms(1)]
  from turn_executes [where te = te, OF t assms(2-4)] obtain sl' files' where
    r: "timer_turn te t1 t2 False sl files =
      Some (concat (map (to_start (\<lambda>l. due_between (te_localtime te) t1 t2 (\<lambda>ptm. line_matches ptm l))) files), sl', files')"
    by blast
  show ?thesis using r timer_turn_typed(2) [OF t r] assms(3,4) unfolding waits_def runs_def by blast
qed

definition sample_env :: timer_env where
  "sample_env = \<lparr>te_fs = sample_fs, te_dir_name = ''/cron'', te_dir = Some [''root''], te_localtime = utc_hour,
     te_vfork = (\<lambda>k. 100 + int k), te_waitpid = (\<lambda>p. 0)\<rparr>"


lemma sample_due: "due_between utc_hour 79190 79201 (\<lambda>ptm. line_matches ptm (jobs_of None None sample_crontab ! 0))"
proof -
  have k: "spec_ok sample_spec" using sample_crontab_ok(1) by (simp add: sample_crontab_def)
  have h: "utc_hour 79200 = \<lparr>tm_min = 0, tm_hour = 22, tm_mday = 1, tm_mon = 0, tm_wday = 4\<rparr>" by (simp add: utc_hour_def)
  have d: "4 \<in> wdays sample_spec" "1 \<in> mdays sample_spec"
    by (simp_all add: wdays_def mdays_def field_set_def sample_spec_def Let_def sample_names [simplified])
  have "spec_matches sample_spec (utc_hour 79200)"
    using d by (simp add: spec_matches_def h day_matches_def) (simp add: field_set_def sample_spec_def Let_def)
  moreover have "cl_tab (jobs_of None None sample_crontab ! 0) = spec_tab sample_spec" by (simp add: sample_crontab_def)
  ultimately have "line_matches (utc_hour 79200) (jobs_of None None sample_crontab ! 0)"
    using line_matches_spec [OF k utc_hour_ok] by blast
  then show ?thesis unfolding due_between_def by (intro exI [of _ 79200]) simp
qed

theorem timer_turn_executes_due_witness:
  "\<exists>sl files'. timer_turn sample_env 79190 79201 False 60 [sample_file] =
     Some ([(''/bin/sh'', ''backup -q''), (''/bin/sh'', ''start'')], sl, files') \<and>
     list_all (\<lambda>f. list_all (\<lambda>l. cl_pid l \<noteq> START_ME_NORMAL) (cf_lines f)) files'"
proof -
  have l: "cf_lines sample_file = jobs_of None None sample_crontab" "\<not> cf_deleted sample_file"
    by (simp_all add: sample_file_def loaded_def empty_file_def)
  have s: "to_start (\<lambda>l. due_between utc_hour 79190 79201 (\<lambda>ptm. line_matches ptm l)) sample_file =
      [(''/bin/sh'', ''backup -q''), (''/bin/sh'', ''start'')]"
    using sample_due by (simp add: to_start_def l sample_crontab_def special_specs_def Let_def exec_of_def)
  show ?thesis
    using timer_turn_executes_due [where te = sample_env and files = "[sample_file]" and ?t1.0 = 79190 and ?t2.0 = 79201 and sl = 60, OF sample_state] s
    by (simp add: sample_env_def list_all_iff) blast
qed

end
