(* ===== verification/C_List.thy ===== *)
theory C_List
  imports Op_Prelude
begin

text \<open>
  The doubly linked lists of \<^verbatim>\<open>src/opbox/list.h\<close>.  The memory is a store with one function for the field
  \<^verbatim>\<open>next\<close> and one for \<^verbatim>\<open>prev\<close>; an address is a number and \<^verbatim>\<open>NULL\<close> is 0.  A list is a ring of
  nodes through its head, and the operations on the store are shown to be the operations on lists.
\<close>

section \<open>The operations\<close>

record store =
  s_next :: "nat \<Rightarrow> nat"
  s_prev :: "nat \<Rightarrow> nat"

definition set_next :: "nat \<Rightarrow> nat \<Rightarrow> store \<Rightarrow> store" where
  "set_next a v h = h\<lparr>s_next := (s_next h)(a := v)\<rparr>"

definition set_prev :: "nat \<Rightarrow> nat \<Rightarrow> store \<Rightarrow> store" where
  "set_prev a v h = h\<lparr>s_prev := (s_prev h)(a := v)\<rparr>"

definition INIT_LIST_HEAD :: "nat \<Rightarrow> store \<Rightarrow> store" where
  "INIT_LIST_HEAD list h = set_next list list (set_prev list list h)"

definition list_empty :: "nat \<Rightarrow> store \<Rightarrow> bool" where
  "list_empty head h \<longleftrightarrow> s_next h head = head"

definition list_is_first :: "nat \<Rightarrow> nat \<Rightarrow> store \<Rightarrow> bool" where
  "list_is_first list head h \<longleftrightarrow> s_prev h list = head"

definition list_is_last :: "nat \<Rightarrow> nat \<Rightarrow> store \<Rightarrow> bool" where
  "list_is_last list head h \<longleftrightarrow> s_next h list = head"

definition list_del_raw :: "nat \<Rightarrow> store \<Rightarrow> store" where
  "list_del_raw entry h =
     (let h1 = set_prev (s_next h entry) (s_prev h entry) h in set_next (s_prev h1 entry) (s_next h1 entry) h1)"

definition list_del :: "nat \<Rightarrow> store \<Rightarrow> store" where
  "list_del entry h = set_next entry 0 (set_prev entry 0 (list_del_raw entry h))"

definition list_add_raw :: "nat \<Rightarrow> nat \<Rightarrow> nat \<Rightarrow> store \<Rightarrow> store" where
  "list_add_raw new prev next h = set_next prev new (set_prev new prev (set_next new next (set_prev next new h)))"

definition list_del_init :: "nat \<Rightarrow> store \<Rightarrow> store" where
  "list_del_init entry h = INIT_LIST_HEAD entry (list_del_raw entry h)"

definition list_add :: "nat \<Rightarrow> nat \<Rightarrow> store \<Rightarrow> store" where
  "list_add new head h = list_add_raw new head (s_next h head) h"

definition list_add_tail :: "nat \<Rightarrow> nat \<Rightarrow> store \<Rightarrow> store" where
  "list_add_tail new head h = list_add_raw new (s_prev h head) head h"

definition list_move :: "nat \<Rightarrow> nat \<Rightarrow> store \<Rightarrow> store" where
  "list_move list head h = list_add list head (list_del_raw list h)"

definition list_move_tail :: "nat \<Rightarrow> nat \<Rightarrow> store \<Rightarrow> store" where
  "list_move_tail entry head h = list_add_tail entry head (list_del_raw entry h)"

definition list_splice_raw :: "nat \<Rightarrow> nat \<Rightarrow> nat \<Rightarrow> store \<Rightarrow> store" where
  "list_splice_raw list prev next h =
     (if list_empty list h then h
      else let first = s_next h list; last = s_prev h list
           in set_prev next last (set_next last next (set_next prev first (set_prev first prev h))))"

definition list_splice :: "nat \<Rightarrow> nat \<Rightarrow> store \<Rightarrow> store" where
  "list_splice list head h = list_splice_raw list head (s_next h head) h"

definition list_splice_tail :: "nat \<Rightarrow> nat \<Rightarrow> store \<Rightarrow> store" where
  "list_splice_tail list head h = list_splice_raw list (s_prev h head) head h"

definition list_splice_init :: "nat \<Rightarrow> nat \<Rightarrow> store \<Rightarrow> store" where
  "list_splice_init list head h = INIT_LIST_HEAD list (list_splice_raw list head (s_next h head) h)"

definition list_splice_tail_init :: "nat \<Rightarrow> nat \<Rightarrow> store \<Rightarrow> store" where
  "list_splice_tail_init list head h = INIT_LIST_HEAD list (list_splice_raw list (s_prev h head) head h)"

text \<open>
  \<^verbatim>\<open>list_for_each\<close> and \<^verbatim>\<open>list_for_each_prev\<close>: the nodes the loops visit.  A loop over nodes that are no ring may
  not end: the value is \<open>None\<close> then.
\<close>

partial_function (option) list_for_each :: "store \<Rightarrow> nat \<Rightarrow> nat \<Rightarrow> nat list option" where
  "list_for_each h head p =
     (if p = head then Some [] else Option.bind (list_for_each h head (s_next h p)) (\<lambda>ps. Some (p # ps)))"

partial_function (option) list_for_each_prev :: "store \<Rightarrow> nat \<Rightarrow> nat \<Rightarrow> nat list option" where
  "list_for_each_prev h head p =
     (if p = head then Some [] else Option.bind (list_for_each_prev h head (s_prev h p)) (\<lambda>ps. Some (p # ps)))"

section \<open>Rings\<close>

text \<open>A sequence of nodes in which each is linked with the next one, both ways.\<close>

fun chain :: "store \<Rightarrow> nat list \<Rightarrow> bool" where
  "chain h (a # b # zs) \<longleftrightarrow> s_next h a = b \<and> s_prev h b = a \<and> chain h (b # zs)"
| "chain h _ \<longleftrightarrow> True"

definition ring :: "store \<Rightarrow> nat \<Rightarrow> nat list \<Rightarrow> bool" where
  "ring h head xs \<longleftrightarrow> distinct (head # xs) \<and> chain h (head # xs @ [head])"

lemma chain_append:
  "chain h (xs @ ys) \<longleftrightarrow> chain h xs \<and> chain h ys \<and>
     (xs \<noteq> [] \<and> ys \<noteq> [] \<longrightarrow> s_next h (last xs) = hd ys \<and> s_prev h (hd ys) = last xs)"
  by (induction h xs rule: chain.induct; cases ys) auto

lemma chain_frame:
  "\<forall>y\<in>set (butlast zs). s_next h' y = s_next h y \<Longrightarrow> \<forall>y\<in>set (tl zs). s_prev h' y = s_prev h y \<Longrightarrow>
     chain h' zs = chain h zs"
proof (induction h zs rule: chain.induct)
  case (1 h a b zs)
  then have "chain h' (b # zs) = chain h (b # zs)" by (cases zs) auto
  with 1 show ?case by auto
qed auto

lemma store_simps [simp]:
  "s_next (set_next a v h) = (s_next h)(a := v)" "s_prev (set_next a v h) = s_prev h"
  "s_prev (set_prev a v h) = (s_prev h)(a := v)" "s_next (set_prev a v h) = s_next h"
  by (simp_all add: set_next_def set_prev_def)

text \<open>Linking two parts by a segment put in between, and linking them directly.\<close>

lemma distinct_ends: "distinct xs \<Longrightarrow> y \<in> set (butlast xs) \<Longrightarrow> y \<noteq> last xs" "distinct xs \<Longrightarrow> y \<in> set (tl xs) \<Longrightarrow> y \<noteq> hd xs"
  by (cases xs rule: rev_cases; auto) (cases xs; auto)

lemma end_in: "xs \<noteq> [] \<Longrightarrow> hd xs \<in> set xs \<and> last xs \<in> set xs"
  by simp

lemma chain_insert:
  assumes c: "chain h P" "chain h N" "chain h zs" and ne: "P \<noteq> []" "N \<noteq> []" "zs \<noteq> []"
    and d: "distinct P" "distinct N" "distinct zs" "last P \<notin> set (butlast N)" "hd N \<notin> set (tl P)" "set zs \<inter> (set P \<union> set N) = {}"
    and n: "s_next h' = (s_next h)(last P := hd zs, last zs := hd N)"
    and p: "s_prev h' = (s_prev h)(hd zs := last P, hd N := last zs)"
  shows "chain h' (P @ zs @ N)"
proof -
  have t: "y \<in> set (tl xs) \<Longrightarrow> y \<in> set xs" for y :: nat and xs by (cases xs) auto
  note e = end_in [OF ne(1)] end_in [OF ne(2)] end_in [OF ne(3)]
  have dis: "x \<in> set zs \<Longrightarrow> y \<in> set P \<union> set N \<Longrightarrow> x \<noteq> y" for x y using d(6) by auto
  have "chain h' P" using c(1) by (subst chain_frame [of P h' h])
      (use e d(5) dis distinct_ends(1) [OF d(1)] in \<open>auto simp: n p dest: t in_set_butlastD\<close>)
  moreover have "chain h' N" using c(2) by (subst chain_frame [of N h' h])
      (use e d(4) dis distinct_ends(2) [OF d(2)] in \<open>auto simp: n p dest: t in_set_butlastD\<close>)
  moreover have "last P \<notin> set (butlast zs)" "hd N \<notin> set (tl zs)" using e dis by (blast dest: in_set_butlastD t)+
  then have "chain h' zs" using c(3) by (subst chain_frame [of zs h' h])
      (use e distinct_ends [OF d(3)] in \<open>auto simp: n p dest: t in_set_butlastD\<close>)
  moreover have "s_next h' (last P) = hd zs" "s_prev h' (hd zs) = last P" "s_next h' (last zs) = hd N" "s_prev h' (hd N) = last zs"
    using e dis [of "last zs" "last P"] dis [of "hd zs" "hd N"] by (simp_all add: n p)
  ultimately show ?thesis using ne by (simp add: chain_append)
qed

lemma chain_link:
  assumes c: "chain h P" "chain h N" and ne: "P \<noteq> []" "N \<noteq> []"
    and d: "distinct P" "distinct N" "last P \<notin> set (butlast N)" "hd N \<notin> set (tl P)"
    and n: "\<And>y. y \<in> set P \<union> set N \<Longrightarrow> s_next h' y = ((s_next h)(last P := hd N)) y"
    and p: "\<And>y. y \<in> set P \<union> set N \<Longrightarrow> s_prev h' y = ((s_prev h)(hd N := last P)) y"
  shows "chain h' (P @ N)"
proof -
  have t: "y \<in> set (tl xs) \<Longrightarrow> y \<in> set xs" for y :: nat and xs by (cases xs) auto
  note e = end_in [OF ne(1)] end_in [OF ne(2)]
  have P: "y \<in> set (butlast P) \<Longrightarrow> s_next h' y = s_next h y" "y \<in> set (tl P) \<Longrightarrow> s_prev h' y = s_prev h y" for y
    using n [of y] p [of y] d(4) distinct_ends(1) [OF d(1), of y] t [of y P] in_set_butlastD [of y P] by auto
  have N: "y \<in> set (butlast N) \<Longrightarrow> s_next h' y = s_next h y" "y \<in> set (tl N) \<Longrightarrow> s_prev h' y = s_prev h y" for y
    using n [of y] p [of y] d(3) distinct_ends(2) [OF d(2), of y] t [of y N] in_set_butlastD [of y N] by auto
  have "chain h' P" "chain h' N" using c chain_frame [of P h' h] chain_frame [of N h' h] P N by simp_all
  moreover have "s_next h' (last P) = hd N" "s_prev h' (hd N) = last P" using e by (simp_all add: n p)
  ultimately show ?thesis using ne by (simp add: chain_append)
qed

lemma ring_cut:
  "ring h head (as @ bs) \<longleftrightarrow> distinct (head # as @ bs) \<and> chain h (head # as) \<and> chain h (bs @ [head]) \<and>
     s_next h (last (head # as)) = hd (bs @ [head]) \<and> s_prev h (hd (bs @ [head])) = last (head # as)"
  using chain_append [of h "head # as" "bs @ [head]"] by (auto simp: ring_def)

text \<open>The two parts of a ring at a cut meet the conditions.\<close>

lemma ring_parts:
  assumes "distinct (head # as @ bs)"
  shows "distinct (head # as)" "distinct (bs @ [head])" "last (head # as) \<notin> set (butlast (bs @ [head]))"
    "hd (bs @ [head]) \<notin> set (tl (head # as))"
proof -
  have "last (head # as) \<in> set (head # as)" by (rule last_in_set) simp
  then show "last (head # as) \<notin> set (butlast (bs @ [head]))" using assms by auto
  have "hd (bs @ [head]) \<in> set (bs @ [head])" by (rule hd_in_set) simp
  then show "hd (bs @ [head]) \<notin> set (tl (head # as))" using assms by auto
qed (use assms in auto)

lemma ring_insert:
  assumes r: "ring h head (as @ bs)" and zs: "zs \<noteq> []" "distinct zs" "set zs \<inter> set (head # as @ bs) = {}" "chain h zs"
    and n: "s_next h' = (s_next h)(last (head # as) := hd zs, last zs := hd (bs @ [head]))"
    and p: "s_prev h' = (s_prev h)(hd zs := last (head # as), hd (bs @ [head]) := last zs)"
  shows "ring h' head (as @ zs @ bs)"
proof -
  have d: "distinct (head # as @ bs)" using r by (simp add: ring_def)
  have "chain h' ((head # as) @ zs @ (bs @ [head]))"
    by (rule chain_insert [OF _ _ zs(4) _ _ zs(1) ring_parts(1,2) [OF d] zs(2) ring_parts(3,4) [OF d] _ n p])
      (use r zs(3) in \<open>auto simp: ring_cut\<close>)
  then show ?thesis using d zs by (auto simp: ring_def)
qed

lemma ring_remove:
  assumes r: "ring h head (as @ zs @ bs)"
    and n: "\<And>y. y \<notin> set zs \<Longrightarrow> s_next h' y = ((s_next h)(last (head # as) := hd (bs @ [head]))) y"
    and p: "\<And>y. y \<notin> set zs \<Longrightarrow> s_prev h' y = ((s_prev h)(hd (bs @ [head]) := last (head # as))) y"
  shows "ring h' head (as @ bs)"
proof -
  have d: "distinct (head # as @ bs)" "set zs \<inter> set (head # as @ bs) = {}" using r by (auto simp: ring_def)
  have c: "chain h (head # as)" "chain h (bs @ [head])"
    using r chain_append [of h "head # as" "zs @ bs @ [head]"] chain_append [of h zs "bs @ [head]"] by (simp_all add: ring_def)
  have "chain h' ((head # as) @ (bs @ [head]))"
  proof (rule chain_link [OF c _ _ ring_parts [OF d(1)]])
    fix y assume "y \<in> set (head # as) \<union> set (bs @ [head])"
    then have "y \<notin> set zs" using d(2) by auto
    then show "s_next h' y = ((s_next h)(last (head # as) := hd (bs @ [head]))) y"
      "s_prev h' y = ((s_prev h)(hd (bs @ [head]) := last (head # as))) y" by (rule n, rule p)
  qed simp_all
  then show ?thesis using d(1) by (simp add: ring_def)
qed

section \<open>The operations on rings\<close>

lemma list_add_raw_ring:
  assumes "ring h head (as @ bs)" "x \<notin> set (head # as @ bs)"
  shows "ring (list_add_raw x (last (head # as)) (hd (bs @ [head])) h) head (as @ x # bs)"
proof -
  let ?p = "last (head # as)" and ?n = "hd (bs @ [head])"
  have "?p \<in> set (head # as)" "?n \<in> set (bs @ [head])" by (rule last_in_set, simp, rule hd_in_set, simp)
  then have d: "x \<noteq> ?p" "x \<noteq> ?n" using assms(2) by auto
  have "ring (list_add_raw x ?p ?n h) head (as @ [x] @ bs)"
    by (rule ring_insert [OF assms(1), of "[x]"])
      (use assms(2) d in \<open>auto simp: list_add_raw_def fun_upd_twist [of x] last_ConsL simp del: last.simps\<close>)
  then show ?thesis by simp
qed

lemma ring_next: "ring h head (as @ bs) \<Longrightarrow> s_next h (last (head # as)) = hd (bs @ [head])"
  by (simp only: ring_cut)

lemma ring_prev: "ring h head (as @ bs) \<Longrightarrow> s_prev h (hd (bs @ [head])) = last (head # as)"
  by (simp only: ring_cut)

lemma list_add_ring: "ring h head xs \<Longrightarrow> x \<notin> set (head # xs) \<Longrightarrow> ring (list_add x head h) head (x # xs)"
  using list_add_raw_ring [of h head "[]" xs x] ring_next [of h head "[]" xs] by (simp add: list_add_def)

lemma list_add_before_ring:
  "ring h head (as @ bs) \<Longrightarrow> x \<notin> set (head # as @ bs) \<Longrightarrow> ring (list_add_tail x (hd (bs @ [head])) h) head (as @ x # bs)"
  using list_add_raw_ring [of h head as bs x] ring_prev [of h head as bs] unfolding list_add_tail_def by metis

lemma list_add_tail_ring: "ring h head xs \<Longrightarrow> x \<notin> set (head # xs) \<Longrightarrow> ring (list_add_tail x head h) head (xs @ [x])"
  using list_add_before_ring [of h head xs "[]" x] by simp

lemma list_del_raw_links:
  assumes "ring h head (as @ e # bs)"
  shows "s_next (list_del_raw e h) = (s_next h)(last (head # as) := hd (bs @ [head]))"
    "s_prev (list_del_raw e h) = (s_prev h)(hd (bs @ [head]) := last (head # as))"
proof -
  have n: "s_next h e = hd (bs @ [head])" using ring_next [of h head "as @ [e]" bs] assms by (simp split: if_splits)
  have p: "s_prev h e = last (head # as)" using ring_prev [of h head as "e # bs"] assms by simp
  have "hd (bs @ [head]) \<in> set (bs @ [head])" by (rule hd_in_set) simp
  then have "e \<noteq> hd (bs @ [head])" using assms by (auto simp: ring_def)
  then show "s_next (list_del_raw e h) = (s_next h)(last (head # as) := hd (bs @ [head]))"
    "s_prev (list_del_raw e h) = (s_prev h)(hd (bs @ [head]) := last (head # as))"
    by (simp_all add: list_del_raw_def Let_def n p del: last.simps)
qed

text \<open>Whatever the removed node holds afterwards.\<close>

lemma list_del_raw_ring:
  assumes "ring h head (as @ e # bs)"
    and "\<And>y. y \<noteq> e \<Longrightarrow> s_next h' y = s_next (list_del_raw e h) y \<and> s_prev h' y = s_prev (list_del_raw e h) y"
  shows "ring h' head (as @ bs)"
  by (rule ring_remove [of h head as "[e]" bs])
    (use assms in \<open>simp_all add: list_del_raw_links [OF assms(1)] del: last.simps fun_upd_apply\<close>)

lemma list_del_ring: "ring h head (as @ e # bs) \<Longrightarrow> ring (list_del e h) head (as @ bs)"
  by (rule list_del_raw_ring) (auto simp: list_del_def)

lemma list_del_init_ring:
  "ring h head (as @ e # bs) \<Longrightarrow> ring (list_del_init e h) head (as @ bs) \<and> ring (list_del_init e h) e []"
  by (auto intro!: list_del_raw_ring [of h head as e bs]) (simp_all add: list_del_init_def INIT_LIST_HEAD_def ring_def)

lemma list_move_ring:
  assumes "ring h head (as @ e # bs)"
  shows "ring (list_move e head h) head (e # as @ bs)" "ring (list_move_tail e head h) head ((as @ bs) @ [e])"
proof -
  have r: "ring (list_del_raw e h) head (as @ bs)" by (rule list_del_raw_ring [OF assms]) simp
  have "e \<notin> set (head # as @ bs)" using assms by (auto simp: ring_def)
  then show "ring (list_move e head h) head (e # as @ bs)" "ring (list_move_tail e head h) head ((as @ bs) @ [e])"
    unfolding list_move_def list_move_tail_def by (rule list_add_ring [OF r], intro list_add_tail_ring [OF r])
qed

lemma ring_ends:
  assumes "ring h head (as @ e # bs)"
  shows "(list_is_first e head h \<longleftrightarrow> as = []) \<and> (list_is_last e head h \<longleftrightarrow> bs = [])"
proof -
  have p: "s_prev h e = last (head # as)" using ring_prev [of h head as "e # bs"] assms by simp
  have n: "s_next h e = hd (bs @ [head])" using ring_next [of h head "as @ [e]" bs] assms by (simp split: if_splits)
  have "head \<notin> set as" "head \<notin> set bs" using assms by (auto simp: ring_def)
  then show ?thesis unfolding list_is_first_def list_is_last_def p n by (cases bs) auto
qed

lemma list_empty_ring: "ring h head xs \<Longrightarrow> list_empty head h \<longleftrightarrow> xs = []"
  by (cases xs) (auto simp: ring_def list_empty_def)

lemma list_splice_raw_ring:
  assumes r: "ring h head (as @ bs)" and l: "ring h l ys" "set (l # ys) \<inter> set (head # as @ bs) = {}"
  shows "ring (list_splice_raw l (last (head # as)) (hd (bs @ [head])) h) head (as @ ys @ bs)"
proof (cases "ys = []")
  case False
  have f: "s_next h l = hd ys" "s_prev h l = last ys"
    using ring_next [of h l "[]" ys] ring_prev [of h l ys "[]"] l(1) False by simp_all
  have c: "chain h ys" using l(1) chain_append [of h "[l]" "ys @ [l]"] chain_append [of h ys "[l]"] by (simp add: ring_def)
  show ?thesis
    by (rule ring_insert [OF r False _ _ c])
      (use l False in \<open>auto simp: list_splice_raw_def list_empty_ring [OF l(1)] Let_def f ring_def simp del: last.simps\<close>)
qed (use r list_empty_ring [OF l(1)] in \<open>simp add: list_splice_raw_def del: last.simps\<close>)

lemma init_ring:
  "ring h head xs \<Longrightarrow> l \<notin> set (head # xs) \<Longrightarrow> ring (INIT_LIST_HEAD l h) head xs \<and> ring (INIT_LIST_HEAD l h) l []"
proof -
  assume r: "ring h head xs" "l \<notin> set (head # xs)"
  have b: "y \<in> set (butlast (head # xs @ [head])) \<Longrightarrow> y \<in> set (head # xs)" for y by (auto dest: in_set_butlastD)
  have "chain (INIT_LIST_HEAD l h) (head # xs @ [head]) = chain h (head # xs @ [head])"
    by (rule chain_frame) (use r(2) b in \<open>auto simp: INIT_LIST_HEAD_def\<close>)
  then show ?thesis using r(1) by (simp add: ring_def INIT_LIST_HEAD_def)
qed

lemma list_splice_init_ring:
  assumes "ring h head xs" "ring h l ys" "set (l # ys) \<inter> set (head # xs) = {}"
  shows "ring (list_splice_init l head h) head (ys @ xs) \<and> ring (list_splice_init l head h) l []"
    "ring (list_splice_tail_init l head h) head (xs @ ys) \<and> ring (list_splice_tail_init l head h) l []"
proof -
  have l: "l \<notin> set (head # ys @ xs)" "l \<notin> set (head # xs @ ys)" using assms(2,3) by (auto simp: ring_def)
  show "ring (list_splice_init l head h) head (ys @ xs) \<and> ring (list_splice_init l head h) l []"
    using init_ring [OF _ l(1)] list_splice_raw_ring [of h head "[]" xs l ys] ring_next [of h head "[]" xs] assms
    by (simp add: list_splice_init_def)
  show "ring (list_splice_tail_init l head h) head (xs @ ys) \<and> ring (list_splice_tail_init l head h) l []"
    using init_ring [OF _ l(2)] list_splice_raw_ring [of h head xs "[]" l ys] ring_prev [of h head xs "[]"] assms
    by (simp add: list_splice_tail_init_def)
qed

lemma list_for_each_ring: "ring h head (as @ bs) \<Longrightarrow> list_for_each h head (hd (bs @ [head])) = Some bs"
proof (induction bs arbitrary: as)
  case Nil
  show ?case by (subst list_for_each.simps) simp
next
  case (Cons b bs)
  have "b \<noteq> head" using Cons.prems by (auto simp: ring_def)
  moreover have "s_next h b = hd (bs @ [head])" using ring_next [of h head "as @ [b]" bs] Cons.prems by (simp split: if_splits)
  ultimately show ?case using Cons.IH [of "as @ [b]"] Cons.prems by (subst list_for_each.simps) simp
qed

lemma list_for_each_prev_ring: "ring h head (as @ bs) \<Longrightarrow> list_for_each_prev h head (last (head # as)) = Some (rev as)"
proof (induction as arbitrary: bs rule: rev_induct)
  case Nil
  show ?case by (subst list_for_each_prev.simps) simp
next
  case (snoc a as)
  have "a \<noteq> head" using snoc.prems by (auto simp: ring_def)
  moreover have "s_prev h a = last (head # as)" using ring_prev [of h head as "a # bs"] snoc.prems by simp
  moreover have "last (head # as @ [a]) = a" by simp
  moreover have "list_for_each_prev h head (last (head # as)) = Some (rev as)" using snoc.IH [of "a # bs"] snoc.prems by simp
  ultimately show ?case by (subst list_for_each_prev.simps) (simp del: last.simps)
qed

lemma ring_operations:
  assumes "ring h head xs"
  shows "x \<notin> set (head # xs) \<Longrightarrow> ring (list_add x head h) head (x # xs) \<and> ring (list_add_tail x head h) head (xs @ [x]) \<and>
      (\<forall>as e bs. xs = as @ e # bs \<longrightarrow> ring (list_add_tail x e h) head (as @ x # e # bs))"
    and "xs = as @ e # bs \<Longrightarrow> ring (list_del e h) head (as @ bs) \<and>
      ring (list_del_init e h) head (as @ bs) \<and> ring (list_del_init e h) e [] \<and>
      ring (list_move e head h) head (e # as @ bs) \<and> ring (list_move_tail e head h) head (as @ bs @ [e]) \<and>
      (list_is_first e head h \<longleftrightarrow> as = []) \<and> (list_is_last e head h \<longleftrightarrow> bs = [])"
    and "ring h l ys \<Longrightarrow> set (l # ys) \<inter> set (head # xs) = {} \<Longrightarrow>
      ring (list_splice_init l head h) head (ys @ xs) \<and> ring (list_splice_init l head h) l [] \<and>
      ring (list_splice_tail_init l head h) head (xs @ ys) \<and> ring (list_splice_tail_init l head h) l []"
    and "(list_empty head h \<longleftrightarrow> xs = []) \<and> list_for_each h head (s_next h head) = Some xs \<and>
      list_for_each_prev h head (s_prev h head) = Some (rev xs)"
proof -
  show "x \<notin> set (head # xs) \<Longrightarrow> ring (list_add x head h) head (x # xs) \<and> ring (list_add_tail x head h) head (xs @ [x]) \<and>
      (\<forall>as e bs. xs = as @ e # bs \<longrightarrow> ring (list_add_tail x e h) head (as @ x # e # bs))"
    using assms list_add_ring list_add_tail_ring list_add_before_ring [of h head _ "_ # _" x] by auto
  show "xs = as @ e # bs \<Longrightarrow> ring (list_del e h) head (as @ bs) \<and>
      ring (list_del_init e h) head (as @ bs) \<and> ring (list_del_init e h) e [] \<and>
      ring (list_move e head h) head (e # as @ bs) \<and> ring (list_move_tail e head h) head (as @ bs @ [e]) \<and>
      (list_is_first e head h \<longleftrightarrow> as = []) \<and> (list_is_last e head h \<longleftrightarrow> bs = [])"
    using assms list_del_ring list_del_init_ring list_move_ring ring_ends [of h head as e bs] by simp
  show "ring h l ys \<Longrightarrow> set (l # ys) \<inter> set (head # xs) = {} \<Longrightarrow>
      ring (list_splice_init l head h) head (ys @ xs) \<and> ring (list_splice_init l head h) l [] \<and>
      ring (list_splice_tail_init l head h) head (xs @ ys) \<and> ring (list_splice_tail_init l head h) l []"
    using list_splice_init_ring [OF assms] by blast
  show "(list_empty head h \<longleftrightarrow> xs = []) \<and> list_for_each h head (s_next h head) = Some xs \<and>
      list_for_each_prev h head (s_prev h head) = Some (rev xs)"
    using list_empty_ring [OF assms] list_for_each_ring [of h head "[]" xs] list_for_each_prev_ring [of h head xs "[]"]
      ring_next [of h head "[]" xs] ring_prev [of h head xs "[]"] assms by simp
qed


definition sample_store :: store where
  "sample_store = list_add_tail 6 5 (INIT_LIST_HEAD 5 (list_add_tail 3 1 (list_add_tail 2 1 (INIT_LIST_HEAD 1
     \<lparr>s_next = (\<lambda>_. 0), s_prev = (\<lambda>_. 0)\<rparr>))))"


end
