(* ===== verification/Uloop.thy ===== *)
theory Uloop
  imports C_Text
begin

text \<open>
  The event loop of \<^verbatim>\<open>src/opbox/uloop.c\<close>, in the variant for \<^verbatim>\<open>epoll\<close>.  Descriptors, timers and processes are objects at
  addresses; the lists of \<^verbatim>\<open>list.h\<close> are lists of addresses.  A callback is code of the caller: a function from the state to
  the calls it makes, which may run the loop again.  The clock, \<^verbatim>\<open>epoll\<close>, signals and \<^verbatim>\<open>waitpid\<close> are an environment of answers
  by call number.  The functions that run callbacks are the steps of a machine with an explicit stack of calls.
\<close>

section \<open>Data\<close>

record timeval =
  tv_sec :: int
  tv_usec :: int

record uloop_fd =
  fd_cb :: bool
  fd_fd :: int
  fd_eof :: bool
  fd_error :: bool
  fd_registered :: bool
  fd_flags :: u8

record uloop_timeout =
  to_pending :: bool
  to_cb :: bool
  to_time :: timeval

record uloop_process =
  pr_pending :: bool
  pr_pid :: int

definition ULOOP_READ :: u32 where "ULOOP_READ = 1"
definition ULOOP_WRITE :: u32 where "ULOOP_WRITE = 2"
definition ULOOP_EDGE_TRIGGER :: u32 where "ULOOP_EDGE_TRIGGER = 4"
definition ULOOP_BLOCKING :: u32 where "ULOOP_BLOCKING = 8"
definition ULOOP_EVENT_MASK :: u32 where "ULOOP_EVENT_MASK = (ULOOP_READ OR ULOOP_WRITE)"
definition ULOOP_EVENT_BUFFERED :: u32 where "ULOOP_EVENT_BUFFERED = 16"
definition ULOOP_ERROR_CB :: u32 where "ULOOP_ERROR_CB = 64"
definition ULOOP_MAX_EVENTS :: nat where "ULOOP_MAX_EVENTS = 10"

lemmas uloop_flags = ULOOP_READ_def ULOOP_WRITE_def ULOOP_EDGE_TRIGGER_def ULOOP_BLOCKING_def ULOOP_EVENT_MASK_def
  ULOOP_EVENT_BUFFERED_def ULOOP_ERROR_CB_def

text \<open>The flags of \<^verbatim>\<open>epoll\<close>.\<close>

definition EPOLLIN :: u32 where "EPOLLIN = 0x001"
definition EPOLLOUT :: u32 where "EPOLLOUT = 0x004"
definition EPOLLERR :: u32 where "EPOLLERR = 0x008"
definition EPOLLHUP :: u32 where "EPOLLHUP = 0x010"
definition EPOLLRDHUP :: u32 where "EPOLLRDHUP = 0x2000"
definition EPOLLET :: u32 where "EPOLLET = 0x80000000"

datatype signal = SIGINT | SIGTERM | SIGCHLD | SIGPIPE

datatype sig_handler = SIG_DFL | SIG_IGN | H_sigint | H_sigchld | H_custom nat

definition signo :: "signal \<Rightarrow> int" where
  "signo s = (case s of SIGINT \<Rightarrow> 2 | SIGTERM \<Rightarrow> 15 | SIGCHLD \<Rightarrow> 17 | SIGPIPE \<Rightarrow> 13)"

text \<open>
  What is recorded of a run: calls that add and delete descriptors, that set and cancel timers, the callbacks, and the fetching of
  events with its timeout and the time before it.  The newest entry comes first.
\<close>

datatype uloop_event =
    Ev_add nat
  | Ev_delete nat
  | Ev_fd nat u32
  | Ev_set nat
  | Ev_cancel nat
  | Ev_timer nat timeval
  | Ev_process nat int
  | Ev_fetch int timeval

text \<open>
  The state: the objects, the lists, the events fetched (\<^verbatim>\<open>cur_fds\<close> from the index \<^verbatim>\<open>cur_fd\<close> on), the stack of descriptors whose
  callback runs, the descriptors known to the kernel, signal handlers, the numbers of the answers used so far, and the descriptors
  made non-blocking.
\<close>

record uloop =
  ul_fds :: "nat \<Rightarrow> uloop_fd"
  ul_tmrs :: "nat \<Rightarrow> uloop_timeout"
  ul_prcs :: "nat \<Rightarrow> uloop_process"
  ul_timeouts :: "nat list"
  ul_processes :: "nat list"
  ul_poll_fd :: int
  ul_waker_pipe :: int
  ul_epoll :: "int \<Rightarrow> (nat \<times> u32) option"
  ul_stack :: "(nat option \<times> u32) list"
  ul_cur_fds :: "(nat option \<times> u32) list"
  ul_cur_fd :: nat
  ul_cur_nfds :: nat
  ul_cancelled :: bool
  ul_status :: int
  ul_do_sigchld :: bool
  ul_run_depth :: nat
  ul_sig :: "signal \<Rightarrow> sig_handler"
  ul_old :: "signal \<Rightarrow> sig_handler"
  ul_trace :: "uloop_event list"
  ul_clocks :: nat
  ul_ctls :: nat
  ul_polls :: nat
  ul_waits :: nat
  ul_nonblock :: "int \<Rightarrow> bool"

datatype uloop_call =
    C_fd_add nat u32
  | C_fd_delete nat
  | C_timeout_set nat int
  | C_timeout_cancel nat
  | C_process_add nat
  | C_process_delete nat
  | C_end
  | C_run int

datatype wait_answer = Wait_intr | Wait_none | Wait_pid int int

record uloop_env =
  ue_clock :: "nat \<Rightarrow> timeval"
  ue_ctl :: "nat \<Rightarrow> bool"
  ue_poll :: "nat \<Rightarrow> (int \<times> u32) list option"
  ue_signals :: "nat \<Rightarrow> signal list"
  ue_wait :: "nat \<Rightarrow> wait_answer"
  ue_fd_cb :: "nat \<Rightarrow> u32 \<Rightarrow> uloop \<Rightarrow> uloop_call list"
  ue_timer_cb :: "nat \<Rightarrow> uloop \<Rightarrow> uloop_call list"
  ue_process_cb :: "nat \<Rightarrow> int \<Rightarrow> uloop \<Rightarrow> uloop_call list"

definition log_event :: "uloop_event \<Rightarrow> uloop \<Rightarrow> uloop" where
  "log_event e st = st\<lparr>ul_trace := e # ul_trace st\<rparr>"

definition fl_on :: "u8 \<Rightarrow> u32 \<Rightarrow> bool" where
  "fl_on fl m \<longleftrightarrow> (ucast fl :: u32) AND m \<noteq> 0"

definition upd_fd :: "nat \<Rightarrow> (uloop_fd \<Rightarrow> uloop_fd) \<Rightarrow> uloop \<Rightarrow> uloop" where
  "upd_fd a f st = st\<lparr>ul_fds := (ul_fds st)(a := f (ul_fds st a))\<rparr>"

definition upd_tmr :: "nat \<Rightarrow> (uloop_timeout \<Rightarrow> uloop_timeout) \<Rightarrow> uloop \<Rightarrow> uloop" where
  "upd_tmr a f st = st\<lparr>ul_tmrs := (ul_tmrs st)(a := f (ul_tmrs st a))\<rparr>"

definition upd_prc :: "nat \<Rightarrow> (uloop_process \<Rightarrow> uloop_process) \<Rightarrow> uloop \<Rightarrow> uloop" where
  "upd_prc a f st = st\<lparr>ul_prcs := (ul_prcs st)(a := f (ul_prcs st a))\<rparr>"

section \<open>Descriptors\<close>

text \<open>
  \<^verbatim>\<open>register_poll\<close> and \<^verbatim>\<open>__uloop_fd_delete\<close>: the answer of \<^verbatim>\<open>epoll_ctl\<close> is in the environment; when it succeeds the kernel
  knows the descriptor with its events and the address, or knows it no more.
\<close>

definition poll_events :: "u32 \<Rightarrow> u32" where
  "poll_events flags =
     ((if flags AND ULOOP_READ \<noteq> 0 then EPOLLIN OR EPOLLRDHUP else 0) OR
      (if flags AND ULOOP_WRITE \<noteq> 0 then EPOLLOUT else 0) OR
      (if flags AND ULOOP_EDGE_TRIGGER \<noteq> 0 then EPOLLET else 0))"

definition register_poll :: "uloop_env \<Rightarrow> nat \<Rightarrow> u32 \<Rightarrow> uloop \<Rightarrow> int \<times> uloop" where
  "register_poll ev a flags st =
     (let ok = ue_ctl ev (ul_ctls st);
          st1 = upd_fd a (fd_flags_update (\<lambda>_. ucast flags)) (st\<lparr>ul_ctls := Suc (ul_ctls st)\<rparr>)
      in if ok then (0, st1\<lparr>ul_epoll := (ul_epoll st1)(fd_fd (ul_fds st a) := Some (a, poll_events flags))\<rparr>)
         else (- 1, st1))"

definition uloop_fd_delete_poll :: "uloop_env \<Rightarrow> nat \<Rightarrow> uloop \<Rightarrow> int \<times> uloop" where
  "uloop_fd_delete_poll ev a st =
     (let ok = ue_ctl ev (ul_ctls st);
          st1 = upd_fd a (fd_flags_update (\<lambda>_. 0)) (st\<lparr>ul_ctls := Suc (ul_ctls st)\<rparr>)
      in if ok then (0, st1\<lparr>ul_epoll := (ul_epoll st1)(fd_fd (ul_fds st a) := None)\<rparr>) else (- 1, st1))"

text \<open>
  \<^verbatim>\<open>uloop_fd_stack_event\<close>: the first entry of the stack for the descriptor loses it (\<open>None\<close>, the argument \<^verbatim>\<open>-1\<close>) or keeps the
  events for later.
\<close>

fun stack_event :: "nat \<Rightarrow> u32 option \<Rightarrow> (nat option \<times> u32) list \<Rightarrow> bool \<times> (nat option \<times> u32) list" where
  "stack_event a e [] = (False, [])"
| "stack_event a e ((b, evs) # s) =
     (if b \<noteq> Some a then (case stack_event a e s of (r, s') \<Rightarrow> (r, (b, evs) # s'))
      else (case e of
              None \<Rightarrow> (True, (None, evs) # s)
            | Some ev \<Rightarrow> (True, (b, evs OR ev OR ULOOP_EVENT_BUFFERED) # s)))"

definition uloop_fd_stack_event :: "nat \<Rightarrow> u32 option \<Rightarrow> uloop \<Rightarrow> bool \<times> uloop" where
  "uloop_fd_stack_event a e st =
     (if \<not> fl_on (fd_flags (ul_fds st a)) ULOOP_EDGE_TRIGGER then (False, st)
      else (case stack_event a e (ul_stack st) of (r, s) \<Rightarrow> (r, st\<lparr>ul_stack := s\<rparr>)))"

text \<open>The loop of \<^verbatim>\<open>uloop_fd_delete\<close> over the fetched events that are still to be handled.\<close>

definition clear_cur :: "nat \<Rightarrow> uloop \<Rightarrow> uloop" where
  "clear_cur a st =
     st\<lparr>ul_cur_fds :=
          map (\<lambda>(i, e). if ul_cur_fd st \<le> i \<and> i < ul_cur_fd st + ul_cur_nfds st \<and> fst e = Some a then (None, snd e) else e)
            (enumerate 0 (ul_cur_fds st))\<rparr>"

definition uloop_fd_delete :: "uloop_env \<Rightarrow> nat \<Rightarrow> uloop \<Rightarrow> int \<times> uloop" where
  "uloop_fd_delete ev a st =
     (let st1 = clear_cur a st in
      if \<not> fd_registered (ul_fds st1 a) then (0, st1)
      else
        (let st2 = upd_fd a (fd_registered_update (\<lambda>_. False)) st1;
             st3 = snd (uloop_fd_stack_event a None st2)
         in uloop_fd_delete_poll ev a st3))"

definition uloop_fd_add :: "uloop_env \<Rightarrow> nat \<Rightarrow> u32 \<Rightarrow> uloop \<Rightarrow> int \<times> uloop" where
  "uloop_fd_add ev a flags st =
     (if flags AND (ULOOP_READ OR ULOOP_WRITE) = 0 then uloop_fd_delete ev a st
      else
        (let st0 = (if \<not> fd_registered (ul_fds st a) \<and> flags AND ULOOP_BLOCKING = 0
                    then st\<lparr>ul_nonblock := (ul_nonblock st)(fd_fd (ul_fds st a) := True)\<rparr> else st)
         in case register_poll ev a flags st0 of
           (ret, st1) \<Rightarrow>
             if ret < 0 then (ret, st1)
             else (ret, upd_fd a (\<lambda>f. f\<lparr>fd_registered := True, fd_eof := False, fd_error := False\<rparr>) st1)))"

section \<open>Timers and processes\<close>

text \<open>The division of C truncates towards zero.\<close>

definition c_div :: "int \<Rightarrow> int \<Rightarrow> int" where
  "c_div a m = (if 0 \<le> a then a div m else - ((- a) div m))"

definition c_mod :: "int \<Rightarrow> int \<Rightarrow> int" where
  "c_mod a m = a - m * c_div a m"

definition tv_diff :: "timeval \<Rightarrow> timeval \<Rightarrow> int" where
  "tv_diff t1 t2 = to_int32 ((tv_sec t1 - tv_sec t2) * 1000 + c_div (tv_usec t1 - tv_usec t2) 1000)"

text \<open>\<^verbatim>\<open>list_add_tail\<close> in front of the first element of which \<open>P\<close> holds, or at the end.\<close>

fun insert_before :: "('a \<Rightarrow> bool) \<Rightarrow> 'a \<Rightarrow> 'a list \<Rightarrow> 'a list" where
  "insert_before P x [] = [x]"
| "insert_before P x (y # ys) = (if P y then x # y # ys else y # insert_before P x ys)"

definition uloop_timeout_add :: "nat \<Rightarrow> uloop \<Rightarrow> int \<times> uloop" where
  "uloop_timeout_add a st =
     (if to_pending (ul_tmrs st a) then (- 1, st)
      else (0, upd_tmr a (to_pending_update (\<lambda>_. True))
        (st\<lparr>ul_timeouts := insert_before (\<lambda>b. tv_diff (to_time (ul_tmrs st b)) (to_time (ul_tmrs st a)) > 0) a (ul_timeouts st)\<rparr>)))"

definition uloop_gettime :: "uloop_env \<Rightarrow> uloop \<Rightarrow> timeval \<times> uloop" where
  "uloop_gettime ev st = (ue_clock ev (ul_clocks st), st\<lparr>ul_clocks := Suc (ul_clocks st)\<rparr>)"

definition uloop_timeout_cancel :: "nat \<Rightarrow> uloop \<Rightarrow> int \<times> uloop" where
  "uloop_timeout_cancel a st =
     (if \<not> to_pending (ul_tmrs st a) then (- 1, st)
      else (0, upd_tmr a (to_pending_update (\<lambda>_. False)) (st\<lparr>ul_timeouts := remove1 a (ul_timeouts st)\<rparr>)))"

definition set_time :: "timeval \<Rightarrow> int \<Rightarrow> timeval" where
  "set_time now msecs =
     (let sec = tv_sec now + c_div msecs 1000;
          usec = tv_usec now + c_mod msecs 1000 * 1000
      in if usec > 1000000 then \<lparr>tv_sec = sec + 1, tv_usec = usec - 1000000\<rparr> else \<lparr>tv_sec = sec, tv_usec = usec\<rparr>)"

definition uloop_timeout_set :: "uloop_env \<Rightarrow> nat \<Rightarrow> int \<Rightarrow> uloop \<Rightarrow> int \<times> uloop" where
  "uloop_timeout_set ev a msecs st =
     (let st1 = (if to_pending (ul_tmrs st a) then snd (uloop_timeout_cancel a st) else st);
          (now, st2) = uloop_gettime ev st1
      in uloop_timeout_add a (upd_tmr a (to_time_update (\<lambda>_. set_time now msecs)) st2))"

definition uloop_timeout_remaining :: "uloop_env \<Rightarrow> nat \<Rightarrow> uloop \<Rightarrow> int \<times> uloop" where
  "uloop_timeout_remaining ev a st =
     (if \<not> to_pending (ul_tmrs st a) then (- 1, st)
      else (case uloop_gettime ev st of (now, st1) \<Rightarrow> (tv_diff (to_time (ul_tmrs st a)) now, st1)))"

definition uloop_process_add :: "nat \<Rightarrow> uloop \<Rightarrow> int \<times> uloop" where
  "uloop_process_add a st =
     (if pr_pending (ul_prcs st a) then (- 1, st)
      else (0, upd_prc a (pr_pending_update (\<lambda>_. True))
        (st\<lparr>ul_processes := insert_before (\<lambda>b. pr_pid (ul_prcs st b) > pr_pid (ul_prcs st a)) a (ul_processes st)\<rparr>)))"

definition uloop_process_delete :: "nat \<Rightarrow> uloop \<Rightarrow> int \<times> uloop" where
  "uloop_process_delete a st =
     (if \<not> pr_pending (ul_prcs st a) then (- 1, st)
      else (0, upd_prc a (pr_pending_update (\<lambda>_. False)) (st\<lparr>ul_processes := remove1 a (ul_processes st)\<rparr>)))"

definition uloop_get_next_timeout :: "timeval \<Rightarrow> uloop \<Rightarrow> int" where
  "uloop_get_next_timeout tv st =
     (case ul_timeouts st of
        [] \<Rightarrow> - 1
      | t # _ \<Rightarrow> let diff = tv_diff (to_time (ul_tmrs st t)) tv in if diff < 0 then 0 else diff)"

section \<open>Signals\<close>

definition uloop_handle_sigint :: "int \<Rightarrow> uloop \<Rightarrow> uloop" where
  "uloop_handle_sigint n st = st\<lparr>ul_status := n, ul_cancelled := True\<rparr>"

definition uloop_sigchld :: "uloop \<Rightarrow> uloop" where
  "uloop_sigchld st = st\<lparr>ul_do_sigchld := True\<rparr>"

text \<open>The arrival of a signal; one whose action is the default one of the system is outside of the model.\<close>

definition deliver :: "signal \<Rightarrow> uloop \<Rightarrow> uloop" where
  "deliver s st =
     (case ul_sig st s of H_sigint \<Rightarrow> uloop_handle_sigint (signo s) st | H_sigchld \<Rightarrow> uloop_sigchld st | _ \<Rightarrow> st)"

definition uloop_install_handler :: "signal \<Rightarrow> sig_handler \<Rightarrow> bool \<Rightarrow> uloop \<Rightarrow> uloop" where
  "uloop_install_handler s h add st =
     (if add then
        (if ul_sig st s = SIG_DFL then st\<lparr>ul_old := (ul_old st)(s := SIG_DFL), ul_sig := (ul_sig st)(s := h)\<rparr> else st)
      else if ul_sig st s = h then st\<lparr>ul_sig := (ul_sig st)(s := ul_old st s)\<rparr> else st)"

definition uloop_ignore_signal :: "signal \<Rightarrow> bool \<Rightarrow> uloop \<Rightarrow> uloop" where
  "uloop_ignore_signal s ignore st =
     (if ignore then (if ul_sig st s = SIG_DFL then st\<lparr>ul_sig := (ul_sig st)(s := SIG_IGN)\<rparr> else st)
      else st)"

definition uloop_setup_signals :: "bool \<Rightarrow> bool \<Rightarrow> uloop \<Rightarrow> uloop" where
  "uloop_setup_signals handle_sigchld add st =
     (let st1 = uloop_install_handler SIGINT H_sigint add st;
          st2 = uloop_install_handler SIGTERM H_sigint add st1;
          st3 = (if handle_sigchld then uloop_install_handler SIGCHLD H_sigchld add st2 else st2)
      in uloop_ignore_signal SIGPIPE add st3)"

section \<open>Fetching events\<close>

text \<open>One answer of \<^verbatim>\<open>epoll_wait\<close>: the entry of \<^verbatim>\<open>cur_fds\<close> for it; the events of an entry without descriptor are never read.\<close>

definition fetch_one :: "uloop_env \<Rightarrow> nat \<times> u32 \<Rightarrow> uloop \<Rightarrow> (nat option \<times> u32) \<times> uloop" where
  "fetch_one ev ae st =
     (let (a, e) = ae;
          st1 = (if e AND (EPOLLERR OR EPOLLHUP) \<noteq> 0 then
                   (let s = upd_fd a (fd_error_update (\<lambda>_. True)) st
                    in if \<not> fl_on (fd_flags (ul_fds s a)) ULOOP_ERROR_CB then snd (uloop_fd_delete ev a s) else s)
                 else st)
      in if e AND (EPOLLRDHUP OR EPOLLIN OR EPOLLOUT OR EPOLLERR OR EPOLLHUP) = 0 then ((None, 0), st1)
         else ((Some a, (if e AND EPOLLIN \<noteq> 0 then ULOOP_READ else 0) OR (if e AND EPOLLOUT \<noteq> 0 then ULOOP_WRITE else 0)),
               if e AND EPOLLRDHUP \<noteq> 0 then upd_fd a (fd_eof_update (\<lambda>_. True)) st1 else st1))"

fun fetch_all :: "uloop_env \<Rightarrow> (nat \<times> u32) list \<Rightarrow> uloop \<Rightarrow> (nat option \<times> u32) list \<times> uloop" where
  "fetch_all ev [] st = ([], st)"
| "fetch_all ev (ae # aes) st =
     (case fetch_one ev ae st of (x, st1) \<Rightarrow> (case fetch_all ev aes st1 of (xs, st2) \<Rightarrow> (x # xs, st2)))"

text \<open>
  \<^verbatim>\<open>uloop_fetch_events\<close>: signals may arrive while \<^verbatim>\<open>epoll_wait\<close> waits.  The kernel reports for a ready descriptor it knows the
  address it was registered with, for at most \<^verbatim>\<open>ULOOP_MAX_EVENTS\<close> of them.
\<close>

definition uloop_fetch_events :: "uloop_env \<Rightarrow> int \<Rightarrow> timeval \<Rightarrow> uloop \<Rightarrow> int \<times> uloop" where
  "uloop_fetch_events ev timeout tv st =
     (let k = ul_polls st;
          st1 = fold deliver (ue_signals ev k) (log_event (Ev_fetch timeout tv) (st\<lparr>ul_polls := Suc k\<rparr>))
      in case ue_poll ev k of
           None \<Rightarrow> (- 1, st1)
         | Some ready \<Rightarrow>
             (let aes = take ULOOP_MAX_EVENTS
                    (List.map_filter (\<lambda>(n, e). map_option (\<lambda>(a, _). (a, e)) (ul_epoll st1 n)) ready);
                  (xs, st2) = fetch_all ev aes st1
              in (int (length xs), st2\<lparr>ul_cur_fds := xs @ drop (length xs) (ul_cur_fds st2)\<rparr>)))"

text \<open>
  The loop of \<^verbatim>\<open>uloop_run_events\<close> up to the event whose callback is to run; an event of a descriptor whose callback is running
  is kept on the stack when it is edge-triggered.
\<close>

function next_event :: "uloop \<Rightarrow> (nat \<times> u32) option \<times> uloop" where
  "next_event st =
     (if ul_cur_nfds st = 0 then (None, st)
      else
        (let (b, events) = ul_cur_fds st ! ul_cur_fd st;
             st1 = st\<lparr>ul_cur_fd := Suc (ul_cur_fd st), ul_cur_nfds := ul_cur_nfds st - 1\<rparr>
         in case b of
              None \<Rightarrow> next_event st1
            | Some a \<Rightarrow>
                if \<not> fd_cb (ul_fds st1 a) then next_event st1
                else (case uloop_fd_stack_event a (Some events) st1 of
                        (True, st2) \<Rightarrow> next_event st2
                      | (False, st2) \<Rightarrow> (Some (a, events), st2))))"
  by pat_completeness auto
termination
  by (relation "measure ul_cur_nfds") (auto simp: uloop_fd_stack_event_def split: if_splits prod.splits)

declare next_event.simps [simp del]

definition fetch_if_empty :: "uloop_env \<Rightarrow> int \<Rightarrow> timeval \<Rightarrow> uloop \<Rightarrow> uloop" where
  "fetch_if_empty ev timeout tv st =
     (if ul_cur_nfds st = 0 then
        (case uloop_fetch_events ev timeout tv (st\<lparr>ul_cur_fd := 0\<rparr>) of (n, st1) \<Rightarrow> st1\<lparr>ul_cur_nfds := (if n < 0 then 0 else nat n)\<rparr>)
      else st)"

section \<open>Running\<close>

text \<open>
  The stack of calls.  \<open>F_calls\<close> is the rest of a callback, or of the main program; \<open>F_loop\<close> the head of the loop of \<^verbatim>\<open>uloop_run_timeout\<close>
  and \<open>F_sigchld\<close>, \<open>F_poll\<close> its points after the timers and after the processes; \<open>F_timeouts\<close>, \<open>F_waits\<close> and \<open>F_procs\<close> are the loops of \<^verbatim>\<open>uloop_process_timeouts\<close>
  and \<^verbatim>\<open>uloop_handle_processes\<close>, \<open>F_next\<close> the step of the last; \<open>F_fd\<close> is the point after a descriptor's callback in \<^verbatim>\<open>uloop_run_events\<close>.
\<close>

datatype list_ptr = P_head | P_node nat | P_null

datatype frame =
    F_calls "uloop_call list"
  | F_loop int
  | F_timeouts timeval
  | F_sigchld int
  | F_waits
  | F_procs int int list_ptr list_ptr
  | F_next int int list_ptr
  | F_poll int
  | F_fd nat

datatype outcome = Next "frame list" uloop | Done | Crash

definition uloop_api :: "uloop_env \<Rightarrow> uloop_call \<Rightarrow> uloop \<Rightarrow> uloop" where
  "uloop_api ev c st =
     (case c of
        C_fd_add a flags \<Rightarrow>
          log_event (if flags AND (ULOOP_READ OR ULOOP_WRITE) = 0 then Ev_delete a else Ev_add a) (snd (uloop_fd_add ev a flags st))
      | C_fd_delete a \<Rightarrow> log_event (Ev_delete a) (snd (uloop_fd_delete ev a st))
      | C_timeout_set a msecs \<Rightarrow> log_event (Ev_set a) (snd (uloop_timeout_set ev a msecs st))
      | C_timeout_cancel a \<Rightarrow> log_event (Ev_cancel a) (snd (uloop_timeout_cancel a st))
      | C_process_add a \<Rightarrow> snd (uloop_process_add a st)
      | C_process_delete a \<Rightarrow> snd (uloop_process_delete a st)
      | C_end \<Rightarrow> st\<lparr>ul_cancelled := True\<rparr>
      | C_run _ \<Rightarrow> st)"

text \<open>The node after a node of a list; a node that was taken out of its list has \<^verbatim>\<open>NULL\<close> there.\<close>

fun after :: "nat \<Rightarrow> nat list \<Rightarrow> list_ptr" where
  "after a [] = P_null"
| "after a (x # xs) = (if x = a then (case xs of [] \<Rightarrow> P_head | y # _ \<Rightarrow> P_node y) else after a xs)"

definition list_next :: "nat list \<Rightarrow> list_ptr \<Rightarrow> list_ptr" where
  "list_next xs p =
     (case p of P_head \<Rightarrow> (case xs of [] \<Rightarrow> P_head | x # _ \<Rightarrow> P_node x) | P_node a \<Rightarrow> after a xs | P_null \<Rightarrow> P_null)"

definition step_timeouts :: "uloop_env \<Rightarrow> timeval \<Rightarrow> frame list \<Rightarrow> uloop \<Rightarrow> outcome" where
  "step_timeouts ev tv k st =
     (case ul_timeouts st of
        [] \<Rightarrow> Next k st
      | a # _ \<Rightarrow>
          if tv_diff (to_time (ul_tmrs st a)) tv > 0 then Next k st
          else
            (let st1 = log_event (Ev_timer a tv) (snd (uloop_timeout_cancel a st))
             in if to_cb (ul_tmrs st1 a) then Next (F_calls (ue_timer_cb ev a st1) # F_timeouts tv # k) st1
                else Next (F_timeouts tv # k) st1))"

definition step_waits :: "uloop_env \<Rightarrow> frame list \<Rightarrow> uloop \<Rightarrow> outcome" where
  "step_waits ev k st =
     (let st1 = st\<lparr>ul_waits := Suc (ul_waits st)\<rparr> in
      case ue_wait ev (ul_waits st) of
        Wait_intr \<Rightarrow> Next (F_waits # k) st1
      | Wait_none \<Rightarrow> Next k st1
      | Wait_pid pid ret \<Rightarrow>
          if pid \<le> 0 then Next k st1
          else
            (let p = list_next (ul_processes st) P_head
             in Next (F_procs pid ret p (list_next (ul_processes st) p) # F_waits # k) st1))"

definition step_procs :: "uloop_env \<Rightarrow> int \<Rightarrow> int \<Rightarrow> list_ptr \<Rightarrow> list_ptr \<Rightarrow> frame list \<Rightarrow> uloop \<Rightarrow> outcome" where
  "step_procs ev pid ret p n k st =
     (case p of
        P_head \<Rightarrow> Next k st
      | P_null \<Rightarrow> Crash
      | P_node a \<Rightarrow>
          if pr_pid (ul_prcs st a) < pid then Next (F_procs pid ret n (list_next (ul_processes st) n) # k) st
          else if pr_pid (ul_prcs st a) > pid then Next k st
          else
            (let st1 = log_event (Ev_process a ret) (snd (uloop_process_delete a st))
             in Next (F_calls (ue_process_cb ev a ret st1) # F_next pid ret n # k) st1))"

definition step_poll :: "uloop_env \<Rightarrow> int \<Rightarrow> frame list \<Rightarrow> uloop \<Rightarrow> outcome" where
  "step_poll ev timeout k st =
     (if ul_cancelled st then Next (F_loop timeout # k) st
      else
        (let (tv, st1) = uloop_gettime ev st;
             next_time = uloop_get_next_timeout tv st1;
             t = (if 0 \<le> timeout \<and> timeout < next_time then timeout else next_time)
         in case next_event (fetch_if_empty ev t tv st1) of
              (None, st2) \<Rightarrow> Next (F_loop timeout # k) st2
            | (Some (a, events), st2) \<Rightarrow>
                (let st3 = log_event (Ev_fd a events) (st2\<lparr>ul_stack := (Some a, 0) # ul_stack st2\<rparr>)
                 in Next (F_calls (ue_fd_cb ev a events st3) # F_fd a # F_loop timeout # k) st3)))"

definition step_fd :: "uloop_env \<Rightarrow> nat \<Rightarrow> frame list \<Rightarrow> uloop \<Rightarrow> outcome" where
  "step_fd ev a k st =
     (case ul_stack st of
        [] \<Rightarrow> Crash
      | (b, evs) # s \<Rightarrow>
          (let events = evs AND ULOOP_EVENT_MASK in
           if b \<noteq> None \<and> events \<noteq> 0 then
             (let st1 = log_event (Ev_fd a events) (st\<lparr>ul_stack := (b, 0) # s\<rparr>)
              in Next (F_calls (ue_fd_cb ev a events st1) # F_fd a # k) st1)
           else Next k (st\<lparr>ul_stack := s\<rparr>)))"

definition uloop_step :: "uloop_env \<Rightarrow> frame list \<Rightarrow> uloop \<Rightarrow> outcome" where
  "uloop_step ev fs st =
     (case fs of
        [] \<Rightarrow> Done
      | F_calls [] # k \<Rightarrow> Next k st
      | F_calls (C_run t # cs) # k \<Rightarrow>
          Next (F_loop t # F_calls cs # k) (st\<lparr>ul_run_depth := Suc (ul_run_depth st), ul_status := 0, ul_cancelled := False\<rparr>)
      | F_calls (c # cs) # k \<Rightarrow> Next (F_calls cs # k) (uloop_api ev c st)
      | F_loop t # k \<Rightarrow>
          if ul_cancelled st then Next k (st\<lparr>ul_run_depth := ul_run_depth st - 1\<rparr>)
          else (case uloop_gettime ev st of (tv, st1) \<Rightarrow> Next (F_timeouts tv # F_sigchld t # k) st1)
      | F_timeouts tv # k \<Rightarrow> step_timeouts ev tv k st
      | F_sigchld t # k \<Rightarrow>
          if ul_do_sigchld st then Next (F_waits # F_poll t # k) (st\<lparr>ul_do_sigchld := False\<rparr>) else Next (F_poll t # k) st
      | F_waits # k \<Rightarrow> step_waits ev k st
      | F_procs pid ret p n # k \<Rightarrow> step_procs ev pid ret p n k st
      | F_next pid ret n # k \<Rightarrow> Next (F_procs pid ret n (list_next (ul_processes st) n) # k) st
      | F_poll t # k \<Rightarrow> step_poll ev t k st
      | F_fd a # k \<Rightarrow> step_fd ev a k st)"

section \<open>Start and end\<close>

text \<open>
  \<^verbatim>\<open>uloop_init\<close> and \<^verbatim>\<open>uloop_done\<close>; the waker's descriptor is the object at address 0.  The answers of \<^verbatim>\<open>epoll_create\<close> and \<^verbatim>\<open>pipe\<close> are arguments.
\<close>

definition uloop_clear_timeouts :: "uloop \<Rightarrow> uloop" where
  "uloop_clear_timeouts st = fold (\<lambda>a s. snd (uloop_timeout_cancel a s)) (ul_timeouts st) st"

definition uloop_clear_processes :: "uloop \<Rightarrow> uloop" where
  "uloop_clear_processes st = fold (\<lambda>a s. snd (uloop_process_delete a s)) (ul_processes st) st"

definition uloop_done :: "uloop_env \<Rightarrow> bool \<Rightarrow> uloop \<Rightarrow> uloop" where
  "uloop_done ev handle_sigchld st =
     (let st1 = uloop_setup_signals handle_sigchld False st;
          st2 = (if ul_poll_fd st1 \<ge> 0 then st1\<lparr>ul_poll_fd := - 1, ul_epoll := (\<lambda>_. None)\<rparr> else st1);
          st3 = (if ul_waker_pipe st2 \<ge> 0 then (snd (uloop_fd_delete ev 0 st2))\<lparr>ul_waker_pipe := - 1\<rparr> else st2)
      in uloop_clear_processes (uloop_clear_timeouts st3))"

definition uloop_init_pollfd :: "int \<Rightarrow> uloop \<Rightarrow> int \<times> uloop" where
  "uloop_init_pollfd created st =
     (if ul_poll_fd st \<ge> 0 then (0, st)
      else (if created < 0 then - 1 else 0, st\<lparr>ul_poll_fd := created\<rparr>))"

definition waker_init :: "uloop_env \<Rightarrow> (int \<times> int) option \<Rightarrow> uloop \<Rightarrow> int \<times> uloop" where
  "waker_init ev fds st =
     (if ul_waker_pipe st \<ge> 0 then (0, st)
      else (case fds of
              None \<Rightarrow> (- 1, st)
            | Some (r, w) \<Rightarrow>
                (0, snd (uloop_fd_add ev 0 ULOOP_READ
                   (upd_fd 0 (\<lambda>f. f\<lparr>fd_fd := r, fd_cb := True\<rparr>)
                     (st\<lparr>ul_waker_pipe := w, ul_nonblock := (ul_nonblock st)(r := True, w := True)\<rparr>))))))"

definition uloop_init :: "uloop_env \<Rightarrow> bool \<Rightarrow> int \<Rightarrow> (int \<times> int) option \<Rightarrow> uloop \<Rightarrow> int \<times> uloop" where
  "uloop_init ev handle_sigchld created fds st =
     (case uloop_init_pollfd created st of
        (r, st1) \<Rightarrow>
          if r < 0 then (- 1, st1)
          else (case waker_init ev fds st1 of
                  (r2, st2) \<Rightarrow>
                    if r2 < 0 then (- 1, uloop_done ev handle_sigchld st2)
                    else (0, uloop_setup_signals handle_sigchld True st2)))"

definition uloop_cancelling :: "uloop \<Rightarrow> bool" where
  "uloop_cancelling st \<longleftrightarrow> ul_run_depth st > 0 \<and> ul_cancelled st"

end
