(* ===== verification/Uloop_Inv.thy ===== *)
theory Uloop_Inv
  imports Uloop
begin

text \<open>
  What holds in every moment of a run of the event loop, with any callbacks, also when these run the loop again: callbacks are
  only run for descriptors that are not deleted and for timers that are set, and the loop does not crash.
\<close>

section \<open>Runs\<close>

text \<open>The descriptors deleted and not added again, the timers set and neither cancelled nor run since, by the record of a run.\<close>

fun gone :: "uloop_event list \<Rightarrow> nat set" where
  "gone [] = {}"
| "gone (Ev_delete a # tr) = insert a (gone tr)"
| "gone (Ev_add a # tr) = gone tr - {a}"
| "gone (_ # tr) = gone tr"

fun armed :: "uloop_event list \<Rightarrow> nat set" where
  "armed [] = {}"
| "armed (Ev_set a # tr) = insert a (armed tr)"
| "armed (Ev_cancel a # tr) = armed tr - {a}"
| "armed (Ev_timer a tv # tr) = armed tr - {a}"
| "armed (_ # tr) = armed tr"

fun legal :: "uloop_event list \<Rightarrow> bool" where
  "legal [] = True"
| "legal (Ev_fd a e # tr) \<longleftrightarrow> a \<notin> gone tr \<and> legal tr"
| "legal (Ev_timer a tv # tr) \<longleftrightarrow> a \<in> armed tr \<and> legal tr"
| "legal (_ # tr) = legal tr"

text \<open>
  What is relied on: \<^verbatim>\<open>epoll_ctl\<close> succeeds, \<^verbatim>\<open>epoll_wait\<close> reports a descriptor once, and the program always adds the same descriptor
  with edge triggering or always without.
\<close>

definition call_ok :: "(nat \<Rightarrow> bool) \<Rightarrow> uloop_call \<Rightarrow> bool" where
  "call_ok edge c =
     (case c of
        C_fd_add a flags \<Rightarrow> flags AND (ULOOP_READ OR ULOOP_WRITE) = 0 \<or> (flags AND ULOOP_EDGE_TRIGGER \<noteq> 0) = edge a
      | _ \<Rightarrow> True)"

definition env_ok :: "(nat \<Rightarrow> bool) \<Rightarrow> uloop_env \<Rightarrow> bool" where
  "env_ok edge ev \<longleftrightarrow> (\<forall>k. ue_ctl ev k) \<and> (\<forall>k r. ue_poll ev k = Some r \<longrightarrow> distinct (map fst r)) \<and>
     (\<forall>a e st. list_all (call_ok edge) (ue_fd_cb ev a e st)) \<and> (\<forall>a st. list_all (call_ok edge) (ue_timer_cb ev a st)) \<and>
     (\<forall>a r st. list_all (call_ok edge) (ue_process_cb ev a r st))"

text \<open>A run: the main program makes its calls from a state in which no descriptor, timer or process is set up.\<close>

inductive uloop_run :: "uloop_env \<Rightarrow> uloop_call list \<Rightarrow> uloop \<Rightarrow> frame list \<Rightarrow> uloop \<Rightarrow> bool" for ev main st0 where
  start: "uloop_run ev main st0 [F_calls main] st0"
| step: "uloop_run ev main st0 fs st \<Longrightarrow> uloop_step ev fs st = Next fs' st' \<Longrightarrow> uloop_run ev main st0 fs' st'"

definition blank :: "uloop \<Rightarrow> bool" where
  "blank st \<longleftrightarrow> (\<forall>a. \<not> fd_registered (ul_fds st a) \<and> fd_flags (ul_fds st a) = 0) \<and> (\<forall>a. \<not> to_pending (ul_tmrs st a)) \<and>
     (\<forall>a. \<not> pr_pending (ul_prcs st a)) \<and> inj (\<lambda>a. pr_pid (ul_prcs st a)) \<and> ul_timeouts st = [] \<and> ul_processes st = [] \<and>
     ul_epoll st = (\<lambda>_. None) \<and> ul_stack st = [] \<and> length (ul_cur_fds st) = ULOOP_MAX_EVENTS \<and> ul_cur_fd st = 0 \<and>
     ul_cur_nfds st = 0 \<and> ul_trace st = []"

section \<open>The invariant\<close>

definition batch :: "uloop \<Rightarrow> (nat option \<times> u32) list" where
  "batch st = take (ul_cur_nfds st) (drop (ul_cur_fd st) (ul_cur_fds st))"

definition live :: "(nat option \<times> u32) list \<Rightarrow> nat \<Rightarrow> (nat option \<times> u32) list" where
  "live s a = filter (\<lambda>x. fst x = Some a) s"

definition regd :: "uloop \<Rightarrow> nat \<Rightarrow> bool" where
  "regd st a \<longleftrightarrow> fd_registered (ul_fds st a)"

definition poll_ok :: "(nat \<Rightarrow> bool) \<Rightarrow> uloop \<Rightarrow> bool" where
  "poll_ok edge st \<longleftrightarrow> (\<forall>a. fl_on (fd_flags (ul_fds st a)) ULOOP_EDGE_TRIGGER \<longleftrightarrow> regd st a \<and> edge a) \<and>
     (\<forall>n a e. ul_epoll st n = Some (a, e) \<longrightarrow> regd st a \<and> fd_fd (ul_fds st a) = n)"

definition stack_ok :: "(nat \<Rightarrow> bool) \<Rightarrow> (nat \<Rightarrow> bool) \<Rightarrow> (nat option \<times> u32) list \<Rightarrow> (nat option \<times> u32) list \<Rightarrow> bool" where
  "stack_ok edge reg bt s \<longleftrightarrow>
     (\<forall>a evs. (Some a, evs) \<in> set s \<and> evs \<noteq> 0 \<longrightarrow> reg a \<and> edge a) \<and>
     (\<forall>a. edge a \<longrightarrow> length (live s a) \<le> 1) \<and>
     (\<forall>a. edge a \<and> \<not> reg a \<and> live bt a \<noteq> [] \<longrightarrow> live s a = [])"

definition batch_ok :: "uloop \<Rightarrow> bool" where
  "batch_ok st \<longleftrightarrow> (\<forall>a. length (live (batch st) a) \<le> 1) \<and> length (ul_cur_fds st) = ULOOP_MAX_EVENTS \<and>
     ul_cur_fd st + ul_cur_nfds st \<le> ULOOP_MAX_EVENTS \<and>
     (\<forall>a\<in>gone (ul_trace st). \<not> regd st a \<and> live (batch st) a = [])"

definition fds_ok :: "(nat \<Rightarrow> bool) \<Rightarrow> uloop \<Rightarrow> bool" where
  "fds_ok edge st \<longleftrightarrow> poll_ok edge st \<and> stack_ok edge (regd st) (batch st) (ul_stack st) \<and> batch_ok st"

definition timers_ok :: "uloop \<Rightarrow> bool" where
  "timers_ok st \<longleftrightarrow> distinct (ul_timeouts st) \<and> (\<forall>a. to_pending (ul_tmrs st a) \<longleftrightarrow> a \<in> set (ul_timeouts st)) \<and>
     set (ul_timeouts st) = armed (ul_trace st)"

definition procs_ok :: "uloop \<Rightarrow> bool" where
  "procs_ok st \<longleftrightarrow> inj (\<lambda>a. pr_pid (ul_prcs st a)) \<and> (\<forall>a. pr_pending (ul_prcs st a) \<longleftrightarrow> a \<in> set (ul_processes st)) \<and>
     sorted_wrt (\<lambda>a b. pr_pid (ul_prcs st a) < pr_pid (ul_prcs st b)) (ul_processes st)"

lemmas fds_ok_defs = fds_ok_def poll_ok_def stack_ok_def batch_ok_def regd_def batch_def

text \<open>The stack of calls: the descriptors whose callback runs, and the process after the one whose callback runs.\<close>

fun fd_frames :: "frame list \<Rightarrow> nat list" where
  "fd_frames [] = []"
| "fd_frames (F_fd a # fs) = a # fd_frames fs"
| "fd_frames (_ # fs) = fd_frames fs"

definition frame_ok :: "(nat \<Rightarrow> bool) \<Rightarrow> uloop \<Rightarrow> frame \<Rightarrow> bool" where
  "frame_ok edge st f =
     (case f of
        F_calls cs \<Rightarrow> list_all (call_ok edge) cs
      | F_next pid ret n \<Rightarrow> (case n of P_head \<Rightarrow> True | P_node b \<Rightarrow> pid < pr_pid (ul_prcs st b) | P_null \<Rightarrow> False)
      | F_procs pid ret p n \<Rightarrow> False
      | _ \<Rightarrow> True)"

definition top_ok :: "(nat \<Rightarrow> bool) \<Rightarrow> uloop \<Rightarrow> frame \<Rightarrow> bool" where
  "top_ok edge st f =
     (case f of
        F_procs pid ret p n \<Rightarrow>
          (case p of P_head \<Rightarrow> True | P_null \<Rightarrow> False
           | P_node a \<Rightarrow> pid < pr_pid (ul_prcs st a) \<or> a \<in> set (ul_processes st) \<and> n = after a (ul_processes st))
      | _ \<Rightarrow> frame_ok edge st f)"

definition frames_ok :: "(nat \<Rightarrow> bool) \<Rightarrow> uloop \<Rightarrow> frame list \<Rightarrow> bool" where
  "frames_ok edge st fs \<longleftrightarrow>
     (case fs of [] \<Rightarrow> True | f # k \<Rightarrow> top_ok edge st f \<and> list_all (frame_ok edge st) k) \<and>
     list_all2 (\<lambda>a x. fst x = None \<or> fst x = Some a) (fd_frames fs) (ul_stack st)"

definition uloop_inv :: "(nat \<Rightarrow> bool) \<Rightarrow> frame list \<Rightarrow> uloop \<Rightarrow> bool" where
  "uloop_inv edge fs st \<longleftrightarrow> fds_ok edge st \<and> timers_ok st \<and> procs_ok st \<and> legal (ul_trace st) \<and> frames_ok edge st fs"

section \<open>Descriptors\<close>

lemma edge_bit: "fl_on (ucast flags) ULOOP_EDGE_TRIGGER \<longleftrightarrow> flags AND ULOOP_EDGE_TRIGGER \<noteq> 0"
proof -
  have "bit ((2 :: int) ^ 2) n \<Longrightarrow> n = 2" for n unfolding bit_exp_iff by simp
  then have b: "bit (4 :: int) n \<Longrightarrow> n = 2" for n by simp
  have "(ucast (ucast flags :: u8) :: u32) AND 4 = flags AND 4"
    by (rule bit_word_eqI) (auto simp: bit_simps dest: b)
  then show ?thesis by (simp add: fl_on_def ULOOP_EDGE_TRIGGER_def)
qed

lemma fl_on_zero [simp]: "\<not> fl_on 0 m"
  by (simp add: fl_on_def)

lemma live_simps [simp]: "live [] a = []" "live (x # s) a = (if fst x = Some a then x # live s a else live s a)"
  "live (s @ t) a = live s a @ live t a"
  by (simp_all add: live_def)

lemma live_empty: "live s a = [] \<longleftrightarrow> (\<forall>x\<in>set s. fst x \<noteq> Some a)"
  by (auto simp: live_def filter_empty_conv)

lemma live_stack_event:
  "stack_event a None s = (r, s') \<Longrightarrow> length (live s a) \<le> 1 \<Longrightarrow> live s' a = [] \<and> (\<forall>b. b \<noteq> a \<longrightarrow> live s' b = live s b) \<and>
     (\<forall>x\<in>set s'. x \<in> set s \<or> fst x = None)"
  by (induction a "None :: u32 option" s arbitrary: r s' rule: stack_event.induct)
    (fastforce simp: live_def split: if_splits prod.splits)+

lemma stack_event_Some:
  "stack_event a (Some e) s = (r, s') \<Longrightarrow> map fst s' = map fst s \<and> (r \<longleftrightarrow> live s a \<noteq> []) \<and> (\<not> r \<longrightarrow> s' = s) \<and>
     (\<forall>b evs. b \<noteq> a \<longrightarrow> (Some b, evs) \<in> set s' \<longrightarrow> (Some b, evs) \<in> set s)"
  by (induction a "Some e" s arbitrary: r s' rule: stack_event.induct) (fastforce split: if_splits prod.splits)+

lemma stack_event_None_fst:
  "stack_event a None s = (r, s') \<Longrightarrow> list_all2 (\<lambda>x y. fst y = None \<or> fst y = fst x) s s'"
  by (induction a "None :: u32 option" s arbitrary: r s' rule: stack_event.induct)
    (auto simp: list_all2_same split: if_splits prod.splits)

definition void_fd :: "nat \<Rightarrow> nat option \<times> u32 \<Rightarrow> nat option \<times> u32" where
  "void_fd a x = (if fst x = Some a then (None, snd x) else x)"

lemma batch_clear_cur: "batch (clear_cur a st) = map (void_fd a) (batch st)"
proof (rule nth_equalityI)
  show "length (batch (clear_cur a st)) = length (map (void_fd a) (batch st))" by (simp add: batch_def clear_cur_def)
  fix i assume "i < length (batch (clear_cur a st))"
  then have "i < ul_cur_nfds st" "ul_cur_fd st + i < length (ul_cur_fds st)" by (auto simp: batch_def clear_cur_def)
  then show "batch (clear_cur a st) ! i = map (void_fd a) (batch st) ! i"
    by (simp add: batch_def clear_cur_def void_fd_def nth_enumerate_eq)
qed

lemma live_void: "live (map (void_fd a) s) b = (if b = a then [] else live s b)"
  by (induction s) (auto simp: void_fd_def)

lemma clear_cur_fields [simp]:
  "ul_fds (clear_cur a st) = ul_fds st" "ul_epoll (clear_cur a st) = ul_epoll st" "ul_stack (clear_cur a st) = ul_stack st"
  "ul_cur_fd (clear_cur a st) = ul_cur_fd st" "ul_cur_nfds (clear_cur a st) = ul_cur_nfds st" "ul_trace (clear_cur a st) = ul_trace st"
  "length (ul_cur_fds (clear_cur a st)) = length (ul_cur_fds st)" "ul_ctls (clear_cur a st) = ul_ctls st"
  by (simp_all add: clear_cur_def)

text \<open>What deleting a descriptor leaves: in the record of the state, and in the parts the invariant is about.\<close>

definition rest_same :: "uloop \<Rightarrow> uloop \<Rightarrow> bool" where
  "rest_same st st' \<longleftrightarrow> ul_tmrs st' = ul_tmrs st \<and> ul_prcs st' = ul_prcs st \<and> ul_timeouts st' = ul_timeouts st \<and>
     ul_processes st' = ul_processes st \<and> ul_trace st' = ul_trace st"

definition stack_same :: "uloop \<Rightarrow> uloop \<Rightarrow> bool" where
  "stack_same st st' \<longleftrightarrow> list_all2 (\<lambda>x y. fst y = None \<or> fst y = fst x) (ul_stack st) (ul_stack st')"

lemma stack_same_refl: "ul_stack st' = ul_stack st \<Longrightarrow> stack_same st st'"
  by (simp add: stack_same_def list_all2_same)

lemma delete_rest:
  "rest_same st (snd (uloop_fd_delete ev a st)) \<and> stack_same st (snd (uloop_fd_delete ev a st)) \<and>
   ul_cur_fd (snd (uloop_fd_delete ev a st)) = ul_cur_fd st \<and> ul_cur_nfds (snd (uloop_fd_delete ev a st)) = ul_cur_nfds st"
  by (auto simp: rest_same_def stack_same_def uloop_fd_delete_def uloop_fd_delete_poll_def uloop_fd_stack_event_def upd_fd_def
      clear_cur_def Let_def list_all2_same dest: stack_event_None_fst split: prod.splits)

lemma delete_ok:
  assumes ok: "fds_ok edge st" and ctl: "\<forall>k. ue_ctl ev k"
  shows "fds_ok edge (snd (uloop_fd_delete ev a st))" "\<not> regd (snd (uloop_fd_delete ev a st)) a"
    "live (batch (snd (uloop_fd_delete ev a st))) a = []" "regd (snd (uloop_fd_delete ev a st)) = (regd st)(a := False)"
    "regd st a \<Longrightarrow> edge a \<Longrightarrow> live (ul_stack (snd (uloop_fd_delete ev a st))) a = []"
proof -
  let ?st' = "snd (uloop_fd_delete ev a st)"
  have b: "batch ?st' = map (void_fd a) (batch st)"
    unfolding batch_clear_cur [symmetric]
    by (simp add: batch_def uloop_fd_delete_def uloop_fd_delete_poll_def uloop_fd_stack_event_def upd_fd_def Let_def split: prod.splits)
  have r: "regd ?st' = (regd st)(a := False)"
    by (rule ext) (auto simp: regd_def uloop_fd_delete_def uloop_fd_delete_poll_def uloop_fd_stack_event_def upd_fd_def Let_def split: prod.splits)
  have p: "poll_ok edge ?st'"
    using ok ctl by (auto simp: fds_ok_def poll_ok_def regd_def uloop_fd_delete_def uloop_fd_delete_poll_def uloop_fd_stack_event_def
        upd_fd_def Let_def split: prod.splits if_splits; blast)
  have l: "live (ul_stack ?st') a = [] \<and> (\<forall>b. b \<noteq> a \<longrightarrow> live (ul_stack ?st') b = live (ul_stack st) b) \<and>
      (\<forall>x\<in>set (ul_stack ?st'). x \<in> set (ul_stack st) \<or> fst x = None)" if True: "regd st a \<and> edge a"
  proof -
    obtain q s' where e: "stack_event a None (ul_stack st) = (q, s')" by fastforce
    have st: "ul_stack ?st' = s'"
      using True ok e by (simp add: fds_ok_def poll_ok_def regd_def uloop_fd_delete_def uloop_fd_delete_poll_def uloop_fd_stack_event_def
          upd_fd_def Let_def)
    have "length (live (ul_stack st) a) \<le> 1" using ok True by (simp add: fds_ok_def stack_ok_def)
    from live_stack_event [OF e this] show ?thesis unfolding st .
  qed
  then show "regd st a \<Longrightarrow> edge a \<Longrightarrow> live (ul_stack ?st') a = []" by blast
  have s: "stack_ok edge (regd ?st') (batch ?st') (ul_stack ?st')"
  proof (cases "regd st a \<and> edge a")
    case True
    note l = l [OF True]
    show ?thesis unfolding stack_ok_def r b live_void
    proof (intro conjI allI impI)
      fix c evs assume c: "(Some c, evs) \<in> set (ul_stack ?st') \<and> evs \<noteq> 0"
      then have "c \<noteq> a" "(Some c, evs) \<in> set (ul_stack st)" using l by (fastforce simp: live_empty)+
      then show "((regd st)(a := False)) c" "edge c" using c ok unfolding fds_ok_def stack_ok_def by auto
    next
      fix c assume "edge c"
      then show "length (live (ul_stack ?st') c) \<le> 1" using l ok by (cases "c = a") (auto simp: fds_ok_def stack_ok_def)
    next
      fix c assume "edge c \<and> \<not> ((regd st)(a := False)) c \<and> (if c = a then [] else live (batch st) c) \<noteq> []"
      then show "live (ul_stack ?st') c = []" using l ok by (auto simp: fds_ok_def stack_ok_def split: if_splits)
    qed
  next
    case False
    then have "ul_stack ?st' = ul_stack st"
      using ok by (auto simp: fds_ok_def poll_ok_def regd_def uloop_fd_delete_def uloop_fd_delete_poll_def uloop_fd_stack_event_def upd_fd_def Let_def)
    then show ?thesis using ok False unfolding stack_ok_def r b live_void by (auto simp: fds_ok_def stack_ok_def split: if_splits)
  qed
  have "length (ul_cur_fds ?st') = length (ul_cur_fds st)"
    by (simp add: uloop_fd_delete_def uloop_fd_delete_poll_def uloop_fd_stack_event_def upd_fd_def Let_def split: prod.splits)
  then have "batch_ok ?st'" using ok delete_rest [of st ev a] by (auto simp: fds_ok_def batch_ok_def b r live_void rest_same_def)
  then show "fds_ok edge ?st'" using p s by (simp add: fds_ok_def)
  show "\<not> regd ?st' a" "live (batch ?st') a = []" "regd ?st' = (regd st)(a := False)" by (simp_all add: r b live_void)
qed

lemma add_ok:
  assumes ok: "fds_ok edge st" and ctl: "\<forall>k. ue_ctl ev k" and c: "call_ok edge (C_fd_add a flags)"
    and rw: "flags AND (ULOOP_READ OR ULOOP_WRITE) \<noteq> 0"
  shows "fds_ok edge (log_event (Ev_add a) (snd (uloop_fd_add ev a flags st)))"
    "ul_stack (snd (uloop_fd_add ev a flags st)) = ul_stack st" "rest_same st (snd (uloop_fd_add ev a flags st))"
proof -
  let ?st' = "snd (uloop_fd_add ev a flags st)"
  obtain nb where e: "?st' = upd_fd a (\<lambda>f. f\<lparr>fd_flags := ucast flags, fd_registered := True, fd_eof := False, fd_error := False\<rparr>)
      (st\<lparr>ul_ctls := Suc (ul_ctls st), ul_epoll := (ul_epoll st)(fd_fd (ul_fds st a) := Some (a, poll_events flags)), ul_nonblock := nb\<rparr>)"
    by (rule that [of "if \<not> fd_registered (ul_fds st a) \<and> flags AND ULOOP_BLOCKING = 0
          then (ul_nonblock st)(fd_fd (ul_fds st a) := True) else ul_nonblock st"])
      (use ctl rw in \<open>simp add: uloop_fd_add_def register_poll_def Let_def upd_fd_def\<close>)
  have r: "regd ?st' = (regd st)(a := True)" unfolding e by (rule ext) (simp add: regd_def upd_fd_def)
  have b: "batch (log_event (Ev_add a) ?st') = batch st" unfolding e by (simp add: batch_def upd_fd_def log_event_def)
  show s: "ul_stack ?st' = ul_stack st" "rest_same st ?st'" unfolding e by (simp_all add: upd_fd_def rest_same_def)
  have "poll_ok edge (log_event (Ev_add a) ?st')"
    using ok c rw edge_bit [of flags] unfolding e
    by (auto simp: fds_ok_def poll_ok_def regd_def upd_fd_def log_event_def call_ok_def)
  moreover have "regd (log_event (Ev_add a) ?st') = (regd st)(a := True)" using r by (simp add: regd_def [abs_def] log_event_def)
  moreover have "ul_stack (log_event (Ev_add a) ?st') = ul_stack st" using s by (simp add: log_event_def)
  moreover have "batch_ok (log_event (Ev_add a) ?st')"
    using ok s(2) unfolding batch_ok_def b calculation(2) fds_ok_def
    by (auto simp: log_event_def rest_same_def e upd_fd_def)
  ultimately show "fds_ok edge (log_event (Ev_add a) ?st')"
    using ok unfolding fds_ok_def b by (auto simp: stack_ok_def)
qed

lemma fds_ok_log: "gone (e # ul_trace st) = gone (ul_trace st) \<Longrightarrow> fds_ok edge (log_event e st) = fds_ok edge st"
  by (simp add: fds_ok_def poll_ok_def batch_ok_def log_event_def regd_def [abs_def] batch_def)

lemma fds_ok_gone:
  "fds_ok edge st \<Longrightarrow> \<not> regd st a \<Longrightarrow> live (batch st) a = [] \<Longrightarrow> fds_ok edge (log_event (Ev_delete a) st)"
  by (simp add: fds_ok_def poll_ok_def batch_ok_def log_event_def regd_def [abs_def] batch_def)

lemma delete_log_ok:
  assumes "fds_ok edge st" "\<forall>k. ue_ctl ev k"
  shows "fds_ok edge (log_event (Ev_delete a) (snd (uloop_fd_delete ev a st)))"
  using delete_ok(1-3) [OF assms, of a] by (rule fds_ok_gone)

section \<open>Fetching\<close>

lemma mark_ok:
  assumes "fds_ok edge st" "\<And>f. fd_registered (g f) = fd_registered f \<and> fd_flags (g f) = fd_flags f \<and> fd_fd (g f) = fd_fd f"
  shows "fds_ok edge (upd_fd a g st)"
proof -
  have r: "regd (upd_fd a g st) = regd st" using assms(2) by (intro ext) (simp add: regd_def upd_fd_def)
  have b: "batch (upd_fd a g st) = batch st" by (simp add: batch_def upd_fd_def)
  show ?thesis using assms unfolding fds_ok_def poll_ok_def batch_ok_def r b by (auto simp: upd_fd_def)
qed

lemma stack_same_live: "stack_same st st' \<Longrightarrow> live (ul_stack st) b = [] \<Longrightarrow> live (ul_stack st') b = []"
  unfolding stack_same_def by (induction rule: list_all2_induct) (auto split: if_splits)

lemma stack_same_trans: "stack_same s1 s2 \<Longrightarrow> stack_same s2 s3 \<Longrightarrow> stack_same s1 s3"
  unfolding stack_same_def by (auto simp: list_all2_conv_all_nth) metis

lemma mark_same: "rest_same st (upd_fd a g st)" "stack_same st (upd_fd a g st)"
  by (simp_all add: rest_same_def stack_same_def upd_fd_def list_all2_same)

text \<open>Errors: the descriptor is marked and, without an own handling of errors, deleted.\<close>

definition fetch_error :: "uloop_env \<Rightarrow> nat \<Rightarrow> u32 \<Rightarrow> uloop \<Rightarrow> uloop" where
  "fetch_error ev a e st =
     (if e AND (EPOLLERR OR EPOLLHUP) \<noteq> 0 then
        (let s = upd_fd a (fd_error_update (\<lambda>_. True)) st
         in if \<not> fl_on (fd_flags (ul_fds s a)) ULOOP_ERROR_CB then snd (uloop_fd_delete ev a s) else s)
      else st)"

definition fetch_kept :: "(nat \<Rightarrow> bool) \<Rightarrow> nat \<Rightarrow> uloop \<Rightarrow> uloop \<Rightarrow> bool" where
  "fetch_kept edge a st st' \<longleftrightarrow> fds_ok edge st' \<and> rest_same st st' \<and> stack_same st st' \<and>
     ul_cur_fd st' = ul_cur_fd st \<and> ul_cur_nfds st' = ul_cur_nfds st \<and> (\<forall>b. b \<noteq> a \<longrightarrow> regd st' b = regd st b) \<and>
     (edge a \<and> regd st a \<and> \<not> regd st' a \<longrightarrow> live (ul_stack st') a = [])"

lemma mark_kept:
  assumes "fds_ok edge st" "\<And>f. fd_registered (g f) = fd_registered f \<and> fd_flags (g f) = fd_flags f \<and> fd_fd (g f) = fd_fd f"
  shows "fetch_kept edge a st (upd_fd a g st)"
  using mark_ok [OF assms] mark_same [of st a g] assms(2) by (simp add: fetch_kept_def regd_def upd_fd_def)

lemma fetch_kept_trans:
  assumes "fetch_kept edge a s1 s2" "fetch_kept edge a s2 s3" "regd s1 a \<longrightarrow> regd s2 a \<or> (\<forall>b. regd s3 b = regd s2 b)"
  shows "fetch_kept edge a s1 s3"
  using assms stack_same_trans [of s1 s2 s3] stack_same_live [of s2 s3 a] unfolding fetch_kept_def rest_same_def by auto

lemma fetch_error_kept:
  assumes "fds_ok edge st" "\<forall>k. ue_ctl ev k"
  shows "fetch_kept edge a st (fetch_error ev a e st)"
proof -
  let ?s = "upd_fd a (fd_error_update (\<lambda>_. True)) st"
  have m: "fetch_kept edge a st ?s" by (rule mark_kept [OF assms(1)]) simp
  then have k: "fds_ok edge ?s" by (simp add: fetch_kept_def)
  have d: "fetch_kept edge a ?s (snd (uloop_fd_delete ev a ?s))"
    using delete_ok [OF k assms(2), of a] delete_rest [of ?s ev a] by (simp add: fetch_kept_def)
  have "fetch_kept edge a st (snd (uloop_fd_delete ev a ?s))"
    by (rule fetch_kept_trans [OF m d]) (simp add: regd_def upd_fd_def)
  moreover have "fetch_kept edge a st st" using assms(1) by (simp add: fetch_kept_def rest_same_def stack_same_refl)
  ultimately show ?thesis using m by (simp add: fetch_error_def Let_def)
qed

lemma fetch_one_ok:
  assumes "fds_ok edge st" "\<forall>k. ue_ctl ev k" "fetch_one ev (a, e) st = (x, st')"
  shows "fetch_kept edge a st st'" "fst x = Some a \<or> fst x = None"
proof -
  let ?s = "fetch_error ev a e st"
  have k: "fetch_kept edge a st ?s" by (rule fetch_error_kept [OF assms(1,2)])
  have m: "fetch_kept edge a ?s (upd_fd a (fd_eof_update (\<lambda>_. True)) ?s)"
    by (rule mark_kept) (use k in \<open>simp_all add: fetch_kept_def\<close>)
  have "fetch_kept edge a st (upd_fd a (fd_eof_update (\<lambda>_. True)) ?s)"
    by (rule fetch_kept_trans [OF k m]) (simp add: regd_def upd_fd_def)
  then show "fetch_kept edge a st st'" "fst x = Some a \<or> fst x = None"
    using k assms(3) unfolding fetch_one_def fetch_error_def [symmetric] by (auto simp: Let_def split: if_splits)
qed

lemma fetch_all_ok:
  "fds_ok edge st \<Longrightarrow> \<forall>k. ue_ctl ev k \<Longrightarrow> distinct (map fst aes) \<Longrightarrow> \<forall>ae\<in>set aes. regd st (fst ae) \<Longrightarrow>
   fetch_all ev aes st = (xs, st') \<Longrightarrow>
     fds_ok edge st' \<and> rest_same st st' \<and> stack_same st st' \<and> ul_cur_fd st' = ul_cur_fd st \<and> ul_cur_nfds st' = ul_cur_nfds st \<and>
     length xs = length aes \<and> (\<forall>b. b \<notin> fst ` set aes \<longrightarrow> regd st' b = regd st b) \<and>
     (\<forall>a. length (live xs a) \<le> 1 \<and> (live xs a \<noteq> [] \<longrightarrow> a \<in> fst ` set aes)) \<and>
     (\<forall>a. edge a \<and> \<not> regd st' a \<and> live xs a \<noteq> [] \<longrightarrow> live (ul_stack st') a = [])"
proof (induction aes arbitrary: st xs)
  case (Cons ae aes)
  obtain a e where ae: "ae = (a, e)" by fastforce
  obtain x st1 where f: "fetch_one ev (a, e) st = (x, st1)" by fastforce
  obtain ys where g: "fetch_all ev aes st1 = (ys, st')" "xs = x # ys" using Cons.prems(5) f by (auto simp: ae split: prod.splits)
  note k = fetch_one_ok [OF Cons.prems(1,2) f]
  have ok1: "fds_ok edge st1" using k by (simp add: fetch_kept_def)
  have d: "a \<notin> fst ` set aes" "distinct (map fst aes)" using Cons.prems(3) by (auto simp: ae)
  have r: "\<forall>ae\<in>set aes. regd st1 (fst ae)" using Cons.prems(4) k d(1) by (auto simp: fetch_kept_def ae)
  note IH = Cons.IH [OF ok1 Cons.prems(2) d(2) r g(1)]
  have ra: "regd st a" using Cons.prems(4) by (simp add: ae)
  have na: "live ys a = []" using IH d(1) by blast
  have s: "edge a \<and> \<not> regd st' a \<longrightarrow> live (ul_stack st') a = []"
  proof
    assume c: "edge a \<and> \<not> regd st' a"
    then have "\<not> regd st1 a" using IH d(1) by blast
    then have "live (ul_stack st1) a = []" using k ra c by (simp add: fetch_kept_def)
    then show "live (ul_stack st') a = []" using IH stack_same_live by blast
  qed
  have "stack_same st st'" using stack_same_trans [of st st1 st'] k IH by (simp add: fetch_kept_def)
  moreover have "rest_same st st'" "ul_cur_fd st' = ul_cur_fd st" "ul_cur_nfds st' = ul_cur_nfds st"
    using k IH by (auto simp: fetch_kept_def rest_same_def)
  ultimately show ?case using IH k na s d(1) unfolding g(2) ae by (auto simp: fetch_kept_def)
qed (simp add: rest_same_def stack_same_refl)

lemma fold_deliver:
  "fds_ok edge (fold deliver ss st) = fds_ok edge st \<and> rest_same st (fold deliver ss st) \<and> ul_stack (fold deliver ss st) = ul_stack st \<and>
   ul_epoll (fold deliver ss st) = ul_epoll st \<and> ul_fds (fold deliver ss st) = ul_fds st \<and>
   ul_cur_fd (fold deliver ss st) = ul_cur_fd st \<and> ul_cur_nfds (fold deliver ss st) = ul_cur_nfds st"
proof (induction ss arbitrary: st)
  case (Cons x ss)
  have "fds_ok edge (deliver x st) = fds_ok edge st"
    by (simp add: fds_ok_def poll_ok_def batch_ok_def regd_def [abs_def] batch_def deliver_def uloop_handle_sigint_def uloop_sigchld_def
        split: sig_handler.split)
  moreover have "rest_same st (deliver x st) \<and> ul_stack (deliver x st) = ul_stack st \<and> ul_epoll (deliver x st) = ul_epoll st \<and>
      ul_fds (deliver x st) = ul_fds st \<and> ul_cur_fd (deliver x st) = ul_cur_fd st \<and> ul_cur_nfds (deliver x st) = ul_cur_nfds st"
    by (simp add: rest_same_def deliver_def uloop_handle_sigint_def uloop_sigchld_def split: sig_handler.split)
  ultimately show ?case using Cons [of "deliver x st"] by (auto simp: rest_same_def)
qed (simp add: rest_same_def)

lemma ready_distinct:
  fixes ready :: "(int \<times> u32) list" and ep :: "int \<Rightarrow> (nat \<times> u32) option"
  assumes "distinct (map fst ready)" "\<And>n a e. ep n = Some (a, e) \<Longrightarrow> g a = n"
  shows "distinct (map fst (List.map_filter (\<lambda>(n, e). map_option (\<lambda>(a, _). (a, e)) (ep n)) ready))"
    "ae \<in> set (List.map_filter (\<lambda>(n, e). map_option (\<lambda>(a, _). (a, e)) (ep n)) ready) \<Longrightarrow> \<exists>n e. ep n = Some (fst ae, e) \<and> n \<in> fst ` set ready"
proof -
  have 2: "ae \<in> set (List.map_filter (\<lambda>(n, e). map_option (\<lambda>(a, _). (a, e)) (ep n)) rs) \<Longrightarrow>
      \<exists>n e. ep n = Some (fst ae, e) \<and> n \<in> fst ` set rs" for ae and rs :: "(int \<times> u32) list"
    by (force simp: List.map_filter_def)
  then show "ae \<in> set (List.map_filter (\<lambda>(n, e). map_option (\<lambda>(a, _). (a, e)) (ep n)) ready) \<Longrightarrow>
      \<exists>n e. ep n = Some (fst ae, e) \<and> n \<in> fst ` set ready" by blast
  show "distinct (map fst (List.map_filter (\<lambda>(n, e). map_option (\<lambda>(a, _). (a, e)) (ep n)) ready))"
    using assms(1)
  proof (induction ready)
    case (Cons r rs)
    obtain n e where r: "r = (n, e)" by fastforce
    show ?case
    proof (cases "ep n")
      case (Some ab)
      obtain a b where ab: "ab = (a, b)" by fastforce
      have "a \<notin> fst ` set (List.map_filter (\<lambda>(n, e). map_option (\<lambda>(a, _). (a, e)) (ep n)) rs)"
      proof
        assume "a \<in> fst ` set (List.map_filter (\<lambda>(n, e). map_option (\<lambda>(a, _). (a, e)) (ep n)) rs)"
        then obtain ae where ae: "ae \<in> set (List.map_filter (\<lambda>(n, e). map_option (\<lambda>(a, _). (a, e)) (ep n)) rs)" "fst ae = a" by auto
        obtain m e' where "ep m = Some (a, e')" "m \<in> fst ` set rs" using 2 [OF ae(1)] ae(2) by auto
        then show False using assms(2) [of n a b] assms(2) [of m a e'] Some Cons.prems by (auto simp: r ab)
      qed
      then show ?thesis using Cons Some by (simp add: r ab List.map_filter_simps)
    qed (use Cons in \<open>simp add: r List.map_filter_simps\<close>)
  qed (simp add: List.map_filter_simps)
qed

definition logged :: "int \<Rightarrow> timeval \<Rightarrow> uloop \<Rightarrow> uloop" where
  "logged t tv st = (if ul_cur_nfds st = 0 then log_event (Ev_fetch t tv) st else st)"

lemma fds_ok_cur: "fds_ok edge st \<Longrightarrow> ul_cur_nfds st = 0 \<Longrightarrow> fds_ok edge (st\<lparr>ul_cur_fd := 0\<rparr>)"
  by (simp add: fds_ok_def poll_ok_def batch_ok_def regd_def [abs_def] batch_def)

lemma fds_ok_polls: "fds_ok edge (st\<lparr>ul_polls := k\<rparr>) = fds_ok edge st" "fds_ok edge (st\<lparr>ul_clocks := k\<rparr>) = fds_ok edge st"
  "fds_ok edge (st\<lparr>ul_waits := k\<rparr>) = fds_ok edge st"
  by (simp_all add: fds_ok_def poll_ok_def batch_ok_def regd_def [abs_def] batch_def)

lemma fetch_if_empty_ok:
  assumes "fds_ok edge st" "env_ok edge ev"
  shows "fds_ok edge (fetch_if_empty ev t tv st) \<and> rest_same (logged t tv st) (fetch_if_empty ev t tv st) \<and>
    stack_same st (fetch_if_empty ev t tv st)"
proof (cases "ul_cur_nfds st = 0")
  case True
  let ?s0 = "log_event (Ev_fetch t tv) (st\<lparr>ul_cur_fd := 0, ul_polls := Suc (ul_polls st)\<rparr>)"
  define s1 where "s1 = fold deliver (ue_signals ev (ul_polls st)) ?s0"
  have "fds_ok edge ?s0"
    using fds_ok_cur [OF assms(1) True] by (simp add: fds_ok_log fds_ok_polls)
  then have ok1: "fds_ok edge s1" and r1: "rest_same (logged t tv st) s1" "ul_stack s1 = ul_stack st" "ul_cur_fd s1 = 0" "ul_cur_nfds s1 = 0"
    using fold_deliver [of edge "ue_signals ev (ul_polls st)" ?s0] True by (auto simp: rest_same_def logged_def log_event_def s1_def)
  show ?thesis
  proof (cases "ue_poll ev (ul_polls st)")
    case None
    then have e: "fetch_if_empty ev t tv st = s1\<lparr>ul_cur_nfds := 0\<rparr>"
      using True by (simp add: fetch_if_empty_def uloop_fetch_events_def Let_def s1_def)
    have u: "s1\<lparr>ul_cur_nfds := 0\<rparr> = s1" using r1(4) by simp
    show ?thesis unfolding e u using ok1 r1 by (simp add: stack_same_refl)
  next
    case (Some ready)
    let ?aes = "take ULOOP_MAX_EVENTS (List.map_filter (\<lambda>(n, e). map_option (\<lambda>(a, _). (a, e)) (ul_epoll s1 n)) ready)"
    have p: "ul_epoll s1 n = Some (a, e) \<Longrightarrow> regd s1 a \<and> fd_fd (ul_fds s1 a) = n" for n a e
      using ok1 unfolding fds_ok_def poll_ok_def by blast
    have dr: "distinct (map fst ready)" using assms(2) Some by (simp add: env_ok_def)
    have p2: "ul_epoll s1 n = Some (a, e) \<Longrightarrow> fd_fd (ul_fds s1 a) = n" for n a e using p by blast
    have "distinct (map fst (List.map_filter (\<lambda>(n, e). map_option (\<lambda>(a, _). (a, e)) (ul_epoll s1 n)) ready))"
      by (rule ready_distinct(1) [OF dr]) (erule p2)
    then have d: "distinct (map fst ?aes)" by (simp add: take_map [symmetric] distinct_take)
    have d2: "\<forall>ae\<in>set ?aes. regd s1 (fst ae)"
    proof
      fix ae assume "ae \<in> set ?aes"
      then have "ae \<in> set (List.map_filter (\<lambda>(n, e). map_option (\<lambda>(a, _). (a, e)) (ul_epoll s1 n)) ready)" by (rule in_set_takeD)
      then have "\<exists>n e. ul_epoll s1 n = Some (fst ae, e) \<and> n \<in> fst ` set ready"
        by (rule ready_distinct(2) [OF dr, rotated]) (erule p2)
      then obtain n e where "ul_epoll s1 n = Some (fst ae, e)" by blast
      then show "regd s1 (fst ae)" using p by blast
    qed
    obtain xs s2 where f: "fetch_all ev ?aes s1 = (xs, s2)" by fastforce
    have ctl: "\<forall>k. ue_ctl ev k" using assms(2) by (simp add: env_ok_def)
    note k = fetch_all_ok [OF ok1 ctl d d2 f]
    let ?st' = "s2\<lparr>ul_cur_fds := xs @ drop (length xs) (ul_cur_fds s2), ul_cur_nfds := length xs\<rparr>"
    have e: "fetch_if_empty ev t tv st = ?st'"
      using True Some f by (simp add: fetch_if_empty_def uloop_fetch_events_def Let_def flip: s1_def)
    have len: "length xs \<le> ULOOP_MAX_EVENTS" "length (ul_cur_fds s2) = ULOOP_MAX_EVENTS" using k by (auto simp: fds_ok_def batch_ok_def)
    have b: "batch ?st' = xs" using k r1(3) by (simp add: batch_def)
    have r: "regd ?st' = regd s2" by (intro ext) (simp add: regd_def)
    have g: "a \<in> gone (ul_trace s2) \<Longrightarrow> live xs a = []" for a
    proof (rule ccontr)
      assume a: "a \<in> gone (ul_trace s2)" "live xs a \<noteq> []"
      then have "regd s1 a" using k d2 by blast
      moreover have "a \<in> gone (ul_trace s1)" using a(1) k by (simp add: rest_same_def)
      ultimately show False using ok1 by (simp add: fds_ok_def batch_ok_def)
    qed
    have "poll_ok edge ?st'" using k unfolding fds_ok_def poll_ok_def r by simp
    moreover have "stack_ok edge (regd ?st') (batch ?st') (ul_stack ?st')"
      using k unfolding fds_ok_def stack_ok_def r b by simp
    moreover have "batch_ok ?st'" using k g len r1(3) unfolding fds_ok_def batch_ok_def r b by auto
    moreover have "rest_same (logged t tv st) ?st'" using r1(1) k by (auto simp: rest_same_def)
    moreover have "stack_same st ?st'" using k r1(2) by (simp add: stack_same_def)
    ultimately show ?thesis by (simp add: e fds_ok_def)
  qed
next
  case False
  then show ?thesis using assms(1) by (simp add: fetch_if_empty_def logged_def rest_same_def stack_same_refl)
qed

section \<open>Choosing the next event\<close>

definition pushable :: "(nat \<Rightarrow> bool) \<Rightarrow> uloop \<Rightarrow> nat \<Rightarrow> bool" where
  "pushable edge st a \<longleftrightarrow> (edge a \<longrightarrow> live (ul_stack st) a = []) \<and> live (batch st) a = [] \<and> a \<notin> gone (ul_trace st)"

lemma batch_advance:
  assumes "batch_ok st" "ul_cur_nfds st \<noteq> 0"
  shows "batch st = ul_cur_fds st ! ul_cur_fd st # batch (st\<lparr>ul_cur_fd := Suc (ul_cur_fd st), ul_cur_nfds := ul_cur_nfds st - 1\<rparr>)"
proof -
  have "ul_cur_fd st < length (ul_cur_fds st)" using assms by (simp add: batch_ok_def)
  then show ?thesis using assms(2) by (cases "ul_cur_nfds st") (simp_all add: batch_def Cons_nth_drop_Suc [symmetric])
qed

lemma advance_ok:
  assumes "fds_ok edge st" "ul_cur_nfds st \<noteq> 0"
  shows "fds_ok edge (st\<lparr>ul_cur_fd := Suc (ul_cur_fd st), ul_cur_nfds := ul_cur_nfds st - 1\<rparr>)" (is "fds_ok edge ?st1")
proof -
  have b: "batch st = ul_cur_fds st ! ul_cur_fd st # batch ?st1" using batch_advance assms by (simp add: fds_ok_def)
  have r: "regd ?st1 = regd st" by (intro ext) (simp add: regd_def)
  have l: "length (live (batch ?st1) a) \<le> length (live (batch st) a)" "live (batch st) a = [] \<Longrightarrow> live (batch ?st1) a = []" for a
    unfolding b by (auto split: if_splits)
  have "batch_ok ?st1" using assms l(2) order_trans [OF l(1)] unfolding fds_ok_def batch_ok_def r by auto
  moreover have "stack_ok edge (regd ?st1) (batch ?st1) (ul_stack ?st1)"
    using assms(1) l(2) unfolding fds_ok_def stack_ok_def r by auto
  moreover have "poll_ok edge ?st1" using assms(1) unfolding fds_ok_def poll_ok_def r by simp
  ultimately show ?thesis unfolding fds_ok_def by blast
qed

lemma live_count: "length (live s a) = count_list (map fst s) (Some a)"
  by (induction s) auto

lemma live_fst: "map fst s' = map fst s \<Longrightarrow> length (live s' a) = length (live s a)"
  by (simp add: live_count)

lemma buffer_ok:
  assumes ok: "fds_ok edge st" and e: "uloop_fd_stack_event a (Some evs) st = (True, st')"
  shows "fds_ok edge st' \<and> rest_same st st' \<and> map fst (ul_stack st') = map fst (ul_stack st)"
proof -
  have f: "fl_on (fd_flags (ul_fds st a)) ULOOP_EDGE_TRIGGER" using e by (simp add: uloop_fd_stack_event_def split: if_splits)
  then have ra: "regd st a" "edge a" using ok by (simp_all add: fds_ok_def poll_ok_def)
  obtain s' where s: "stack_event a (Some evs) (ul_stack st) = (True, s')" "st' = st\<lparr>ul_stack := s'\<rparr>"
    using e f by (auto simp: uloop_fd_stack_event_def split: prod.splits)
  note k = stack_event_Some [OF s(1)]
  have r: "regd st' = regd st" unfolding s(2) by (intro ext) (simp add: regd_def)
  have b: "batch st' = batch st" unfolding s(2) by (simp add: batch_def)
  have l: "length (live s' c) = length (live (ul_stack st) c)" for c using k by (intro live_fst) simp
  have l0: "live s' c = [] \<longleftrightarrow> live (ul_stack st) c = []" for c using l [of c] by auto
  have "stack_ok edge (regd st) (batch st) s'"
    unfolding stack_ok_def l l0
  proof (intro conjI allI impI)
    fix c e assume c: "(Some c, e) \<in> set s' \<and> e \<noteq> 0"
    show "regd st c" "edge c" using c k ra ok unfolding fds_ok_def stack_ok_def by (cases "c = a"; blast)+
  qed (use ok in \<open>auto simp: fds_ok_def stack_ok_def\<close>)
  moreover have "poll_ok edge st'" "batch_ok st'"
    using ok unfolding fds_ok_def poll_ok_def batch_ok_def r b by (simp_all add: s(2))
  ultimately show ?thesis using k unfolding fds_ok_def r b by (simp add: s(2) rest_same_def)
qed

lemma next_event_ok:
  "fds_ok edge st \<Longrightarrow> next_event st = (r, st') \<Longrightarrow>
     fds_ok edge st' \<and> rest_same st st' \<and> map fst (ul_stack st') = map fst (ul_stack st) \<and>
     (case r of None \<Rightarrow> True | Some (a, _) \<Rightarrow> pushable edge st' a)"
proof (induction st rule: next_event.induct)
  case (1 st)
  show ?case
  proof (cases "ul_cur_nfds st = 0")
    case True
    then show ?thesis using "1.prems" by (subst (asm) next_event.simps) (auto simp: rest_same_def)
  next
    case False
    let ?st1 = "st\<lparr>ul_cur_fd := Suc (ul_cur_fd st), ul_cur_nfds := ul_cur_nfds st - 1\<rparr>"
    obtain b events where be: "ul_cur_fds st ! ul_cur_fd st = (b, events)" by fastforce
    have ok1: "fds_ok edge ?st1" using advance_ok [OF "1.prems"(1) False] .
    have same: "rest_same ?st1 s \<Longrightarrow> rest_same st s" for s by (simp add: rest_same_def)
    show ?thesis
    proof (cases b)
      case None
      have "next_event ?st1 = (r, st')" using "1.prems"(2) False be None by (subst (asm) next_event.simps) simp
      then show ?thesis using "1.IH"(1) [OF False refl be [symmetric] refl None ok1] same by simp
    next
      case (Some a)
      show ?thesis
      proof (cases "fd_cb (ul_fds ?st1 a)")
        case cb: False
        have "next_event ?st1 = (r, st')" using "1.prems"(2) False be Some cb by (subst (asm) next_event.simps) simp
        then show ?thesis using "1.IH"(2) [OF False refl be [symmetric] refl Some cb ok1] same by simp
      next
        case cb: True
        obtain q st2 where e: "uloop_fd_stack_event a (Some events) ?st1 = (q, st2)" by fastforce
        show ?thesis
        proof (cases q)
          case True
          have e': "uloop_fd_stack_event a (Some events) ?st1 = (True, st2)" using e True by simp
          note k = buffer_ok [OF ok1 e']
          have "next_event st2 = (r, st')"
            using "1.prems"(2) False be Some cb e True by (subst (asm) next_event.simps) simp
          then show ?thesis using "1.IH"(3) [OF False refl be [symmetric] refl Some _ e [symmetric]] cb True k
            by (auto simp: rest_same_def)
        next
          case q: False
          have r: "r = Some (a, events)" "st' = st2"
            using "1.prems"(2) False be Some cb e q by (subst (asm) next_event.simps, simp)+
          have st2: "st2 = ?st1"
            using e q stack_event_Some [of a events "ul_stack ?st1"] by (auto simp: uloop_fd_stack_event_def split: if_splits prod.splits)
          have b: "batch st = (Some a, events) # batch ?st1"
            using batch_advance [of st] "1.prems"(1) False be Some by (simp add: fds_ok_def)
          have bo: "batch_ok st" "stack_ok edge (regd st) (batch st) (ul_stack st)" "poll_ok edge st" using "1.prems"(1) by (simp_all add: fds_ok_def)
          have "live (batch ?st1) a = []" using bo(1) b by (auto simp: batch_ok_def dest: spec [of _ a])
          moreover have "a \<notin> gone (ul_trace st)" using bo(1) b by (auto simp: batch_ok_def)
          moreover have "live (ul_stack st) a = []" if "edge a"
          proof (cases "regd st a")
            case True
            then have "fl_on (fd_flags (ul_fds st a)) ULOOP_EDGE_TRIGGER" using that bo(3) by (simp add: poll_ok_def)
            then show ?thesis using e q stack_event_Some [of a events "ul_stack st"]
              by (auto simp: uloop_fd_stack_event_def split: if_splits prod.splits)
          next
            case False
            then show ?thesis using bo(2) that b unfolding stack_ok_def by auto
          qed
          ultimately show ?thesis using ok1 by (simp add: r st2 pushable_def rest_same_def)
        qed
      qed
    qed
  qed
qed

end
