(* ===== verification/Uloop_Safe.thy ===== *)
theory Uloop_Safe
  imports Uloop_Inv
begin

text \<open>
  Every step of the event loop keeps the invariant and does not crash, so that every run is safe: the operations on timers and
  processes, the calls of a callback, then the steps of the loop one by one.
\<close>

section \<open>Timers and processes\<close>

lemma set_insert_before [simp]: "set (insert_before P x xs) = insert x (set xs)"
  by (induction xs) auto

lemma distinct_insert_before: "distinct (insert_before P x xs) \<longleftrightarrow> x \<notin> set xs \<and> distinct xs"
  by (induction xs) auto

lemma sorted_insert_before:
  assumes "sorted_wrt R xs" "\<And>y. y \<in> set xs \<Longrightarrow> \<not> P y \<Longrightarrow> R y x" "\<And>y. y \<in> set xs \<Longrightarrow> P y \<Longrightarrow> R x y"
    "\<And>y z. y \<in> set xs \<Longrightarrow> z \<in> set xs \<Longrightarrow> P y \<Longrightarrow> R y z \<Longrightarrow> R x z"
  shows "sorted_wrt R (insert_before P x xs)"
  using assms
proof (induction xs)
  case (Cons y ys)
  show ?case
  proof (cases "P y")
    case True
    have "R x z" if "z \<in> set ys" for z
      by (rule Cons.prems(4) [of y]) (use True that Cons.prems(1) in auto)
    then show ?thesis using True Cons.prems(1) Cons.prems(3) [of y] by simp
  next
    case False
    have "sorted_wrt R (insert_before P x ys)"
      by (rule Cons.IH) (use Cons.prems in \<open>auto intro: Cons.prems(4)\<close>)
    then show ?thesis using False Cons.prems(1) Cons.prems(2) [of y] by simp
  qed
qed simp

lemma set_ok:
  assumes "timers_ok st"
  shows "timers_ok (log_event (Ev_set a) (snd (uloop_timeout_set ev a ms st)))"
  using assms by (auto simp: timers_ok_def log_event_def uloop_timeout_set_def uloop_timeout_cancel_def uloop_timeout_add_def
      uloop_gettime_def upd_tmr_def Let_def distinct_insert_before)

lemma cancel_ok:
  assumes "timers_ok st" "e = Ev_cancel a \<or> e = Ev_timer a tv"
  shows "timers_ok (log_event e (snd (uloop_timeout_cancel a st)))"
  using assms by (auto simp: timers_ok_def log_event_def uloop_timeout_cancel_def upd_tmr_def)

lemma timer_fields:
  "ul_fds (snd (uloop_timeout_set ev a ms st)) = ul_fds st" "ul_epoll (snd (uloop_timeout_set ev a ms st)) = ul_epoll st"
  "ul_stack (snd (uloop_timeout_set ev a ms st)) = ul_stack st" "ul_cur_fds (snd (uloop_timeout_set ev a ms st)) = ul_cur_fds st"
  "ul_cur_fd (snd (uloop_timeout_set ev a ms st)) = ul_cur_fd st" "ul_cur_nfds (snd (uloop_timeout_set ev a ms st)) = ul_cur_nfds st"
  "ul_trace (snd (uloop_timeout_set ev a ms st)) = ul_trace st" "ul_prcs (snd (uloop_timeout_set ev a ms st)) = ul_prcs st"
  "ul_processes (snd (uloop_timeout_set ev a ms st)) = ul_processes st"
  "ul_fds (snd (uloop_timeout_cancel a st)) = ul_fds st" "ul_epoll (snd (uloop_timeout_cancel a st)) = ul_epoll st"
  "ul_stack (snd (uloop_timeout_cancel a st)) = ul_stack st" "ul_cur_fds (snd (uloop_timeout_cancel a st)) = ul_cur_fds st"
  "ul_cur_fd (snd (uloop_timeout_cancel a st)) = ul_cur_fd st" "ul_cur_nfds (snd (uloop_timeout_cancel a st)) = ul_cur_nfds st"
  "ul_trace (snd (uloop_timeout_cancel a st)) = ul_trace st" "ul_prcs (snd (uloop_timeout_cancel a st)) = ul_prcs st"
  "ul_processes (snd (uloop_timeout_cancel a st)) = ul_processes st"
  by (simp_all add: uloop_timeout_set_def uloop_timeout_cancel_def uloop_timeout_add_def uloop_gettime_def upd_tmr_def Let_def)

lemma process_fields:
  "ul_fds (snd (uloop_process_add a st)) = ul_fds st" "ul_epoll (snd (uloop_process_add a st)) = ul_epoll st"
  "ul_stack (snd (uloop_process_add a st)) = ul_stack st" "ul_cur_fds (snd (uloop_process_add a st)) = ul_cur_fds st"
  "ul_cur_fd (snd (uloop_process_add a st)) = ul_cur_fd st" "ul_cur_nfds (snd (uloop_process_add a st)) = ul_cur_nfds st"
  "ul_trace (snd (uloop_process_add a st)) = ul_trace st" "ul_tmrs (snd (uloop_process_add a st)) = ul_tmrs st"
  "ul_timeouts (snd (uloop_process_add a st)) = ul_timeouts st"
  "ul_fds (snd (uloop_process_delete a st)) = ul_fds st" "ul_epoll (snd (uloop_process_delete a st)) = ul_epoll st"
  "ul_stack (snd (uloop_process_delete a st)) = ul_stack st" "ul_cur_fds (snd (uloop_process_delete a st)) = ul_cur_fds st"
  "ul_cur_fd (snd (uloop_process_delete a st)) = ul_cur_fd st" "ul_cur_nfds (snd (uloop_process_delete a st)) = ul_cur_nfds st"
  "ul_trace (snd (uloop_process_delete a st)) = ul_trace st" "ul_tmrs (snd (uloop_process_delete a st)) = ul_tmrs st"
  "ul_timeouts (snd (uloop_process_delete a st)) = ul_timeouts st"
  by (simp_all add: uloop_process_add_def uloop_process_delete_def upd_prc_def)

lemma pids_kept:
  "pr_pid (ul_prcs (snd (uloop_process_add a st)) b) = pr_pid (ul_prcs st b)"
  "pr_pid (ul_prcs (snd (uloop_process_delete a st)) b) = pr_pid (ul_prcs st b)"
  by (simp_all add: uloop_process_add_def uloop_process_delete_def upd_prc_def)

lemma fds_ok_eq:
  assumes "ul_fds st' = ul_fds st" "ul_epoll st' = ul_epoll st" "ul_stack st' = ul_stack st" "ul_cur_fds st' = ul_cur_fds st"
    "ul_cur_fd st' = ul_cur_fd st" "ul_cur_nfds st' = ul_cur_nfds st" "gone (ul_trace st') = gone (ul_trace st)"
  shows "fds_ok edge st' = fds_ok edge st"
proof -
  have "regd st' = regd st" "batch st' = batch st" using assms by (auto simp: regd_def batch_def)
  then show ?thesis using assms by (simp add: fds_ok_def poll_ok_def batch_ok_def)
qed

lemma timers_ok_eq:
  "ul_tmrs st' = ul_tmrs st \<Longrightarrow> ul_timeouts st' = ul_timeouts st \<Longrightarrow> armed (ul_trace st') = armed (ul_trace st) \<Longrightarrow>
     timers_ok st' = timers_ok st"
  by (simp add: timers_ok_def)

lemma procs_ok_eq: "ul_prcs st' = ul_prcs st \<Longrightarrow> ul_processes st' = ul_processes st \<Longrightarrow> procs_ok st' = procs_ok st"
  by (simp add: procs_ok_def)

lemma process_add_ok:
  assumes "procs_ok st"
  shows "procs_ok (snd (uloop_process_add a st))"
proof (cases "pr_pending (ul_prcs st a)")
  case False
  let ?p = "\<lambda>a. pr_pid (ul_prcs st a)"
  have s: "sorted_wrt (\<lambda>a b. ?p a < ?p b) (insert_before (\<lambda>b. ?p b > ?p a) a (ul_processes st))"
  proof (rule sorted_insert_before)
    fix y assume y: "y \<in> set (ul_processes st)" "\<not> ?p y > ?p a"
    have "y \<noteq> a" using y(1) False assms by (auto simp: procs_ok_def)
    then have "?p y \<noteq> ?p a" using assms by (auto simp: procs_ok_def inj_def)
    then show "?p y < ?p a" using y(2) by simp
  qed (use assms in \<open>auto simp: procs_ok_def\<close>)
  let ?st' = "snd (uloop_process_add a st)"
  have p: "pr_pid (ul_prcs ?st' b) = ?p b" for b by (rule pids_kept)
  have l: "ul_processes ?st' = insert_before (\<lambda>b. ?p b > ?p a) a (ul_processes st)"
    "pr_pending (ul_prcs ?st' b) \<longleftrightarrow> b = a \<or> pr_pending (ul_prcs st b)" for b
    using False by (simp_all add: uloop_process_add_def upd_prc_def)
  show ?thesis unfolding procs_ok_def p l using s assms by (auto simp: procs_ok_def)
qed (use assms in \<open>simp add: uloop_process_add_def\<close>)

lemma sorted_distinct: "procs_ok st \<Longrightarrow> distinct (ul_processes st)"
proof -
  have d: "sorted_wrt (\<lambda>a b. (f a :: int) < f b) xs \<Longrightarrow> distinct xs" for f and xs :: "nat list" by (induction xs) auto
  show "procs_ok st \<Longrightarrow> distinct (ul_processes st)"
    unfolding procs_ok_def by (intro d [of "\<lambda>a. pr_pid (ul_prcs st a)"]) blast
qed

lemma process_delete_ok:
  assumes "procs_ok st"
  shows "procs_ok (snd (uloop_process_delete a st))"
proof -
  let ?st' = "snd (uloop_process_delete a st)"
  have d: "distinct (ul_processes st)" by (rule sorted_distinct [OF assms])
  have p: "pr_pid (ul_prcs ?st' b) = pr_pid (ul_prcs st b)" for b by (rule pids_kept)
  have "sorted_wrt R (remove1 a xs)" if "sorted_wrt R xs" for R :: "nat \<Rightarrow> nat \<Rightarrow> bool" and xs
    using that by (induction xs) (auto dest: notin_set_remove1 set_remove1_subset [THEN subsetD])
  then have "sorted_wrt (\<lambda>a b. pr_pid (ul_prcs st a) < pr_pid (ul_prcs st b)) (remove1 a (ul_processes st))"
    using assms by (simp add: procs_ok_def)
  then show ?thesis using assms d unfolding procs_ok_def p
    by (auto simp: uloop_process_delete_def upd_prc_def)
qed

section \<open>Steps\<close>

definition state_ok :: "(nat \<Rightarrow> bool) \<Rightarrow> uloop \<Rightarrow> bool" where
  "state_ok edge st \<longleftrightarrow> fds_ok edge st \<and> timers_ok st \<and> procs_ok st \<and> legal (ul_trace st)"

definition pids_same :: "uloop \<Rightarrow> uloop \<Rightarrow> bool" where
  "pids_same st st' \<longleftrightarrow> (\<forall>b. pr_pid (ul_prcs st' b) = pr_pid (ul_prcs st b))"

lemma frame_ok_pids: "pids_same st st' \<Longrightarrow> frame_ok edge st' f = frame_ok edge st f"
  by (simp add: frame_ok_def pids_same_def split: frame.splits list_ptr.splits)

lemma frames_ok_pids: "pids_same st st' \<Longrightarrow> list_all (frame_ok edge st') k = list_all (frame_ok edge st) k"
  by (simp add: frame_ok_pids list_all_iff)

lemma top_of_frame: "frame_ok edge st f \<Longrightarrow> top_ok edge st f"
  by (simp add: top_ok_def frame_ok_def split: frame.splits)

definition stacked :: "frame list \<Rightarrow> uloop \<Rightarrow> bool" where
  "stacked fs st \<longleftrightarrow> list_all2 (\<lambda>a x. fst x = None \<or> fst x = Some a) (fd_frames fs) (ul_stack st)"

lemma stacked_same: "stacked fs st \<Longrightarrow> stack_same st st' \<Longrightarrow> stacked fs st'"
  unfolding stacked_def stack_same_def by (auto simp: list_all2_conv_all_nth) metis

lemma stacked_fst: "stacked fs st \<Longrightarrow> map fst (ul_stack st') = map fst (ul_stack st) \<Longrightarrow> stacked fs st'"
  unfolding stacked_def by (auto simp: list_all2_conv_all_nth) (metis length_map nth_map)+

lemma uloop_inv_alt:
  "uloop_inv edge fs st \<longleftrightarrow> state_ok edge st \<and> stacked fs st \<and>
     (case fs of [] \<Rightarrow> True | f # k \<Rightarrow> top_ok edge st f \<and> list_all (frame_ok edge st) k)"
  by (auto simp: uloop_inv_def state_ok_def stacked_def frames_ok_def)

text \<open>The form of most steps: the top frame is replaced by frames that are fine.\<close>

lemma inv_replace:
  assumes "uloop_inv edge (f # k) st" "state_ok edge st'" "pids_same st st'" "stacked (fs @ k) st'" "list_all (frame_ok edge st') fs"
  shows "uloop_inv edge (fs @ k) st'"
proof -
  have "list_all (frame_ok edge st') (fs @ k)"
    using assms(1,3,5) frames_ok_pids [OF assms(3)] by (simp add: uloop_inv_alt)
  then show ?thesis using assms(2,4) top_of_frame unfolding uloop_inv_alt by (cases "fs @ k") auto
qed

lemma rest_same_ok:
  assumes "rest_same st st'" "fds_ok edge st'"
  shows "timers_ok st' = timers_ok st" "procs_ok st' = procs_ok st" "legal (ul_trace st') = legal (ul_trace st)" "pids_same st st'"
  using assms by (auto simp: rest_same_def timers_ok_def procs_ok_def pids_same_def)

lemma state_ok_rest: "state_ok edge st \<Longrightarrow> rest_same st st' \<Longrightarrow> fds_ok edge st' \<Longrightarrow> state_ok edge st'"
  using rest_same_ok by (simp add: state_ok_def)

lemma state_ok_log:
  "state_ok edge st \<Longrightarrow> gone (e # ul_trace st) = gone (ul_trace st) \<Longrightarrow> armed (e # ul_trace st) = armed (ul_trace st) \<Longrightarrow>
     legal (e # ul_trace st) \<Longrightarrow> state_ok edge (log_event e st)"
  by (simp add: state_ok_def fds_ok_log) (simp add: timers_ok_def procs_ok_def log_event_def)

lemma api_ok:
  assumes ok: "state_ok edge st" and ev: "env_ok edge ev" and c: "call_ok edge c"
  shows "state_ok edge (uloop_api ev c st) \<and> pids_same st (uloop_api ev c st) \<and> stack_same st (uloop_api ev c st)"
proof -
  have ctl: "\<forall>k. ue_ctl ev k" using ev by (simp add: env_ok_def)
  have f: "fds_ok edge st" "timers_ok st" "procs_ok st" "legal (ul_trace st)" using ok by (simp_all add: state_ok_def)
  have delete: "state_ok edge (log_event (Ev_delete a) (snd (uloop_fd_delete ev a st))) \<and>
      pids_same st (log_event (Ev_delete a) (snd (uloop_fd_delete ev a st))) \<and>
      stack_same st (log_event (Ev_delete a) (snd (uloop_fd_delete ev a st)))" for a
    using delete_log_ok [OF f(1) ctl, of a] delete_rest [of st ev a] f
    by (auto simp: state_ok_def pids_same_def rest_same_def stack_same_def timers_ok_def procs_ok_def log_event_def)
  show ?thesis
  proof (cases c)
    case (C_fd_add a flags)
    show ?thesis
    proof (cases "flags AND (ULOOP_READ OR ULOOP_WRITE) = 0")
      case True
      then have "uloop_fd_add ev a flags st = uloop_fd_delete ev a st" by (simp add: uloop_fd_add_def)
      then show ?thesis using delete [of a] True by (simp add: uloop_api_def C_fd_add)
    next
      case False
      note k = add_ok [OF f(1) ctl c [unfolded C_fd_add] False]
      show ?thesis using k f False
        by (auto simp: uloop_api_def C_fd_add state_ok_def pids_same_def rest_same_def timers_ok_def procs_ok_def log_event_def
            intro: stack_same_refl)
    qed
  next
    case (C_fd_delete a)
    then show ?thesis using delete [of a] by (simp add: uloop_api_def)
  next
    case (C_timeout_set a ms)
    have "fds_ok edge (log_event (Ev_set a) (snd (uloop_timeout_set ev a ms st))) = fds_ok edge st"
      by (rule fds_ok_eq) (simp_all add: log_event_def timer_fields)
    then show ?thesis using set_ok [OF f(2), of a ev ms] f
      by (simp add: uloop_api_def C_timeout_set state_ok_def procs_ok_def pids_same_def stack_same_refl timer_fields log_event_def)
  next
    case (C_timeout_cancel a)
    have "fds_ok edge (log_event (Ev_cancel a) (snd (uloop_timeout_cancel a st))) = fds_ok edge st"
      by (rule fds_ok_eq) (simp_all add: log_event_def timer_fields)
    then show ?thesis using cancel_ok [OF f(2), of "Ev_cancel a" a] f
      by (simp add: uloop_api_def C_timeout_cancel state_ok_def procs_ok_def pids_same_def stack_same_refl timer_fields log_event_def)
  next
    case (C_process_add a)
    have "fds_ok edge (snd (uloop_process_add a st)) = fds_ok edge st" by (rule fds_ok_eq) (simp_all add: process_fields)
    then show ?thesis using process_add_ok [OF f(3), of a] f
      by (simp add: uloop_api_def C_process_add state_ok_def timers_ok_def pids_same_def stack_same_refl process_fields pids_kept)
  next
    case (C_process_delete a)
    have "fds_ok edge (snd (uloop_process_delete a st)) = fds_ok edge st" by (rule fds_ok_eq) (simp_all add: process_fields)
    then show ?thesis using process_delete_ok [OF f(3), of a] f
      by (simp add: uloop_api_def C_process_delete state_ok_def timers_ok_def pids_same_def stack_same_refl process_fields pids_kept)
  next
    case C_end
    have "fds_ok edge (st\<lparr>ul_cancelled := True\<rparr>) = fds_ok edge st" by (rule fds_ok_eq) simp_all
    then show ?thesis using f
      by (simp add: uloop_api_def C_end state_ok_def timers_ok_def procs_ok_def pids_same_def stack_same_refl)
  next
    case (C_run t)
    then show ?thesis using ok by (simp add: uloop_api_def pids_same_def stack_same_refl)
  qed
qed

lemma fd_frames_append [simp]: "fd_frames (fs @ k) = fd_frames fs @ fd_frames k"
  by (induction fs rule: fd_frames.induct) simp_all

lemma timeouts_step:
  assumes inv: "uloop_inv edge (F_timeouts tv # k) st" and ev: "env_ok edge ev" and s: "step_timeouts ev tv k st = Next fs' st'"
  shows "uloop_inv edge fs' st'"
proof -
  have ok: "state_ok edge st" "stacked (F_timeouts tv # k) st" using inv by (simp_all add: uloop_inv_alt)
  have id: "uloop_inv edge ([] @ k) st" by (rule inv_replace [OF inv]) (use ok in \<open>auto simp: pids_same_def stacked_def\<close>)
  show ?thesis
  proof (cases "ul_timeouts st")
    case Nil
    then show ?thesis using s id by (simp add: step_timeouts_def)
  next
    case (Cons a as)
    show ?thesis
    proof (cases "tv_diff (to_time (ul_tmrs st a)) tv > 0")
      case True
      then show ?thesis using s id Cons by (simp add: step_timeouts_def)
    next
      case False
      let ?st1 = "log_event (Ev_timer a tv) (snd (uloop_timeout_cancel a st))"
      have "fds_ok edge ?st1 = fds_ok edge st" by (rule fds_ok_eq) (simp_all add: log_event_def timer_fields)
      moreover have "a \<in> armed (ul_trace st)" using ok(1) Cons by (auto simp: state_ok_def timers_ok_def)
      ultimately have ok1: "state_ok edge ?st1"
        using cancel_ok [of st "Ev_timer a tv" a tv] ok(1)
        by (simp add: state_ok_def procs_ok_def timer_fields log_event_def)
      have same: "pids_same st ?st1" "ul_stack ?st1 = ul_stack st" by (simp_all add: pids_same_def log_event_def timer_fields)
      have "uloop_inv edge ([F_calls (ue_timer_cb ev a ?st1), F_timeouts tv] @ k) ?st1"
        by (rule inv_replace [OF inv ok1 same(1)]) (use ok(2) same(2) ev in \<open>auto simp: stacked_def frame_ok_def env_ok_def\<close>)
      moreover have "uloop_inv edge ([F_timeouts tv] @ k) ?st1"
        by (rule inv_replace [OF inv ok1 same(1)]) (use ok(2) same(2) in \<open>auto simp: stacked_def frame_ok_def\<close>)
      ultimately show ?thesis using s Cons False by (auto simp: step_timeouts_def Let_def split: if_splits)
    qed
  qed
qed

lemma after_mem: "a \<in> set xs \<Longrightarrow> after a xs \<noteq> P_null \<and> (after a xs = P_node b \<longrightarrow> b \<in> set xs)"
proof (induction xs)
  case (Cons x xs)
  then show ?case by (cases "x = a"; cases xs) auto
qed simp

lemma after_sorted: "sorted_wrt R xs \<Longrightarrow> distinct xs \<Longrightarrow> a \<in> set xs \<Longrightarrow> after a xs = P_node b \<Longrightarrow> R a b"
proof (induction xs)
  case (Cons x xs)
  then show ?case by (cases "x = a"; cases xs) auto
qed simp

lemma list_next_ok: "p \<noteq> P_null \<Longrightarrow> (\<forall>a. p = P_node a \<longrightarrow> a \<in> set xs) \<Longrightarrow>
    list_next xs p \<noteq> P_null \<and> (\<forall>b. list_next xs p = P_node b \<longrightarrow> b \<in> set xs)"
  using after_mem by (cases p) (auto simp: list_next_def split: list.splits)

text \<open>The frame of the loop over the processes, when its node is in the list.\<close>

lemma top_procs:
  "n \<noteq> P_null \<Longrightarrow> (\<forall>b. n = P_node b \<longrightarrow> b \<in> set (ul_processes st) \<or> pid < pr_pid (ul_prcs st b)) \<Longrightarrow>
     top_ok edge st (F_procs pid ret n (list_next (ul_processes st) n))"
  by (cases n) (auto simp: top_ok_def list_next_def)

lemma inv_top:
  assumes "uloop_inv edge (f # k) st" "state_ok edge st'" "pids_same st st'" "stacked k st'" "top_ok edge st' g"
    "list_all (frame_ok edge st') fs" "fd_frames (g # fs) = []"
  shows "uloop_inv edge (g # fs @ k) st'"
proof -
  have "list_all (frame_ok edge st') k" using assms(1) frames_ok_pids [OF assms(3)] by (simp add: uloop_inv_alt)
  moreover have "fd_frames (g # fs @ k) = fd_frames (g # fs) @ fd_frames k" using fd_frames_append [of "g # fs" k] by simp
  ultimately show ?thesis using assms by (simp add: uloop_inv_alt stacked_def)
qed

lemma procs_step:
  assumes inv: "uloop_inv edge (F_procs pid ret p n # k) st" and ev: "env_ok edge ev"
  shows "step_procs ev pid ret p n k st \<noteq> Crash" "step_procs ev pid ret p n k st = Next fs' st' \<Longrightarrow> uloop_inv edge fs' st'"
proof -
  have ok: "state_ok edge st" "stacked (F_procs pid ret p n # k) st" "top_ok edge st (F_procs pid ret p n)"
    using inv by (simp_all add: uloop_inv_alt)
  have id: "uloop_inv edge ([] @ k) st" by (rule inv_replace [OF inv]) (use ok in \<open>auto simp: pids_same_def stacked_def\<close>)
  show "step_procs ev pid ret p n k st \<noteq> Crash"
    using ok(3) by (auto simp: step_procs_def top_ok_def Let_def split: list_ptr.splits)
  assume s: "step_procs ev pid ret p n k st = Next fs' st'"
  show "uloop_inv edge fs' st'"
  proof (cases p)
    case (P_node a)
    let ?p = "\<lambda>b. pr_pid (ul_prcs st b)"
    consider "?p a > pid" | "?p a \<le> pid" "a \<in> set (ul_processes st)" "n = after a (ul_processes st)"
      using ok(3) P_node by (cases "?p a > pid") (auto simp: top_ok_def)
    then show ?thesis
    proof cases
      case 1
      then show ?thesis using s id P_node by (simp add: step_procs_def)
    next
      case 2
      have pr: "procs_ok st" using ok(1) by (simp add: state_ok_def)
      have n: "n \<noteq> P_null \<and> (\<forall>b. n = P_node b \<longrightarrow> b \<in> set (ul_processes st) \<and> ?p a < ?p b)"
        using after_mem [OF 2(2)] after_sorted [OF _ sorted_distinct [OF pr] 2(2), of "\<lambda>a b. ?p a < ?p b"] pr
        by (auto simp: procs_ok_def 2(3))
      show ?thesis
      proof (cases "?p a < pid")
        case True
        have "uloop_inv edge (F_procs pid ret n (list_next (ul_processes st) n) # [] @ k) st"
          by (rule inv_top [OF inv ok(1)]) (use ok(2) n in \<open>auto simp: pids_same_def stacked_def intro!: top_procs\<close>)
        then show ?thesis using s P_node True by (auto simp: step_procs_def)
      next
        case False
        let ?st1 = "log_event (Ev_process a ret) (snd (uloop_process_delete a st))"
        have "fds_ok edge ?st1 = fds_ok edge st" by (rule fds_ok_eq) (simp_all add: log_event_def process_fields)
        then have ok1: "state_ok edge ?st1" using process_delete_ok [OF pr, of a] ok(1)
          by (simp add: state_ok_def timers_ok_def procs_ok_def process_fields log_event_def)
        have same: "pids_same st ?st1" "ul_stack ?st1 = ul_stack st" by (simp_all add: pids_same_def log_event_def process_fields pids_kept)
        have fo: "frame_ok edge ?st1 (F_next pid ret n)"
          using n 2(1) False same(1) by (cases n) (auto simp: frame_ok_def pids_same_def)
        have "uloop_inv edge ([F_calls (ue_process_cb ev a ret ?st1), F_next pid ret n] @ k) ?st1"
          by (rule inv_replace [OF inv ok1 same(1)]) (use ok(2) same(2) ev fo in \<open>auto simp: stacked_def frame_ok_def [of _ _ "F_calls _"] env_ok_def\<close>)
        then show ?thesis using s P_node False 2(1) by (auto simp: step_procs_def Let_def split: if_splits)
      qed
    qed
  qed (use s id in \<open>simp_all add: step_procs_def\<close>)
qed

lemma state_ok_counts:
  "state_ok edge (st\<lparr>ul_clocks := n\<rparr>) = state_ok edge st" "state_ok edge (st\<lparr>ul_waits := n\<rparr>) = state_ok edge st"
  "state_ok edge (st\<lparr>ul_do_sigchld := b\<rparr>) = state_ok edge st" "state_ok edge (st\<lparr>ul_run_depth := d\<rparr>) = state_ok edge st"
  "state_ok edge (st\<lparr>ul_run_depth := d, ul_status := i, ul_cancelled := c\<rparr>) = state_ok edge st"
  unfolding state_ok_def timers_ok_def procs_ok_def by (simp_all add: fds_ok_def poll_ok_def batch_ok_def regd_def [abs_def] batch_def)

lemma waits_step:
  assumes inv: "uloop_inv edge (F_waits # k) st" and s: "step_waits ev k st = Next fs' st'"
  shows "uloop_inv edge fs' st'"
proof -
  let ?st1 = "st\<lparr>ul_waits := Suc (ul_waits st)\<rparr>"
  have ok: "state_ok edge ?st1" "pids_same st ?st1" "stacked k ?st1" using inv by (simp_all add: uloop_inv_alt state_ok_counts pids_same_def stacked_def)
  have 1: "uloop_inv edge ([] @ k) ?st1" by (rule inv_replace [OF inv]) (use ok in auto)
  have 2: "uloop_inv edge ([F_waits] @ k) ?st1"
    by (rule inv_replace [OF inv]) (use ok in \<open>auto simp: frame_ok_def stacked_def\<close>)
  have 3: "uloop_inv edge (F_procs pid ret (list_next (ul_processes st) P_head)
      (list_next (ul_processes st) (list_next (ul_processes st) P_head)) # [F_waits] @ k) ?st1" for pid ret
    by (rule inv_top [OF inv ok(1,2,3)])
      (use list_next_ok [of P_head "ul_processes st"] top_procs [of "list_next (ul_processes st) P_head" ?st1 pid edge ret]
        in \<open>auto simp: frame_ok_def\<close>)
  show ?thesis using s 1 2 3 by (auto simp: step_waits_def Let_def split: wait_answer.splits if_splits)
qed

lemma fds_ok_stack:
  assumes "fds_ok edge st" "stack_ok edge (regd st) (batch st) s"
  shows "fds_ok edge (st\<lparr>ul_stack := s\<rparr>)"
proof -
  have "regd (st\<lparr>ul_stack := s\<rparr>) = regd st" "batch (st\<lparr>ul_stack := s\<rparr>) = batch st" by (auto simp: regd_def batch_def)
  then show ?thesis using assms by (simp add: fds_ok_def poll_ok_def batch_ok_def)
qed

lemma push_ok:
  assumes "fds_ok edge st" "pushable edge st a"
  shows "fds_ok edge (st\<lparr>ul_stack := (Some a, 0) # ul_stack st\<rparr>)"
proof (rule fds_ok_stack [OF assms(1)])
  show "stack_ok edge (regd st) (batch st) ((Some a, 0) # ul_stack st)"
    using assms unfolding fds_ok_def stack_ok_def pushable_def by (auto split: if_splits)
qed

lemma stack_tail_ok:
  assumes "fds_ok edge st" "ul_stack st = (b, evs) # s"
  shows "fds_ok edge (st\<lparr>ul_stack := s\<rparr>)" "fds_ok edge (st\<lparr>ul_stack := (b, 0) # s\<rparr>)"
proof -
  have o: "stack_ok edge (regd st) (batch st) ((b, evs) # s)" using assms by (simp add: fds_ok_def)
  have l: "length (live s c) \<le> length (live ((b, evs) # s) c)" "live ((b, evs) # s) c = [] \<Longrightarrow> live s c = []"
    "length (live ((b, 0) # s) c) = length (live ((b, evs) # s) c)" "live ((b, evs) # s) c = [] \<Longrightarrow> live ((b, 0) # s) c = []" for c
    by (auto split: if_splits)
  have "stack_ok edge (regd st) (batch st) s" "stack_ok edge (regd st) (batch st) ((b, 0) # s)"
    using o l(2,4) order_trans [OF l(1)] unfolding stack_ok_def l(3) by (simp_all, blast+)
  then show "fds_ok edge (st\<lparr>ul_stack := s\<rparr>)" "fds_ok edge (st\<lparr>ul_stack := (b, 0) # s\<rparr>)"
    by (simp_all add: fds_ok_stack [OF assms(1)])
qed

lemma state_ok_stack: "state_ok edge st \<Longrightarrow> fds_ok edge (st\<lparr>ul_stack := s\<rparr>) \<Longrightarrow> state_ok edge (st\<lparr>ul_stack := s\<rparr>)"
  by (simp add: state_ok_def timers_ok_def procs_ok_def)

lemma fd_step:
  assumes inv: "uloop_inv edge (F_fd a # k) st" and ev: "env_ok edge ev"
  shows "step_fd ev a k st \<noteq> Crash" "step_fd ev a k st = Next fs' st' \<Longrightarrow> uloop_inv edge fs' st'"
proof -
  have ok: "state_ok edge st" "stacked (F_fd a # k) st" using inv by (simp_all add: uloop_inv_alt)
  obtain b evs s where s: "ul_stack st = (b, evs) # s" "b = None \<or> b = Some a" "list_all2 (\<lambda>a x. fst x = None \<or> fst x = Some a) (fd_frames k) s"
    using ok(2) by (auto simp: stacked_def list_all2_Cons1)
  show "step_fd ev a k st \<noteq> Crash" by (simp add: step_fd_def s(1) Let_def)
  assume st: "step_fd ev a k st = Next fs' st'"
  have f: "fds_ok edge st" using ok(1) by (simp add: state_ok_def)
  note t = stack_tail_ok [OF f s(1)]
  let ?st1 = "log_event (Ev_fd a (evs AND ULOOP_EVENT_MASK)) (st\<lparr>ul_stack := (b, 0) # s\<rparr>)"
  have 1: "uloop_inv edge ([] @ k) (st\<lparr>ul_stack := s\<rparr>)"
    by (rule inv_replace [OF inv state_ok_stack [OF ok(1) t(1)]]) (use s(3) in \<open>auto simp: pids_same_def stacked_def\<close>)
  have 2: "uloop_inv edge ([F_calls (ue_fd_cb ev a (evs AND ULOOP_EVENT_MASK) ?st1), F_fd a] @ k) ?st1"
    if b: "b \<noteq> None" "evs AND ULOOP_EVENT_MASK \<noteq> 0"
  proof (rule inv_replace [OF inv])
    have "evs \<noteq> 0" "b = Some a" using b s(2) by auto
    then have "regd st a" using f s(1) unfolding fds_ok_def stack_ok_def by auto
    then have "a \<notin> gone (ul_trace st)" using f by (auto simp: fds_ok_def batch_ok_def)
    then show "state_ok edge ?st1"
      by (intro state_ok_log [OF state_ok_stack [OF ok(1) t(2)]]) (use ok(1) in \<open>simp_all add: state_ok_def\<close>)
  qed (use s b ev in \<open>auto simp: pids_same_def stacked_def log_event_def frame_ok_def env_ok_def\<close>)
  show "uloop_inv edge fs' st'" using st 1 2 by (auto simp: step_fd_def s(1) Let_def split: if_splits)
qed

lemma poll_step:
  assumes inv: "uloop_inv edge (F_poll t # k) st" and ev: "env_ok edge ev" and s: "step_poll ev t k st = Next fs' st'"
  shows "uloop_inv edge fs' st'"
proof (cases "ul_cancelled st")
  case True
  have "uloop_inv edge ([F_loop t] @ k) st"
    by (rule inv_replace [OF inv]) (use inv in \<open>auto simp: uloop_inv_alt pids_same_def stacked_def frame_ok_def\<close>)
  then show ?thesis using s True by (simp add: step_poll_def)
next
  case False
  define tv where "tv = ue_clock ev (ul_clocks st)"
  define st1 where "st1 = st\<lparr>ul_clocks := Suc (ul_clocks st)\<rparr>"
  define tt where "tt = (if 0 \<le> t \<and> t < uloop_get_next_timeout tv st1 then t else uloop_get_next_timeout tv st1)"
  define sf where "sf = fetch_if_empty ev tt tv st1"
  obtain r st2 where n: "next_event sf = (r, st2)" by fastforce
  have u: "step_poll ev t k st = (case next_event sf of (None, st2) \<Rightarrow> Next (F_loop t # k) st2
      | (Some (a, events), st2) \<Rightarrow>
          (let st3 = log_event (Ev_fd a events) (st2\<lparr>ul_stack := (Some a, 0) # ul_stack st2\<rparr>)
           in Next (F_calls (ue_fd_cb ev a events st3) # F_fd a # F_loop t # k) st3))"
    unfolding sf_def tt_def st1_def tv_def using False by (simp add: step_poll_def uloop_gettime_def Let_def)
  have ok1: "state_ok edge st1" "stacked k st1" "pids_same st st1"
    using inv by (simp_all add: uloop_inv_alt st1_def state_ok_counts stacked_def pids_same_def)
  have okl: "state_ok edge (logged tt tv st1)" "pids_same st (logged tt tv st1)"
    using ok1(1,3) state_ok_log [OF ok1(1), of "Ev_fetch tt tv"] by (auto simp: logged_def pids_same_def log_event_def state_ok_def)
  have k: "fds_ok edge sf" "rest_same (logged tt tv st1) sf" "stack_same st1 sf"
    using fetch_if_empty_ok [OF _ ev, of st1 tt tv] ok1(1) by (simp_all add: state_ok_def sf_def)
  note q = next_event_ok [OF k(1) n]
  have ok2: "state_ok edge st2" "pids_same st st2" "stacked k st2"
    using state_ok_rest [OF state_ok_rest [OF okl(1) k(2,1)]] rest_same_ok(4) [OF k(2,1)] q okl(2)
      stacked_fst [OF stacked_same [OF ok1(2) k(3)]]
    by (auto simp: rest_same_def pids_same_def)
  show ?thesis
  proof (cases r)
    case None
    have "uloop_inv edge ([F_loop t] @ k) st2"
      by (rule inv_replace [OF inv ok2(1,2)]) (use ok2(3) in \<open>auto simp: stacked_def frame_ok_def\<close>)
    then show ?thesis using s n None by (simp add: u)
  next
    case (Some ae)
    obtain a events where ae: "ae = (a, events)" by fastforce
    have p: "pushable edge st2 a" using q Some ae by simp
    let ?st3 = "log_event (Ev_fd a events) (st2\<lparr>ul_stack := (Some a, 0) # ul_stack st2\<rparr>)"
    have ok3: "state_ok edge ?st3"
      by (intro state_ok_log state_ok_stack ok2(1) push_ok) (use p ok2(1) in \<open>auto simp: pushable_def state_ok_def\<close>)
    have "uloop_inv edge ([F_calls (ue_fd_cb ev a events ?st3), F_fd a, F_loop t] @ k) ?st3"
      by (rule inv_replace [OF inv ok3]) (use ok2(2,3) ev in \<open>auto simp: pids_same_def stacked_def log_event_def frame_ok_def env_ok_def\<close>)
    then show ?thesis using s n Some ae by (auto simp: u Let_def)
  qed
qed

lemma calls_step:
  assumes inv: "uloop_inv edge (F_calls (c # cs) # k) st" and ev: "env_ok edge ev"
    and s: "uloop_step ev (F_calls (c # cs) # k) st = Next fs' st'"
  shows "uloop_inv edge fs' st'"
proof -
  have ok: "state_ok edge st" "stacked k st" "call_ok edge c" "list_all (call_ok edge) cs"
    using inv by (auto simp: uloop_inv_alt stacked_def top_ok_def frame_ok_def)
  have 1: "uloop_inv edge ([F_calls cs] @ k) (uloop_api ev c st)"
    using api_ok [OF ok(1) ev ok(3)] stacked_same [OF ok(2)] ok(4)
    by (intro inv_replace [OF inv]) (auto simp: frame_ok_def stacked_def)
  have 2: "uloop_inv edge ([F_loop t, F_calls cs] @ k) (st\<lparr>ul_run_depth := Suc (ul_run_depth st), ul_status := 0, ul_cancelled := False\<rparr>)" for t
    by (rule inv_replace [OF inv]) (use ok in \<open>auto simp: state_ok_counts frame_ok_def stacked_def pids_same_def\<close>)
  show ?thesis using s 1 2 by (cases c) (auto simp: uloop_step_def)
qed

lemma uloop_step_frames:
  "uloop_step ev [] st = Done"
  "uloop_step ev (F_calls [] # k) st = Next k st"
  "uloop_step ev (F_loop t # k) st =
     (if ul_cancelled st then Next k (st\<lparr>ul_run_depth := ul_run_depth st - 1\<rparr>)
      else (case uloop_gettime ev st of (tv, st1) \<Rightarrow> Next (F_timeouts tv # F_sigchld t # k) st1))"
  "uloop_step ev (F_timeouts tv # k) st = step_timeouts ev tv k st"
  "uloop_step ev (F_sigchld t # k) st =
     (if ul_do_sigchld st then Next (F_waits # F_poll t # k) (st\<lparr>ul_do_sigchld := False\<rparr>) else Next (F_poll t # k) st)"
  "uloop_step ev (F_waits # k) st = step_waits ev k st"
  "uloop_step ev (F_procs pid ret p n # k) st = step_procs ev pid ret p n k st"
  "uloop_step ev (F_next pid ret n # k) st = Next (F_procs pid ret n (list_next (ul_processes st) n) # k) st"
  "uloop_step ev (F_poll t # k) st = step_poll ev t k st"
  "uloop_step ev (F_fd a # k) st = step_fd ev a k st"
  by (simp_all add: uloop_step_def)

lemma step_plain:
  assumes "uloop_inv edge (f # k) st" "fd_frames [f] = []" "list_all (frame_ok edge st) fs" "fd_frames fs = []"
  shows "uloop_inv edge (fs @ k) st" "uloop_inv edge (fs @ k) (st\<lparr>ul_run_depth := d\<rparr>)" "uloop_inv edge (fs @ k) (st\<lparr>ul_clocks := n\<rparr>)"
    "uloop_inv edge (fs @ k) (st\<lparr>ul_do_sigchld := b\<rparr>)"
proof -
  have k: "state_ok edge st" "stacked (f # k) st" using assms(1) by (simp_all add: uloop_inv_alt)
  have s: "stacked k st" using k(2) assms(2) fd_frames_append [of "[f]" k] by (simp add: stacked_def)
  have r: "uloop_inv edge (fs @ k) st'" if "state_ok edge st'" "pids_same st st'" "ul_stack st' = ul_stack st" for st'
    by (rule inv_replace [OF assms(1) that(1,2)]) (use s assms(3,4) that(2,3) in \<open>auto simp: stacked_def fd_frames_append frame_ok_pids [OF that(2)] list_all_iff\<close>)
  show "uloop_inv edge (fs @ k) st" "uloop_inv edge (fs @ k) (st\<lparr>ul_run_depth := d\<rparr>)" "uloop_inv edge (fs @ k) (st\<lparr>ul_clocks := n\<rparr>)"
    "uloop_inv edge (fs @ k) (st\<lparr>ul_do_sigchld := b\<rparr>)"
    by (rule r; simp add: k(1) state_ok_counts pids_same_def)+
qed

lemma step_no_crash:
  "step_timeouts ev tv k st \<noteq> Crash" "step_waits ev k st \<noteq> Crash" "step_poll ev t k st \<noteq> Crash"
  "uloop_step ev (F_calls cs # k) st \<noteq> Crash"
  subgoal by (simp add: step_timeouts_def Let_def split: list.split)
  subgoal by (simp add: step_waits_def Let_def split: wait_answer.split)
  subgoal by (simp add: step_poll_def Let_def split: prod.split option.split)
  subgoal by (cases cs) (simp_all add: uloop_step_def split: uloop_call.split)
  done

lemma step_inv:
  assumes inv: "uloop_inv edge fs st" and ev: "env_ok edge ev"
  shows "uloop_step ev fs st \<noteq> Crash" "uloop_step ev fs st = Next fs' st' \<Longrightarrow> uloop_inv edge fs' st'"
proof -
  have "uloop_step ev fs st \<noteq> Crash \<and> (uloop_step ev fs st = Next fs' st' \<longrightarrow> uloop_inv edge fs' st')"
  proof (cases fs)
    case Nil
    then show ?thesis by (simp add: uloop_step_frames)
  next
    case (Cons f k)
    note inv = inv [unfolded Cons]
    show ?thesis
    proof (cases f)
      case (F_calls cs)
      note inv = inv [unfolded F_calls]
      have "uloop_inv edge ([] @ k) st" by (rule step_plain(1) [OF inv]) simp_all
      then show ?thesis unfolding Cons F_calls using calls_step [OF _ ev] inv
        by (cases cs) (fastforce simp: uloop_step_frames step_no_crash(4))+
    next
      case (F_loop t)
      note r = step_plain [OF inv, unfolded F_loop]
      have "uloop_inv edge ([] @ k) (st\<lparr>ul_run_depth := d\<rparr>)" "uloop_inv edge ([F_timeouts tv, F_sigchld t] @ k) (st\<lparr>ul_clocks := n\<rparr>)" for d tv n
        by (rule r(2); simp) (rule r(3); simp add: frame_ok_def)
      then show ?thesis unfolding Cons F_loop by (auto simp: uloop_step_frames uloop_gettime_def)
    next
      case (F_timeouts tv)
      show ?thesis unfolding Cons F_timeouts
        using timeouts_step [OF inv [unfolded F_timeouts] ev] step_no_crash(1) by (auto simp: uloop_step_frames)
    next
      case (F_sigchld t)
      note r = step_plain [OF inv, unfolded F_sigchld]
      have "uloop_inv edge ([F_waits, F_poll t] @ k) (st\<lparr>ul_do_sigchld := False\<rparr>)" "uloop_inv edge ([F_poll t] @ k) st"
        by (rule r(4); simp add: frame_ok_def) (rule r(1); simp add: frame_ok_def)
      then show ?thesis unfolding Cons F_sigchld by (auto simp: uloop_step_frames)
    next
      case F_waits
      show ?thesis unfolding Cons F_waits
        using waits_step [OF inv [unfolded F_waits]] step_no_crash(2) by (auto simp: uloop_step_frames)
    next
      case (F_procs pid ret p n)
      show ?thesis unfolding Cons F_procs
        using procs_step [OF inv [unfolded F_procs] ev] by (auto simp: uloop_step_frames)
    next
      case (F_next pid ret n)
      have ok: "state_ok edge st" "stacked k st" "frame_ok edge st (F_next pid ret n)"
        using inv by (auto simp: uloop_inv_alt F_next top_ok_def stacked_def)
      have "uloop_inv edge (F_procs pid ret n (list_next (ul_processes st) n) # [] @ k) st"
        by (rule inv_top [OF inv ok(1) _ ok(2) top_procs]) (use ok(3) in \<open>auto simp: pids_same_def frame_ok_def split: list_ptr.splits\<close>)
      then show ?thesis unfolding Cons F_next by (auto simp: uloop_step_frames)
    next
      case (F_poll t)
      show ?thesis unfolding Cons F_poll
        using poll_step [OF inv [unfolded F_poll] ev] step_no_crash(3) by (auto simp: uloop_step_frames)
    next
      case (F_fd a)
      show ?thesis unfolding Cons F_fd
        using fd_step [OF inv [unfolded F_fd] ev] by (auto simp: uloop_step_frames)
    qed
  qed
  then show "uloop_step ev fs st \<noteq> Crash" "uloop_step ev fs st = Next fs' st' \<Longrightarrow> uloop_inv edge fs' st'" by auto
qed

lemma start_inv: "blank st0 \<Longrightarrow> list_all (call_ok edge) main \<Longrightarrow> uloop_inv edge [F_calls main] st0"
  unfolding uloop_inv_alt
  by (simp add: blank_def state_ok_def fds_ok_def poll_ok_def stack_ok_def batch_ok_def batch_def regd_def live_def timers_ok_def
      procs_ok_def stacked_def top_ok_def frame_ok_def fl_on_def)

lemma run_inv:
  assumes "uloop_run ev main st0 fs st" "env_ok edge ev" "blank st0" "list_all (call_ok edge) main"
  shows "uloop_inv edge fs st"
  using assms(1)
proof (induction rule: uloop_run.induct)
  case start
  then show ?case using start_inv assms(3,4) by simp
next
  case (step fs st fs' st')
  then show ?case using step_inv(2) [OF _ assms(2)] by blast
qed


text \<open>A run of given length.\<close>

fun uloop_steps :: "uloop_env \<Rightarrow> nat \<Rightarrow> frame list \<times> uloop \<Rightarrow> frame list \<times> uloop" where
  "uloop_steps ev 0 c = c"
| "uloop_steps ev (Suc n) c = (case uloop_step ev (fst c) (snd c) of Next fs st \<Rightarrow> uloop_steps ev n (fs, st) | _ \<Rightarrow> c)"

lemma uloop_steps_run:
  "uloop_run ev main st0 (fst c) (snd c) \<Longrightarrow> uloop_run ev main st0 (fst (uloop_steps ev n c)) (snd (uloop_steps ev n c))"
proof (induction n arbitrary: c)
  case (Suc n)
  have "uloop_run ev main st0 fs st" if "uloop_step ev (fst c) (snd c) = Next fs st" for fs st
    using uloop_run.step [OF Suc.prems that] .
  then show ?case using Suc by (simp split: outcome.split)
qed simp

definition sample_start :: uloop where
  "sample_start = \<lparr>ul_fds = (\<lambda>_. \<lparr>fd_cb = True, fd_fd = 5, fd_eof = False, fd_error = False, fd_registered = False, fd_flags = 0\<rparr>),
     ul_tmrs = (\<lambda>_. \<lparr>to_pending = False, to_cb = True, to_time = \<lparr>tv_sec = 0, tv_usec = 0\<rparr>\<rparr>),
     ul_prcs = (\<lambda>a. \<lparr>pr_pending = False, pr_pid = int a\<rparr>), ul_timeouts = [], ul_processes = [], ul_poll_fd = 3,
     ul_waker_pipe = 4, ul_epoll = (\<lambda>_. None), ul_stack = [], ul_cur_fds = replicate ULOOP_MAX_EVENTS (None, 0), ul_cur_fd = 0,
     ul_cur_nfds = 0, ul_cancelled = False, ul_status = 0, ul_do_sigchld = False, ul_run_depth = 0, ul_sig = (\<lambda>_. SIG_DFL),
     ul_old = (\<lambda>_. SIG_DFL), ul_trace = [], ul_clocks = 0, ul_ctls = 0, ul_polls = 0, ul_waits = 0, ul_nonblock = (\<lambda>_. False)\<rparr>"

definition sample_env :: uloop_env where
  "sample_env = \<lparr>ue_clock = (\<lambda>n. \<lparr>tv_sec = int n, tv_usec = 0\<rparr>), ue_ctl = (\<lambda>_. True), ue_poll = (\<lambda>k. Some [(5, EPOLLIN)]),
     ue_signals = (\<lambda>_. []), ue_wait = (\<lambda>_. Wait_none), ue_fd_cb = (\<lambda>a e st. [C_fd_delete a, C_end]),
     ue_timer_cb = (\<lambda>_ _. []), ue_process_cb = (\<lambda>_ _ _. [])\<rparr>"

definition sample_main :: "uloop_call list" where
  "sample_main = [C_fd_add 0 ULOOP_READ, C_timeout_set 1 500, C_run (- 1)]"

definition sample_end :: "frame list \<times> uloop" where
  "sample_end = uloop_steps sample_env 14 ([F_calls sample_main], sample_start)"

lemma sample_runs:
  "fst sample_end = [F_calls []]"
  "ul_trace (snd sample_end) = [Ev_delete 0, Ev_fd 0 1, Ev_fetch (- 1) \<lparr>tv_sec = 2, tv_usec = 0\<rparr>,
     Ev_timer 1 \<lparr>tv_sec = 1, tv_usec = 0\<rparr>, Ev_set 1, Ev_add 0]"
  by code_simp+

lemma sample_ok:
  "env_ok (\<lambda>_. False) sample_env" "blank sample_start" "list_all (call_ok (\<lambda>_. False)) sample_main"
  "uloop_run sample_env sample_main sample_start (fst sample_end) (snd sample_end)"
proof -
  show "env_ok (\<lambda>_. False) sample_env" by (simp add: env_ok_def sample_env_def call_ok_def)
  show "blank sample_start" by (simp add: blank_def sample_start_def inj_def)
  show "list_all (call_ok (\<lambda>_. False)) sample_main" by (simp add: sample_main_def call_ok_def uloop_flags)
  show "uloop_run sample_env sample_main sample_start (fst sample_end) (snd sample_end)"
    unfolding sample_end_def by (rule uloop_steps_run) (simp add: uloop_run.start)
qed


end
