(* ===== verification/Uloop_Timers.thy ===== *)
theory Uloop_Timers
  imports Uloop_Safe
begin

text \<open>
  The order of the timers of the event loop.  \<^verbatim>\<open>tv_diff\<close> rounds seconds and microseconds apart, so that it is no order; the list
  stays sorted by it all the same, and its head stands for all timers up to a millisecond.
\<close>

text \<open>A span of time in which differences in milliseconds fit into an \<^verbatim>\<open>int\<close>.\<close>

definition in_span :: "int \<Rightarrow> timeval \<Rightarrow> bool" where
  "in_span b tv \<longleftrightarrow> b \<le> tv_sec tv \<and> tv_sec tv \<le> b + 2000000 \<and> 0 \<le> tv_usec tv \<and> tv_usec tv \<le> 1000000"

lemma c_div_bounds: "c_div a 1000 * 1000 - 999 \<le> a" "a \<le> c_div a 1000 * 1000 + 999" "0 \<le> a \<Longrightarrow> c_div a 1000 * 1000 \<le> a" "a \<le> 0 \<Longrightarrow> a \<le> c_div a 1000 * 1000"
proof -
  have *: "1000 * (a div 1000) + a mod 1000 = a" "0 \<le> a mod 1000" "a mod 1000 < 1000"
    "1000 * ((- a) div 1000) + (- a) mod 1000 = - a" "0 \<le> (- a) mod 1000" "(- a) mod 1000 < 1000" by simp_all
  have c: "c_div a 1000 = a div 1000 \<and> 0 \<le> a \<or> c_div a 1000 = - ((- a) div 1000) \<and> a < 0" by (auto simp: c_div_def)
  show "c_div a 1000 * 1000 - 999 \<le> a" "a \<le> c_div a 1000 * 1000 + 999" "0 \<le> a \<Longrightarrow> c_div a 1000 * 1000 \<le> a"
    using * c by linarith+
  show "a \<le> c_div a 1000 * 1000" if "a \<le> 0" by (cases "a = 0") (simp add: c_div_def, use * c that in linarith)
qed

lemma c_div_near: "c_div p 1000 \<le> c_div q 1000 + 1" if "p \<le> q + 999"
proof -
  consider "0 \<le> p" | "q \<le> 0" | "p \<le> 0" "0 \<le> q" by linarith
  then have "c_div p 1000 * 1000 < c_div q 1000 * 1000 + 2000"
    using that c_div_bounds [of p] c_div_bounds [of q] by cases linarith+
  then show ?thesis by linarith
qed

lemma c_div_shift: "c_div p 1000 \<le> c_div q 1000 + k + 1" if "p \<le> q + 1000 * k"
proof -
  have "c_div p 1000 * 1000 < c_div q 1000 * 1000 + k * 1000 + 2000" using that c_div_bounds(1) [of p] c_div_bounds(2) [of q] by (simp add: algebra_simps)
  then show ?thesis by linarith
qed

lemma tv_diff_span:
  assumes "in_span b x" "in_span b y"
  shows "tv_diff x y = (tv_sec x - tv_sec y) * 1000 + c_div (tv_usec x - tv_usec y) 1000"
proof -
  let ?d = "(tv_sec x - tv_sec y) * 1000 + c_div (tv_usec x - tv_usec y) 1000"
  have "- 1000 \<le> c_div (tv_usec x - tv_usec y) 1000" "c_div (tv_usec x - tv_usec y) 1000 \<le> 1000"
    using assms c_div_bounds [of "tv_usec x - tv_usec y"] by (auto simp: in_span_def)
  then have "- (2 ^ 31) \<le> ?d" "?d < 2 ^ 31" using assms by (auto simp: in_span_def)
  then show ?thesis unfolding tv_diff_def to_int32_def by simp
qed

text \<open>A time is not more than a rounding error after another.\<close>

lemma tv_diff_le0:
  assumes "in_span b x" "in_span b y"
  shows "tv_diff x y \<le> 0 \<longleftrightarrow> tv_sec x < tv_sec y \<or> tv_sec x = tv_sec y \<and> tv_usec x < tv_usec y + 1000 \<or>
     tv_sec x = tv_sec y + 1 \<and> tv_usec x = 0 \<and> tv_usec y = 1000000"
proof -
  note q = c_div_bounds [of "tv_usec x - tv_usec y"]
  have s: "0 \<le> tv_usec x" "tv_usec x \<le> 1000000" "0 \<le> tv_usec y" "tv_usec y \<le> 1000000" using assms by (auto simp: in_span_def)
  consider "tv_sec x < tv_sec y" | "tv_sec x = tv_sec y" | "tv_sec x = tv_sec y + 1" | "tv_sec x > tv_sec y + 1" by linarith
  then show ?thesis
  proof cases
    case 1
    then have "(tv_sec x - tv_sec y) * 1000 \<le> - 1000" by simp
    moreover have "c_div (tv_usec x - tv_usec y) 1000 \<le> 1000" using q s by auto
    ultimately show ?thesis using 1 unfolding tv_diff_span [OF assms] by simp
  next
    case 2
    then show ?thesis unfolding tv_diff_span [OF assms] using q by (cases "tv_usec x < tv_usec y + 1000"; cases "tv_usec y \<le> tv_usec x") auto
  next
    case 3
    then show ?thesis unfolding tv_diff_span [OF assms] using q s by auto
  next
    case 4
    then have "2000 \<le> (tv_sec x - tv_sec y) * 1000" by simp
    moreover have "- 1000 \<le> c_div (tv_usec x - tv_usec y) 1000" using q s by auto
    ultimately show ?thesis using 4 unfolding tv_diff_span [OF assms] by simp
  qed
qed

lemma tv_diff_self: "tv_diff x x = 0"
  by (simp add: tv_diff_def c_div_def to_int32_def)

lemma tv_diff_trans:
  assumes "in_span b x" "in_span b y" "in_span b z" "tv_diff x z > 0" "tv_diff x y \<le> 0"
  shows "tv_diff z y \<le> 0"
proof -
  note d = tv_diff_le0 [OF assms(1,3)] tv_diff_le0 [OF assms(1,2)] tv_diff_le0 [OF assms(3,2)]
  have s: "0 \<le> tv_usec w" "tv_usec w \<le> 1000000" if "w \<in> {x, y, z}" for w using assms(1-3) that by (auto simp: in_span_def)
  consider "tv_sec x = tv_sec z" "tv_usec z + 1000 \<le> tv_usec x" | "tv_sec x > tv_sec z"
    using assms(4) d(1) by linarith
  then show ?thesis
  proof cases
    case 1
    then show ?thesis using assms(5) s [of y] s [of x] s [of z] unfolding d(2,3) by auto
  next
    case 2
    moreover have "tv_sec x \<le> tv_sec y + 1" using assms(5) unfolding d(2) by auto
    ultimately show ?thesis using assms(4,5) s [of y] s [of x] s [of z] unfolding d(2,3) by auto
  qed
qed

lemma insert_sorted:
  assumes "sorted_wrt (\<lambda>x y. tv_diff (T x) (T y) \<le> 0) xs" "\<forall>x\<in>insert a (set xs). in_span b (T x)"
  shows "sorted_wrt (\<lambda>x y. tv_diff (T x) (T y) \<le> 0) (insert_before (\<lambda>x. tv_diff (T x) (T a) > 0) a xs)"
  using assms
proof (induction xs)
  case (Cons x xs)
  show ?case
  proof (cases "tv_diff (T x) (T a) > 0")
    case True
    have "tv_diff (T a) (T y) \<le> 0" if "y \<in> set (x # xs)" for y
    proof -
      have s: "in_span b (T y)" "in_span b (T x)" "in_span b (T a)" using Cons.prems(2) that by auto
      have "tv_diff (T x) (T y) \<le> 0 \<or> y = x" using Cons.prems(1) that by auto
      then show ?thesis using tv_diff_trans [OF s(2,1,3) True] tv_diff_trans [OF s(2,2,3) True] tv_diff_self [of "T x"] by auto
    qed
    then show ?thesis using True Cons.prems(1) by simp
  next
    case False
    then show ?thesis using Cons by (auto simp: set_insert_before)
  qed
qed simp

text \<open>The distances of two times from a third.\<close>

lemma tv_diff_shift:
  assumes "in_span b x" "in_span b y" "in_span b z" "tv_diff x y \<le> 0"
  shows "tv_diff x z \<le> tv_diff y z + 1"
proof -
  have a: "tv_sec x < tv_sec y \<or> tv_sec x = tv_sec y \<and> tv_usec x < tv_usec y + 1000 \<or>
     tv_sec x = tv_sec y + 1 \<and> tv_usec x = 0 \<and> tv_usec y = 1000000"
    using tv_diff_le0 [OF assms(1,2)] assms(4) by simp
  have u: "tv_usec x \<le> tv_usec y + 1000000" using assms(1,2) by (simp add: in_span_def)
  show ?thesis unfolding tv_diff_span [OF assms(1,3)] tv_diff_span [OF assms(2,3)]
    using a c_div_near [of "tv_usec x - tv_usec z" "tv_usec y - tv_usec z"] c_div_shift [of "tv_usec x - tv_usec z" "tv_usec y - tv_usec z" 1000]
      c_div_shift [of "tv_usec x - tv_usec z" "tv_usec y - tv_usec z" "- 1000"] u by auto
qed

text \<open>What is relied on: the clock stays in a span of time and timers are set to a time in it.\<close>

definition now_ok :: "int \<Rightarrow> timeval \<Rightarrow> bool" where
  "now_ok b tv \<longleftrightarrow> b \<le> tv_sec tv \<and> tv_sec tv \<le> b + 1000000 \<and> 0 \<le> tv_usec tv \<and> tv_usec tv < 1000000"

definition timed_call :: "uloop_call \<Rightarrow> bool" where
  "timed_call c = (case c of C_timeout_set a msecs \<Rightarrow> 0 \<le> msecs \<and> msecs < 999999000 | _ \<Rightarrow> True)"

definition env_timed :: "int \<Rightarrow> uloop_env \<Rightarrow> bool" where
  "env_timed b ev \<longleftrightarrow> (\<forall>k. now_ok b (ue_clock ev k)) \<and> (\<forall>a e st. list_all timed_call (ue_fd_cb ev a e st)) \<and>
     (\<forall>a st. list_all timed_call (ue_timer_cb ev a st)) \<and> (\<forall>a r st. list_all timed_call (ue_process_cb ev a r st))"

definition due :: "uloop \<Rightarrow> nat \<Rightarrow> timeval" where
  "due st a = to_time (ul_tmrs st a)"

definition times_ok :: "int \<Rightarrow> uloop \<Rightarrow> bool" where
  "times_ok b st \<longleftrightarrow> (\<forall>a\<in>set (ul_timeouts st). in_span b (due st a)) \<and> sorted_wrt (\<lambda>x y. tv_diff (due st x) (due st y) \<le> 0) (ul_timeouts st)"

definition timed_frame :: "frame \<Rightarrow> bool" where
  "timed_frame f = (case f of F_calls cs \<Rightarrow> list_all timed_call cs | _ \<Rightarrow> True)"

lemma now_span: "now_ok b tv \<Longrightarrow> in_span b tv"
  by (simp add: now_ok_def in_span_def)

lemma set_time_span:
  assumes "now_ok b now" "0 \<le> msecs" "msecs < 999999000"
  shows "in_span b (set_time now msecs)"
proof -
  have "msecs div 1000 * 1000 \<le> msecs" by simp
  then have "msecs div 1000 < 999999" "0 \<le> msecs div 1000" using assms by auto
  moreover have "c_mod msecs 1000 = msecs mod 1000" "0 \<le> msecs mod 1000" "msecs mod 1000 \<le> 999"
    using assms(2) by (simp_all add: c_mod_def c_div_def minus_div_mult_eq_mod [symmetric])
  ultimately show ?thesis using assms by (simp add: in_span_def now_ok_def set_time_def Let_def c_div_def)
qed

lemma sorted_wrt_remove1: "sorted_wrt P xs \<Longrightarrow> sorted_wrt P (remove1 a xs)"
  by (induction xs) (auto dest: notin_set_remove1 [rotated] in_set_remove1 [THEN iffD1, rotated] set_remove1_subset [THEN subsetD])

lemma times_same: "times_ok b st \<Longrightarrow> ul_timeouts st' = ul_timeouts st \<Longrightarrow> ul_tmrs st' = ul_tmrs st \<Longrightarrow> times_ok b st'"
  by (simp add: times_ok_def due_def)

lemma times_cancel: "times_ok b st \<Longrightarrow> times_ok b (snd (uloop_timeout_cancel a st))"
proof -
  have d: "due (snd (uloop_timeout_cancel a st)) = due st" by (rule ext) (simp add: due_def uloop_timeout_cancel_def upd_tmr_def)
  have "ul_timeouts (snd (uloop_timeout_cancel a st)) \<in> {ul_timeouts st, remove1 a (ul_timeouts st)}"
    by (simp add: uloop_timeout_cancel_def upd_tmr_def)
  then show "times_ok b st \<Longrightarrow> times_ok b (snd (uloop_timeout_cancel a st))"
    using set_remove1_subset [of a "ul_timeouts st"] unfolding times_ok_def d by (auto intro: sorted_wrt_remove1)
qed

lemma set_effect:
  fixes a ms ev
  assumes "timers_ok st"
  defines "T \<equiv> (due st)(a := set_time (ue_clock ev (ul_clocks st)) ms)"
  shows "ul_timeouts (snd (uloop_timeout_set ev a ms st)) = insert_before (\<lambda>x. tv_diff (T x) (T a) > 0) a (remove1 a (ul_timeouts st))"
    "due (snd (uloop_timeout_set ev a ms st)) = T"
proof -
  have r: "a \<notin> set (ul_timeouts st) \<Longrightarrow> remove1 a (ul_timeouts st) = ul_timeouts st" by (rule remove1_idem)
  have p: "to_pending (ul_tmrs st a) \<longleftrightarrow> a \<in> set (ul_timeouts st)" using assms(1) by (simp add: timers_ok_def)
  show "ul_timeouts (snd (uloop_timeout_set ev a ms st)) = insert_before (\<lambda>x. tv_diff (T x) (T a) > 0) a (remove1 a (ul_timeouts st))"
    unfolding T_def due_def using r p
    by (auto simp: uloop_timeout_set_def uloop_timeout_cancel_def uloop_timeout_add_def uloop_gettime_def upd_tmr_def Let_def
        intro!: arg_cong3 [of _ _ _ _ _ _ insert_before] ext)
  show "due (snd (uloop_timeout_set ev a ms st)) = T"
    unfolding T_def due_def
    by (rule ext) (auto simp: uloop_timeout_set_def uloop_timeout_cancel_def uloop_timeout_add_def uloop_gettime_def upd_tmr_def Let_def)
qed

lemma times_set:
  assumes "times_ok b st" "timers_ok st" "now_ok b (ue_clock ev (ul_clocks st))" "0 \<le> ms" "ms < 999999000"
  shows "times_ok b (snd (uloop_timeout_set ev a ms st))"
proof -
  let ?T = "(due st)(a := set_time (ue_clock ev (ul_clocks st)) ms)"
  let ?L = "remove1 a (ul_timeouts st)"
  have n: "a \<notin> set ?L" "set ?L \<subseteq> set (ul_timeouts st)" using assms(2) by (auto simp: timers_ok_def)
  have s: "\<forall>x\<in>insert a (set ?L). in_span b (?T x)" using assms(1) set_time_span [OF assms(3-5)] n by (auto simp: times_ok_def)
  have "sorted_wrt (\<lambda>x y. tv_diff (due st x) (due st y) \<le> 0) ?L" using assms(1) by (simp add: times_ok_def sorted_wrt_remove1)
  then have "sorted_wrt (\<lambda>x y. tv_diff (?T x) (?T y) \<le> 0) ?L"
    by (rule sorted_wrt_mono_rel [rotated]) (use n(1) in auto)
  from insert_sorted [OF this s] show ?thesis unfolding times_ok_def set_effect [OF assms(2)] using s by simp
qed

lemma times_api:
  assumes "times_ok b st" "timers_ok st" "env_timed b ev" "timed_call c"
  shows "times_ok b (uloop_api ev c st)"
proof -
  have fd: "times_ok b (log_event e (snd (uloop_fd_add ev a fl st)))" "times_ok b (log_event e (snd (uloop_fd_delete ev a st)))" for a e fl
    using assms(1) delete_rest [of st ev a]
    by (auto elim!: times_same simp: log_event_def rest_same_def uloop_fd_add_def register_poll_def upd_fd_def Let_def split: prod.split)
  have n: "now_ok b (ue_clock ev (ul_clocks st))" using assms(3) by (simp add: env_timed_def)
  have l: "times_ok b (log_event e st') = times_ok b st'" for e st' by (simp add: times_ok_def due_def log_event_def)
  have p: "times_ok b (snd (uloop_process_add a st))" "times_ok b (snd (uloop_process_delete a st))" for a
    using assms(1) by (auto elim!: times_same simp: process_fields)
  have "times_ok b (st\<lparr>ul_cancelled := True\<rparr>)" using assms(1) by (simp add: times_ok_def due_def [abs_def])
  then show ?thesis
    using assms(1,4) fd p times_set [OF assms(1,2) n] times_cancel [OF assms(1)]
    by (cases c) (auto simp: uloop_api_def timed_call_def l)
qed

lemma poll_timers:
  assumes "fds_ok edge st" "env_ok edge ev" "step_poll ev t k st = Next fs' st'"
  shows "ul_timeouts st' = ul_timeouts st \<and> ul_tmrs st' = ul_tmrs st"
proof (cases "ul_cancelled st")
  case False
  define st1 where "st1 = st\<lparr>ul_clocks := Suc (ul_clocks st)\<rparr>"
  have f: "fds_ok edge st1" using assms(1) by (simp add: st1_def fds_ok_def poll_ok_def batch_ok_def regd_def [abs_def] batch_def)
  have "ul_timeouts st2 = ul_timeouts st \<and> ul_tmrs st2 = ul_tmrs st" if "next_event (fetch_if_empty ev tt tv st1) = (r, st2)" for tt tv r st2
    using fetch_if_empty_ok [OF f assms(2), of tt tv] next_event_ok [OF _ that] by (auto simp: rest_same_def logged_def log_event_def st1_def split: if_splits)
  then show ?thesis using assms(3) False
    by (auto simp: step_poll_def uloop_gettime_def Let_def log_event_def st1_def split: prod.splits option.splits)
qed (use assms(3) in \<open>auto simp: step_poll_def\<close>)

lemma procs_timers:
  assumes "step_procs ev pid ret p n k st = Next fs' st'"
  shows "ul_timeouts st' = ul_timeouts st \<and> ul_tmrs st' = ul_tmrs st"
  using assms by (auto simp: step_procs_def Let_def log_event_def process_fields split: list_ptr.splits if_splits)

lemma timed_step:
  assumes inv: "uloop_inv edge fs st" and ev: "env_ok edge ev" "env_timed b ev" and t: "times_ok b st" and f: "list_all timed_frame fs"
    and s: "uloop_step ev fs st = Next fs' st'"
  shows "times_ok b st' \<and> list_all timed_frame fs'"
proof -
  have ok: "fds_ok edge st" "timers_ok st" using inv by (simp_all add: uloop_inv_alt state_ok_def)
  have cb: "\<And>a e st. list_all timed_call (ue_fd_cb ev a e st)" "\<And>a st. list_all timed_call (ue_timer_cb ev a st)"
    "\<And>a r st. list_all timed_call (ue_process_cb ev a r st)" using ev(2) by (simp_all add: env_timed_def)
  note same = times_same [OF t]
  obtain g k where k: "fs = g # k" using s by (cases fs) (auto simp: uloop_step_frames)
  have fk: "list_all timed_frame k" "timed_frame g" using f by (simp_all add: k)
  show ?thesis
  proof (cases g)
    case (F_calls cs)
    show ?thesis
    proof (cases cs)
      case Nil
      then show ?thesis using s t fk by (auto simp: k F_calls uloop_step_frames)
    next
      case (Cons c ds)
      have c: "timed_call c" "list_all timed_call ds" using fk by (simp_all add: F_calls Cons timed_frame_def)
      show ?thesis
        using s times_api [OF t ok(2) ev(2) c(1)] c(2) fk same
        by (cases c) (auto simp: k F_calls Cons uloop_step_def timed_frame_def)
    qed
  next
    case (F_timeouts tv)
    have l: "times_ok b (log_event e st1) = times_ok b st1" for e st1 by (simp add: times_ok_def due_def [abs_def] log_event_def)
    show ?thesis using s t fk times_cancel [OF t] cb
      by (auto simp: k F_timeouts uloop_step_frames step_timeouts_def Let_def l timed_frame_def split: list.splits if_splits)
  next
    case (F_procs pid ret p n)
    then have e: "step_procs ev pid ret p n k st = Next fs' st'" using s by (simp add: k uloop_step_frames)
    have "list_all timed_frame fs'" using e fk(1) cb(3)
      by (cases p) (auto simp: step_procs_def Let_def timed_frame_def split: if_splits)
    then show ?thesis using same procs_timers [OF e] by simp
  next
    case (F_poll tt)
    then have e: "step_poll ev tt k st = Next fs' st'" using s by (simp add: k uloop_step_frames)
    have "list_all timed_frame fs'" using e fk(1) cb(1)
      by (auto simp: step_poll_def Let_def timed_frame_def split: if_splits prod.splits option.splits)
    then show ?thesis using same poll_timers [OF ok(1) ev(1) e] by simp
  next
    case (F_fd a)
    then show ?thesis using s fk cb same
      by (auto simp: k uloop_step_frames step_fd_def Let_def timed_frame_def log_event_def split: if_splits list.splits prod.splits)
  next
    case F_waits
    then show ?thesis using s fk same
      by (auto simp: k uloop_step_frames step_waits_def Let_def timed_frame_def split: wait_answer.splits if_splits)
  qed (use s fk same in \<open>auto simp: k uloop_step_frames uloop_gettime_def timed_frame_def split: if_splits\<close>)
qed

lemma run_timed:
  assumes "uloop_run ev main st0 fs st" "env_ok edge ev" "env_timed b ev" "blank st0" "list_all (call_ok edge) main" "list_all timed_call main"
  shows "times_ok b st \<and> list_all timed_frame fs"
  using assms(1)
proof (induction rule: uloop_run.induct)
  case start
  then show ?case using assms(4,6) by (simp add: blank_def times_ok_def timed_frame_def)
next
  case (step fs st fs' st')
  then show ?case using timed_step [OF run_inv [OF step.hyps(1) assms(2,4,5)] assms(2,3)] by blast
qed

text \<open>
  C12: No timer is overslept.  In every state of a run within a span of time in which differences fit into an \<^verbatim>\<open>int\<close>, the time the
  loop is ready to wait is not negative and exceeds what is left of any pending timer by at most a millisecond, and when
  \<^verbatim>\<open>uloop_process_timeouts\<close> ends, no pending timer is overdue.
\<close>
theorem uloop_timers_in_time:
  assumes "env_ok edge ev" "env_timed b ev" "blank st0" "list_all (call_ok edge) main" "list_all timed_call main"
    "uloop_run ev main st0 fs st" "now_ok b tv" "to_pending (ul_tmrs st a)"
  shows "0 \<le> uloop_get_next_timeout tv st \<and>
    uloop_get_next_timeout tv st \<le> max 0 (tv_diff (to_time (ul_tmrs st a)) tv) + 1 \<and>
    (step_timeouts ev tv k st = Next k st \<longrightarrow> 0 \<le> tv_diff (to_time (ul_tmrs st a)) tv)"
proof -
  have t: "times_ok b st" using run_timed [OF assms(6,1,2,3,4,5)] by simp
  have "timers_ok st" using run_inv [OF assms(6,1,3,4)] by (simp add: uloop_inv_alt state_ok_def)
  then have a: "a \<in> set (ul_timeouts st)" using assms(8) by (simp add: timers_ok_def)
  then obtain h hs where l: "ul_timeouts st = h # hs" by (cases "ul_timeouts st") auto
  have "tv_diff (due st h) tv \<le> tv_diff (due st a) tv + 1"
  proof (cases "a = h")
    case False
    then have "in_span b (due st h)" "in_span b (due st a)" "tv_diff (due st h) (due st a) \<le> 0"
      using t a by (auto simp: times_ok_def l)
    then show ?thesis using tv_diff_shift now_span [OF assms(7)] by blast
  qed simp
  then show ?thesis by (auto simp: uloop_get_next_timeout_def step_timeouts_def l due_def Let_def split: if_splits)
qed

definition timed_env :: uloop_env where
  "timed_env = sample_env\<lparr>ue_clock := (\<lambda>_. \<lparr>tv_sec = 7, tv_usec = 600000\<rparr>)\<rparr>"

definition timed_main :: "uloop_call list" where
  "timed_main = [C_timeout_set 1 500, C_timeout_set 2 300, C_run (- 1)]"

definition timed_end :: "frame list \<times> uloop" where
  "timed_end = uloop_steps timed_env 4 ([F_calls timed_main], sample_start)"

lemma timed_ok:
  "env_ok (\<lambda>_. False) timed_env" "env_timed 7 timed_env" "list_all (call_ok (\<lambda>_. False)) timed_main" "list_all timed_call timed_main"
  "uloop_run timed_env timed_main sample_start (fst timed_end) (snd timed_end)"
proof -
  show "env_ok (\<lambda>_. False) timed_env" by (simp add: env_ok_def timed_env_def sample_env_def call_ok_def)
  show "env_timed 7 timed_env" by (simp add: env_timed_def timed_env_def sample_env_def now_ok_def timed_call_def)
  show "list_all (call_ok (\<lambda>_. False)) timed_main" "list_all timed_call timed_main" by (simp_all add: timed_main_def call_ok_def timed_call_def)
  show "uloop_run timed_env timed_main sample_start (fst timed_end) (snd timed_end)"
    unfolding timed_end_def by (rule uloop_steps_run) (simp add: uloop_run.start)
qed

lemma timed_values:
  "to_pending (ul_tmrs (snd timed_end) 1)" "tv_diff (to_time (ul_tmrs (snd timed_end) 1)) \<lparr>tv_sec = 7, tv_usec = 850000\<rparr> = 250"
  "uloop_get_next_timeout \<lparr>tv_sec = 7, tv_usec = 850000\<rparr> (snd timed_end) = 50"
  by code_simp+

theorem uloop_timers_in_time_witness:
  "uloop_get_next_timeout \<lparr>tv_sec = 7, tv_usec = 850000\<rparr> (snd timed_end) = 50 \<and>
   uloop_get_next_timeout \<lparr>tv_sec = 7, tv_usec = 850000\<rparr> (snd timed_end) \<le> max 0 250 + 1"
  using uloop_timers_in_time [OF timed_ok(1,2) sample_ok(2) timed_ok(3,4,5) _ timed_values(1), of "\<lparr>tv_sec = 7, tv_usec = 850000\<rparr>" "[]"]
    timed_values(2,3) by (simp add: now_ok_def)

end
