(* ===== verification/Op_Rpc.thy ===== *)
theory Op_Rpc
  imports Op_Hash C_Text
begin

text \<open>
  Remote calls, \<^verbatim>\<open>src/base/oprpc.c\<close>: the header and its byte order, the server's reading of requests from a stream, the client's call, the
  table of connections in a hash table, and calls inside a process.  A callback is code of the caller: from the request
  buffer, its length, the response buffer and its size to the result and the buffers as it leaves them.  The answers of
  sockets, of \<^verbatim>\<open>libevent\<close> and of the allocator are arguments.  An access outside of a buffer is \<open>None\<close>.
\<close>

section \<open>Words in memory\<close>

text \<open>The bytes of an \<^verbatim>\<open>unsigned int\<close> on a machine with the low byte first, and \<^verbatim>\<open>htonl\<close>, \<^verbatim>\<open>ntohl\<close> on it.\<close>

definition mem_u32 :: "u32 \<Rightarrow> u8 list" where
  "mem_u32 w = [ucast w, ucast (drop_bit 8 w), ucast (drop_bit 16 w), ucast (drop_bit 24 w)]"

definition u32_mem :: "u8 list \<Rightarrow> u32" where
  "u32_mem bs = ucast (bs ! 0) OR push_bit 8 (ucast (bs ! 1)) OR push_bit 16 (ucast (bs ! 2)) OR push_bit 24 (ucast (bs ! 3))"

definition htonl :: "u32 \<Rightarrow> u32" where
  "htonl w = u32_mem (rev (mem_u32 w))"

definition ntohl :: "u32 \<Rightarrow> u32" where
  "ntohl w = u32_mem (rev (mem_u32 w))"

section \<open>Data\<close>

definition TIPC_HEAD_PREFIX_VALUE :: u32 where "TIPC_HEAD_PREFIX_VALUE = 0xeefe3451"
definition RPC_MAX_ELEMENT :: u32 where "RPC_MAX_ELEMENT = 1024"
definition RPC_REQ_SIZE :: u32 where "RPC_REQ_SIZE = 4096"
definition RPC_RESPONSE_SIZE :: nat where "RPC_RESPONSE_SIZE = 8192"
definition TIPC_EVENT_RECV_HEAD :: u32 where "TIPC_EVENT_RECV_HEAD = 1"
definition TIPC_EVENT_RECV_CONTENT :: u32 where "TIPC_EVENT_RECV_CONTENT = 2"

record tipc_header =
  th_prefix :: u32
  th_module :: u32
  th_type :: u32
  th_data_size :: u32

definition TIPC_HEADER_SIZE :: nat where "TIPC_HEADER_SIZE = 16"

definition head_mem :: "tipc_header \<Rightarrow> u8 list" where
  "head_mem h = mem_u32 (th_prefix h) @ mem_u32 (th_module h) @ mem_u32 (th_type h) @ mem_u32 (th_data_size h)"

definition mem_head :: "u8 list \<Rightarrow> tipc_header" where
  "mem_head bs = \<lparr>th_prefix = u32_mem (take 4 bs), th_module = u32_mem (take 4 (drop 4 bs)),
     th_type = u32_mem (take 4 (drop 8 bs)), th_data_size = u32_mem (take 4 (drop 12 bs))\<rparr>"

type_synonym rpc_cb = "u8 list \<Rightarrow> int \<Rightarrow> u8 list \<Rightarrow> int \<Rightarrow> int \<times> u8 list \<times> u8 list"

record tipc_client =
  cl_fd :: int
  cl_buffer :: bool
  cl_head :: tipc_header
  cl_req_content :: "u8 list"
  cl_response_content :: "u8 list"
  cl_water_level :: u32
  cl_event_type :: u32

definition tipc_header_hton :: "tipc_header \<Rightarrow> tipc_header" where
  "tipc_header_hton h = \<lparr>th_prefix = htonl (th_prefix h), th_module = htonl (th_module h), th_type = htonl (th_type h),
     th_data_size = htonl (th_data_size h)\<rparr>"

definition tipc_header_ntoh :: "tipc_header \<Rightarrow> tipc_header" where
  "tipc_header_ntoh h = \<lparr>th_prefix = ntohl (th_prefix h), th_module = ntohl (th_module h), th_type = ntohl (th_type h),
     th_data_size = ntohl (th_data_size h)\<rparr>"

section \<open>The server's side of a connection\<close>

text \<open>\<open>evb\<close> is the input buffer of the connection.\<close>

function tipc_buffer_flush :: "u8 list \<Rightarrow> u8 list" where
  "tipc_buffer_flush evb = (if length evb > 0 then tipc_buffer_flush (drop 1024 evb) else evb)"
  by pat_completeness auto
termination
  by (relation "measure length") auto

declare tipc_buffer_flush.simps [simp del]

text \<open>\<^verbatim>\<open>bufferevent_read\<close> into a buffer: at most \<open>n\<close> bytes, which replace the first ones of the buffer.\<close>

definition overlay :: "u8 list \<Rightarrow> u8 list \<Rightarrow> u8 list" where
  "overlay bs buf = bs @ drop (length bs) buf"

text \<open>What a read event comes to: the bytes handed to \<^verbatim>\<open>write\<close>, call by call, the input left and the client.\<close>

type_synonym read_result = "(u8 list list \<times> u8 list \<times> tipc_client) option"

definition tipc_out :: "u8 list list \<Rightarrow> u8 list \<Rightarrow> tipc_client \<Rightarrow> read_result" where
  "tipc_out ws evb c =
     Some (ws, tipc_buffer_flush evb, c\<lparr>cl_event_type := TIPC_EVENT_RECV_HEAD, cl_water_level := of_nat TIPC_HEADER_SIZE\<rparr>)"

definition tipc_dispatch :: "(nat \<Rightarrow> rpc_cb option) \<Rightarrow> u32 \<Rightarrow> u8 list \<Rightarrow> tipc_client \<Rightarrow> read_result" where
  "tipc_dispatch cb module evb c =
     (if th_module (cl_head c) \<noteq> module then tipc_out [] evb c
      else if th_type (cl_head c) \<ge> RPC_MAX_ELEMENT then tipc_out [] evb c
      else (case cb (unat (th_type (cl_head c))) of
              None \<Rightarrow> tipc_out [] evb c
            | Some f \<Rightarrow>
                (case f (cl_req_content c) (to_int32 (uint (cl_water_level c))) (cl_response_content c) (int RPC_RESPONSE_SIZE) of
                   (r, req, resp) \<Rightarrow>
                     (let ret = (if r < 0 then 0 else r);
                          c1 = c\<lparr>cl_req_content := req, cl_response_content := resp\<rparr>
                      in if ret > int RPC_RESPONSE_SIZE then tipc_out [] evb c1
                         else
                           (let c2 = c1\<lparr>cl_head := tipc_header_hton ((cl_head c1)\<lparr>th_data_size := word_of_int ret\<rparr>)\<rparr>
                            in tipc_out (head_mem (cl_head c2) # (if ret \<noteq> 0 then [take (nat ret) resp] else [])) evb c2)))))"

definition tipc_recv_content :: "(nat \<Rightarrow> rpc_cb option) \<Rightarrow> u32 \<Rightarrow> u8 list \<Rightarrow> tipc_client \<Rightarrow> read_result" where
  "tipc_recv_content cb module evb c =
     (let n = unat (cl_water_level c) in
      if n = 0 then tipc_dispatch cb module evb c
      else
        (let bs = take n evb; evb1 = drop n evb in
         if length bs > length (cl_req_content c) then None
         else
           (let c1 = c\<lparr>cl_req_content := overlay bs (cl_req_content c)\<rparr>
            in if length bs \<noteq> n then tipc_out [] evb1 c1 else tipc_dispatch cb module evb1 c1)))"

definition tipc_read :: "(nat \<Rightarrow> rpc_cb option) \<Rightarrow> u32 \<Rightarrow> u8 list \<Rightarrow> tipc_client \<Rightarrow> read_result" where
  "tipc_read cb module evb c =
     (if cl_event_type c = TIPC_EVENT_RECV_HEAD then
        (let n = unat (cl_water_level c); bs = take n evb; evb1 = drop n evb in
         if length bs > TIPC_HEADER_SIZE then None
         else
           (let c1 = c\<lparr>cl_head := mem_head (overlay bs (head_mem (cl_head c)))\<rparr> in
            if length bs \<noteq> n then tipc_out [] evb1 c1
            else
              (let h = tipc_header_ntoh (cl_head c1); c2 = c1\<lparr>cl_head := h\<rparr> in
               if th_prefix h \<noteq> TIPC_HEAD_PREFIX_VALUE then tipc_out [] evb1 c2
               else if th_data_size h > RPC_REQ_SIZE then tipc_out [] evb1 c2
               else
                 (let c3 = c2\<lparr>cl_event_type := TIPC_EVENT_RECV_CONTENT, cl_water_level := th_data_size h\<rparr>
                  in if length evb - length bs \<ge> unat (th_data_size h) then tipc_recv_content cb module evb1 c3
                     else Some ([], evb1, c3)))))
      else if cl_event_type c = TIPC_EVENT_RECV_CONTENT then tipc_recv_content cb module evb c
      else tipc_out [] evb c)"

section \<open>The client's call\<close>

record send_env =
  se_socket :: int
  se_connect :: int
  se_poll :: int
  se_read :: "nat \<Rightarrow> nat \<Rightarrow> u8 list option"
  se_calloc :: bool

definition usock_wait_ready :: "int \<Rightarrow> int" where
  "usock_wait_ready res = (if res \<le> 0 then 0 else 1)"

text \<open>The header of a request in network order, and the bytes handed to \<^verbatim>\<open>write\<close>.\<close>

definition request_head :: "u32 \<Rightarrow> u32 \<Rightarrow> u8 list option \<Rightarrow> u32 \<Rightarrow> tipc_header" where
  "request_head module type req sz =
     tipc_header_hton \<lparr>th_prefix = TIPC_HEAD_PREFIX_VALUE, th_module = module, th_type = type,
       th_data_size = (if req = None \<or> sz = 0 then 0 else sz)\<rparr>"

definition tipc_request :: "u32 \<Rightarrow> u32 \<Rightarrow> u8 list option \<Rightarrow> u32 \<Rightarrow> u8 list list" where
  "tipc_request module type req sz =
     (let head = request_head module type req sz
      in head_mem head # (if th_data_size head \<noteq> 0 then [take (unat sz) (the req)] else []))"

text \<open>The call: its result, what it writes to the socket, and the caller's response buffer; \<open>k\<close> numbers the calls of \<^verbatim>\<open>read\<close>.\<close>

definition op_tipc_receive :: "send_env \<Rightarrow> u8 list \<Rightarrow> int \<Rightarrow> int \<times> u8 list" where
  "op_tipc_receive en response response_size =
     (if usock_wait_ready (se_poll en) \<le> 0 then (- 1, response)
      else case se_read en 0 TIPC_HEADER_SIZE of
        None \<Rightarrow> (- 1, response)
      | Some bs \<Rightarrow>
          if length bs \<noteq> TIPC_HEADER_SIZE then (- 1, response)
          else
            (let head = tipc_header_ntoh (mem_head bs) in
             if th_prefix head \<noteq> TIPC_HEAD_PREFIX_VALUE then (- 1, response)
             else if th_data_size head = 0 then (0, response)
             else if unat (th_data_size head) > RPC_RESPONSE_SIZE then (- 1, response)
             else if \<not> se_calloc en then (- 1, response)
             else (case se_read en 1 (unat (th_data_size head)) of
                     None \<Rightarrow> (- 1, response)
                   | Some res \<Rightarrow>
                       if res = [] \<or> length res \<noteq> unat (th_data_size head) then (- 1, response)
                       else (let copy_size = min response_size (int (length res))
                             in (copy_size, overlay (take (nat copy_size) res) response)))))"

definition op_tipc_send_raw ::
    "send_env \<Rightarrow> u32 \<Rightarrow> u32 \<Rightarrow> u8 list option \<Rightarrow> u32 \<Rightarrow> u8 list option \<Rightarrow> int \<Rightarrow> int \<times> u8 list list \<times> u8 list option" where
  "op_tipc_send_raw en module type req sz response response_size =
     (if se_socket en < 0 then (- 1, [], response)
      else if se_connect en < 0 then (- 1, [], response)
      else
        (let ws = tipc_request module type req sz in
         case response of
           None \<Rightarrow> (0, ws, None)
         | Some buf \<Rightarrow>
             if response_size \<le> 0 then (0, ws, response)
             else (case op_tipc_receive en buf response_size of (ret, buf') \<Rightarrow> (ret, ws, Some buf'))))"

definition op_tipc_send :: "send_env \<Rightarrow> u32 \<Rightarrow> u32 \<Rightarrow> u8 list option \<Rightarrow> u32 \<Rightarrow> int \<times> u8 list list" where
  "op_tipc_send en module type req sz = (case op_tipc_send_raw en module type req sz None 0 of (r, ws, _) \<Rightarrow> (r, ws))"

definition op_tipc_send_ex ::
    "send_env \<Rightarrow> u32 \<Rightarrow> u32 \<Rightarrow> u8 list option \<Rightarrow> u32 \<Rightarrow> u8 list option \<Rightarrow> int \<Rightarrow> int \<times> u8 list list \<times> u8 list option" where
  "op_tipc_send_ex en module type req sz response response_size = op_tipc_send_raw en module type req sz response response_size"

section \<open>The server\<close>

text \<open>
  \<^verbatim>\<open>struct _op_tipc\<close>: the callbacks, the module, the clients by address and their table.  A pointer in the table is shown with
  the descriptor in the client it points to, which does not change.  \<open>tp_open\<close> are the descriptors of connections.
\<close>

record op_tipc =
  tp_cb :: "nat \<Rightarrow> rpc_cb option"
  tp_module :: u32
  tp_clients :: "nat \<Rightarrow> tipc_client option"
  tp_client_hash :: "(nat \<times> int) op_hash_st"
  tp_open :: "int set"

definition tipc_hash :: "nat \<times> int \<Rightarrow> u64" where
  "tipc_hash p = word_of_int (snd p)"

definition tipc_compare :: "nat \<times> int \<Rightarrow> nat \<times> int \<Rightarrow> int" where
  "tipc_compare p q = (if snd p = snd q then 0 else 1)"

definition rpc_free_client :: "(nat \<Rightarrow> bool) \<Rightarrow> nat \<Rightarrow> op_tipc \<Rightarrow> op_tipc" where
  "rpc_free_client ra a st =
     (case tp_clients st a of
        None \<Rightarrow> st
      | Some c \<Rightarrow>
          st\<lparr>tp_open := (if cl_fd c \<noteq> 0 then tp_open st - {cl_fd c} else tp_open st),
             tp_client_hash := snd (op_hash_delete ra (tp_client_hash st) (a, cl_fd c)),
             tp_clients := (tp_clients st)(a := None)\<rparr>)"

definition BEV_EVENT_EOF :: u16 where "BEV_EVENT_EOF = 0x10"
definition BEV_EVENT_ERROR :: u16 where "BEV_EVENT_ERROR = 0x20"

definition tipc_event :: "(nat \<Rightarrow> bool) \<Rightarrow> nat \<Rightarrow> u16 \<Rightarrow> op_tipc \<Rightarrow> op_tipc" where
  "tipc_event ra a what st = (if what AND (BEV_EVENT_ERROR OR BEV_EVENT_EOF) \<noteq> 0 then rpc_free_client ra a st else st)"

text \<open>
  The acceptance of a connection: \<open>fd\<close> is the answer of \<^verbatim>\<open>accept\<close>, \<open>a\<close> the address \<^verbatim>\<open>op_calloc\<close> gives, if any, \<open>bev\<close> whether
  there is a buffer event; \<open>ra\<close> and \<open>ca\<close> are the allocator's answers to the table.
\<close>

definition zero_client :: "int \<Rightarrow> tipc_client" where
  "zero_client fd =
     \<lparr>cl_fd = fd, cl_buffer = False, cl_head = \<lparr>th_prefix = 0, th_module = 0, th_type = 0, th_data_size = 0\<rparr>,
      cl_req_content = replicate (unat RPC_REQ_SIZE) 0, cl_response_content = replicate RPC_RESPONSE_SIZE 0,
      cl_water_level = 0, cl_event_type = 0\<rparr>"

definition rpc_tipc_accept_dispatch :: "(nat \<Rightarrow> bool) \<Rightarrow> bool \<Rightarrow> int \<Rightarrow> nat option \<Rightarrow> bool \<Rightarrow> op_tipc \<Rightarrow> op_tipc" where
  "rpc_tipc_accept_dispatch ra ca fd addr bev st =
     (if fd < 0 then st
      else
        (let st1 = st\<lparr>tp_open := insert fd (tp_open st)\<rparr> in
         case addr of
           None \<Rightarrow> st1
         | Some a \<Rightarrow>
             (let st2 = st1\<lparr>tp_clients := (tp_clients st1)(a \<mapsto> zero_client fd)\<rparr> in
              if \<not> bev then rpc_free_client ra a st2
              else st2\<lparr>tp_clients := (tp_clients st2)(a \<mapsto> (zero_client fd)\<lparr>cl_buffer := True,
                         cl_water_level := of_nat TIPC_HEADER_SIZE, cl_event_type := TIPC_EVENT_RECV_HEAD\<rparr>),
                       tp_client_hash := snd (op_hash_insert ra ca (tp_client_hash st2) (a, fd))\<rparr>)))"

text \<open>\<^verbatim>\<open>op_tipc_init\<close>: \<open>oks\<close> are the answers of the calls before the table, in order; each must succeed, or \<^verbatim>\<open>tipc_self\<close> stays as it is.\<close>

definition op_tipc_init :: "bool list \<Rightarrow> bool \<Rightarrow> bool \<Rightarrow> u32 \<Rightarrow> op_tipc option \<Rightarrow> int \<times> op_tipc option" where
  "op_tipc_init oks ca_st ca_b module self =
     (if \<not> list_all (\<lambda>ok. ok) oks then (- 1, self)
      else (case op_hash_new ca_st ca_b (Some tipc_hash) (Some tipc_compare) of
              None \<Rightarrow> (- 1, self)
            | Some h \<Rightarrow>
                (0, Some \<lparr>tp_cb = (\<lambda>_. None), tp_module = module, tp_clients = (\<lambda>_. None), tp_client_hash = h, tp_open = {}\<rparr>)))"

definition op_tipc_register :: "u32 \<Rightarrow> rpc_cb option \<Rightarrow> op_tipc option \<Rightarrow> int \<times> op_tipc option" where
  "op_tipc_register type cb tipc_self =
     (case tipc_self of
        None \<Rightarrow> (- 1, None)
      | Some t \<Rightarrow> if type \<ge> RPC_MAX_ELEMENT then (- 1, Some t) else (0, Some (t\<lparr>tp_cb := (tp_cb t)(unat type := cb)\<rparr>)))"

section \<open>Calls inside a process\<close>

record op_local_rpc =
  lo_cb :: "nat \<Rightarrow> rpc_cb option"
  lo_module :: u32

definition op_local_init :: "bool \<Rightarrow> bool \<Rightarrow> bool \<Rightarrow> u32 \<Rightarrow> op_local_rpc option \<Rightarrow> int \<times> op_local_rpc option" where
  "op_local_init ca attr lock module self =
     (if \<not> ca \<or> \<not> attr \<or> \<not> lock then (- 1, self) else (0, Some \<lparr>lo_cb = (\<lambda>_. None), lo_module = module\<rparr>))"

definition op_local_register :: "u32 \<Rightarrow> rpc_cb option \<Rightarrow> op_local_rpc option \<Rightarrow> int \<times> op_local_rpc option" where
  "op_local_register type cb self =
     (case self of
        None \<Rightarrow> (- 1, None)
      | Some l \<Rightarrow> if type \<ge> RPC_MAX_ELEMENT then (- 1, Some l) else (0, Some (l\<lparr>lo_cb := (lo_cb l)(unat type := cb)\<rparr>)))"

text \<open>The result, and the request and response buffers as the callback leaves them.\<close>

definition op_local_send_ex ::
    "op_local_rpc option \<Rightarrow> u32 \<Rightarrow> u32 \<Rightarrow> u8 list \<Rightarrow> u32 \<Rightarrow> u8 list \<Rightarrow> int \<Rightarrow> int \<times> u8 list \<times> u8 list" where
  "op_local_send_ex self module type req sz response response_size =
     (case self of
        None \<Rightarrow> (- 1, req, response)
      | Some l \<Rightarrow>
          if lo_module l \<noteq> module then (- 1, req, response)
          else if type \<ge> RPC_MAX_ELEMENT then (- 1, req, response)
          else (case lo_cb l (unat type) of
                  None \<Rightarrow> (- 1, req, response)
                | Some f \<Rightarrow> (case f req (to_int32 (uint sz)) response response_size of (r, req', response') \<Rightarrow> (0, req', response'))))"

section \<open>Byte order\<close>

lemma length_mem_u32 [simp]: "length (mem_u32 w) = 4"
  by (simp add: mem_u32_def)

lemma u32_mem_u32 [simp]: "u32_mem (mem_u32 w) = w"
proof (rule bit_word_eqI)
  fix n assume "n < LENGTH(32)"
  then have "n < 8 \<or> 8 \<le> n \<and> n < 16 \<or> 16 \<le> n \<and> n < 24 \<or> 24 \<le> n \<and> n < 32" by auto
  then show "bit (u32_mem (mem_u32 w)) n = bit w n"
    by (auto simp: u32_mem_def mem_u32_def bit_simps)
qed

lemma mem_u32_mem [simp]: "mem_u32 (u32_mem [a, b, c, d]) = [a, b, c, d]"
proof -
  have "ucast (u32_mem [a, b, c, d]) = a" "ucast (drop_bit 8 (u32_mem [a, b, c, d])) = b"
    "ucast (drop_bit 16 (u32_mem [a, b, c, d])) = c" "ucast (drop_bit 24 (u32_mem [a, b, c, d])) = d"
    by (rule bit_word_eqI; force simp: u32_mem_def bit_simps dest: bit_imp_le_length)+
  then show ?thesis by (simp add: mem_u32_def)
qed

lemma mem_htonl: "mem_u32 (htonl w) = rev (mem_u32 w)"
proof -
  have "rev (mem_u32 w) = [ucast (drop_bit 24 w), ucast (drop_bit 16 w), ucast (drop_bit 8 w), ucast w]" by (simp add: mem_u32_def)
  then show ?thesis unfolding htonl_def by simp
qed

lemma ntohl_htonl [simp]: "ntohl (htonl w) = w"
  by (simp add: ntohl_def mem_htonl)

lemma htonl_eq_0 [simp]: "htonl w = 0 \<longleftrightarrow> w = 0"
proof -
  have "ntohl 0 = 0" by (simp add: ntohl_def mem_u32_def u32_mem_def)
  moreover have "htonl 0 = 0" by (simp add: htonl_def mem_u32_def u32_mem_def)
  ultimately show ?thesis by (metis ntohl_htonl)
qed

lemma ntoh_hton [simp]: "tipc_header_ntoh (tipc_header_hton h) = h"
  by (simp add: tipc_header_ntoh_def tipc_header_hton_def)

lemma length_head_mem [simp]: "length (head_mem h) = TIPC_HEADER_SIZE"
  by (simp add: head_mem_def TIPC_HEADER_SIZE_def)

lemma mem_head_mem: "mem_head (head_mem h @ bs) = h"
  by (simp add: mem_head_def head_mem_def)

lemma overlay_full: "length bs = length buf \<Longrightarrow> overlay bs buf = bs"
  by (simp add: overlay_def)

lemma length_overlay: "length (overlay bs buf) = max (length bs) (length buf)"
  by (simp add: overlay_def)

lemma flush_empty [simp]: "tipc_buffer_flush evb = []"
  by (induction evb rule: tipc_buffer_flush.induct) (subst tipc_buffer_flush.simps, simp)

section \<open>A request served\<close>

text \<open>What the callbacks keep to: they do not write behind their buffers.\<close>

definition cb_ok :: "(nat \<Rightarrow> rpc_cb option) \<Rightarrow> bool" where
  "cb_ok cb \<longleftrightarrow> (\<forall>t f req n resp m r req' resp'. cb t = Some f \<longrightarrow> f req n resp m = (r, req', resp') \<longrightarrow>
     length req' = length req \<and> length resp' = length resp)"

text \<open>The state of a connection between events.\<close>

definition tipc_client_ok :: "tipc_client \<Rightarrow> bool" where
  "tipc_client_ok c \<longleftrightarrow> length (cl_req_content c) = unat RPC_REQ_SIZE \<and> length (cl_response_content c) = RPC_RESPONSE_SIZE \<and>
     (cl_event_type c = TIPC_EVENT_RECV_HEAD \<and> cl_water_level c = of_nat TIPC_HEADER_SIZE \<or>
      cl_event_type c = TIPC_EVENT_RECV_CONTENT \<and> cl_water_level c = th_data_size (cl_head c) \<and> cl_water_level c \<le> RPC_REQ_SIZE)"

lemma out_ok:
  "length (cl_req_content c) = unat RPC_REQ_SIZE \<Longrightarrow> length (cl_response_content c) = RPC_RESPONSE_SIZE \<Longrightarrow>
   \<exists>c'. tipc_out ws evb c = Some (ws, [], c') \<and> tipc_client_ok c' \<and> cl_event_type c' = TIPC_EVENT_RECV_HEAD \<and> cl_fd c' = cl_fd c"
  by (simp add: tipc_out_def tipc_client_ok_def)

lemma dispatch_ok:
  assumes "cb_ok cb" "length (cl_req_content c) = unat RPC_REQ_SIZE" "length (cl_response_content c) = RPC_RESPONSE_SIZE"
  shows "\<exists>ws c'. tipc_dispatch cb module evb c = Some (ws, [], c') \<and> tipc_client_ok c' \<and> cl_event_type c' = TIPC_EVENT_RECV_HEAD \<and> cl_fd c' = cl_fd c"
proof (cases "cb (unat (th_type (cl_head c)))")
  case None
  then show ?thesis using assms by (simp add: tipc_dispatch_def tipc_out_def tipc_client_ok_def)
next
  case (Some f)
  obtain r req resp where r: "f (cl_req_content c) (to_int32 (uint (cl_water_level c))) (cl_response_content c) (int RPC_RESPONSE_SIZE) = (r, req, resp)"
    by (metis prod_cases3)
  have "length req = unat RPC_REQ_SIZE" "length resp = RPC_RESPONSE_SIZE" using assms Some r unfolding cb_ok_def by metis+
  then show ?thesis using Some r assms(2,3) by (simp add: tipc_dispatch_def Let_def tipc_out_def tipc_client_ok_def)
qed

lemma content_ok:
  assumes "cb_ok cb" "tipc_client_ok c" "cl_event_type c = TIPC_EVENT_RECV_CONTENT"
  shows "\<exists>ws c'. tipc_recv_content cb module evb c = Some (ws, [], c') \<and> tipc_client_ok c' \<and> cl_event_type c' = TIPC_EVENT_RECV_HEAD \<and> cl_fd c' = cl_fd c"
proof -
  have l: "length (cl_req_content c) = unat RPC_REQ_SIZE" "length (cl_response_content c) = RPC_RESPONSE_SIZE"
    "unat (cl_water_level c) \<le> unat RPC_REQ_SIZE"
    using assms(2,3) by (auto simp: tipc_client_ok_def word_le_nat_alt TIPC_EVENT_RECV_HEAD_def TIPC_EVENT_RECV_CONTENT_def)
  let ?bs = "take (unat (cl_water_level c)) evb"
  let ?c1 = "c\<lparr>cl_req_content := overlay ?bs (cl_req_content c)\<rparr>"
  have l1: "length (cl_req_content ?c1) = unat RPC_REQ_SIZE" using l by (simp add: length_overlay)
  show ?thesis
    using dispatch_ok [OF assms(1) l(1,2), of module evb] dispatch_ok [OF assms(1) l1, of module "drop (unat (cl_water_level c)) evb"]
      out_ok [OF l1, of "[]" "drop (unat (cl_water_level c)) evb"] l
    by (auto simp: tipc_recv_content_def Let_def)
qed

lemma events_distinct [simp]: "TIPC_EVENT_RECV_HEAD \<noteq> TIPC_EVENT_RECV_CONTENT" "TIPC_EVENT_RECV_CONTENT \<noteq> TIPC_EVENT_RECV_HEAD"
  by (simp_all add: TIPC_EVENT_RECV_HEAD_def TIPC_EVENT_RECV_CONTENT_def)

lemma unat_header_size [simp]: "unat (of_nat TIPC_HEADER_SIZE :: u32) = TIPC_HEADER_SIZE"
  by (simp add: TIPC_HEADER_SIZE_def)

lemma tipc_read_ok:
  assumes "cb_ok cb" "tipc_client_ok c"
  shows "\<exists>ws evb' c'. tipc_read cb module evb c = Some (ws, evb', c') \<and> tipc_client_ok c' \<and> cl_fd c' = cl_fd c"
proof (cases "cl_event_type c = TIPC_EVENT_RECV_HEAD")
  case True
  then have c: "cl_water_level c = of_nat TIPC_HEADER_SIZE" "length (cl_req_content c) = unat RPC_REQ_SIZE"
    "length (cl_response_content c) = RPC_RESPONSE_SIZE" using assms(2) by (auto simp: tipc_client_ok_def)
  define h where "h = mem_head (overlay (take TIPC_HEADER_SIZE evb) (head_mem (cl_head c)))"
  let ?h = "tipc_header_ntoh h"
  let ?c3 = "c\<lparr>cl_head := ?h, cl_event_type := TIPC_EVENT_RECV_CONTENT, cl_water_level := th_data_size ?h\<rparr>"
  note o = out_ok [of "c\<lparr>cl_head := h\<rparr>" "[]" "drop TIPC_HEADER_SIZE evb"] out_ok [of "c\<lparr>cl_head := ?h\<rparr>" "[]" "drop TIPC_HEADER_SIZE evb"]
  show ?thesis
  proof (cases "th_prefix ?h \<noteq> TIPC_HEAD_PREFIX_VALUE \<or> th_data_size ?h > RPC_REQ_SIZE \<or> length evb < TIPC_HEADER_SIZE")
    case True
    then show ?thesis using o c \<open>cl_event_type c = _\<close> by (auto simp: tipc_read_def Let_def h_def)
  next
    case False
    then have k: "tipc_client_ok ?c3" using c by (auto simp: tipc_client_ok_def)
    show ?thesis using content_ok [OF assms(1) k, of module "drop TIPC_HEADER_SIZE evb"] k False c \<open>cl_event_type c = _\<close>
      by (auto simp: tipc_read_def Let_def h_def)
  qed
next
  case False
  then have "cl_event_type c = TIPC_EVENT_RECV_CONTENT" using assms(2) by (auto simp: tipc_client_ok_def)
  then show ?thesis using content_ok [OF assms] by (fastforce simp: tipc_read_def)
qed

text \<open>The header of a request, read in full.\<close>

lemma read_head:
  assumes "tipc_client_ok c" "cl_event_type c = TIPC_EVENT_RECV_HEAD" "th_prefix h = TIPC_HEAD_PREFIX_VALUE" "th_data_size h \<le> RPC_REQ_SIZE"
  defines "c3 \<equiv> c\<lparr>cl_head := h, cl_event_type := TIPC_EVENT_RECV_CONTENT, cl_water_level := th_data_size h\<rparr>"
  shows "tipc_read cb module (head_mem (tipc_header_hton h) @ bs) c =
     (if length bs \<ge> unat (th_data_size h) then tipc_recv_content cb module bs c3 else Some ([], bs, c3))"
proof -
  have "cl_water_level c = of_nat TIPC_HEADER_SIZE" using assms(1,2) by (auto simp: tipc_client_ok_def)
  moreover have "mem_head (overlay (head_mem (tipc_header_hton h)) (head_mem (cl_head c))) = tipc_header_hton h"
    using mem_head_mem [of _ "[]"] by (simp add: overlay_def)
  ultimately show ?thesis using assms(2,3) leD [OF assms(4)] by (simp add: tipc_read_def Let_def c3_def)
qed

lemma read_content:
  assumes "cl_event_type c = TIPC_EVENT_RECV_CONTENT"
  shows "tipc_read cb module evb c = tipc_recv_content cb module evb c"
  using assms by (simp add: tipc_read_def)

text \<open>
  A request may arrive in two segments.  When the header comes with the first part of the data, nothing is written and the
  connection waits; when the rest has come, the event does what it does when the whole request comes at once.
\<close>
theorem tipc_read_segments:
  assumes "tipc_client_ok c" "cl_event_type c = TIPC_EVENT_RECV_HEAD" "th_prefix h = TIPC_HEAD_PREFIX_VALUE" "th_data_size h \<le> RPC_REQ_SIZE"
    "length b1 < unat (th_data_size h)" "unat (th_data_size h) \<le> length b1 + length b2"
  shows "\<exists>c1. tipc_read cb module (head_mem (tipc_header_hton h) @ b1) c = Some ([], b1, c1) \<and>
    tipc_read cb module (b1 @ b2) c1 = tipc_read cb module (head_mem (tipc_header_hton h) @ b1 @ b2) c"
  using read_head [OF assms(1-4), of cb module b1] read_head [OF assms(1-4), of cb module "b1 @ b2"] assms(5,6)
  by (simp add: read_content)

text \<open>
  C39: What is lost.  When the data of a request comes in more than one event after the header, the part that came is thrown away
  without an answer and the connection waits for a header; and when a second request comes with the first one, it is
  thrown away.
\<close>
theorem tipc_read_loses:
  assumes "tipc_client_ok c" "cl_event_type c = TIPC_EVENT_RECV_HEAD" "th_prefix h = TIPC_HEAD_PREFIX_VALUE" "th_data_size h \<le> RPC_REQ_SIZE"
    "length b1 < unat (th_data_size h)" "length b1 + length b2 < unat (th_data_size h)" "length body = unat (th_data_size h)" "cb_ok cb"
  shows "(\<exists>c1 c2. tipc_read cb module (head_mem (tipc_header_hton h) @ b1) c = Some ([], b1, c1) \<and>
      tipc_read cb module (b1 @ b2) c1 = Some ([], [], c2) \<and> cl_event_type c2 = TIPC_EVENT_RECV_HEAD) \<and>
    (\<exists>ws c'. tipc_read cb module (head_mem (tipc_header_hton h) @ body @ rest) c = Some (ws, [], c') \<and>
      tipc_read cb module (head_mem (tipc_header_hton h) @ body) c = Some (ws, [], c'))"
proof -
  let ?c3 = "c\<lparr>cl_head := h, cl_event_type := TIPC_EVENT_RECV_CONTENT, cl_water_level := th_data_size h\<rparr>"
  note r = read_head [OF assms(1-4), of cb module]
  have k: "tipc_client_ok ?c3" using assms(1,4) by (auto simp: tipc_client_ok_def)
  have l: "length (b1 @ b2) \<le> length (cl_req_content c)"
    using assms(1,4,6) by (simp add: tipc_client_ok_def word_le_nat_alt)
  have "tipc_recv_content cb module (b1 @ b2) ?c3 = tipc_out [] [] (?c3\<lparr>cl_req_content := overlay (b1 @ b2) (cl_req_content c)\<rparr>)"
    using assms(5,6) l by (simp add: tipc_recv_content_def Let_def)
  then have 1: "\<exists>c2. tipc_recv_content cb module (b1 @ b2) ?c3 = Some ([], [], c2) \<and> cl_event_type c2 = TIPC_EVENT_RECV_HEAD"
    by (simp add: tipc_out_def)
  have d: "tipc_dispatch cb module evb d = tipc_dispatch cb module [] d" for evb d
    by (simp add: tipc_dispatch_def tipc_out_def Let_def split: option.split prod.split)
  have 2: "tipc_recv_content cb module (body @ rest) ?c3 = tipc_recv_content cb module body ?c3"
    using assms(7) d [of "body @ rest" ?c3] d [of body ?c3] d [of rest] by (simp add: tipc_recv_content_def Let_def)
  obtain ws c' where 3: "tipc_recv_content cb module body ?c3 = Some (ws, [], c')" using content_ok [OF assms(8) k, of module body] by auto
  show ?thesis using r [of b1] r [of "body @ rest"] r [of body] assms(5,7) 1 2 3 by (auto simp: read_content)
qed

lemma recv_request:
  assumes "length req = unat (cl_water_level c)" "length req \<le> length (cl_req_content c)"
  shows "tipc_recv_content cb module req c = tipc_dispatch cb module [] (c\<lparr>cl_req_content := overlay req (cl_req_content c)\<rparr>)"
proof (cases "req = []")
  case True
  moreover have "overlay [] (cl_req_content c) = cl_req_content c" by (simp add: overlay_def)
  ultimately show ?thesis using assms(1) by (simp add: tipc_recv_content_def)
next
  case False
  moreover from this have "unat (cl_water_level c) \<noteq> 0" using assms(1) by (metis length_0_conv)
  ultimately show ?thesis using assms by (simp add: tipc_recv_content_def Let_def)
qed

text \<open>What the caller makes of an answer.\<close>

lemma receive_answer:
  assumes "0 < se_poll en" "se_calloc en" "se_read en 0 TIPC_HEADER_SIZE = Some (head_mem (tipc_header_hton h))"
    "th_prefix h = TIPC_HEAD_PREFIX_VALUE" "unat (th_data_size h) = n" "se_read en 1 n = Some (take n resp)"
    "n \<le> length resp" "n \<le> RPC_RESPONSE_SIZE" "0 < response_size"
  shows "op_tipc_receive en buf response_size =
    (min response_size (int n), overlay (take (nat (min response_size (int n))) resp) buf)"
proof -
  have m: "tipc_header_ntoh (mem_head (head_mem (tipc_header_hton h))) = h" using mem_head_mem [of _ "[]"] by simp
  have "th_data_size h = 0 \<longleftrightarrow> n = 0" using assms(5) by (metis unat_eq_zero)
  then show ?thesis using assms m
    by (auto simp: op_tipc_receive_def usock_wait_ready_def Let_def overlay_def)
qed

text \<open>
  C10: A call is answered.  The bytes \<^verbatim>\<open>op_tipc_send_ex\<close> writes for a registered type and at most 4096 bytes of data, read by the
  server in one event, make it run the callback on that data, and it writes bytes from which the caller gets the
  callback's result and response, cut to the size of its buffer.
\<close>
theorem rpc_call_answered:
  assumes "tipc_client_ok c" "cl_event_type c = TIPC_EVENT_RECV_HEAD" "type < RPC_MAX_ELEMENT" "cb (unat type) = Some f"
    "sz \<le> RPC_REQ_SIZE" "length req = unat sz" "0 < response_size"
    "f (overlay req (cl_req_content c)) (uint sz) (cl_response_content c) 8192 = (r, req', resp)"
    "0 \<le> r" "r \<le> 8192" "length resp = 8192"
  shows "\<exists>ws c'. tipc_read cb module (concat (tipc_request module type (Some req) sz)) c = Some (ws, [], c') \<and>
    cl_event_type c' = TIPC_EVENT_RECV_HEAD \<and>
    (\<forall>en. 0 \<le> se_socket en \<and> 0 \<le> se_connect en \<and> 0 < se_poll en \<and> se_calloc en \<and>
        se_read en 0 = (\<lambda>n. Some (take n (concat ws))) \<and> se_read en 1 = (\<lambda>n. Some (take n (drop 16 (concat ws)))) \<longrightarrow>
      op_tipc_send_ex en module type (Some req) sz (Some buf) response_size =
        (min response_size r, tipc_request module type (Some req) sz, Some (overlay (take (nat (min response_size r)) resp) buf)))"
proof -
  let ?h = "\<lparr>th_prefix = TIPC_HEAD_PREFIX_VALUE, th_module = module, th_type = type, th_data_size = sz\<rparr>"
  let ?c3 = "c\<lparr>cl_head := ?h, cl_event_type := TIPC_EVENT_RECV_CONTENT, cl_water_level := sz\<rparr>"
  let ?c4 = "?c3\<lparr>cl_req_content := overlay req (cl_req_content c)\<rparr>"
  let ?h2 = "?h\<lparr>th_data_size := word_of_int r\<rparr>"
  let ?ws = "head_mem (tipc_header_hton ?h2) # (if r \<noteq> 0 then [take (nat r) resp] else [])"
  have q: "concat (tipc_request module type (Some req) sz) = head_mem (tipc_header_hton ?h) @ req"
    using assms(6) by (auto simp: tipc_request_def request_head_def Let_def tipc_header_hton_def)
  have l: "length req \<le> length (cl_req_content c)" using assms(1,5,6) by (simp add: tipc_client_ok_def word_le_nat_alt)
  have t: "tipc_read cb module (concat (tipc_request module type (Some req) sz)) c = tipc_dispatch cb module [] ?c4"
    using read_head [OF assms(1,2), of ?h cb module req] recv_request [of req ?c3 cb module] assms(5,6) l by (simp add: q)
  have z: "to_int32 (uint sz) = uint sz" using assms(5) by (simp add: to_int32_def RPC_REQ_SIZE_def word_le_def)
  have d: "\<exists>c'. tipc_dispatch cb module [] ?c4 = Some (?ws, [], c') \<and> cl_event_type c' = TIPC_EVENT_RECV_HEAD"
    using assms(3,4,8,9,10) z by (simp add: tipc_dispatch_def Let_def tipc_out_def RPC_RESPONSE_SIZE_def not_le)
  have u: "unat (th_data_size ?h2) = nat r" using assms(9,10) by (simp add: unat_eq_nat_uint uint_word_of_int)
  have w: "concat ?ws = head_mem (tipc_header_hton ?h2) @ take (nat r) resp" by simp
  have "op_tipc_send_ex en module type (Some req) sz (Some buf) response_size =
      (min response_size r, tipc_request module type (Some req) sz, Some (overlay (take (nat (min response_size r)) resp) buf))"
    if en: "0 \<le> se_socket en" "0 \<le> se_connect en" "0 < se_poll en" "se_calloc en"
      "se_read en 0 = (\<lambda>n. Some (take n (concat ?ws)))" "se_read en 1 = (\<lambda>n. Some (take n (drop 16 (concat ?ws))))" for en
  proof -
    have "se_read en 0 TIPC_HEADER_SIZE = Some (head_mem (tipc_header_hton ?h2))" "se_read en 1 (nat r) = Some (take (nat r) resp)"
      using en(5,6) w by (simp_all add: TIPC_HEADER_SIZE_def)
    from receive_answer [OF en(3,4) this(1) _ u this(2)] show ?thesis
      using en(1,2) assms(7,9,10,11) by (simp add: op_tipc_send_ex_def op_tipc_send_raw_def Let_def RPC_RESPONSE_SIZE_def nat_le_iff)
  qed
  with t d show ?thesis by auto
qed

section \<open>The table of connections\<close>

interpretation conns: keyed_hash tipc_hash tipc_compare "snd :: nat \<times> int \<Rightarrow> int"
  by unfold_locales (auto simp: tipc_hash_def tipc_compare_def)

text \<open>What the allocator keeps to: no block of half the memory, and a block can be made smaller.\<close>

definition alloc_ok :: "(nat \<Rightarrow> bool) \<Rightarrow> bool" where
  "alloc_ok ra \<longleftrightarrow> realloc_ok ra \<and> (\<forall>n < 2 ^ 32. ra n)"

text \<open>
  The states of a server.  A new connection has a descriptor that is not in use, a new client an address that is not; callbacks do
  not write behind their buffers.
\<close>

inductive tipc_state :: "op_tipc \<Rightarrow> bool" where
  init: "op_tipc_init oks ca_st ca_b module self = (0, Some st) \<Longrightarrow> tipc_state st"
| register: "tipc_state st \<Longrightarrow> op_tipc_register type (Some f) (Some st) = (0, Some st') \<Longrightarrow> cb_ok (tp_cb st') \<Longrightarrow> tipc_state st'"
| accept: "tipc_state st \<Longrightarrow> alloc_ok ra \<Longrightarrow> fd \<notin> tp_open st \<Longrightarrow> (case addr of None \<Rightarrow> True | Some a \<Rightarrow> tp_clients st a = None) \<Longrightarrow>
    tipc_state (rpc_tipc_accept_dispatch ra ca fd addr bev st)"
| read: "tipc_state st \<Longrightarrow> tp_clients st a = Some c \<Longrightarrow> tipc_read (tp_cb st) (tp_module st) evb c = Some (ws, evb', c') \<Longrightarrow>
    tipc_state (st\<lparr>tp_clients := (tp_clients st)(a \<mapsto> c')\<rparr>)"
| event: "tipc_state st \<Longrightarrow> alloc_ok ra \<Longrightarrow> tipc_state (tipc_event ra a what st)"

definition clients_ok :: "op_tipc \<Rightarrow> bool" where
  "clients_ok st \<longleftrightarrow> (\<forall>a c. tp_clients st a = Some c \<longrightarrow> tipc_client_ok c \<and> cl_fd c \<in> tp_open st) \<and>
     (\<forall>a b c d. tp_clients st a = Some c \<and> tp_clients st b = Some d \<and> cl_fd c = cl_fd d \<longrightarrow> a = b)"

definition table_ok :: "op_tipc \<Rightarrow> bool" where
  "table_ok st \<longleftrightarrow> hash_inv MIN_NODES tipc_hash tipc_compare snd (tp_client_hash st) \<and>
     (\<forall>fd p. hash_abs snd (tp_client_hash st) fd = Some p \<longrightarrow> (\<exists>c. tp_clients st (fst p) = Some c \<and> cl_fd c = fd))"

lemma table_free:
  assumes "table_ok st" "alloc_ok ra" "tp_clients st a = Some c" "\<And>b d. tp_clients st b = Some d \<Longrightarrow> cl_fd d = cl_fd c \<Longrightarrow> b = a"
  shows "table_ok (rpc_free_client ra a st)"
proof -
  obtain old h where d: "op_hash_delete ra (tp_client_hash st) (a, cl_fd c) = (old, h)" by fastforce
  have i: "hash_inv MIN_NODES tipc_hash tipc_compare snd (tp_client_hash st)" using assms(1) by (simp add: table_ok_def)
  have m: "2 \<le> MIN_NODES" and r: "\<And>n. n < 2 ^ 32 \<Longrightarrow> ra n" using assms(2) by (simp_all add: MIN_NODES_def alloc_ok_def)
  have s: "hash_inv MIN_NODES tipc_hash tipc_compare snd h" "hash_abs snd h = (hash_abs snd (tp_client_hash st))(cl_fd c := None)"
    using conns.delete_spec(1,3) [OF i m _ d [unfolded op_hash_delete_def]] r by simp_all
  have "\<exists>e. ((tp_clients st)(a := None)) (fst p) = Some e \<and> cl_fd e = fd" if p: "hash_abs snd h fd = Some p" for fd p
  proof -
    have n: "fd \<noteq> cl_fd c" "hash_abs snd (tp_client_hash st) fd = Some p" using p by (auto simp: s(2) split: if_splits)
    then obtain e where "tp_clients st (fst p) = Some e" "cl_fd e = fd" using assms(1) unfolding table_ok_def by blast
    then show ?thesis using n(1) assms(3) by auto
  qed
  then show ?thesis using s(1) d assms(3) by (simp add: table_ok_def rpc_free_client_def)
qed

lemma free_ok:
  assumes "table_ok st" "clients_ok st" "cb_ok (tp_cb st)" "alloc_ok ra"
  shows "table_ok (rpc_free_client ra a st) \<and> clients_ok (rpc_free_client ra a st) \<and> cb_ok (tp_cb (rpc_free_client ra a st))"
proof (cases "tp_clients st a")
  case None
  then show ?thesis using assms by (simp add: rpc_free_client_def)
next
  case (Some c)
  have u: "b = a" if "tp_clients st b = Some d" "cl_fd d = cl_fd c" for b d
    using assms(2) Some that unfolding clients_ok_def by blast
  have "clients_ok (rpc_free_client ra a st)" using assms(2) u Some by (auto simp: clients_ok_def rpc_free_client_def)
  then show ?thesis using table_free [OF assms(1,4) Some u] assms(3) Some by (simp add: rpc_free_client_def)
qed

lemma accept_ok:
  assumes "table_ok st" "clients_ok st" "cb_ok (tp_cb st)" "alloc_ok ra" "fd \<notin> tp_open st"
    "case addr of None \<Rightarrow> True | Some a \<Rightarrow> tp_clients st a = None"
  shows "table_ok (rpc_tipc_accept_dispatch ra ca fd addr bev st) \<and> clients_ok (rpc_tipc_accept_dispatch ra ca fd addr bev st) \<and>
    cb_ok (tp_cb (rpc_tipc_accept_dispatch ra ca fd addr bev st))"
proof -
  let ?st1 = "st\<lparr>tp_open := insert fd (tp_open st)\<rparr>"
  have 1: "table_ok ?st1" "clients_ok ?st1" "cb_ok (tp_cb ?st1)" using assms(1-3) by (auto simp: table_ok_def clients_ok_def)
  have n: "cl_fd d \<noteq> fd" if "tp_clients st b = Some d" for b d using assms(2,5) that by (auto simp: clients_ok_def)
  show ?thesis
  proof (cases "fd < 0 \<or> addr = None")
    case True
    then show ?thesis using 1 assms(1-3) by (auto simp: rpc_tipc_accept_dispatch_def Let_def)
  next
    case False
    then obtain a where a: "addr = Some a" "tp_clients st a = None" "\<not> fd < 0" using assms(6) by auto
    let ?st2 = "?st1\<lparr>tp_clients := (tp_clients ?st1)(a \<mapsto> zero_client fd)\<rparr>"
    have 2: "table_ok ?st2" using assms(1) a(2) by (fastforce simp: table_ok_def)
    show ?thesis
    proof (cases bev)
      case False
      have f: "table_ok (rpc_free_client ra a ?st2)"
        by (rule table_free [OF 2 assms(4), of a "zero_client fd"]) (use n in \<open>auto simp: zero_client_def split: if_splits\<close>)
      have "(tp_clients st)(a := None) = tp_clients st" using a(2) by auto
      then have "clients_ok (rpc_free_client ra a ?st2)" "tp_cb (rpc_free_client ra a ?st2) = tp_cb st"
        using assms(2) n by (auto simp: rpc_free_client_def clients_ok_def zero_client_def)
      then show ?thesis using f a False assms(3) by (simp add: rpc_tipc_accept_dispatch_def Let_def)
    next
      case True
      let ?c = "(zero_client fd)\<lparr>cl_buffer := True, cl_water_level := of_nat TIPC_HEADER_SIZE, cl_event_type := TIPC_EVENT_RECV_HEAD\<rparr>"
      obtain old h where h: "op_hash_insert ra ca (tp_client_hash st) (a, fd) = (old, h)" by fastforce
      have i: "hash_inv MIN_NODES tipc_hash tipc_compare snd (tp_client_hash st)" "realloc_ok ra"
        using assms(1,4) by (simp_all add: table_ok_def alloc_ok_def)
      note s = conns.insert_spec [OF i h]
      have t: "table_ok (st\<lparr>tp_open := insert fd (tp_open st), tp_clients := (tp_clients st)(a \<mapsto> ?c), tp_client_hash := h\<rparr>)"
        using s assms(1) a(2) n by (fastforce simp: table_ok_def zero_client_def split: if_splits)
      moreover have "clients_ok (st\<lparr>tp_open := insert fd (tp_open st), tp_clients := (tp_clients st)(a \<mapsto> ?c), tp_client_hash := h\<rparr>)"
        using assms(2) n by (auto simp: clients_ok_def tipc_client_ok_def zero_client_def)
      ultimately show ?thesis using a True h assms(3) by (simp add: rpc_tipc_accept_dispatch_def Let_def)
    qed
  qed
qed

lemma tipc_state_ok: "tipc_state st \<Longrightarrow> table_ok st \<and> clients_ok st \<and> cb_ok (tp_cb st)"
proof (induction rule: tipc_state.induct)
  case (init oks ca_st ca_b module self st)
  then obtain h where "op_hash_new ca_st ca_b (Some tipc_hash) (Some tipc_compare) = Some h"
    "st = \<lparr>tp_cb = (\<lambda>_. None), tp_module = module, tp_clients = (\<lambda>_. None), tp_client_hash = h, tp_open = {}\<rparr>"
    by (auto simp: op_tipc_init_def split: if_splits option.splits)
  moreover from this(1) have "h = op_hash_init MIN_NODES tipc_hash tipc_compare" by (auto simp: op_hash_new_def split: if_splits)
  ultimately show ?case using op_hash_new_inv(2) [of tipc_hash tipc_compare snd]
    by (simp add: table_ok_def clients_ok_def cb_ok_def)
next
  case (register st type f st')
  then show ?case by (auto simp: op_tipc_register_def table_ok_def clients_ok_def split: if_splits)
next
  case (accept st ra fd addr ca bev)
  then show ?case using accept_ok by blast
next
  case (read st a c evb ws evb' c')
  have "tipc_client_ok c" using read by (auto simp: clients_ok_def)
  then have c: "tipc_client_ok c'" "cl_fd c' = cl_fd c" using tipc_read_ok [of "tp_cb st" c "tp_module st" evb] read by auto
  have "table_ok (st\<lparr>tp_clients := (tp_clients st)(a \<mapsto> c')\<rparr>)"
    using read.IH read.hyps(2) c(2) by (fastforce simp: table_ok_def)
  moreover have "clients_ok (st\<lparr>tp_clients := (tp_clients st)(a \<mapsto> c')\<rparr>)"
    using read.IH read.hyps(2) c unfolding clients_ok_def by (auto split: if_splits)
  ultimately show ?case using read.IH by simp
next
  case (event st ra a what)
  then show ?case using free_ok by (simp add: tipc_event_def)
qed


definition fresh_client :: tipc_client where
  "fresh_client = (zero_client 5)\<lparr>cl_buffer := True, cl_water_level := of_nat TIPC_HEADER_SIZE, cl_event_type := TIPC_EVENT_RECV_HEAD\<rparr>"

definition echo :: rpc_cb where
  "echo req n resp m = (n, req, overlay (take (min (nat n) (length resp)) req) resp)"

definition echo_cb :: "nat \<Rightarrow> rpc_cb option" where
  "echo_cb t = (if t = 7 then Some echo else None)"

definition sample_head :: tipc_header where
  "sample_head = \<lparr>th_prefix = TIPC_HEAD_PREFIX_VALUE, th_module = 1001, th_type = 7, th_data_size = 3\<rparr>"

lemma fresh_ok: "tipc_client_ok fresh_client" "cl_event_type fresh_client = TIPC_EVENT_RECV_HEAD" "length (cl_response_content fresh_client) = 8192"
  by (simp_all add: fresh_client_def tipc_client_ok_def zero_client_def RPC_RESPONSE_SIZE_def)

lemma head_ok: "th_prefix sample_head = TIPC_HEAD_PREFIX_VALUE" "th_data_size sample_head \<le> RPC_REQ_SIZE" "th_data_size sample_head = 3"
  by (simp_all add: sample_head_def RPC_REQ_SIZE_def)

lemma echo_ok: "cb_ok echo_cb"
  by (auto simp: cb_ok_def echo_cb_def echo_def length_overlay split: if_splits)

theorem tipc_read_segments_witness:
  "\<exists>c1. tipc_read echo_cb 1001 (head_mem (tipc_header_hton sample_head) @ [1]) fresh_client = Some ([], [1], c1) \<and>
    tipc_read echo_cb 1001 [1, 2, 3] c1 = tipc_read echo_cb 1001 (head_mem (tipc_header_hton sample_head) @ [1, 2, 3]) fresh_client"
  using tipc_read_segments [OF fresh_ok(1,2) head_ok(1,2), of "[1]" "[2, 3]" echo_cb 1001] by (simp add: head_ok(3))

theorem tipc_read_loses_witness:
  "(\<exists>c1 c2. tipc_read echo_cb 1001 (head_mem (tipc_header_hton sample_head) @ [1]) fresh_client = Some ([], [1], c1) \<and>
      tipc_read echo_cb 1001 [1, 2] c1 = Some ([], [], c2) \<and> cl_event_type c2 = TIPC_EVENT_RECV_HEAD) \<and>
    (\<exists>ws c'. tipc_read echo_cb 1001 (head_mem (tipc_header_hton sample_head) @ [1, 2, 3] @ [9]) fresh_client = Some (ws, [], c') \<and>
      tipc_read echo_cb 1001 (head_mem (tipc_header_hton sample_head) @ [1, 2, 3]) fresh_client = Some (ws, [], c'))"
  using tipc_read_loses [OF fresh_ok(1,2) head_ok(1,2) _ _ _ echo_ok, of "[1]" "[2]" "[1, 2, 3]" 1001 "[9]"] by (simp add: head_ok(3))

definition sample_call_env :: "u8 list \<Rightarrow> send_env" where
  "sample_call_env bs = \<lparr>se_socket = 3, se_connect = 0, se_poll = 1,
     se_read = (\<lambda>k n. Some (take n (if k = 0 then bs else drop 16 bs))), se_calloc = True\<rparr>"

theorem rpc_call_answered_witness:
  "\<exists>ws c'. tipc_read echo_cb 1001 (concat (tipc_request 1001 7 (Some [1, 2, 3]) 3)) fresh_client = Some (ws, [], c') \<and>
    op_tipc_send_ex (sample_call_env (concat ws)) 1001 7 (Some [1, 2, 3]) 3 (Some [0, 0, 0]) 2 =
      (2, tipc_request 1001 7 (Some [1, 2, 3]) 3, Some [1, 2, 0])"
proof -
  have e: "echo_cb (unat (7 :: u32)) = Some echo" by (simp add: echo_cb_def)
  let ?resp = "overlay [1, 2, 3] (cl_response_content fresh_client)"
  have r: "echo (overlay [1, 2, 3] (cl_req_content fresh_client)) (uint (3 :: u32)) (cl_response_content fresh_client) 8192 =
      (3, overlay [1, 2, 3] (cl_req_content fresh_client), ?resp)"
    using fresh_ok(3) by (simp add: echo_def overlay_def)
  have l: "length ?resp = 8192" using fresh_ok(3) by (simp add: length_overlay)
  have s: "(7 :: u32) < RPC_MAX_ELEMENT" "(3 :: u32) \<le> RPC_REQ_SIZE" "length [1, 2, 3 :: u8] = unat (3 :: u32)"
    by (simp_all add: RPC_MAX_ELEMENT_def RPC_REQ_SIZE_def)
  from rpc_call_answered [where c = fresh_client and type = 7 and cb = echo_cb and f = echo and sz = 3 and req = "[1, 2, 3]" and
      response_size = 2 and r = 3 and module = 1001 and buf = "[0, 0, 0]", OF fresh_ok(1,2) s(1) e s(2,3) _ r _ _ l] obtain ws c' where
    t: "tipc_read echo_cb 1001 (concat (tipc_request 1001 7 (Some [1, 2, 3]) 3)) fresh_client = Some (ws, [], c')" and
    c: "\<And>en. 0 \<le> se_socket en \<and> 0 \<le> se_connect en \<and> 0 < se_poll en \<and> se_calloc en \<and>
        se_read en 0 = (\<lambda>n. Some (take n (concat ws))) \<and> se_read en 1 = (\<lambda>n. Some (take n (drop 16 (concat ws)))) \<Longrightarrow>
      op_tipc_send_ex en 1001 7 (Some [1, 2, 3]) 3 (Some [0, 0, 0]) 2 =
        (min 2 3, tipc_request 1001 7 (Some [1, 2, 3]) 3, Some (overlay (take (nat (min 2 3)) ?resp) [0, 0, 0]))" by auto
  show ?thesis using t c [of "sample_call_env (concat ws)"] by (simp add: sample_call_env_def overlay_def)
qed

definition sample_server :: op_tipc where
  "sample_server = rpc_tipc_accept_dispatch (\<lambda>n. n < 2 ^ 63) True 5 (Some 1) True
     (the (snd (op_tipc_init [True] True True 1001 None)))"


end
