(* ===== verification/Op_Mem.thy ===== *)
theory Op_Mem
  imports Op_Hash
begin

text \<open>
  The memory pools of \<^verbatim>\<open>src/base/opmem.c\<close>.  Pools of blocks of one size are kept in lists; a pool that is empty grows by a region that is
  cut into blocks, and a hash table finds the node of a block that is in use.  Nodes and regions (\<^verbatim>\<open>mem_father_node\<close>) are objects
  at addresses of their own; data addresses are natural numbers.  The answers of the system's allocator are arguments;
  \<open>om_blocks\<close> are the data blocks it has given out.  An access to a freed object is \<open>None\<close>.
\<close>

section \<open>Data\<close>

definition OP_MEM_MAX_SIZE :: nat where "OP_MEM_MAX_SIZE = 1048576"
definition op_MEM_ELE_SYS :: nat where "op_MEM_ELE_SYS = 15"
definition OP_MEM_ELE_MAX :: nat where "OP_MEM_ELE_MAX = 16"
definition OPMEM_CAN_FREE :: nat where "OPMEM_CAN_FREE = 1"
definition OPMEM_CANNOT_FREE :: nat where "OPMEM_CANNOT_FREE = 2"

text \<open>The fixed fields \<^verbatim>\<open>size\<close> and \<^verbatim>\<open>num\<close> of \<^verbatim>\<open>op_mem_ele\<close>, which has 16 entries with the first one unused.\<close>

definition op_mem_ele :: "(nat \<times> nat) list" where
  "op_mem_ele = [(0, 0), (16, 80), (32, 160), (64, 160), (128, 160), (256, 320), (512, 320), (1024, 320), (2048, 320), (4096, 320),
     (8192, 8), (16384, 8), (65536, 8), (524288, 4), (1048576, 2), (0, 0)]"

definition ele_size :: "nat \<Rightarrow> nat" where "ele_size i = fst (op_mem_ele ! i)"
definition ele_num :: "nat \<Rightarrow> nat" where "ele_num i = snd (op_mem_ele ! i)"

record mem_alloc_ele =
  ma_list :: "nat list"
  ma_can_used_num :: u32
  ma_all_num :: u32
  ma_op_malloc_num :: u64
  ma_op_free_num :: u64

record mem_father_node =
  fa_size :: nat
  fa_ptr :: nat
  fa_used_size :: nat
  fa_type :: nat
  fa_ele :: nat

record op_mem_node =
  nd_ptr :: nat
  nd_size :: nat
  nd_index :: nat
  nd_father :: "nat option"

record op_mem_statistic =
  pool_alloc :: u64
  pool_alloc_noused :: u64
  pool_alloc_used :: u64
  system_alloc :: u64
  system_alloc_noused :: u64
  system_alloc_used :: u64

text \<open>An entry of the hash table is the address of a node with the address of its block, which does not change.\<close>

record op_mem_info =
  om_ele :: "nat \<Rightarrow> mem_alloc_ele"
  om_nodes :: "nat \<Rightarrow> op_mem_node option"
  om_fathers :: "nat \<Rightarrow> mem_father_node option"
  om_father_list :: "nat list"
  om_hash :: "(nat \<times> nat) op_hash_st"
  om_stat :: op_mem_statistic
  om_blocks :: "(nat \<times> nat) set"

text \<open>
  The answers of the allocator to one call: the data block, the region's object, the nodes one after the other, and those to the
  hash table.
\<close>

record mem_env =
  me_block :: "nat option"
  me_father :: "nat option"
  me_nodes :: "nat \<Rightarrow> nat option"
  me_ra :: "nat \<Rightarrow> bool"
  me_ca :: bool

definition upd_ele :: "nat \<Rightarrow> (mem_alloc_ele \<Rightarrow> mem_alloc_ele) \<Rightarrow> op_mem_info \<Rightarrow> op_mem_info" where
  "upd_ele i f st = st\<lparr>om_ele := (om_ele st)(i := f (om_ele st i))\<rparr>"

definition upd_stat :: "(op_mem_statistic \<Rightarrow> op_mem_statistic) \<Rightarrow> op_mem_info \<Rightarrow> op_mem_info" where
  "upd_stat f st = st\<lparr>om_stat := f (om_stat st)\<rparr>"

section \<open>Operations\<close>

definition op_mem_get_list :: "nat \<Rightarrow> nat option" where
  "op_mem_get_list sz = find (\<lambda>i. ele_size i \<ge> sz) [1..<OP_MEM_ELE_MAX]"

definition op_mem_hash :: "nat \<times> nat \<Rightarrow> u64" where
  "op_mem_hash p = (of_nat (snd p) AND 0xffffffff)"

definition op_mem_compare :: "nat \<times> nat \<Rightarrow> nat \<times> nat \<Rightarrow> int" where
  "op_mem_compare p q = (if snd p = snd q then 0 else 1)"

text \<open>One turn of the loop that cuts region \<open>f\<close> of pool \<open>i\<close> into blocks, and the loop.\<close>

definition add_node :: "nat \<Rightarrow> nat \<Rightarrow> nat \<Rightarrow> nat \<Rightarrow> nat \<Rightarrow> op_mem_info \<Rightarrow> op_mem_info" where
  "add_node n f p i j st =
     upd_stat (\<lambda>s. s\<lparr>pool_alloc := pool_alloc s + of_nat (ele_size i), pool_alloc_noused := pool_alloc_noused s + of_nat (ele_size i)\<rparr>)
       (upd_ele i (\<lambda>e. e\<lparr>ma_list := ma_list e @ [n], ma_can_used_num := ma_can_used_num e + 1, ma_all_num := ma_all_num e + 1\<rparr>)
         (st\<lparr>om_nodes := (om_nodes st)(n \<mapsto>
            \<lparr>nd_ptr = p + j * ele_size i, nd_size = ele_size i, nd_index = j, nd_father = Some f\<rparr>)\<rparr>))"

fun add_nodes :: "(nat \<Rightarrow> nat option) \<Rightarrow> nat \<Rightarrow> nat \<Rightarrow> nat \<Rightarrow> nat list \<Rightarrow> op_mem_info \<Rightarrow> bool \<times> op_mem_info" where
  "add_nodes ids f p i [] st = (True, st)"
| "add_nodes ids f p i (j # js) st =
     (case ids j of None \<Rightarrow> (False, st) | Some n \<Rightarrow> add_nodes ids f p i js (add_node n f p i j st))"

text \<open>
  The region of a pool at the start: it is linked after its block was allocated.  The loop over the pools; the answers of the
  allocator are given by pool.
\<close>

definition init_pool :: "mem_env \<Rightarrow> nat \<Rightarrow> op_mem_info \<Rightarrow> bool \<times> op_mem_info" where
  "init_pool en i st0 =
     (let st = upd_ele i (ma_list_update (\<lambda>_. [])) st0 in
      if ele_size i = 0 \<or> ele_num i = 0 then (True, st)
      else case me_father en of
        None \<Rightarrow> (False, st)
      | Some f \<Rightarrow>
          (case me_block en of
             None \<Rightarrow> (False, st)
           | Some p \<Rightarrow>
               (let st1 = st\<lparr>om_fathers := (om_fathers st)(f \<mapsto>
                        \<lparr>fa_size = ele_size i * ele_num i, fa_ptr = p, fa_used_size = 0, fa_type = OPMEM_CANNOT_FREE, fa_ele = i\<rparr>),
                      om_father_list := om_father_list st @ [f],
                      om_blocks := insert (p, ele_size i * ele_num i) (om_blocks st)\<rparr>
                in add_nodes (me_nodes en) f p i [0..<ele_num i] st1)))"

fun init_pools :: "(nat \<Rightarrow> mem_env) \<Rightarrow> nat list \<Rightarrow> op_mem_info \<Rightarrow> bool \<times> op_mem_info" where
  "init_pools en [] st = (True, st)"
| "init_pools en (i # is) st =
     (case init_pool (en i) i st of (ok, st1) \<Rightarrow> if ok then init_pools en is st1 else (False, st1))"

text \<open>The state before the loop: the static tables, and a table that is set when the pools are there.\<close>

definition opmem_start :: op_mem_info where
  "opmem_start =
     \<lparr>om_ele = (\<lambda>_. \<lparr>ma_list = [], ma_can_used_num = 0, ma_all_num = 0, ma_op_malloc_num = 0, ma_op_free_num = 0\<rparr>),
      om_nodes = (\<lambda>_. None), om_fathers = (\<lambda>_. None), om_father_list = [],
      om_hash = op_hash_init 0 op_mem_hash op_mem_compare,
      om_stat = \<lparr>pool_alloc = 0, pool_alloc_noused = 0, pool_alloc_used = 0, system_alloc = 0, system_alloc_noused = 0, system_alloc_used = 0\<rparr>,
      om_blocks = {}\<rparr>"

definition opmem_init :: "bool \<Rightarrow> bool \<Rightarrow> bool \<Rightarrow> (nat \<Rightarrow> mem_env) \<Rightarrow> bool \<Rightarrow> bool \<Rightarrow> op_mem_info option" where
  "opmem_init ca attr lock en ca_st ca_b =
     (if \<not> ca \<or> \<not> attr \<or> \<not> lock then None
      else case init_pools en [1..<OP_MEM_ELE_MAX] opmem_start of (ok, st) \<Rightarrow>
        if \<not> ok then None
        else (case op_hash_new ca_st ca_b (Some op_mem_hash) (Some op_mem_compare) of
                None \<Rightarrow> None
              | Some h \<Rightarrow> Some (st\<lparr>om_hash := h\<rparr>)))"

text \<open>A block of its own for a request that is larger than those of the pools.\<close>

definition put_system :: "mem_env \<Rightarrow> nat \<Rightarrow> nat \<Rightarrow> nat \<Rightarrow> op_mem_info \<Rightarrow> op_mem_info" where
  "put_system en n p sz st =
     upd_stat (\<lambda>s. s\<lparr>system_alloc := system_alloc s + of_nat sz, system_alloc_used := system_alloc_used s + of_nat sz\<rparr>)
       (upd_ele op_MEM_ELE_SYS (\<lambda>e. e\<lparr>ma_list := ma_list e @ [n]\<rparr>)
         (st\<lparr>om_nodes := (om_nodes st)(n \<mapsto> \<lparr>nd_ptr = p, nd_size = sz, nd_index = 0, nd_father = None\<rparr>),
             om_hash := snd (op_hash_insert (me_ra en) (me_ca en) (om_hash st) (n, p)),
             om_blocks := insert (p, sz) (om_blocks st)\<rparr>))"

definition op_malloc_system :: "mem_env \<Rightarrow> nat \<Rightarrow> op_mem_info \<Rightarrow> nat option \<times> op_mem_info" where
  "op_malloc_system en sz st =
     (case me_block en of
        None \<Rightarrow> (None, st)
      | Some p \<Rightarrow> (case me_nodes en 0 of None \<Rightarrow> (None, st) | Some n \<Rightarrow> (Some p, put_system en n p sz st)))"

text \<open>A region for an empty pool: it is linked before its block is allocated, and stays linked when it is freed on a failure.\<close>

definition pool_grow :: "mem_env \<Rightarrow> nat \<Rightarrow> op_mem_info \<Rightarrow> bool \<times> op_mem_info" where
  "pool_grow en i st =
     (case me_father en of
        None \<Rightarrow> (False, st)
      | Some f \<Rightarrow>
          (let st1 = st\<lparr>om_father_list := om_father_list st @ [f]\<rparr> in
           case me_block en of
             None \<Rightarrow> (False, st1)
           | Some p \<Rightarrow>
               (let st2 = st1\<lparr>om_fathers := (om_fathers st1)(f \<mapsto>
                        \<lparr>fa_size = ele_size i * ele_num i, fa_ptr = p, fa_used_size = 0, fa_type = OPMEM_CAN_FREE, fa_ele = i\<rparr>),
                      om_blocks := insert (p, ele_size i * ele_num i) (om_blocks st1)\<rparr>
                in case add_nodes (me_nodes en) f p i [0..<ele_num i] st2 of (ok, st3) \<Rightarrow>
                     if ok then (True, st3)
                     else (False, st3\<lparr>om_fathers := (om_fathers st3)(f := None),
                                       om_blocks := om_blocks st3 - {(p, ele_size i * ele_num i)}\<rparr>))))"

text \<open>The first node of a pool's list is taken for use.\<close>

definition use_node :: "mem_env \<Rightarrow> nat \<Rightarrow> nat \<Rightarrow> nat list \<Rightarrow> op_mem_node \<Rightarrow> mem_father_node \<Rightarrow> op_mem_info \<Rightarrow> op_mem_info" where
  "use_node en i n ns nd fa st =
     upd_stat (\<lambda>s. s\<lparr>pool_alloc_noused := pool_alloc_noused s - of_nat (nd_size nd),
                     pool_alloc_used := pool_alloc_used s + of_nat (nd_size nd)\<rparr>)
       (upd_ele i (\<lambda>e. e\<lparr>ma_list := ns, ma_can_used_num := ma_can_used_num e - 1, ma_op_malloc_num := ma_op_malloc_num e + 1\<rparr>)
         (st\<lparr>om_hash := snd (op_hash_insert (me_ra en) (me_ca en) (om_hash st) (n, nd_ptr nd)),
             om_fathers := (om_fathers st)(the (nd_father nd) \<mapsto> fa\<lparr>fa_used_size := fa_used_size fa + nd_size nd\<rparr>)\<rparr>))"

definition take_node :: "mem_env \<Rightarrow> nat \<Rightarrow> op_mem_info \<Rightarrow> (nat \<times> op_mem_info) option" where
  "take_node en i st =
     (case ma_list (om_ele st i) of
        [] \<Rightarrow> None
      | n # ns \<Rightarrow>
          (case om_nodes st n of
             None \<Rightarrow> None
           | Some nd \<Rightarrow>
               (case Option.bind (nd_father nd) (om_fathers st) of
                  None \<Rightarrow> None
                | Some fa \<Rightarrow> Some (nd_ptr nd, use_node en i n ns nd fa st))))"

definition op_malloc_pool :: "mem_env \<Rightarrow> nat \<Rightarrow> op_mem_info \<Rightarrow> (nat option \<times> op_mem_info) option" where
  "op_malloc_pool en sz st =
     (if sz > OP_MEM_MAX_SIZE then Some (op_malloc_system en sz st)
      else case op_mem_get_list sz of
        None \<Rightarrow> Some (None, st)
      | Some i \<Rightarrow>
          (case (if ma_list (om_ele st i) = [] then pool_grow en i st else (True, st)) of (ok, st1) \<Rightarrow>
             if \<not> ok then Some (None, st1)
             else map_option (\<lambda>(p, st2). (Some p, st2)) (take_node en i st1)))"

text \<open>The functions as they are called, with the pointer \<^verbatim>\<open>self\<close>.\<close>

definition op_malloc :: "mem_env \<Rightarrow> nat \<Rightarrow> op_mem_info option \<Rightarrow> (nat option \<times> op_mem_info option) option" where
  "op_malloc en sz self =
     (case self of None \<Rightarrow> Some (None, None) | Some st \<Rightarrow> map_option (\<lambda>(r, st'). (r, Some st')) (op_malloc_pool en sz st))"

text \<open>\<^verbatim>\<open>op_calloc\<close>: the product of type \<^verbatim>\<open>size_t\<close>; the block is cleared, and its contents are not part of the model.\<close>

definition op_calloc :: "mem_env \<Rightarrow> nat \<Rightarrow> nat \<Rightarrow> op_mem_info option \<Rightarrow> (nat option \<times> op_mem_info option) option" where
  "op_calloc en nmemb sz self = op_malloc en ((nmemb * sz) mod 2 ^ 64) self"

definition drop_system :: "(nat \<Rightarrow> bool) \<Rightarrow> nat \<Rightarrow> op_mem_node \<Rightarrow> nat \<Rightarrow> op_mem_info \<Rightarrow> op_mem_info" where
  "drop_system ra n nd p st =
     upd_stat (\<lambda>s. s\<lparr>system_alloc := system_alloc s - of_nat (nd_size nd), system_alloc_used := system_alloc_used s - of_nat (nd_size nd)\<rparr>)
       (upd_ele op_MEM_ELE_SYS (\<lambda>e. e\<lparr>ma_list := remove1 n (ma_list e)\<rparr>)
         (st\<lparr>om_hash := snd (op_hash_delete ra (om_hash st) (n, nd_ptr nd)), om_nodes := (om_nodes st)(n := None),
             om_blocks := om_blocks st - {(p, nd_size nd)}\<rparr>))"

definition put_node :: "(nat \<Rightarrow> bool) \<Rightarrow> nat \<Rightarrow> nat \<Rightarrow> op_mem_node \<Rightarrow> mem_father_node \<Rightarrow> op_mem_info \<Rightarrow> op_mem_info" where
  "put_node ra i n nd fa st =
     upd_stat (\<lambda>s. s\<lparr>pool_alloc_noused := pool_alloc_noused s + of_nat (nd_size nd),
                     pool_alloc_used := pool_alloc_used s - of_nat (nd_size nd)\<rparr>)
       (upd_ele i (\<lambda>e. e\<lparr>ma_list := ma_list e @ [n], ma_can_used_num := ma_can_used_num e + 1, ma_op_free_num := ma_op_free_num e + 1\<rparr>)
         (st\<lparr>om_hash := snd (op_hash_delete ra (om_hash st) (n, nd_ptr nd)),
             om_fathers := (om_fathers st)(the (nd_father nd) \<mapsto> fa\<lparr>fa_used_size := fa_used_size fa - nd_size nd\<rparr>)\<rparr>))"

definition free_pool :: "(nat \<Rightarrow> bool) \<Rightarrow> nat \<Rightarrow> op_mem_info \<Rightarrow> op_mem_info option" where
  "free_pool ra p st0 =
     (case op_hash_retrieve (om_hash st0) (0, p) of
        (None, h) \<Rightarrow> Some (st0\<lparr>om_hash := h\<rparr>)
      | (Some x, h) \<Rightarrow>
          (let st = st0\<lparr>om_hash := h\<rparr>; n = fst x in
           case om_nodes st n of
             None \<Rightarrow> None
           | Some nd \<Rightarrow>
               if nd_size nd > OP_MEM_MAX_SIZE then Some (drop_system ra n nd p st)
               else (case op_mem_get_list (nd_size nd) of
                       None \<Rightarrow> Some st
                     | Some i \<Rightarrow>
                         (case Option.bind (nd_father nd) (om_fathers st) of
                            None \<Rightarrow> None
                          | Some fa \<Rightarrow> Some (put_node ra i n nd fa st)))))"

definition op_free :: "(nat \<Rightarrow> bool) \<Rightarrow> nat \<Rightarrow> op_mem_info option \<Rightarrow> op_mem_info option option" where
  "op_free ra p self = (case self of None \<Rightarrow> Some None | Some st \<Rightarrow> map_option Some (free_pool ra p st))"

text \<open>
  \<^verbatim>\<open>op_realloc\<close>: the result of \<^verbatim>\<open>op_calloc\<close> is tested the wrong way round; without a block the copy goes to the null
  pointer (\<open>None\<close>).
\<close>

definition op_realloc :: "mem_env \<Rightarrow> nat \<Rightarrow> nat \<Rightarrow> op_mem_info option \<Rightarrow> (nat option \<times> op_mem_info option) option" where
  "op_realloc en p sz self =
     (case self of
        None \<Rightarrow> Some (None, None)
      | Some st \<Rightarrow>
          (case op_hash_retrieve (om_hash st) (0, p) of
             (None, h) \<Rightarrow> Some (None, Some (st\<lparr>om_hash := h\<rparr>))
           | (Some (n, q), h) \<Rightarrow>
               (case om_nodes st n of
                  None \<Rightarrow> None
                | Some nd \<Rightarrow>
                    (case op_calloc en 1 ((nd_size nd + sz) mod 2 ^ 64) (Some (st\<lparr>om_hash := h\<rparr>)) of
                       Some (Some out, st') \<Rightarrow> Some (None, st')
                     | _ \<Rightarrow> None))))"

text \<open>
  \<^verbatim>\<open>op_mem_release_check\<close>: the regions that are not from the start and of which no block is in use lose their nodes and are
  freed; the data block of the region is not.
\<close>

definition drop_node :: "nat \<Rightarrow> nat \<Rightarrow> op_mem_info \<Rightarrow> op_mem_info option" where
  "drop_node f n st =
     (case om_nodes st n of
        None \<Rightarrow> None
      | Some nd \<Rightarrow>
          if nd_father nd \<noteq> Some f then Some st
          else (case om_fathers st f of
                  None \<Rightarrow> None
                | Some fa \<Rightarrow>
                    Some (upd_stat (\<lambda>s. s\<lparr>pool_alloc := pool_alloc s - of_nat (nd_size nd), pool_alloc_noused := pool_alloc_noused s - of_nat (nd_size nd)\<rparr>)
                      (upd_ele (fa_ele fa) (\<lambda>e. e\<lparr>ma_list := remove1 n (ma_list e), ma_can_used_num := ma_can_used_num e - 1, ma_all_num := ma_all_num e - 1\<rparr>)
                        (st\<lparr>om_nodes := (om_nodes st)(n := None)\<rparr>)))))"

fun drop_nodes :: "nat \<Rightarrow> nat list \<Rightarrow> op_mem_info \<Rightarrow> op_mem_info option" where
  "drop_nodes f [] st = Some st"
| "drop_nodes f (n # ns) st = Option.bind (drop_node f n st) (drop_nodes f ns)"

definition release_father :: "nat \<Rightarrow> op_mem_info \<Rightarrow> op_mem_info option" where
  "release_father f st =
     (case om_fathers st f of
        None \<Rightarrow> None
      | Some fa \<Rightarrow>
          if fa_type fa = OPMEM_CANNOT_FREE \<or> fa_used_size fa > 0 then Some st
          else map_option (\<lambda>st1. st1\<lparr>om_father_list := remove1 f (om_father_list st1), om_fathers := (om_fathers st1)(f := None)\<rparr>)
                 (drop_nodes f (ma_list (om_ele st (fa_ele fa))) st))"

fun release_fathers :: "nat list \<Rightarrow> op_mem_info \<Rightarrow> op_mem_info option" where
  "release_fathers [] st = Some st"
| "release_fathers (f # fs) st = Option.bind (release_father f st) (release_fathers fs)"

definition op_mem_release_check :: "op_mem_info \<Rightarrow> op_mem_info option" where
  "op_mem_release_check st = release_fathers (om_father_list st) st"

section \<open>The invariant\<close>

text \<open>The pools, the addresses of a block, and the nodes in the lists of the pools.\<close>

definition pools :: "nat set" where "pools = {1..<15}"

definition rng :: "op_mem_node \<Rightarrow> nat set" where
  "rng nd = {nd_ptr nd ..< nd_ptr nd + nd_size nd}"

definition frees :: "op_mem_info \<Rightarrow> nat set" where
  "frees st = (\<Union>i\<in>pools. set (ma_list (om_ele st i)))"

definition pool_node :: "op_mem_info \<Rightarrow> nat \<Rightarrow> op_mem_node \<Rightarrow> bool" where
  "pool_node st i nd \<longleftrightarrow> (\<exists>f fa. nd_father nd = Some f \<and> om_fathers st f = Some fa \<and> fa_ele fa = i \<and> nd_size nd = ele_size i)"

text \<open>\<open>U\<close> are the nodes in use.\<close>

definition lists_ok :: "nat set \<Rightarrow> op_mem_info \<Rightarrow> bool" where
  "lists_ok U st \<longleftrightarrow> (\<forall>i\<in>pools. distinct (ma_list (om_ele st i)) \<and>
     (\<forall>n\<in>set (ma_list (om_ele st i)). n \<notin> U \<and> (\<exists>nd. om_nodes st n = Some nd \<and> pool_node st i nd)))"

definition used_ok :: "nat set \<Rightarrow> op_mem_info \<Rightarrow> bool" where
  "used_ok U st \<longleftrightarrow> (\<forall>n\<in>U. \<exists>nd. om_nodes st n = Some nd \<and>
     (nd_father nd = None \<and> nd_size nd > OP_MEM_MAX_SIZE \<or> (\<exists>i\<in>pools. pool_node st i nd)))"

definition apart :: "nat set \<Rightarrow> op_mem_info \<Rightarrow> bool" where
  "apart U st \<longleftrightarrow> (\<forall>n\<in>U \<union> frees st. \<forall>m\<in>U \<union> frees st. \<forall>nd md. n \<noteq> m \<longrightarrow> om_nodes st n = Some nd \<longrightarrow> om_nodes st m = Some md \<longrightarrow>
     rng nd \<inter> rng md = {})"

definition in_block :: "(nat \<times> nat) set \<Rightarrow> op_mem_node \<Rightarrow> bool" where
  "in_block bs nd \<longleftrightarrow> (\<exists>b k. (b, k) \<in> bs \<and> rng nd \<subseteq> {b..<b + k})"

definition inside :: "nat set \<Rightarrow> op_mem_info \<Rightarrow> bool" where
  "inside U st \<longleftrightarrow> (\<forall>n\<in>U \<union> frees st. \<forall>nd. om_nodes st n = Some nd \<longrightarrow> in_block (om_blocks st) nd)"

definition of_father :: "nat set \<Rightarrow> op_mem_info \<Rightarrow> nat \<Rightarrow> nat set" where
  "of_father U st f = {n \<in> U. \<exists>nd. om_nodes st n = Some nd \<and> nd_father nd = Some f}"

definition fathers_ok :: "nat set \<Rightarrow> op_mem_info \<Rightarrow> bool" where
  "fathers_ok U st \<longleftrightarrow> finite U \<and> distinct (om_father_list st) \<and> set (om_father_list st) = dom (om_fathers st) \<and>
     (\<forall>f fa. om_fathers st f = Some fa \<longrightarrow> fa_ele fa \<in> pools \<and> fa_used_size fa = ele_size (fa_ele fa) * card (of_father U st f))"

definition pool_inv :: "nat set \<Rightarrow> op_mem_info \<Rightarrow> bool" where
  "pool_inv U st \<longleftrightarrow> lists_ok U st \<and> used_ok U st \<and> apart U st \<and> inside U st \<and> fathers_ok U st"

lemma upd_fields [simp]:
  "om_ele (upd_stat g st) = om_ele st" "om_nodes (upd_stat g st) = om_nodes st" "om_fathers (upd_stat g st) = om_fathers st"
  "om_father_list (upd_stat g st) = om_father_list st" "om_hash (upd_stat g st) = om_hash st" "om_blocks (upd_stat g st) = om_blocks st"
  "om_ele (upd_ele i e st) = (om_ele st)(i := e (om_ele st i))" "om_nodes (upd_ele i e st) = om_nodes st" "om_fathers (upd_ele i e st) = om_fathers st"
  "om_father_list (upd_ele i e st) = om_father_list st" "om_hash (upd_ele i e st) = om_hash st" "om_blocks (upd_ele i e st) = om_blocks st"
  by (simp_all add: upd_stat_def upd_ele_def)

text \<open>The changes of the operations, field by field.\<close>

lemma put_system_fields:
  "om_nodes (put_system en n p sz st) = (om_nodes st)(n \<mapsto> \<lparr>nd_ptr = p, nd_size = sz, nd_index = 0, nd_father = None\<rparr>)"
  "om_blocks (put_system en n p sz st) = insert (p, sz) (om_blocks st)" "om_father_list (put_system en n p sz st) = om_father_list st"
  "om_fathers (put_system en n p sz st) = om_fathers st"
  "k \<in> pools \<Longrightarrow> ma_list (om_ele (put_system en n p sz st) k) = ma_list (om_ele st k)"
  "om_hash (put_system en n p sz st) = snd (op_hash_insert (me_ra en) (me_ca en) (om_hash st) (n, p))"
  by (simp_all add: put_system_def pools_def op_MEM_ELE_SYS_def)

lemma use_node_fields:
  "om_nodes (use_node en i n ns nd fa st) = om_nodes st" "om_blocks (use_node en i n ns nd fa st) = om_blocks st"
  "om_father_list (use_node en i n ns nd fa st) = om_father_list st"
  "om_fathers (use_node en i n ns nd fa st) = (om_fathers st)(the (nd_father nd) \<mapsto> fa\<lparr>fa_used_size := fa_used_size fa + nd_size nd\<rparr>)"
  "ma_list (om_ele (use_node en i n ns nd fa st) i) = ns"
  "k \<noteq> i \<Longrightarrow> ma_list (om_ele (use_node en i n ns nd fa st) k) = ma_list (om_ele st k)"
  "om_hash (use_node en i n ns nd fa st) = snd (op_hash_insert (me_ra en) (me_ca en) (om_hash st) (n, nd_ptr nd))"
  by (simp_all add: use_node_def)

lemma drop_system_fields:
  "om_nodes (drop_system ra n nd p st) = (om_nodes st)(n := None)" "om_blocks (drop_system ra n nd p st) = om_blocks st - {(p, nd_size nd)}"
  "om_father_list (drop_system ra n nd p st) = om_father_list st" "om_fathers (drop_system ra n nd p st) = om_fathers st"
  "k \<in> pools \<Longrightarrow> ma_list (om_ele (drop_system ra n nd p st) k) = ma_list (om_ele st k)"
  "om_hash (drop_system ra n nd p st) = snd (op_hash_delete ra (om_hash st) (n, nd_ptr nd))"
  by (simp_all add: drop_system_def pools_def op_MEM_ELE_SYS_def)

lemma put_node_fields:
  "om_nodes (put_node ra i n nd fa st) = om_nodes st" "om_blocks (put_node ra i n nd fa st) = om_blocks st"
  "om_father_list (put_node ra i n nd fa st) = om_father_list st"
  "om_fathers (put_node ra i n nd fa st) = (om_fathers st)(the (nd_father nd) \<mapsto> fa\<lparr>fa_used_size := fa_used_size fa - nd_size nd\<rparr>)"
  "ma_list (om_ele (put_node ra i n nd fa st) i) = ma_list (om_ele st i) @ [n]"
  "k \<noteq> i \<Longrightarrow> ma_list (om_ele (put_node ra i n nd fa st) k) = ma_list (om_ele st k)"
  "om_hash (put_node ra i n nd fa st) = snd (op_hash_delete ra (om_hash st) (n, nd_ptr nd))"
  by (simp_all add: put_node_def)

lemma pools_list: "pools = {1, 2, 3, 4, 5, 6, 7, 8, 9, 10, 11, 12, 13, 14}"
  unfolding pools_def by code_simp

lemma ele_list: "[1..<OP_MEM_ELE_MAX] = [1, 2, 3, 4, 5, 6, 7, 8, 9, 10, 11, 12, 13, 14, 15]"
  by code_simp

lemma ele_sizes:
  "ele_size (Suc 0) = 16" "ele_size 2 = 32" "ele_size 3 = 64" "ele_size 4 = 128" "ele_size 5 = 256" "ele_size 6 = 512" "ele_size 7 = 1024" "ele_size 8 = 2048" "ele_size 9 = 4096" "ele_size 10 = 8192" "ele_size 11 = 16384" "ele_size 12 = 65536" "ele_size 13 = 524288" "ele_size 14 = 1048576" "ele_size 15 = 0"
  "ele_num (Suc 0) = 80" "ele_num 2 = 160" "ele_num 3 = 160" "ele_num 4 = 160" "ele_num 5 = 320" "ele_num 6 = 320" "ele_num 7 = 320" "ele_num 8 = 320" "ele_num 9 = 320" "ele_num 10 = 8" "ele_num 11 = 8" "ele_num 12 = 8" "ele_num 13 = 4" "ele_num 14 = 2" "ele_num 15 = 0"
  by (simp_all add: ele_size_def ele_num_def op_mem_ele_def)

lemma ele_facts:
  assumes "i \<in> pools"
  shows "0 < ele_size i" "0 < ele_num i" "ele_size i \<le> OP_MEM_MAX_SIZE" "op_mem_get_list (ele_size i) = Some i"
  using assms unfolding pools_list op_mem_get_list_def ele_list by (auto simp: ele_sizes OP_MEM_MAX_SIZE_def)

lemma get_list_small:
  assumes "sz \<le> OP_MEM_MAX_SIZE"
  shows "\<exists>i. op_mem_get_list sz = Some i \<and> i \<in> pools \<and> sz \<le> ele_size i"
  using assms unfolding pools_list op_mem_get_list_def ele_list by (auto simp: ele_sizes OP_MEM_MAX_SIZE_def)

lemma node_known: "pool_inv U st \<Longrightarrow> m \<in> U \<union> frees st \<Longrightarrow> \<exists>md. om_nodes st m = Some md"
  unfolding pool_inv_def lists_ok_def used_ok_def frees_def by blast

lemma pool_node_father: "om_fathers st' = om_fathers st \<Longrightarrow> pool_node st' i nd = pool_node st i nd"
  by (simp add: pool_node_def)

lemma frees_split:
  assumes "i \<in> pools" "\<And>k. k \<noteq> i \<Longrightarrow> ma_list (om_ele st' k) = ma_list (om_ele st k)"
  shows "\<exists>S. frees st = set (ma_list (om_ele st i)) \<union> S \<and> frees st' = set (ma_list (om_ele st' i)) \<union> S"
proof -
  have "frees s = set (ma_list (om_ele s i)) \<union> (\<Union>k\<in>pools - {i}. set (ma_list (om_ele s k)))" for s using assms(1) by (auto simp: frees_def)
  moreover have "(\<Union>k\<in>pools - {i}. set (ma_list (om_ele st' k))) = (\<Union>k\<in>pools - {i}. set (ma_list (om_ele st k)))" using assms(2) by simp
  ultimately show ?thesis by metis
qed

text \<open>A block is added to a pool.\<close>

lemma add_node_ok:
  assumes inv: "pool_inv U st" and i: "i \<in> pools" and f: "om_fathers st f = Some fa" "fa_ele fa = i" and n: "om_nodes st n = None"
    and b: "(b, k) \<in> om_blocks st" "{p + j * ele_size i ..< p + j * ele_size i + ele_size i} \<subseteq> {b..<b + k}"
    and d: "\<And>m md. m \<in> U \<union> frees st \<Longrightarrow> om_nodes st m = Some md \<Longrightarrow> rng md \<inter> {p + j * ele_size i ..< p + j * ele_size i + ele_size i} = {}"
  shows "pool_inv U (add_node n f p i j st)" "frees (add_node n f p i j st) = insert n (frees st)"
proof -
  let ?st = "add_node n f p i j st"
  let ?nd = "\<lparr>nd_ptr = p + j * ele_size i, nd_size = ele_size i, nd_index = j, nd_father = Some f\<rparr>"
  have o: "n \<notin> U \<union> frees st" using node_known [OF inv, of n] n by auto
  have e: "om_nodes ?st = (om_nodes st)(n \<mapsto> ?nd)" "om_fathers ?st = om_fathers st" "om_blocks ?st = om_blocks st" "om_father_list ?st = om_father_list st"
    "ma_list (om_ele ?st i) = ma_list (om_ele st i) @ [n]" "\<And>j. j \<noteq> i \<Longrightarrow> ma_list (om_ele ?st j) = ma_list (om_ele st j)"
    by (simp_all add: add_node_def)
  show fr: "frees ?st = insert n (frees st)" using frees_split [OF i, of ?st st] e(5,6) by auto
  have p: "pool_node ?st k nd = pool_node st k nd" for k nd using e(2) by (rule pool_node_father)
  have q: "pool_node st i ?nd" using f by (simp add: pool_node_def)
  have l: "lists_ok U st" "used_ok U st" "apart U st" "inside U st" "fathers_ok U st" using inv by (simp_all add: pool_inv_def)
  have ni: "n \<notin> set (ma_list (om_ele st k))" if "k \<in> pools" for k using o that by (auto simp: frees_def)
  have "lists_ok U ?st" unfolding lists_ok_def
  proof
    fix k assume k: "k \<in> pools"
    have "om_nodes ?st m = om_nodes st m" if "m \<in> set (ma_list (om_ele st k))" for m using ni [OF k] that e(1) by auto
    then show "distinct (ma_list (om_ele ?st k)) \<and> (\<forall>m\<in>set (ma_list (om_ele ?st k)). m \<notin> U \<and> (\<exists>nd. om_nodes ?st m = Some nd \<and> pool_node ?st k nd))"
      using l(1) k ni [OF k] o q e(1,5,6) unfolding lists_ok_def p by (cases "k = i") auto
  qed
  moreover have "used_ok U ?st" using l(2) o unfolding used_ok_def p e(1) by auto
  moreover have r: "rng md \<inter> rng ?nd = {}" "rng ?nd \<inter> rng md = {}" if "m \<in> U \<union> frees st" "om_nodes st m = Some md" for m md
    using d [OF that] by (auto simp: rng_def)
  have "apart U ?st" using l(3) o r unfolding apart_def fr e(1) by (auto split: if_splits)
  moreover have "in_block (om_blocks st) ?nd" using b by (auto simp: in_block_def rng_def)
  then have "inside U ?st" using l(4) o unfolding inside_def fr e(1,3) by auto
  moreover have "of_father U ?st g = of_father U st g" for g using o unfolding of_father_def e(1) by auto
  then have "fathers_ok U ?st" using l(5) unfolding fathers_ok_def e(2,4) by simp
  ultimately show "pool_inv U ?st" by (simp add: pool_inv_def)
qed

text \<open>The nodes known before are as they were, and so is what is not a pool.\<close>

definition mem_grown :: "op_mem_info \<Rightarrow> op_mem_info \<Rightarrow> bool" where
  "mem_grown st st' \<longleftrightarrow> om_fathers st' = om_fathers st \<and> om_father_list st' = om_father_list st \<and> om_hash st' = om_hash st \<and>
     om_blocks st' = om_blocks st \<and> (\<forall>n nd. om_nodes st n = Some nd \<longrightarrow> om_nodes st' n = Some nd)"

lemma mem_grown_trans: "mem_grown st st1 \<Longrightarrow> mem_grown st1 st2 \<Longrightarrow> mem_grown st st2"
  by (simp add: mem_grown_def)

lemma add_node_grown: "om_nodes st n = None \<Longrightarrow> mem_grown st (add_node n f p i j st)"
  by (auto simp: mem_grown_def add_node_def)

lemma add_nodes_ok:
  assumes "pool_inv U st" "i \<in> pools" "om_fathers st f = Some fa" "fa_ele fa = i" "(p, ele_size i * N) \<in> om_blocks st" "j0 \<le> N"
    "\<And>j. j0 \<le> j \<Longrightarrow> j < N \<Longrightarrow> \<exists>n. ids j = Some n \<and> om_nodes st n = None" "inj_on ids {j0..<N}"
    "\<And>m md. m \<in> U \<union> frees st \<Longrightarrow> om_nodes st m = Some md \<Longrightarrow> rng md \<inter> {p + j0 * ele_size i ..< p + N * ele_size i} = {}"
  shows "\<exists>st'. add_nodes ids f p i [j0..<N] st = (True, st') \<and> pool_inv U st' \<and> mem_grown st st' \<and>
    length (ma_list (om_ele st' i)) = length (ma_list (om_ele st i)) + (N - j0)"
  using assms
proof (induction "N - j0" arbitrary: j0 st)
  case 0
  then show ?case by (simp add: mem_grown_def)
next
  case (Suc k)
  let ?s = "ele_size i"
  have j: "j0 < N" using Suc.hyps(2) by simp
  then obtain n where n: "ids j0 = Some n" "om_nodes st n = None" using Suc.prems(7) by blast
  let ?st1 = "add_node n f p i j0 st"
  have m: "j0 * ?s + ?s \<le> N * ?s" using j by (metis Suc_leI add.commute mult_Suc mult_le_mono1)
  have sub: "{p + j0 * ?s ..< p + j0 * ?s + ?s} \<subseteq> {p..<p + ?s * N}" "{p + j0 * ?s ..< p + j0 * ?s + ?s} \<subseteq> {p + j0 * ?s ..< p + N * ?s}"
    "{p + Suc j0 * ?s ..< p + N * ?s} \<subseteq> {p + j0 * ?s ..< p + N * ?s}" using m by (auto simp: mult.commute)
  have d: "rng md \<inter> {p + j0 * ?s ..< p + j0 * ?s + ?s} = {}" if "m \<in> U \<union> frees st" "om_nodes st m = Some md" for m md
    using Suc.prems(9) [OF that] sub(2) by blast
  have a: "pool_inv U ?st1" "frees ?st1 = insert n (frees st)"
    by (rule add_node_ok [OF Suc.prems(1-4) n(2) Suc.prems(5) sub(1)], rule d, assumption+)+
  have g: "mem_grown st ?st1" using add_node_grown [OF n(2)] .
  have nodes: "om_nodes ?st1 = (om_nodes st)(n \<mapsto> \<lparr>nd_ptr = p + j0 * ?s, nd_size = ?s, nd_index = j0, nd_father = Some f\<rparr>)"
    by (simp add: add_node_def)
  have fresh: "\<exists>n. ids j = Some n \<and> om_nodes ?st1 n = None" if h: "Suc j0 \<le> j" "j < N" for j
  proof -
    obtain n2 where n2: "ids j = Some n2" "om_nodes st n2 = None" using Suc.prems(7) [of j] h by auto
    have "ids j \<noteq> ids j0" using inj_onD [OF Suc.prems(8), of j j0] h j by auto
    then show ?thesis using n2 n(1) nodes by auto
  qed
  have rest: "rng md \<inter> {p + Suc j0 * ?s ..< p + N * ?s} = {}" if "m' \<in> U \<union> frees ?st1" "om_nodes ?st1 m' = Some md" for m' md
  proof (cases "m' = n")
    case True
    then show ?thesis using that(2) nodes by (auto simp: rng_def)
  next
    case False
    then show ?thesis using that a(2) nodes Suc.prems(9) [of m' md] sub(3) by auto
  qed
  have "\<exists>st'. add_nodes ids f p i [Suc j0..<N] ?st1 = (True, st') \<and> pool_inv U st' \<and> mem_grown ?st1 st' \<and>
      length (ma_list (om_ele st' i)) = length (ma_list (om_ele ?st1 i)) + (N - Suc j0)"
  proof (rule Suc.hyps(1))
    show "k = N - Suc j0" "Suc j0 \<le> N" using Suc.hyps(2) j by simp_all
    show "om_fathers ?st1 f = Some fa" "(p, ?s * N) \<in> om_blocks ?st1" using Suc.prems(3,5) g by (simp_all add: mem_grown_def)
    show "inj_on ids {Suc j0..<N}" using Suc.prems(8) by (rule inj_on_subset) auto
  qed (fact a(1) Suc.prems(2,4) fresh rest)+
  then obtain st' where st': "add_nodes ids f p i [Suc j0..<N] ?st1 = (True, st')" "pool_inv U st'" "mem_grown ?st1 st'"
      "length (ma_list (om_ele st' i)) = length (ma_list (om_ele ?st1 i)) + (N - Suc j0)" by blast
  have u: "[j0..<N] = j0 # [Suc j0..<N]" using j by (rule upt_conv_Cons)
  have "length (ma_list (om_ele ?st1 i)) = Suc (length (ma_list (om_ele st i)))" by (simp add: add_node_def)
  then show ?case using st' mem_grown_trans [OF g st'(3)] n(1) j by (auto simp: u)
qed

lemma in_block_insert: "in_block bs nd \<Longrightarrow> in_block (insert b bs) nd"
  unfolding in_block_def by blast

text \<open>A new region without blocks.\<close>

lemma region_ok:
  assumes inv: "pool_inv U st" and i: "i \<in> pools" and f: "om_fathers st f = None"
  shows "pool_inv U (st\<lparr>om_fathers := (om_fathers st)(f \<mapsto> \<lparr>fa_size = s, fa_ptr = p, fa_used_size = 0, fa_type = t, fa_ele = i\<rparr>),
    om_father_list := om_father_list st @ [f], om_blocks := insert b (om_blocks st)\<rparr>)" (is "pool_inv U ?st")
proof -
  have l: "lists_ok U st" "used_ok U st" "apart U st" "inside U st" "fathers_ok U st" using inv by (simp_all add: pool_inv_def)
  have pn: "pool_node ?st k nd" if "pool_node st k nd" for k nd using that f by (auto simp: pool_node_def)
  have "lists_ok U ?st" using l(1) pn unfolding lists_ok_def by fastforce
  moreover have "used_ok U ?st" using l(2) pn unfolding used_ok_def by fastforce
  moreover have "frees ?st = frees st" by (simp add: frees_def)
  then have "apart U ?st" "inside U ?st" using l(3,4) unfolding apart_def inside_def by (auto intro!: in_block_insert)
  moreover have "of_father U ?st g = of_father U st g" for g by (simp add: of_father_def)
  moreover have "of_father U st f = {}" using l(2) f unfolding of_father_def used_ok_def pool_node_def by fastforce
  then have "fathers_ok U ?st" using l(5) f i calculation(5) unfolding fathers_ok_def by auto
  ultimately show ?thesis by (simp add: pool_inv_def)
qed

text \<open>What the system's allocator gives: objects and a block that are not in use.\<close>

definition block_fresh :: "mem_env \<Rightarrow> nat \<Rightarrow> op_mem_info \<Rightarrow> bool" where
  "block_fresh en L st \<longleftrightarrow> (\<exists>p. me_block en = Some p \<and> (\<forall>b k. (b, k) \<in> om_blocks st \<longrightarrow> {p..<p + L} \<inter> {b..<b + k} = {}))"

definition nodes_fresh :: "mem_env \<Rightarrow> nat \<Rightarrow> op_mem_info \<Rightarrow> bool" where
  "nodes_fresh en N st \<longleftrightarrow> (\<forall>j<N. \<exists>n. me_nodes en j = Some n \<and> om_nodes st n = None) \<and> inj_on (me_nodes en) {0..<N}"

definition gives :: "mem_env \<Rightarrow> nat \<Rightarrow> op_mem_info \<Rightarrow> bool" where
  "gives en i st \<longleftrightarrow> (\<exists>f. me_father en = Some f \<and> om_fathers st f = None) \<and> block_fresh en (ele_size i * ele_num i) st \<and> nodes_fresh en (ele_num i) st"

lemmas gives_defs = gives_def block_fresh_def nodes_fresh_def

lemma region_filled:
  fixes s t
  assumes inv: "pool_inv U st" and i: "i \<in> pools" and g: "gives en i st"
    and fp: "me_father en = Some f" "me_block en = Some p"
  defines "st1 \<equiv> st\<lparr>om_fathers := (om_fathers st)(f \<mapsto> \<lparr>fa_size = s, fa_ptr = p, fa_used_size = 0, fa_type = t, fa_ele = i\<rparr>),
    om_father_list := om_father_list st @ [f], om_blocks := insert (p, ele_size i * ele_num i) (om_blocks st)\<rparr>"
  shows "\<exists>st'. add_nodes (me_nodes en) f p i [0..<ele_num i] st1 = (True, st') \<and> pool_inv U st' \<and> mem_grown st1 st' \<and>
    length (ma_list (om_ele st' i)) = length (ma_list (om_ele st1 i)) + (ele_num i - 0)"
proof (rule add_nodes_ok)
  show "pool_inv U st1" unfolding st1_def by (rule region_ok [OF inv i]) (use g fp in \<open>auto simp: gives_defs\<close>)
  show "(p, ele_size i * ele_num i) \<in> om_blocks st1" by (simp add: st1_def)
  show "om_fathers st1 f = Some \<lparr>fa_size = s, fa_ptr = p, fa_used_size = 0, fa_type = t, fa_ele = i\<rparr>" by (simp add: st1_def)
  show "inj_on (me_nodes en) {0..<ele_num i}" using g by (simp add: gives_defs)
  show "\<exists>n. me_nodes en j = Some n \<and> om_nodes st1 n = None" if "j < ele_num i" for j using g that by (simp add: gives_defs st1_def)
  show "rng md \<inter> {p + 0 * ele_size i..<p + ele_num i * ele_size i} = {}" if h: "m \<in> U \<union> frees st1" "om_nodes st1 m = Some md" for m md
  proof -
    have "frees st1 = frees st" "om_nodes st1 = om_nodes st" by (simp_all add: frees_def st1_def)
    then have "in_block (om_blocks st) md" using inv h by (auto simp: pool_inv_def inside_def)
    then obtain b k where "(b, k) \<in> om_blocks st" "rng md \<subseteq> {b..<b + k}" by (auto simp: in_block_def)
    then show ?thesis using g fp by (fastforce simp: gives_defs mult.commute)
  qed
qed (simp_all add: i)

lemma pool_grow_ok:
  assumes "pool_inv U st" "i \<in> pools" "gives en i st"
  shows "\<exists>st'. pool_grow en i st = (True, st') \<and> pool_inv U st' \<and> ma_list (om_ele st' i) \<noteq> [] \<and> om_hash st' = om_hash st \<and>
    (\<forall>n nd. om_nodes st n = Some nd \<longrightarrow> om_nodes st' n = Some nd)"
proof -
  obtain f p where fp: "me_father en = Some f" "me_block en = Some p" using assms(3) by (auto simp: gives_defs)
  from region_filled [OF assms fp, of "ele_size i * ele_num i" OPMEM_CAN_FREE] obtain st' where
    a: "add_nodes (me_nodes en) f p i [0..<ele_num i] (st\<lparr>om_fathers := (om_fathers st)(f \<mapsto> \<lparr>fa_size = ele_size i * ele_num i, fa_ptr = p,
        fa_used_size = 0, fa_type = OPMEM_CAN_FREE, fa_ele = i\<rparr>), om_father_list := om_father_list st @ [f],
        om_blocks := insert (p, ele_size i * ele_num i) (om_blocks st)\<rparr>) = (True, st')" and
    b: "pool_inv U st'" "om_hash st' = om_hash st" "\<forall>n nd. om_nodes st n = Some nd \<longrightarrow> om_nodes st' n = Some nd"
      "length (ma_list (om_ele st' i)) = length (ma_list (om_ele st i)) + ele_num i"
    by (auto simp: mem_grown_def)
  have e: "st\<lparr>om_father_list := A, om_fathers := B, om_blocks := C\<rparr> = st\<lparr>om_fathers := B, om_father_list := A, om_blocks := C\<rparr>" for A B C
    by simp
  have "pool_grow en i st = (True, st')" using a fp by (simp add: pool_grow_def Let_def e)
  then show ?thesis using b ele_facts(2) [OF assms(2)] by auto
qed

text \<open>Pool nodes when the used size of a region changes.\<close>

lemma pool_node_used:
  assumes "om_fathers st f = Some fa" "om_fathers st' = (om_fathers st)(f \<mapsto> fa\<lparr>fa_used_size := u\<rparr>)"
  shows "pool_node st' i nd = pool_node st i nd"
  using assms by (auto simp: pool_node_def split: if_splits)

lemma pool_node_unique: "pool_node st i nd \<Longrightarrow> pool_node st k nd \<Longrightarrow> i = k"
  by (auto simp: pool_node_def)

lemma pool_inv_parts: "pool_inv U st \<Longrightarrow> lists_ok U st \<and> used_ok U st \<and> apart U st \<and> inside U st \<and> fathers_ok U st"
  by (simp add: pool_inv_def)

text \<open>The regions when one node comes into use or goes out of use.\<close>

lemma fathers_used:
  assumes ok: "fathers_ok U st" and f: "om_fathers st f = Some fa" "om_nodes st n = Some nd" "nd_father nd = Some f"
    and st': "om_fathers st' = (om_fathers st)(f \<mapsto> fa\<lparr>fa_used_size := u\<rparr>)" "om_nodes st' = om_nodes st" "om_father_list st' = om_father_list st"
    and u: "finite U'" "\<And>g. g \<noteq> f \<Longrightarrow> of_father U' st g = of_father U st g" "u = ele_size (fa_ele fa) * card (of_father U' st f)"
  shows "fathers_ok U' st'"
proof -
  have "of_father U' st' g = of_father U' st g" for g by (simp add: of_father_def st'(2))
  then show ?thesis using ok f u unfolding fathers_ok_def st' by auto
qed

lemma of_father_insert:
  assumes "om_nodes st n = Some nd" "nd_father nd = Some f"
  shows "of_father (insert n U) st f = insert n (of_father U st f)" "of_father (U - {n}) st f = of_father U st f - {n}"
    "g \<noteq> f \<Longrightarrow> of_father (insert n U) st g = of_father U st g" "g \<noteq> f \<Longrightarrow> of_father (U - {n}) st g = of_father U st g"
  using assms by (auto simp: of_father_def)

lemma take_pool:
  assumes inv: "pool_inv U st" and i: "i \<in> pools" and l: "ma_list (om_ele st i) = n # ns"
    and n: "om_nodes st n = Some nd" "nd_father nd = Some f" "om_fathers st f = Some fa"
    and st': "om_nodes st' = om_nodes st" "om_blocks st' = om_blocks st" "om_father_list st' = om_father_list st"
      "om_fathers st' = (om_fathers st)(f \<mapsto> fa\<lparr>fa_used_size := fa_used_size fa + nd_size nd\<rparr>)"
      "ma_list (om_ele st' i) = ns" "\<And>k. k \<noteq> i \<Longrightarrow> ma_list (om_ele st' k) = ma_list (om_ele st k)"
  shows "pool_inv (insert n U) st'" "n \<notin> U" "pool_node st i nd"
proof -
  note ok = pool_inv_parts [OF inv]
  have "n \<notin> U \<and> (\<exists>nd. om_nodes st n = Some nd \<and> pool_node st i nd)" using ok i l by (auto simp: lists_ok_def)
  then show nu: "n \<notin> U" and p: "pool_node st i nd" using n(1) by auto
  have pn: "pool_node st' k x = pool_node st k x" for k x using n(3) st'(4) by (rule pool_node_used)
  have once: "n \<notin> set (ma_list (om_ele st' k))" if "k \<in> pools" for k
  proof (cases "k = i")
    case True
    then show ?thesis using ok i l st'(5) by (auto simp: lists_ok_def)
  next
    case False
    have "n \<notin> set (ma_list (om_ele st k))" using ok that n(1) p False pool_node_unique by (fastforce simp: lists_ok_def)
    then show ?thesis using st'(6) [OF False] by simp
  qed
  have sub: "set (ma_list (om_ele st' k)) \<subseteq> set (ma_list (om_ele st k))" "distinct (ma_list (om_ele st k)) \<Longrightarrow> distinct (ma_list (om_ele st' k))" for k
    using st'(5,6) l by (cases "k = i"; auto)+
  have "lists_ok (insert n U) st'" using ok once sub unfolding lists_ok_def pn st'(1) by fastforce
  moreover have "used_ok (insert n U) st'" using ok p i n(1) unfolding used_ok_def pn st'(1) by auto
  moreover have "insert n U \<union> frees st' = U \<union> frees st"
  proof -
    have "frees st = insert n (frees st')"
      using frees_split [OF i, of st' st] l st'(5,6) by auto
    then show ?thesis by auto
  qed
  then have "apart (insert n U) st'" "inside (insert n U) st'" using ok unfolding apart_def inside_def st'(1,2) by simp_all
  moreover have "fathers_ok (insert n U) st'"
  proof (rule fathers_used [OF _ n(3,1,2) st'(4,1,3)])
    have "fa_ele fa = i" "nd_size nd = ele_size i" using p n(2,3) by (auto simp: pool_node_def)
    moreover have "finite (of_father U st f)" "n \<notin> of_father U st f" "fa_used_size fa = ele_size (fa_ele fa) * card (of_father U st f)"
      using ok nu n(3) by (auto simp: fathers_ok_def of_father_def)
    ultimately show "fa_used_size fa + nd_size nd = ele_size (fa_ele fa) * card (of_father (insert n U) st f)"
      by (simp add: of_father_insert [OF n(1,2)])
  qed (use ok of_father_insert(3) [OF n(1,2)] in \<open>auto simp: fathers_ok_def\<close>)
  ultimately show "pool_inv (insert n U) st'" by (simp add: pool_inv_def)
qed

lemma back_pool:
  assumes inv: "pool_inv U st" and i: "i \<in> pools" and u: "n \<in> U"
    and n: "om_nodes st n = Some nd" "nd_father nd = Some f" "om_fathers st f = Some fa" "fa_ele fa = i" "nd_size nd = ele_size i"
    and st': "om_nodes st' = om_nodes st" "om_blocks st' = om_blocks st" "om_father_list st' = om_father_list st"
      "om_fathers st' = (om_fathers st)(f \<mapsto> fa\<lparr>fa_used_size := fa_used_size fa - nd_size nd\<rparr>)"
      "ma_list (om_ele st' i) = ma_list (om_ele st i) @ [n]" "\<And>k. k \<noteq> i \<Longrightarrow> ma_list (om_ele st' k) = ma_list (om_ele st k)"
  shows "pool_inv (U - {n}) st'"
proof -
  note ok = pool_inv_parts [OF inv]
  have pn: "pool_node st' k x = pool_node st k x" for k x using n(3) st'(4) by (rule pool_node_used)
  have p: "pool_node st i nd" using n(2-5) by (auto simp: pool_node_def)
  have no: "n \<notin> set (ma_list (om_ele st k))" if "k \<in> pools" for k using ok that u by (auto simp: lists_ok_def)
  have "lists_ok (U - {n}) st'" unfolding lists_ok_def pn st'(1)
  proof
    fix k assume k: "k \<in> pools"
    then show "distinct (ma_list (om_ele st' k)) \<and> (\<forall>m\<in>set (ma_list (om_ele st' k)). m \<notin> U - {n} \<and> (\<exists>nd. om_nodes st m = Some nd \<and> pool_node st k nd))"
      using ok no [OF k] p n(1) st'(5,6) unfolding lists_ok_def by (cases "k = i") auto
  qed
  moreover have "used_ok (U - {n}) st'" using ok unfolding used_ok_def pn st'(1) by auto
  moreover have "U - {n} \<union> frees st' = U \<union> frees st"
  proof -
    have "frees st' = insert n (frees st)" using frees_split [OF i, of st' st] st'(5,6) by auto
    then show ?thesis using u by auto
  qed
  then have "apart (U - {n}) st'" "inside (U - {n}) st'" using ok unfolding apart_def inside_def st'(1,2) by simp_all
  moreover have "fathers_ok (U - {n}) st'"
  proof (rule fathers_used [OF _ n(3,1,2) st'(4,1,3)])
    have "finite (of_father U st f)" "n \<in> of_father U st f" "fa_used_size fa = ele_size (fa_ele fa) * card (of_father U st f)"
      using ok u n by (auto simp: fathers_ok_def of_father_def)
    then show "fa_used_size fa - nd_size nd = ele_size (fa_ele fa) * card (of_father (U - {n}) st f)"
      using n(4,5) by (simp add: of_father_insert [OF n(1,2)] card_Diff_singleton diff_mult_distrib2)
  qed (use ok of_father_insert(4) [OF n(1,2)] in \<open>auto simp: fathers_ok_def\<close>)
  ultimately show ?thesis by (simp add: pool_inv_def)
qed

lemma rng_pos: "pool_inv U st \<Longrightarrow> m \<in> U \<union> frees st \<Longrightarrow> om_nodes st m = Some md \<Longrightarrow> 0 < nd_size md"
proof -
  assume h: "pool_inv U st" "m \<in> U \<union> frees st" "om_nodes st m = Some md"
  then have "OP_MEM_MAX_SIZE < nd_size md \<or> (\<exists>i\<in>pools. pool_node st i md)"
    unfolding pool_inv_def lists_ok_def used_ok_def frees_def by force
  then show ?thesis using ele_facts(1) by (auto simp: pool_node_def)
qed

lemma apart_mono:
  "apart U st \<Longrightarrow> U' \<union> frees st' \<subseteq> U \<union> frees st \<Longrightarrow> (\<And>m md. om_nodes st' m = Some md \<Longrightarrow> om_nodes st m = Some md) \<Longrightarrow> apart U' st'"
  unfolding apart_def by (meson subsetD)

text \<open>A large block comes into use and goes out of use.\<close>

lemma system_take:
  assumes inv: "pool_inv U st" and n: "om_nodes st n = None" and sz: "OP_MEM_MAX_SIZE < sz"
    and fresh: "\<And>b k. (b, k) \<in> om_blocks st \<Longrightarrow> {p..<p + sz} \<inter> {b..<b + k} = {}"
    and st': "om_nodes st' = (om_nodes st)(n \<mapsto> \<lparr>nd_ptr = p, nd_size = sz, nd_index = 0, nd_father = None\<rparr>)"
      "om_blocks st' = insert (p, sz) (om_blocks st)" "om_father_list st' = om_father_list st" "om_fathers st' = om_fathers st"
      "\<And>k. k \<in> pools \<Longrightarrow> ma_list (om_ele st' k) = ma_list (om_ele st k)"
  shows "pool_inv (insert n U) st'"
proof -
  let ?nd = "\<lparr>nd_ptr = p, nd_size = sz, nd_index = 0, nd_father = None\<rparr>"
  note ok = pool_inv_parts [OF inv]
  have o: "n \<notin> U \<union> frees st" using node_known [OF inv, of n] n by auto
  have fr: "frees st' = frees st" by (simp add: frees_def st'(5))
  have pn: "pool_node st' k x = pool_node st k x" for k x using st'(4) by (rule pool_node_father)
  have d: "rng md \<inter> rng ?nd = {}" "rng ?nd \<inter> rng md = {}" if "m \<in> U \<union> frees st" "om_nodes st m = Some md" for m md
  proof -
    have "in_block (om_blocks st) md" using ok that by (simp add: inside_def)
    then obtain b k where "(b, k) \<in> om_blocks st" "rng md \<subseteq> {b..<b + k}" by (auto simp: in_block_def)
    moreover have "rng ?nd = {p..<p + sz}" by (simp add: rng_def)
    ultimately show "rng md \<inter> rng ?nd = {}" "rng ?nd \<inter> rng md = {}" using fresh by blast+
  qed
  have no: "n \<notin> set (ma_list (om_ele st k))" if "k \<in> pools" for k using o that by (auto simp: frees_def)
  have "lists_ok (insert n U) st'" unfolding lists_ok_def
  proof
    fix k assume k: "k \<in> pools"
    then show "distinct (ma_list (om_ele st' k)) \<and> (\<forall>m\<in>set (ma_list (om_ele st' k)). m \<notin> insert n U \<and> (\<exists>nd. om_nodes st' m = Some nd \<and> pool_node st' k nd))"
      using ok no [OF k] unfolding lists_ok_def pn st'(1) st'(5) [OF k] by auto
  qed
  moreover have "used_ok (insert n U) st'" using ok o sz unfolding used_ok_def pn st'(1) by auto
  moreover have "apart (insert n U) st'" using ok o d unfolding apart_def fr st'(1) by (auto split: if_splits)
  moreover have "in_block (om_blocks st') ?nd" unfolding in_block_def rng_def st'(2) by auto
  then have "inside (insert n U) st'" using ok o unfolding inside_def fr st'(1,2) by (auto intro!: in_block_insert)
  moreover have "of_father (insert n U) st' g = of_father U st g" for g using o by (auto simp: of_father_def st'(1))
  then have "fathers_ok (insert n U) st'" using ok unfolding fathers_ok_def st'(3,4) by simp
  ultimately show ?thesis by (simp add: pool_inv_def)
qed

lemma system_back:
  assumes inv: "pool_inv U st" and u: "n \<in> U" and n: "om_nodes st n = Some nd" "OP_MEM_MAX_SIZE < nd_size nd"
    and st': "om_nodes st' = (om_nodes st)(n := None)" "om_blocks st' = om_blocks st - {(nd_ptr nd, nd_size nd)}"
      "om_father_list st' = om_father_list st" "om_fathers st' = om_fathers st"
      "\<And>k. k \<in> pools \<Longrightarrow> ma_list (om_ele st' k) = ma_list (om_ele st k)"
  shows "pool_inv (U - {n}) st'"
proof -
  note ok = pool_inv_parts [OF inv]
  have fr: "frees st' = frees st" by (simp add: frees_def st'(5))
  have pn: "pool_node st' k x = pool_node st k x" for k x using st'(4) by (rule pool_node_father)
  have no: "n \<notin> set (ma_list (om_ele st k))" if "k \<in> pools" for k using ok that u by (auto simp: lists_ok_def)
  then have nf: "n \<notin> frees st" by (auto simp: frees_def)
  have fa: "nd_father nd = None" using ok u n ele_facts(3) unfolding used_ok_def pool_node_def by fastforce
  have "lists_ok (U - {n}) st'" unfolding lists_ok_def
  proof
    fix k assume k: "k \<in> pools"
    then show "distinct (ma_list (om_ele st' k)) \<and> (\<forall>m\<in>set (ma_list (om_ele st' k)). m \<notin> U - {n} \<and> (\<exists>nd. om_nodes st' m = Some nd \<and> pool_node st' k nd))"
      using ok no [OF k] unfolding lists_ok_def pn st'(1) st'(5) [OF k] by auto
  qed
  moreover have "used_ok (U - {n}) st'" using ok unfolding used_ok_def pn st'(1) by auto
  moreover have "apart (U - {n}) st'" by (rule apart_mono [of U st]) (use ok in \<open>auto simp: fr st'(1) split: if_splits\<close>)
  moreover have "inside (U - {n}) st'" unfolding inside_def fr
  proof (intro ballI allI impI)
    fix m md assume m: "m \<in> U - {n} \<union> frees st" "om_nodes st' m = Some md"
    then have m': "m \<in> U \<union> frees st" "om_nodes st m = Some md" "m \<noteq> n" using st'(1) by (auto split: if_splits)
    have "in_block (om_blocks st) md" using ok m' by (simp add: inside_def)
    then obtain b k where b: "(b, k) \<in> om_blocks st" "rng md \<subseteq> {b..<b + k}" by (auto simp: in_block_def)
    have "rng md \<inter> rng nd = {}" using ok m' u n(1) unfolding apart_def by blast
    moreover have "rng md \<noteq> {}" using rng_pos [OF inv m'(1,2)] by (simp add: rng_def)
    ultimately have "(b, k) \<noteq> (nd_ptr nd, nd_size nd)" using b(2) by (auto simp: rng_def)
    then show "in_block (om_blocks st') md" using b st'(2) by (auto simp: in_block_def)
  qed
  moreover have "of_father (U - {n}) st' g = of_father U st g" for g using n(1) fa by (auto simp: of_father_def st'(1))
  then have "fathers_ok (U - {n}) st'" using ok unfolding fathers_ok_def st'(3,4) by simp
  ultimately show ?thesis by (simp add: pool_inv_def)
qed

section \<open>The table of the blocks in use\<close>

interpretation mems: keyed_hash op_mem_hash op_mem_compare "snd :: nat \<times> nat \<Rightarrow> nat"
  by unfold_locales (auto simp: op_mem_hash_def op_mem_compare_def)

definition hash_rel :: "nat set \<Rightarrow> op_mem_info \<Rightarrow> bool" where
  "hash_rel U st \<longleftrightarrow> hash_inv MIN_NODES op_mem_hash op_mem_compare snd (om_hash st) \<and>
     (\<forall>p x. hash_abs snd (om_hash st) p = Some x \<longrightarrow> snd x = p \<and> fst x \<in> U \<and> (\<exists>nd. om_nodes st (fst x) = Some nd \<and> nd_ptr nd = p)) \<and>
     (\<forall>n\<in>U. \<forall>nd. om_nodes st n = Some nd \<longrightarrow> hash_abs snd (om_hash st) (nd_ptr nd) = Some (n, nd_ptr nd))"

definition mem_ok :: "op_mem_info \<Rightarrow> bool" where
  "mem_ok st \<longleftrightarrow> (\<exists>U. pool_inv U st \<and> hash_rel U st)"

lemma hash_relD:
  "hash_rel U st \<Longrightarrow> hash_abs snd (om_hash st) p = Some x \<Longrightarrow>
     snd x = p \<and> fst x \<in> U \<and> (\<exists>nd. om_nodes st (fst x) = Some nd \<and> nd_ptr nd = p)"
  unfolding hash_rel_def by blast

text \<open>The abstract view: the blocks in use, with their sizes.\<close>

definition blocks_used :: "op_mem_info \<Rightarrow> nat \<Rightarrow> nat option" where
  "blocks_used st p = Option.bind (hash_abs snd (om_hash st) p) (\<lambda>x. map_option nd_size (om_nodes st (fst x)))"

lemma hash_rel_ptr:
  assumes "hash_rel U st" "n \<in> U" "m \<in> U" "om_nodes st n = Some nd" "om_nodes st m = Some md" "nd_ptr nd = nd_ptr md"
  shows "n = m"
  using assms unfolding hash_rel_def by (metis Pair_inject option.inject)

lemma blocks_used_iff:
  assumes "hash_rel U st"
  shows "blocks_used st p = Some k \<longleftrightarrow> (\<exists>n nd. n \<in> U \<and> om_nodes st n = Some nd \<and> nd_ptr nd = p \<and> nd_size nd = k)"
proof
  assume "blocks_used st p = Some k"
  then obtain x nd where "hash_abs snd (om_hash st) p = Some x" "om_nodes st (fst x) = Some nd" "nd_size nd = k"
    by (auto simp: blocks_used_def bind_eq_Some_conv)
  then show "\<exists>n nd. n \<in> U \<and> om_nodes st n = Some nd \<and> nd_ptr nd = p \<and> nd_size nd = k"
    using assms unfolding hash_rel_def by (metis option.inject)
next
  assume "\<exists>n nd. n \<in> U \<and> om_nodes st n = Some nd \<and> nd_ptr nd = p \<and> nd_size nd = k"
  then obtain n nd where "n \<in> U" "om_nodes st n = Some nd" "nd_ptr nd = p" "nd_size nd = k" by blast
  then show "blocks_used st p = Some k" using assms by (auto simp: hash_rel_def blocks_used_def)
qed

lemma hash_take:
  assumes rel: "hash_rel U st" and n: "n \<notin> U" "om_nodes st' n = Some nd" "\<And>m. m \<in> U \<Longrightarrow> om_nodes st' m = om_nodes st m"
    "\<And>m md. m \<in> U \<Longrightarrow> om_nodes st m = Some md \<Longrightarrow> nd_ptr md \<noteq> nd_ptr nd"
    and h: "om_hash st' = snd (op_hash_insert ra ca (om_hash st) (n, nd_ptr nd))" "realloc_ok ra" "lh_error (om_hash st') = 0"
  shows "hash_rel (insert n U) st'" "blocks_used st' = (blocks_used st)(nd_ptr nd \<mapsto> nd_size nd)" "blocks_used st (nd_ptr nd) = None"
proof -
  have i: "hash_inv MIN_NODES op_mem_hash op_mem_compare snd (om_hash st)" using rel by (simp add: hash_rel_def)
  obtain old h' where r: "op_hash_insert ra ca (om_hash st) (n, nd_ptr nd) = (old, h')" by fastforce
  have s: "hash_inv MIN_NODES op_mem_hash op_mem_compare snd (om_hash st')"
    "hash_abs snd (om_hash st') = (hash_abs snd (om_hash st))(nd_ptr nd \<mapsto> (n, nd_ptr nd))"
    using mems.insert_spec [OF i h(2) r] h(1,3) r by auto
  note k = hash_relD [OF rel]
  show "hash_rel (insert n U) st'" using rel s n unfolding hash_rel_def by (auto split: if_splits)
  have e: "om_nodes st' (fst x) = om_nodes st (fst x)" if "hash_abs snd (om_hash st) p = Some x" for p x using k [OF that] n(3) by simp
  show "blocks_used st' = (blocks_used st)(nd_ptr nd \<mapsto> nd_size nd)"
    by (rule ext) (auto simp: blocks_used_def s(2) n(2) e bind_eq_None_conv split: bind_split)
  show "blocks_used st (nd_ptr nd) = None"
    using k [of "nd_ptr nd"] n(4) by (cases "hash_abs snd (om_hash st) (nd_ptr nd)") (auto simp: blocks_used_def)
qed

lemma hash_back:
  assumes rel: "hash_rel U st" and n: "n \<in> U" "om_nodes st n = Some nd" "\<And>m. m \<in> U \<Longrightarrow> m \<noteq> n \<Longrightarrow> om_nodes st' m = om_nodes st m"
    and h: "om_hash st' = snd (op_hash_delete ra h (n, nd_ptr nd))" "\<And>k. k < 2 ^ 32 \<Longrightarrow> ra k"
      "hash_inv MIN_NODES op_mem_hash op_mem_compare snd h" "hash_abs snd h = hash_abs snd (om_hash st)"
  shows "hash_rel (U - {n}) st'" "blocks_used st' = (blocks_used st)(nd_ptr nd := None)"
proof -
  obtain old h' where r: "op_hash_delete ra h (n, nd_ptr nd) = (old, h')" by fastforce
  have s: "hash_inv MIN_NODES op_mem_hash op_mem_compare snd (om_hash st')"
    "hash_abs snd (om_hash st') = (hash_abs snd (om_hash st))(nd_ptr nd := None)"
    using mems.delete_spec(1,3) [OF h(3) _ _ r [unfolded op_hash_delete_def]] h r by (simp_all add: MIN_NODES_def)
  note k = hash_relD [OF rel]
  have o: "p \<noteq> nd_ptr nd \<Longrightarrow> fst x \<noteq> n" if "hash_abs snd (om_hash st) p = Some x" for p x using k [OF that] n(2) by auto
  have u: "nd_ptr md \<noteq> nd_ptr nd" if "m \<in> U" "m \<noteq> n" "om_nodes st m = Some md" for m md
    using hash_rel_ptr [OF rel, of m n] that n(1,2) by auto
  show "hash_rel (U - {n}) st'" unfolding hash_rel_def
  proof (intro conjI allI ballI impI)
    fix p x assume "hash_abs snd (om_hash st') p = Some x"
    then have x: "hash_abs snd (om_hash st) p = Some x" "p \<noteq> nd_ptr nd" using s(2) by (auto split: if_splits)
    show "snd x = p" "fst x \<in> U - {n}" "\<exists>nd. om_nodes st' (fst x) = Some nd \<and> nd_ptr nd = p"
      using k [OF x(1)] o [OF x] n(3) by auto
  next
    fix m md assume m: "m \<in> U - {n}" "om_nodes st' m = Some md"
    then have "om_nodes st m = Some md" using n(3) by auto
    then show "hash_abs snd (om_hash st') (nd_ptr md) = Some (m, nd_ptr md)" using rel m u s(2) unfolding hash_rel_def by auto
  qed (fact s(1))
  show "blocks_used st' = (blocks_used st)(nd_ptr nd := None)"
  proof
    fix p
    show "blocks_used st' p = ((blocks_used st)(nd_ptr nd := None)) p"
    proof (cases "hash_abs snd (om_hash st) p")
      case (Some x)
      then show ?thesis using o [OF Some] k [OF Some] n(3) [of "fst x"] by (auto simp: blocks_used_def s(2))
    qed (auto simp: blocks_used_def s(2))
  qed
qed

end
