(* ===== verification/Op_Mem_Spec.thy ===== *)
theory Op_Mem_Spec
  imports Op_Mem
begin

text \<open>
  The memory pools as an allocator: the start, \<^verbatim>\<open>op_malloc\<close>, \<^verbatim>\<open>op_free\<close>, \<^verbatim>\<open>op_realloc\<close> and the release of regions
  against the abstract view \<^const>\<open>blocks_used\<close>, the blocks in use with their sizes.
\<close>

section \<open>Taking a block\<close>

text \<open>A block of \<open>k\<close> bytes at \<open>p\<close> is new: it is apart from every block in use.\<close>

definition block_new :: "op_mem_info \<Rightarrow> nat \<Rightarrow> nat \<Rightarrow> op_mem_info \<Rightarrow> bool" where
  "block_new st p k st' \<longleftrightarrow> mem_ok st' \<and> blocks_used st p = None \<and> blocks_used st' = (blocks_used st)(p \<mapsto> k) \<and>
     (\<forall>q l. blocks_used st q = Some l \<longrightarrow> {p..<p + k} \<inter> {q..<q + l} = {})"

lemma block_newI:
  assumes "pool_inv (insert n U) st'" "hash_rel U st" "n \<notin> U" "om_nodes st' n = Some nd" "\<And>m. m \<in> U \<Longrightarrow> om_nodes st' m = om_nodes st m"
    and h: "om_hash st' = snd (op_hash_insert ra ca (om_hash st) (n, nd_ptr nd))" "realloc_ok ra" "lh_error (om_hash st') = 0"
  shows "block_new st (nd_ptr nd) (nd_size nd) st'"
proof -
  have d: "rng nd \<inter> rng md = {}" if "m \<in> U" "om_nodes st m = Some md" for m md
  proof -
    have "m \<noteq> n" "om_nodes st' m = Some md" using that assms(3,5) by auto
    then show ?thesis using assms(1,4) that(1) unfolding pool_inv_def apart_def by blast
  qed
  have "nd_ptr md \<noteq> nd_ptr nd" if "m \<in> U" "om_nodes st m = Some md" for m md
  proof
    assume "nd_ptr md = nd_ptr nd"
    moreover have "0 < nd_size md" "0 < nd_size nd" using rng_pos [OF assms(1), of m md] rng_pos [OF assms(1), of n nd] that assms(4,5) by simp_all
    ultimately have "nd_ptr nd \<in> rng nd \<inter> rng md" by (simp add: rng_def)
    then show False using d [OF that] by simp
  qed
  note t = hash_take [OF assms(2-5) this h]
  have "{nd_ptr nd..<nd_ptr nd + nd_size nd} \<inter> {q..<q + l} = {}" if q: "blocks_used st q = Some l" for q l
  proof -
    obtain m md where "m \<in> U" "om_nodes st m = Some md" "nd_ptr md = q" "nd_size md = l" using q blocks_used_iff [OF assms(2)] by blast
    then show ?thesis using d [of m md] by (simp add: rng_def)
  qed
  then show ?thesis using t assms(1) by (auto simp: block_new_def mem_ok_def)
qed

lemma hash_rel_same:
  assumes "hash_rel U st" "om_hash st' = om_hash st" "\<And>n. n \<in> U \<Longrightarrow> om_nodes st' n = om_nodes st n"
  shows "hash_rel U st'" "blocks_used st' = blocks_used st"
proof -
  note e = assms(3)
  have "snd x = p \<and> fst x \<in> U \<and> (\<exists>nd. om_nodes st' (fst x) = Some nd \<and> nd_ptr nd = p)" if "hash_abs snd (om_hash st) p = Some x" for p x
    using hash_relD [OF assms(1) that] e by simp
  then show "hash_rel U st'" using assms(1,2) e by (simp add: hash_rel_def)
  have "om_nodes st' (fst x) = om_nodes st (fst x)" if "hash_abs snd (om_hash st) p = Some x" for p x using e hash_relD [OF assms(1) that] by simp
  then show "blocks_used st' = blocks_used st"
    by (intro ext) (auto simp: blocks_used_def assms(2) split: bind_splits)
qed

lemma hash_rel_grown:
  assumes "hash_rel U st" "used_ok U st" "om_hash st' = om_hash st" "\<And>n nd. om_nodes st n = Some nd \<Longrightarrow> om_nodes st' n = Some nd"
  shows "hash_rel U st'" "blocks_used st' = blocks_used st"
proof -
  have "om_nodes st' n = om_nodes st n" if n: "n \<in> U" for n
  proof -
    obtain nd where "om_nodes st n = Some nd" using assms(2) n unfolding used_ok_def by blast
    then show ?thesis using assms(4) [of n nd] by simp
  qed
  note h = hash_rel_same [OF assms(1,3) this]
  show "hash_rel U st'" "blocks_used st' = blocks_used st" by (rule h; assumption)+
qed

lemma take_node_ok:
  assumes inv: "pool_inv U st" "hash_rel U st" and i: "i \<in> pools" "ma_list (om_ele st i) \<noteq> []" and ra: "realloc_ok (me_ra en)"
  shows "\<exists>p st'. take_node en i st = Some (p, st') \<and> (lh_error (om_hash st') = 0 \<longrightarrow> block_new st p (ele_size i) st')"
proof -
  obtain n ns where l: "ma_list (om_ele st i) = n # ns" using i(2) by (cases "ma_list (om_ele st i)") auto
  then obtain nd where nd: "om_nodes st n = Some nd" "pool_node st i nd" using inv(1) i(1) by (fastforce simp: pool_inv_def lists_ok_def)
  then obtain f fa where f: "nd_father nd = Some f" "om_fathers st f = Some fa" "nd_size nd = ele_size i" by (auto simp: pool_node_def)
  define st' where "st' = use_node en i n ns nd fa st"
  have t: "take_node en i st = Some (nd_ptr nd, st')" using l nd f by (simp add: take_node_def st'_def)
  have s: "om_nodes st' = om_nodes st" "om_blocks st' = om_blocks st" "om_father_list st' = om_father_list st"
      "om_fathers st' = (om_fathers st)(f \<mapsto> fa\<lparr>fa_used_size := fa_used_size fa + nd_size nd\<rparr>)"
      "ma_list (om_ele st' i) = ns" "\<And>k. k \<noteq> i \<Longrightarrow> ma_list (om_ele st' k) = ma_list (om_ele st k)"
      "om_hash st' = snd (op_hash_insert (me_ra en) (me_ca en) (om_hash st) (n, nd_ptr nd))"
    using f(1) by (simp_all add: st'_def use_node_fields)
  note p = take_pool [OF inv(1) i(1) l nd(1) f(1,2) s(1-6)]
  have "block_new st (nd_ptr nd) (ele_size i) st'" if "lh_error (om_hash st') = 0"
    using block_newI [OF p(1) inv(2) p(2) _ _ s(7) ra that] nd(1) s(1) f(3) by simp
  then show ?thesis using t by simp
qed

text \<open>What the allocator must give for a request: the block, or what an empty pool needs.\<close>

definition enough :: "mem_env \<Rightarrow> nat \<Rightarrow> op_mem_info \<Rightarrow> bool" where
  "enough en sz st \<longleftrightarrow>
     (if sz > OP_MEM_MAX_SIZE then block_fresh en sz st \<and> nodes_fresh en 1 st
      else \<forall>i. op_mem_get_list sz = Some i \<and> ma_list (om_ele st i) = [] \<longrightarrow> gives en i st)"

lemma malloc_spec:
  assumes "mem_ok st" "enough en sz st" "realloc_ok (me_ra en)"
  shows "\<exists>p k st'. op_malloc en sz (Some st) = Some (Some p, Some st') \<and> sz \<le> k \<and> (lh_error (om_hash st') = 0 \<longrightarrow> block_new st p k st')"
proof -
  obtain U where U: "pool_inv U st" "hash_rel U st" using assms(1) by (auto simp: mem_ok_def)
  have "\<exists>p k st'. op_malloc_pool en sz st = Some (Some p, st') \<and> sz \<le> k \<and> (lh_error (om_hash st') = 0 \<longrightarrow> block_new st p k st')"
  proof (cases "sz > OP_MEM_MAX_SIZE")
    case True
    then obtain p n where e: "me_block en = Some p" "\<And>b k. (b, k) \<in> om_blocks st \<Longrightarrow> {p..<p + sz} \<inter> {b..<b + k} = {}"
      "me_nodes en 0 = Some n" "om_nodes st n = None" using assms(2) by (auto simp: enough_def block_fresh_def nodes_fresh_def)
    let ?nd = "\<lparr>nd_ptr = p, nd_size = sz, nd_index = 0, nd_father = None\<rparr>"
    define st' where "st' = put_system en n p sz st"
    have t: "op_malloc_pool en sz st = Some (Some p, st')" using True e(1,3) by (simp add: op_malloc_pool_def op_malloc_system_def st'_def)
    have s: "om_nodes st' = (om_nodes st)(n \<mapsto> ?nd)" "om_blocks st' = insert (p, sz) (om_blocks st)" "om_father_list st' = om_father_list st"
        "om_fathers st' = om_fathers st" "\<And>k. k \<in> pools \<Longrightarrow> ma_list (om_ele st' k) = ma_list (om_ele st k)"
        "om_hash st' = snd (op_hash_insert (me_ra en) (me_ca en) (om_hash st) (n, p))"
      by (simp_all add: st'_def put_system_fields)
    have o: "n \<notin> U" using node_known [OF U(1), of n] e(4) by auto
    have "block_new st (nd_ptr ?nd) (nd_size ?nd) st'" if "lh_error (om_hash st') = 0"
      by (rule block_newI [OF system_take [OF U(1) e(4) True _ s(1-5)] U(2) o]) (use e(2) s(1,6) o that assms(3) in auto)
    then show ?thesis using t by auto
  next
    case False
    then obtain i where i: "op_mem_get_list sz = Some i" "i \<in> pools" "sz \<le> ele_size i" using get_list_small [of sz] by auto
    obtain st1 where g: "(if ma_list (om_ele st i) = [] then pool_grow en i st else (True, st)) = (True, st1)" "pool_inv U st1"
        "ma_list (om_ele st1 i) \<noteq> []" "om_hash st1 = om_hash st" "\<And>n nd. om_nodes st n = Some nd \<Longrightarrow> om_nodes st1 n = Some nd"
      using pool_grow_ok [OF U(1) i(2), of en] assms(2) False i(1) U(1) by (cases "ma_list (om_ele st i) = []") (auto simp: enough_def)
    have "used_ok U st" using U(1) by (simp add: pool_inv_def)
    note h = hash_rel_grown [OF U(2) this g(4,5)]
    obtain p st' where "take_node en i st1 = Some (p, st')" "lh_error (om_hash st') = 0 \<longrightarrow> block_new st1 p (ele_size i) st'"
      using take_node_ok [OF g(2) h(1) i(2) g(3) assms(3)] by auto
    then show ?thesis using g(1) i h(2) False by (auto simp: op_malloc_pool_def block_new_def)
  qed
  then show ?thesis by (auto simp: op_malloc_def)
qed

text \<open>
  C4: The pools are an allocator.  When the system gives what is needed, \<^verbatim>\<open>op_malloc\<close> returns the address of a block of at least the
  requested size that is apart from every block in use, the block is in use then, and the pools are well formed as before.
\<close>
theorem op_malloc_refines:
  assumes "mem_ok st" "enough en sz st" "realloc_ok (me_ra en)"
  shows "\<exists>p st'. op_malloc en sz (Some st) = Some (Some p, Some st') \<and>
    (lh_error (om_hash st') = 0 \<longrightarrow> (\<exists>k\<ge>sz. mem_ok st' \<and> blocks_used st p = None \<and> blocks_used st' = (blocks_used st)(p \<mapsto> k) \<and>
      (\<forall>q l. blocks_used st q = Some l \<longrightarrow> {p..<p + k} \<inter> {q..<q + l} = {})))"
  using malloc_spec [OF assms] unfolding block_new_def by auto

section \<open>Giving back\<close>

lemma pool_inv_hash [simp]: "pool_inv U (st\<lparr>om_hash := h\<rparr>) = pool_inv U st"
  by (simp add: pool_inv_def lists_ok_def used_ok_def apart_def inside_def fathers_ok_def of_father_def frees_def pool_node_def)

lemma retrieve_mem:
  assumes "hash_rel U st"
  shows "fst (op_hash_retrieve (om_hash st) (0, p)) = hash_abs snd (om_hash st) p"
    "hash_inv MIN_NODES op_mem_hash op_mem_compare snd (snd (op_hash_retrieve (om_hash st) (0, p)))"
    "hash_abs snd (snd (op_hash_retrieve (om_hash st) (0, p))) = hash_abs snd (om_hash st)"
  using mems.retrieve_spec [of MIN_NODES "om_hash st" "(0, p)"] assms by (simp_all add: hash_rel_def)

text \<open>What \<^verbatim>\<open>op_free\<close> does with the node it finds.\<close>

lemma free_node:
  assumes U: "pool_inv U st" "hash_rel U st" "n \<in> U" and nd: "om_nodes st n = Some nd" "nd_ptr nd = p" and ra: "\<And>k. k < 2 ^ 32 \<Longrightarrow> ra k"
    and h: "op_hash_retrieve (om_hash st) (0, p) = (Some (n, p), h)"
  shows "\<exists>st'. free_pool ra p st = Some st' \<and> pool_inv (U - {n}) st' \<and> om_hash st' = snd (op_hash_delete ra h (n, p)) \<and>
    (\<forall>m. m \<noteq> n \<longrightarrow> om_nodes st' m = om_nodes st m)"
proof (cases "nd_size nd > OP_MEM_MAX_SIZE")
  case True
  let ?st = "drop_system ra n nd p (st\<lparr>om_hash := h\<rparr>)"
  have "free_pool ra p st = Some ?st" using True nd by (simp add: free_pool_def h)
  moreover have "pool_inv (U - {n}) ?st" by (rule system_back [OF U(1,3) nd(1) True]) (simp_all add: drop_system_fields nd(2))
  ultimately show ?thesis by (simp add: drop_system_fields nd(2))
next
  case False
  have "\<exists>nd. om_nodes st n = Some nd \<and> (nd_father nd = None \<and> nd_size nd > OP_MEM_MAX_SIZE \<or> (\<exists>i\<in>pools. pool_node st i nd))"
    using U(1,3) by (simp add: pool_inv_def used_ok_def)
  then obtain i f fa where i: "i \<in> pools" "nd_father nd = Some f" "om_fathers st f = Some fa" "fa_ele fa = i" "nd_size nd = ele_size i"
    using nd(1) False by (auto simp: pool_node_def)
  note g = ele_facts(4) [OF i(1)]
  let ?st = "put_node ra i n nd fa (st\<lparr>om_hash := h\<rparr>)"
  have "free_pool ra p st = Some ?st" using False nd i(2,3,5) g by (simp add: free_pool_def h)
  moreover have "pool_inv (U - {n}) ?st"
    by (rule back_pool [OF U(1) i(1) U(3) nd(1) i(2-5)]) (simp_all add: put_node_fields i(2))
  ultimately show ?thesis by (simp add: put_node_fields nd(2))
qed


text \<open>
  C40: \<^verbatim>\<open>op_realloc\<close> never returns a block.  On the address of a block in use, when there is memory for the new block, the result is
  \<^verbatim>\<open>NULL\<close> although a new block is in use, and the old one still is; when there is none, the contents are copied to the null pointer.
\<close>
theorem op_realloc_fails:
  assumes "mem_ok st" "blocks_used st p = Some k"
  shows "(\<forall>r self. op_realloc en p sz (Some st) = Some (r, self) \<longrightarrow> r = None) \<and>
    (realloc_ok (me_ra en) \<and> enough en ((k + sz) mod 2 ^ 64) st \<longrightarrow>
      (\<exists>st'. op_realloc en p sz (Some st) = Some (None, Some st') \<and>
        (lh_error (om_hash st') = 0 \<longrightarrow> (\<exists>q l. q \<noteq> p \<and> blocks_used st' = (blocks_used st)(q \<mapsto> l)))))"
proof -
  obtain U where U: "pool_inv U st" "hash_rel U st" using assms(1) by (auto simp: mem_ok_def)
  obtain r h where rh: "op_hash_retrieve (om_hash st) (0, p) = (r, h)" by fastforce
  have h: "r = hash_abs snd (om_hash st) p" "hash_inv MIN_NODES op_mem_hash op_mem_compare snd h" "hash_abs snd h = hash_abs snd (om_hash st)"
    using retrieve_mem [OF U(2), of p] rh by simp_all
  obtain n nd where n: "r = Some (n, p)" "om_nodes st n = Some nd" "nd_size nd = k"
    using assms(2) h(1) hash_relD [OF U(2), of p] by (auto simp: blocks_used_def bind_eq_Some_conv)
  let ?st = "st\<lparr>om_hash := h\<rparr>"
  have rel: "hash_rel U ?st" using U(2) h(2,3) by (simp add: hash_rel_def)
  have b: "blocks_used ?st = blocks_used st" using h(3) by (auto simp: blocks_used_def)
  have m: "mem_ok ?st" using U(1) rel by (auto simp: mem_ok_def)
  have e: "op_realloc en p sz (Some st) = (case op_malloc en ((k + sz) mod 2 ^ 64) (Some ?st) of Some (Some out, st') \<Rightarrow> Some (None, st') | _ \<Rightarrow> None)"
    using rh n by (simp add: op_realloc_def op_calloc_def)
  have en: "enough en s ?st = enough en s st" for s by (simp add: enough_def gives_defs)
  let ?s = "(k + sz) mod 2 ^ 64"
  have "\<exists>st'. op_realloc en p sz (Some st) = Some (None, Some st') \<and>
        (lh_error (om_hash st') = 0 \<longrightarrow> (\<exists>q l. q \<noteq> p \<and> blocks_used st' = (blocks_used st)(q \<mapsto> l)))"
    if a: "realloc_ok (me_ra en)" "enough en ?s st"
  proof -
    have "enough en ?s ?st" using a(2) by (simp only: en)
    then obtain q l st' where q: "op_malloc en ?s (Some ?st) = Some (Some q, Some st')" "lh_error (om_hash st') = 0 \<longrightarrow> block_new ?st q l st'"
      using malloc_spec [OF m _ a(1), of ?s] by auto
    have "\<exists>q l. q \<noteq> p \<and> blocks_used st' = (blocks_used st)(q \<mapsto> l)" if "lh_error (om_hash st') = 0"
    proof -
      have n: "block_new ?st q l st'" using q(2) that by blast
      have "q \<noteq> p" "blocks_used st' = (blocks_used st)(q \<mapsto> l)" using n assms(2) b by (auto simp: block_new_def)
      then show ?thesis by blast
    qed
    then show ?thesis unfolding e q(1) by simp
  qed
  moreover have "r = None" if "op_realloc en p sz (Some st) = Some (r, self)" for r self
    using that unfolding e by (cases "op_malloc en ?s (Some ?st)") (auto split: option.splits)
  ultimately show ?thesis by blast
qed

section \<open>Releasing regions\<close>

text \<open>A free node leaves its pool.\<close>

lemma drop_node_ok:
  assumes inv: "pool_inv U st" and i: "i \<in> pools" "n \<in> set (ma_list (om_ele st i))" and f: "om_fathers st f = Some fa" "fa_ele fa = i"
    and nd: "om_nodes st n = Some nd" "nd_father nd = Some f"
  shows "\<exists>st'. drop_node f n st = Some st' \<and> pool_inv U st' \<and> om_nodes st' = (om_nodes st)(n := None) \<and> om_fathers st' = om_fathers st \<and>
    om_father_list st' = om_father_list st \<and> om_blocks st' = om_blocks st \<and> om_hash st' = om_hash st \<and>
    ma_list (om_ele st' i) = remove1 n (ma_list (om_ele st i)) \<and> (\<forall>k. k \<noteq> i \<longrightarrow> ma_list (om_ele st' k) = ma_list (om_ele st k))"
proof -
  define st' where "st' = the (drop_node f n st)"
  have t: "drop_node f n st = Some st'" using nd f by (simp add: st'_def drop_node_def)
  have e: "om_nodes st' = (om_nodes st)(n := None)" "om_fathers st' = om_fathers st" "om_father_list st' = om_father_list st"
      "om_blocks st' = om_blocks st" "om_hash st' = om_hash st"
      "ma_list (om_ele st' i) = remove1 n (ma_list (om_ele st i))" "\<And>k. k \<noteq> i \<Longrightarrow> ma_list (om_ele st' k) = ma_list (om_ele st k)"
    using nd f by (simp_all add: st'_def drop_node_def)
  have l: "lists_ok U st" "used_ok U st" "apart U st" "inside U st" "fathers_ok U st" using inv by (simp_all add: pool_inv_def)
  have p: "pool_node st' k md = pool_node st k md" for k md using e(2) by (rule pool_node_father)
  have nU: "n \<notin> U" using l(1) i by (auto simp: lists_ok_def)
  have own: "k = i" if "k \<in> pools" "n \<in> set (ma_list (om_ele st k))" for k
  proof -
    have "pool_node st k nd" using l(1) that nd(1) by (fastforce simp: lists_ok_def)
    then show ?thesis using nd(2) f by (simp add: pool_node_def)
  qed
  have di: "distinct (ma_list (om_ele st i))" using l(1) i(1) by (simp add: lists_ok_def)
  have lst: "distinct (ma_list (om_ele st' k)) \<and> set (ma_list (om_ele st' k)) \<subseteq> set (ma_list (om_ele st k)) - {n}" if k: "k \<in> pools" for k
  proof (cases "k = i")
    case True
    then show ?thesis using di e(6) by simp
  next
    case False
    then have "n \<notin> set (ma_list (om_ele st k))" "distinct (ma_list (om_ele st k))" using own [OF k] l(1) k by (auto simp: lists_ok_def)
    then show ?thesis using e(7) [OF False] by simp
  qed
  have fr: "frees st' \<subseteq> frees st" "n \<notin> frees st'" using lst unfolding frees_def by blast+
  have nodes: "om_nodes st m = Some md" if "om_nodes st' m = Some md" for m md using that e(1) by (auto split: if_splits)
  have "lists_ok U st'" unfolding lists_ok_def p
  proof (intro ballI conjI)
    fix k m assume k: "k \<in> pools" "m \<in> set (ma_list (om_ele st' k))"
    then have "m \<noteq> n" "m \<in> set (ma_list (om_ele st k))" using lst [OF k(1)] by auto
    then show "m \<notin> U" "\<exists>md. om_nodes st' m = Some md \<and> pool_node st k md" using l(1) k(1) e(1) by (auto simp: lists_ok_def)
  qed (use lst in blast)
  moreover have "used_ok U st'" using l(2) nU unfolding used_ok_def p e(1) by auto
  moreover have "apart U st'" using l(3) fr(1) nodes unfolding apart_def by blast
  moreover have "inside U st'" using l(4) fr(1) nodes unfolding inside_def e(4) by blast
  moreover have "of_father U st' g = of_father U st g" for g using nU by (auto simp: of_father_def e(1))
  then have "fathers_ok U st'" using l(5) by (simp add: fathers_ok_def e(2,3))
  ultimately show ?thesis using t e by (simp add: pool_inv_def)
qed

text \<open>The nodes of region \<open>f\<close> among \<open>ns\<close>.\<close>

definition nodes_of :: "nat \<Rightarrow> nat list \<Rightarrow> op_mem_info \<Rightarrow> nat set" where
  "nodes_of f ns st = {m \<in> set ns. \<exists>nd. om_nodes st m = Some nd \<and> nd_father nd = Some f}"

lemma drop_nodes_ok:
  assumes "pool_inv U st" "i \<in> pools" "set ns \<subseteq> set (ma_list (om_ele st i))" "distinct ns" "om_fathers st f = Some fa" "fa_ele fa = i"
  shows "\<exists>st'. drop_nodes f ns st = Some st' \<and> pool_inv U st' \<and> om_fathers st' = om_fathers st \<and> om_father_list st' = om_father_list st \<and>
    om_blocks st' = om_blocks st \<and> om_hash st' = om_hash st \<and> (\<forall>m. m \<notin> nodes_of f ns st \<longrightarrow> om_nodes st' m = om_nodes st m) \<and>
    set (ma_list (om_ele st' i)) = set (ma_list (om_ele st i)) - nodes_of f ns st \<and> (\<forall>k. k \<noteq> i \<longrightarrow> ma_list (om_ele st' k) = ma_list (om_ele st k))"
  using assms
proof (induction ns arbitrary: st)
  case Nil
  then show ?case by (simp add: nodes_of_def)
next
  case (Cons n ns)
  have inv: "pool_inv U st" and n: "n \<in> set (ma_list (om_ele st i))" "n \<notin> set ns" using Cons.prems by simp_all
  then obtain nd where nd: "om_nodes st n = Some nd" using node_known [OF inv, of n] Cons.prems(2) by (auto simp: frees_def)
  show ?case
  proof (cases "nd_father nd = Some f")
    case False
    then have "drop_node f n st = Some st" "nodes_of f (n # ns) st = nodes_of f ns st" using nd by (auto simp: drop_node_def nodes_of_def)
    then show ?thesis using Cons.IH [of st] Cons.prems by simp
  next
    case True
    obtain s where s: "drop_node f n st = Some s" "pool_inv U s" "om_nodes s = (om_nodes st)(n := None)" "om_fathers s = om_fathers st"
      "om_father_list s = om_father_list st" "om_blocks s = om_blocks st" "om_hash s = om_hash st"
      "ma_list (om_ele s i) = remove1 n (ma_list (om_ele st i))" "\<And>k. k \<noteq> i \<Longrightarrow> ma_list (om_ele s k) = ma_list (om_ele st k)"
      using drop_node_ok [OF inv Cons.prems(2) n(1) Cons.prems(5,6) nd True] by blast
    have "distinct (ma_list (om_ele st i))" using inv Cons.prems(2) by (simp add: pool_inv_def lists_ok_def)
    then have l: "set (ma_list (om_ele s i)) = set (ma_list (om_ele st i)) - {n}" using s(8) by simp
    have no: "nodes_of f (n # ns) st = insert n (nodes_of f ns s)" using nd True n(2) by (auto simp: nodes_of_def s(3))
    have "set ns \<subseteq> set (ma_list (om_ele s i))" using Cons.prems(3) n(2) l by auto
    moreover have "distinct ns" "om_fathers s f = Some fa" using Cons.prems(4,5) s(4) by simp_all
    ultimately obtain s' where t: "drop_nodes f ns s = Some s'" "pool_inv U s'" "om_fathers s' = om_fathers s" "om_father_list s' = om_father_list s"
      "om_blocks s' = om_blocks s" "om_hash s' = om_hash s" "\<And>m. m \<notin> nodes_of f ns s \<Longrightarrow> om_nodes s' m = om_nodes s m"
      "set (ma_list (om_ele s' i)) = set (ma_list (om_ele s i)) - nodes_of f ns s" "\<And>k. k \<noteq> i \<Longrightarrow> ma_list (om_ele s' k) = ma_list (om_ele s k)"
      using Cons.IH [OF s(2) Cons.prems(2)] Cons.prems(6) by blast
    have "om_nodes s' m = om_nodes st m" if "m \<notin> nodes_of f (n # ns) st" for m using that t(7) [of m] no s(3) by simp
    moreover have "set (ma_list (om_ele s' i)) = set (ma_list (om_ele st i)) - nodes_of f (n # ns) st" using t(8) l no by auto
    moreover have "drop_nodes f (n # ns) st = Some s'" by (simp add: s(1) t(1))
    ultimately show ?thesis using t(2-6,9) s(4-7,9) by simp
  qed
qed

definition can_go :: "mem_father_node \<Rightarrow> bool" where
  "can_go fa \<longleftrightarrow> fa_type fa \<noteq> OPMEM_CANNOT_FREE \<and> fa_used_size fa = 0"

text \<open>A region without nodes leaves the list.\<close>

lemma drop_region:
  assumes inv: "pool_inv U st" and f: "om_fathers st f = Some fa" and no: "\<And>m nd. m \<in> U \<union> frees st \<Longrightarrow> om_nodes st m = Some nd \<Longrightarrow> nd_father nd \<noteq> Some f"
  shows "pool_inv U (st\<lparr>om_father_list := remove1 f (om_father_list st), om_fathers := (om_fathers st)(f := None)\<rparr>)" (is "pool_inv U ?st")
proof -
  have l: "lists_ok U st" "used_ok U st" "apart U st" "inside U st" "fathers_ok U st" using inv by (simp_all add: pool_inv_def)
  have fr: "frees ?st = frees st" by (simp add: frees_def)
  have p: "pool_node ?st k nd" if "m \<in> U \<union> frees st" "om_nodes st m = Some nd" "pool_node st k nd" for m k nd
    using that(3) no [OF that(1,2)] by (auto simp: pool_node_def)
  have "lists_ok U ?st" unfolding lists_ok_def
  proof (intro ballI conjI)
    fix k m assume k: "k \<in> pools" "m \<in> set (ma_list (om_ele ?st k))"
    then have m: "m \<in> U \<union> frees st" by (auto simp: frees_def)
    obtain nd where nd: "m \<notin> U" "om_nodes st m = Some nd" "pool_node st k nd" using l(1) k unfolding lists_ok_def by auto
    show "m \<notin> U" "\<exists>nd. om_nodes ?st m = Some nd \<and> pool_node ?st k nd" using nd p [OF m nd(2,3)] by simp_all
  qed (use l(1) in \<open>simp add: lists_ok_def\<close>)
  moreover have "used_ok U ?st" unfolding used_ok_def
  proof
    fix m assume m: "m \<in> U"
    then obtain nd where nd: "om_nodes st m = Some nd" "nd_father nd = None \<and> nd_size nd > OP_MEM_MAX_SIZE \<or> (\<exists>i\<in>pools. pool_node st i nd)"
      using l(2) unfolding used_ok_def by blast
    then show "\<exists>nd. om_nodes ?st m = Some nd \<and> (nd_father nd = None \<and> nd_size nd > OP_MEM_MAX_SIZE \<or> (\<exists>i\<in>pools. pool_node ?st i nd))"
      using p [of m nd] m by auto
  qed
  moreover have "apart U ?st" using l(3) unfolding apart_def fr by simp
  moreover have "inside U ?st" using l(4) unfolding inside_def fr by simp
  moreover have "of_father U ?st g = of_father U st g" for g by (simp add: of_father_def)
  then have "fathers_ok U ?st" using l(5) by (auto simp: fathers_ok_def)
  ultimately show ?thesis by (simp add: pool_inv_def)
qed

lemma release_father_ok:
  assumes inv: "pool_inv U st" and f: "om_fathers st f = Some fa"
  shows "\<exists>st'. release_father f st = Some st' \<and> pool_inv U st' \<and> om_blocks st' = om_blocks st \<and> om_hash st' = om_hash st \<and>
    (\<forall>m\<in>U. om_nodes st' m = om_nodes st m) \<and>
    om_fathers st' = (if can_go fa then (om_fathers st)(f := None) else om_fathers st)"
proof (cases "can_go fa")
  case False
  then show ?thesis using inv f by (auto simp: release_father_def can_go_def)
next
  case True
  let ?i = "fa_ele fa"
  let ?ns = "ma_list (om_ele st ?i)"
  have l: "lists_ok U st" "fathers_ok U st" using inv by (simp_all add: pool_inv_def)
  have i: "?i \<in> pools" "fa_used_size fa = ele_size ?i * card (of_father U st f)" "finite U" using l(2) f by (simp_all add: fathers_ok_def)
  have "finite (of_father U st f)" using i(3) by (simp add: of_father_def)
  then have u: "of_father U st f = {}" using i(2) True ele_facts(1) [OF i(1)] by (simp add: can_go_def)
  have d: "distinct ?ns" using l(1) i(1) by (simp add: lists_ok_def)
  obtain s where s: "drop_nodes f ?ns st = Some s" "pool_inv U s" "om_fathers s = om_fathers st" "om_father_list s = om_father_list st"
      "om_blocks s = om_blocks st" "om_hash s = om_hash st" "\<And>m. m \<notin> nodes_of f ?ns st \<Longrightarrow> om_nodes s m = om_nodes st m"
      "set (ma_list (om_ele s ?i)) = set ?ns - nodes_of f ?ns st" "\<And>k. k \<noteq> ?i \<Longrightarrow> ma_list (om_ele s k) = ma_list (om_ele st k)"
    using drop_nodes_ok [OF inv i(1) subset_refl d f refl] by blast
  have nU: "m \<notin> nodes_of f ?ns st" if "m \<in> U" for m using l(1) i(1) that by (auto simp: lists_ok_def nodes_of_def)
  have "nd_father nd \<noteq> Some f" if m: "m \<in> U \<union> frees s" and nd: "om_nodes s m = Some nd" for m nd
  proof (cases "m \<in> U")
    case True
    then show ?thesis using u nd s(7) [OF nU [OF True]] by (auto simp: of_father_def)
  next
    case False
    then obtain k where k: "k \<in> pools" "m \<in> set (ma_list (om_ele s k))" using m by (auto simp: frees_def)
    then have "pool_node s k nd" using s(2) nd by (fastforce simp: pool_inv_def lists_ok_def)
    moreover have "m \<notin> nodes_of f ?ns st" "m \<in> set ?ns" if "k = ?i" using that k(2) s(8) by auto
    ultimately show ?thesis using f s(3) s(7) [of m] nd by (cases "k = ?i") (auto simp: pool_node_def nodes_of_def)
  qed
  note dr = drop_region [OF s(2) _ this, of fa]
  have "release_father f st = Some (s\<lparr>om_father_list := remove1 f (om_father_list s), om_fathers := (om_fathers s)(f := None)\<rparr>)"
    using f True s(1) by (simp add: release_father_def can_go_def)
  then show ?thesis using dr f s(3,5,6,7) nU True by simp
qed

lemma release_fathers_ok:
  assumes "pool_inv U st" "distinct fs" "set fs \<subseteq> dom (om_fathers st)"
  shows "\<exists>st'. release_fathers fs st = Some st' \<and> pool_inv U st' \<and> om_blocks st' = om_blocks st \<and> om_hash st' = om_hash st \<and>
    (\<forall>m\<in>U. om_nodes st' m = om_nodes st m) \<and>
    (\<forall>g. om_fathers st' g = (case om_fathers st g of Some fa \<Rightarrow> if g \<in> set fs \<and> can_go fa then None else Some fa | None \<Rightarrow> None))"
  using assms
proof (induction fs arbitrary: st)
  case Nil
  then show ?case by (simp split: option.split)
next
  case (Cons f fs)
  obtain fa where f: "om_fathers st f = Some fa" using Cons.prems(3) by auto
  obtain s where s: "release_father f st = Some s" "pool_inv U s" "om_blocks s = om_blocks st" "om_hash s = om_hash st"
      "\<forall>m\<in>U. om_nodes s m = om_nodes st m" "om_fathers s = (if can_go fa then (om_fathers st)(f := None) else om_fathers st)"
    using release_father_ok [OF Cons.prems(1) f] by blast
  have d: "distinct fs" "f \<notin> set fs" "set fs \<subseteq> dom (om_fathers s)" using Cons.prems(2,3) s(6) by auto
  obtain s' where t: "release_fathers fs s = Some s'" "pool_inv U s'" "om_blocks s' = om_blocks s" "om_hash s' = om_hash s"
      "\<forall>m\<in>U. om_nodes s' m = om_nodes s m"
      "\<And>g. om_fathers s' g = (case om_fathers s g of Some fa \<Rightarrow> if g \<in> set fs \<and> can_go fa then None else Some fa | None \<Rightarrow> None)"
    using Cons.IH [OF s(2) d(1,3)] by blast
  have "om_fathers s' g = (case om_fathers st g of Some fa \<Rightarrow> if g \<in> set (f # fs) \<and> can_go fa then None else Some fa | None \<Rightarrow> None)" for g
    using t(6) [of g] s(6) f d(2) by (cases "g = f") (auto split: option.splits)
  then show ?case using s t(1-5) by simp
qed

text \<open>
  C14: Releasing.  \<^verbatim>\<open>op_mem_release_check\<close> never touches a freed object, takes nothing out of use and keeps the pools well
  formed; the regions that stay are those from the start and those with a block in use.  The data blocks of the regions that go are
  not given back: the set of blocks held from the system is unchanged.
\<close>
theorem op_mem_release_check_keeps:
  assumes "mem_ok st"
  shows "\<exists>st'. op_mem_release_check st = Some st' \<and> mem_ok st' \<and> blocks_used st' = blocks_used st \<and> om_blocks st' = om_blocks st \<and>
    om_fathers st' = om_fathers st |` {f. \<forall>fa. om_fathers st f = Some fa \<longrightarrow> fa_type fa = OPMEM_CANNOT_FREE \<or> 0 < fa_used_size fa}"
proof -
  obtain U where U: "pool_inv U st" "hash_rel U st" using assms by (auto simp: mem_ok_def)
  have d: "distinct (om_father_list st)" "set (om_father_list st) = dom (om_fathers st)" using U(1) by (simp_all add: pool_inv_def fathers_ok_def)
  obtain s where s: "op_mem_release_check st = Some s" "pool_inv U s" "om_blocks s = om_blocks st" "om_hash s = om_hash st"
      "\<And>m. m \<in> U \<Longrightarrow> om_nodes s m = om_nodes st m"
      "\<And>g. om_fathers s g = (case om_fathers st g of Some fa \<Rightarrow> if g \<in> set (om_father_list st) \<and> can_go fa then None else Some fa | None \<Rightarrow> None)"
    using release_fathers_ok [OF U(1) d(1)] d(2) unfolding op_mem_release_check_def by blast
  have u: "used_ok U st" using U(1) by (simp add: pool_inv_def)
  note h = hash_rel_same [OF U(2) s(4,5)]
  have "om_fathers s = om_fathers st |` {f. \<forall>fa. om_fathers st f = Some fa \<longrightarrow> fa_type fa = OPMEM_CANNOT_FREE \<or> 0 < fa_used_size fa}"
  proof
    fix g show "om_fathers s g = (om_fathers st |` {f. \<forall>fa. om_fathers st f = Some fa \<longrightarrow> fa_type fa = OPMEM_CANNOT_FREE \<or> 0 < fa_used_size fa}) g"
      using s(6) [of g] d(2) by (cases "om_fathers st g") (auto simp: restrict_map_def can_go_def)
  qed
  then show ?thesis using s(1-3) h by (auto simp: mem_ok_def)
qed

section \<open>The start\<close>

text \<open>The state before the pools are filled, with the table of a filled state.\<close>

definition opmem_empty :: op_mem_info where
  "opmem_empty = opmem_start\<lparr>om_hash := op_hash_init MIN_NODES op_mem_hash op_mem_compare\<rparr>"

lemma pools_start_inv: "pool_inv {} opmem_start"
  by (simp add: pool_inv_def lists_ok_def used_ok_def apart_def inside_def fathers_ok_def frees_def opmem_start_def)

lemma new_rel: "hash_rel {} (st\<lparr>om_hash := op_hash_init MIN_NODES op_mem_hash op_mem_compare\<rparr>)"
  "blocks_used (st\<lparr>om_hash := op_hash_init MIN_NODES op_mem_hash op_mem_compare\<rparr>) = Map.empty"
  using op_hash_new_inv(2) [of op_mem_hash op_mem_compare snd] by (auto simp: hash_rel_def blocks_used_def)

lemma opmem_empty_ok: "mem_ok opmem_empty" "blocks_used opmem_empty = Map.empty"
  using pools_start_inv new_rel by (auto simp: mem_ok_def opmem_empty_def)

text \<open>What the loop over the nodes of a region does not change.\<close>

lemma add_nodes_nodes: "om_nodes (snd (add_nodes ids f p i js st)) n \<noteq> om_nodes st n \<Longrightarrow> \<exists>j\<in>set js. ids j = Some n"
proof (induction js arbitrary: st)
  case (Cons j js)
  show ?case
  proof (cases "ids j = Some n")
    case False
    then have "om_nodes (add_node m f p i j st) n = om_nodes st n" if "ids j = Some m" for m using that by (simp add: add_node_def)
    then show ?thesis using Cons by (cases "ids j") fastforce+
  qed simp
qed simp

lemma add_nodes_ele: "k \<noteq> i \<Longrightarrow> om_ele (snd (add_nodes ids f p i js st)) k = om_ele st k"
proof (induction js arbitrary: st)
  case (Cons j js)
  have "om_ele (add_node m f p i j st) k = om_ele st k" for m using Cons.prems by (simp add: add_node_def)
  then show ?case using Cons by (cases "ids j") simp_all
qed simp

text \<open>The allocator has memory for every pool: objects and blocks that differ from one another.\<close>

definition gives_all :: "(nat \<Rightarrow> mem_env) \<Rightarrow> bool" where
  "gives_all en \<longleftrightarrow>
     (\<forall>i\<in>pools. me_father (en i) \<noteq> None \<and> me_block (en i) \<noteq> None \<and> (\<forall>j<ele_num i. me_nodes (en i) j \<noteq> None) \<and> inj_on (me_nodes (en i)) {0..<ele_num i}) \<and>
     (\<forall>i\<in>pools. \<forall>k\<in>pools. i \<noteq> k \<longrightarrow> me_father (en i) \<noteq> me_father (en k) \<and>
        (\<forall>j<ele_num i. \<forall>l<ele_num k. me_nodes (en i) j \<noteq> me_nodes (en k) l) \<and>
        {the (me_block (en i))..<the (me_block (en i)) + ele_size i * ele_num i} \<inter>
        {the (me_block (en k))..<the (me_block (en k)) + ele_size k * ele_num k} = {})"

text \<open>Part of the loop over the pools: pools \<open>D\<close> are there.\<close>

definition pools_done :: "(nat \<Rightarrow> mem_env) \<Rightarrow> nat set \<Rightarrow> op_mem_info \<Rightarrow> bool" where
  "pools_done en D st \<longleftrightarrow> D \<subseteq> pools \<and> pool_inv {} st \<and>
     (\<forall>f. om_fathers st f \<noteq> None \<longrightarrow> (\<exists>i\<in>D. me_father (en i) = Some f)) \<and>
     (\<forall>b k. (b, k) \<in> om_blocks st \<longrightarrow> (\<exists>i\<in>D. me_block (en i) = Some b \<and> k = ele_size i * ele_num i)) \<and>
     (\<forall>n. om_nodes st n \<noteq> None \<longrightarrow> (\<exists>i\<in>D. \<exists>j<ele_num i. me_nodes (en i) j = Some n)) \<and>
     (\<forall>i. i \<notin> D \<longrightarrow> ma_list (om_ele st i) = []) \<and> (\<forall>i\<in>D. length (ma_list (om_ele st i)) = ele_num i)"

lemma done_gives:
  assumes d: "pools_done en D st" and g: "gives_all en" and i: "i \<in> pools" "i \<notin> D"
  shows "gives (en i) i st"
proof -
  obtain f p where fp: "me_father (en i) = Some f" "me_block (en i) = Some p" and inj: "inj_on (me_nodes (en i)) {0..<ele_num i}"
    using g i(1) unfolding gives_all_def by blast
  have o: "k \<in> pools" "me_father (en i) \<noteq> me_father (en k)" "\<And>j l. j < ele_num i \<Longrightarrow> l < ele_num k \<Longrightarrow> me_nodes (en i) j \<noteq> me_nodes (en k) l"
      "{p..<p + ele_size i * ele_num i} \<inter> {the (me_block (en k))..<the (me_block (en k)) + ele_size k * ele_num k} = {}" if k: "k \<in> D" for k
  proof -
    show kp: "k \<in> pools" using d k by (auto simp: pools_done_def)
    have "i \<noteq> k" using k i(2) by auto
    then show "me_father (en i) \<noteq> me_father (en k)" "\<And>j l. j < ele_num i \<Longrightarrow> l < ele_num k \<Longrightarrow> me_nodes (en i) j \<noteq> me_nodes (en k) l"
        "{p..<p + ele_size i * ele_num i} \<inter> {the (me_block (en k))..<the (me_block (en k)) + ele_size k * ele_num k} = {}"
      using g i(1) kp fp(2) unfolding gives_all_def by (blast, blast, metis option.sel)
  qed
  have "om_fathers st f = None"
  proof (rule ccontr)
    assume "om_fathers st f \<noteq> None"
    then obtain k where "k \<in> D" "me_father (en k) = Some f" using d unfolding pools_done_def by blast
    then show False using o(2) [of k] fp(1) by simp
  qed
  moreover have "{p..<p + ele_size i * ele_num i} \<inter> {b..<b + l} = {}" if b: "(b, l) \<in> om_blocks st" for b l
  proof -
    obtain k where "k \<in> D" "me_block (en k) = Some b" "l = ele_size k * ele_num k" using d b unfolding pools_done_def by blast
    then show ?thesis using o(4) [of k] by simp
  qed
  moreover have "\<exists>n. me_nodes (en i) j = Some n \<and> om_nodes st n = None" if j: "j < ele_num i" for j
  proof -
    obtain n where n: "me_nodes (en i) j = Some n" using g i(1) j unfolding gives_all_def by blast
    have False if x: "om_nodes st n \<noteq> None"
    proof -
      obtain k l where "k \<in> D" "l < ele_num k" "me_nodes (en k) l = Some n" using d x unfolding pools_done_def by blast
      then show False using o(3) [OF _ j, of k l] n by simp
    qed
    then have "om_nodes st n = None" by (cases "om_nodes st n") simp_all
    then show ?thesis using n by simp
  qed
  ultimately show ?thesis using fp inj by (simp add: gives_defs)
qed

lemma clear_list_id:
  assumes "ma_list (om_ele st i) = []"
  shows "upd_ele i (ma_list_update (\<lambda>_. [])) st = st"
proof -
  have "(om_ele st i)\<lparr>ma_list := []\<rparr> = om_ele st i" using assms by (cases "om_ele st i") simp
  then show ?thesis by (simp add: upd_ele_def)
qed

lemma init_pool_done:
  assumes d: "pools_done en D st" and g: "gives_all en" and i: "i \<in> pools" "i \<notin> D"
  shows "\<exists>st'. init_pool (en i) i st = (True, st') \<and> pools_done en (insert i D) st'"
proof -
  note gi = done_gives [OF d g i]
  have inv: "pool_inv {} st" and e: "ma_list (om_ele st i) = []" using d i(2) by (simp_all add: pools_done_def)
  have u: "upd_ele i (ma_list_update (\<lambda>_. [])) st = st" using e by (rule clear_list_id)
  obtain f p where fp: "me_father (en i) = Some f" "me_block (en i) = Some p" using gi by (auto simp: gives_defs)
  define s1 where "s1 = st\<lparr>om_fathers := (om_fathers st)(f \<mapsto> \<lparr>fa_size = ele_size i * ele_num i, fa_ptr = p, fa_used_size = 0,
      fa_type = OPMEM_CANNOT_FREE, fa_ele = i\<rparr>), om_father_list := om_father_list st @ [f],
      om_blocks := insert (p, ele_size i * ele_num i) (om_blocks st)\<rparr>"
  obtain s where s: "add_nodes (me_nodes (en i)) f p i [0..<ele_num i] s1 = (True, s)" "pool_inv {} s" "mem_grown s1 s"
      "length (ma_list (om_ele s i)) = length (ma_list (om_ele s1 i)) + (ele_num i - 0)"
    using region_filled [OF inv i(1) gi fp] unfolding s1_def by blast
  have t: "init_pool (en i) i st = (True, s)" using s(1) fp ele_facts(1,2) [OF i(1)] by (simp add: init_pool_def Let_def u s1_def)
  have sn: "snd (add_nodes (me_nodes (en i)) f p i [0..<ele_num i] s1) = s" by (simp add: s(1))
  have no: "\<exists>j<ele_num i. me_nodes (en i) j = Some n" if "om_nodes s n \<noteq> om_nodes st n" for n
    using add_nodes_nodes [of "me_nodes (en i)" f p i "[0..<ele_num i]" s1 n] that unfolding sn by (auto simp: s1_def)
  have el: "om_ele s k = om_ele st k" if "k \<noteq> i" for k
    using add_nodes_ele [OF that, of "me_nodes (en i)" f p "[0..<ele_num i]" s1] unfolding sn by (simp add: s1_def)
  have fs: "om_fathers s = om_fathers s1" "om_blocks s = insert (p, ele_size i * ele_num i) (om_blocks st)" using s(3) by (simp_all add: mem_grown_def s1_def)
  have "\<exists>k\<in>insert i D. me_father (en k) = Some h" if "om_fathers s h \<noteq> None" for h
    using that d fp(1) unfolding fs(1) pools_done_def by (cases "h = f") (auto simp: s1_def)
  moreover have "\<exists>k\<in>insert i D. me_block (en k) = Some b \<and> l = ele_size k * ele_num k" if "(b, l) \<in> om_blocks s" for b l
    using that d fp(2) unfolding fs(2) pools_done_def by blast
  moreover have "\<exists>k\<in>insert i D. \<exists>j<ele_num k. me_nodes (en k) j = Some n" if n: "om_nodes s n \<noteq> None" for n
    using no [of n] d n unfolding pools_done_def by (cases "om_nodes s n = om_nodes st n") auto
  moreover have "ma_list (om_ele s k) = []" if "k \<notin> insert i D" for k using that d el [of k] by (simp add: pools_done_def)
  moreover have "length (ma_list (om_ele s k)) = ele_num k" if "k \<in> insert i D" for k
    using that d el [of k] s(4) e by (cases "k = i") (simp_all add: pools_done_def s1_def)
  ultimately show ?thesis using t s(2) d i(1) unfolding pools_done_def by auto
qed

lemma init_pools_done:
  assumes "pools_done en D st" "gives_all en" "set is \<subseteq> pools" "distinct is" "set is \<inter> D = {}"
  shows "\<exists>st'. init_pools en (is @ [15]) st = (True, st') \<and> pools_done en (D \<union> set is) st'"
  using assms
proof (induction "is" arbitrary: D st)
  case Nil
  have "15 \<notin> D" using Nil.prems(1) by (auto simp: pools_done_def pools_def)
  then have "ma_list (om_ele st 15) = []" using Nil.prems(1) by (simp add: pools_done_def)
  then have "upd_ele 15 (ma_list_update (\<lambda>_. [])) st = st" by (rule clear_list_id)
  then show ?case using Nil.prems(1) by (simp add: init_pool_def ele_sizes)
next
  case (Cons i "is")
  obtain s where s: "init_pool (en i) i st = (True, s)" "pools_done en (insert i D) s" using init_pool_done [OF Cons.prems(1,2), of i] Cons.prems(3,5) by auto
  obtain s' where "init_pools en (is @ [15]) s = (True, s')" "pools_done en (insert i D \<union> set is) s'"
    using Cons.IH [OF s(2) Cons.prems(2)] Cons.prems(3-5) by auto
  then show ?case using s(1) by simp
qed

text \<open>
  C15: The start.  When the system's allocator has memory for every pool, \<^verbatim>\<open>opmem_init\<close> returns well-formed pools in which nothing is
  in use and every pool has the number of free blocks its table entry says.
\<close>
theorem opmem_init_pools:
  assumes "gives_all en"
  shows "\<exists>st. opmem_init True True True en True True = Some st \<and> mem_ok st \<and> blocks_used st = Map.empty \<and>
    (\<forall>i. 1 \<le> i \<and> i < 15 \<longrightarrow> length (ma_list (om_ele st i)) = ele_num i)"
proof -
  have d: "pools_done en {} opmem_start" using pools_start_inv by (simp add: pools_done_def opmem_start_def)
  let ?is = "[1, 2, 3, 4, 5, 6, 7, 8, 9, 10, 11, 12, 13, 14]"
  have p: "set ?is = pools" by (simp add: pools_list)
  obtain s where s: "init_pools en (?is @ [15]) opmem_start = (True, s)" "pools_done en ({} \<union> set ?is) s"
    using init_pools_done [OF d assms, of ?is] p by auto
  have i: "init_pools en [1..<OP_MEM_ELE_MAX] opmem_start = (True, s)" unfolding ele_list using s(1) by simp
  have "pool_inv {} s" "\<forall>i. 1 \<le> i \<and> i < 15 \<longrightarrow> length (ma_list (om_ele s i)) = ele_num i"
    using s(2) unfolding p pools_done_def by (simp_all add: pools_def)
  moreover have "opmem_init True True True en True True = Some (s\<lparr>om_hash := op_hash_init MIN_NODES op_mem_hash op_mem_compare\<rparr>)"
    unfolding opmem_init_def i op_hash_new_inv(1) by simp
  ultimately show ?thesis using new_rel [of s] by (auto simp: mem_ok_def)
qed

section \<open>Examples\<close>

text \<open>An allocator that gives a block at \<open>b\<close> and nodes from \<open>n\<close> on, and the pools with one large block.\<close>

definition env_at :: "nat \<Rightarrow> nat \<Rightarrow> mem_env" where
  "env_at b n = \<lparr>me_block = Some b, me_father = Some n, me_nodes = (\<lambda>j. Some (n + j)), me_ra = (\<lambda>k. k < 100), me_ca = True\<rparr>"

definition mem_large :: op_mem_info where
  "mem_large = put_system (env_at 1000 0) 0 1000 2097152 opmem_empty"

lemma env_at_simps: "me_block (env_at b n) = Some b" "me_father (env_at b n) = Some n" "me_nodes (env_at b n) j = Some (n + j)" "me_ra (env_at b n) = (\<lambda>k. k < 100)"
  "me_ca (env_at b n)" "inj_on (me_nodes (env_at b n)) A" "realloc_ok (me_ra (env_at b n))"
  by (simp_all add: env_at_def inj_on_def realloc_ok_def)

lemma empty_simps: "om_nodes opmem_empty = Map.empty" "om_fathers opmem_empty = Map.empty" "om_blocks opmem_empty = {}" "om_father_list opmem_empty = []"
  "ma_list (om_ele opmem_empty i) = []" "om_hash opmem_empty = op_hash_init MIN_NODES op_mem_hash op_mem_compare"
  by (simp_all add: opmem_empty_def opmem_start_def)

lemma enough_empty: "enough (env_at b n) sz opmem_empty"
  by (simp add: enough_def gives_defs env_at_simps empty_simps)

lemma malloc_large: "op_malloc (env_at 1000 0) 2097152 (Some opmem_empty) = Some (Some 1000, Some mem_large)"
  by (simp add: op_malloc_def op_malloc_pool_def op_malloc_system_def OP_MEM_MAX_SIZE_def env_at_simps mem_large_def)

lemma large_error: "lh_error (om_hash mem_large) = 0"
proof -
  have "lh_error (snd (op_hash_insert ra True (op_hash_init MIN_NODES op_mem_hash op_mem_compare) d)) = 0" for ra d
    by (simp add: op_hash_insert_def Let_def getrn_def load_def op_hash_init_def UP_LOAD_def LH_LOAD_MULT_def)
  then show ?thesis by (simp add: mem_large_def put_system_fields env_at_simps empty_simps)
qed

lemma large_ok: "mem_ok mem_large" "blocks_used mem_large = [1000 \<mapsto> 2097152]"
proof -
  obtain k where k: "2097152 \<le> k" "block_new opmem_empty 1000 k mem_large"
    using malloc_spec [OF opmem_empty_ok(1) enough_empty env_at_simps(7), of 1000 0 2097152] large_error by (auto simp: malloc_large)
  then show "mem_ok mem_large" by (simp add: block_new_def)
  have u: "blocks_used mem_large = [1000 \<mapsto> k]" using k(2) by (simp add: block_new_def opmem_empty_ok(2))
  obtain U where "hash_rel U mem_large" using \<open>mem_ok mem_large\<close> by (auto simp: mem_ok_def)
  moreover have "blocks_used mem_large 1000 = Some k" by (simp add: u)
  ultimately obtain m md where "om_nodes mem_large m = Some md" "nd_size md = k" using blocks_used_iff by blast
  then have "k = 2097152" by (auto simp: mem_large_def put_system_fields empty_simps split: if_splits)
  then show "blocks_used mem_large = [1000 \<mapsto> 2097152]" using u by simp
qed

lemma enough_large: "enough (env_at 9000000 1) 2097168 mem_large"
  by (simp add: enough_def gives_defs env_at_simps mem_large_def put_system_fields empty_simps OP_MEM_MAX_SIZE_def)

theorem op_malloc_refines_witness:
  "op_malloc (env_at 1000 0) 2097152 (Some opmem_empty) = Some (Some 1000, Some mem_large) \<and> lh_error (om_hash mem_large) = 0 \<and>
     mem_ok mem_large \<and> (\<exists>k\<ge>2097152. blocks_used mem_large 1000 = Some k)"
  using op_malloc_refines [OF opmem_empty_ok(1) enough_empty env_at_simps(7), of 1000 0 2097152] large_error by (auto simp: malloc_large)


theorem op_realloc_fails_witness:
  "blocks_used mem_large 1000 = Some 2097152 \<and> (\<exists>st'. op_realloc (env_at 9000000 1) 1000 16 (Some mem_large) = Some (None, Some st'))"
proof -
  have b: "blocks_used mem_large 1000 = Some 2097152" by (simp add: large_ok(2))
  have "enough (env_at 9000000 1) ((2097152 + 16) mod 2 ^ 64) mem_large" using enough_large by simp
  then show ?thesis using op_realloc_fails [OF large_ok(1) b, of "env_at 9000000 1" 16] env_at_simps(7) b by blast
qed

text \<open>A pool that has grown, with no block in use.\<close>

definition mem_grown1 :: op_mem_info where
  "mem_grown1 = snd (pool_grow (env_at 1000 7) 14 opmem_empty)"

lemma grown1_ok: "mem_ok mem_grown1" "om_fathers mem_grown1 = [7 \<mapsto> \<lparr>fa_size = 2097152, fa_ptr = 1000, fa_used_size = 0, fa_type = OPMEM_CAN_FREE, fa_ele = 14\<rparr>]"
proof -
  obtain U where U: "pool_inv U opmem_empty" "hash_rel U opmem_empty" using opmem_empty_ok(1) by (auto simp: mem_ok_def)
  have i: "14 \<in> pools" by (simp add: pools_def)
  have g: "gives (env_at 1000 7) 14 opmem_empty" by (simp add: gives_defs env_at_simps empty_simps)
  obtain s where s: "pool_grow (env_at 1000 7) 14 opmem_empty = (True, s)" "pool_inv U s" "om_hash s = om_hash opmem_empty"
      "\<And>n nd. om_nodes opmem_empty n = Some nd \<Longrightarrow> om_nodes s n = Some nd"
    using pool_grow_ok [OF U(1) i g] by blast
  have e: "mem_grown1 = s" by (simp add: mem_grown1_def s(1))
  have "used_ok U opmem_empty" using U(1) by (simp add: pool_inv_def)
  note h = hash_rel_grown [OF U(2) this s(3,4)]
  show "mem_ok mem_grown1" using s(2) h(1) by (auto simp: mem_ok_def e)
  show "om_fathers mem_grown1 = [7 \<mapsto> \<lparr>fa_size = 2097152, fa_ptr = 1000, fa_used_size = 0, fa_type = OPMEM_CAN_FREE, fa_ele = 14\<rparr>]"
    by (simp add: mem_grown1_def pool_grow_def env_at_simps empty_simps ele_sizes upt_rec add_node_def Let_def)
qed

theorem op_mem_release_check_keeps_witness:
  "om_fathers mem_grown1 7 \<noteq> None \<and> (\<exists>st'. op_mem_release_check mem_grown1 = Some st' \<and> mem_ok st' \<and> om_fathers st' 7 = None)"
proof -
  obtain s where "op_mem_release_check mem_grown1 = Some s" "mem_ok s"
      "om_fathers s = om_fathers mem_grown1 |` {f. \<forall>fa. om_fathers mem_grown1 f = Some fa \<longrightarrow> fa_type fa = OPMEM_CANNOT_FREE \<or> 0 < fa_used_size fa}"
    using op_mem_release_check_keeps [OF grown1_ok(1)] by blast
  then show ?thesis by (auto simp: grown1_ok(2) restrict_map_def OPMEM_CAN_FREE_def OPMEM_CANNOT_FREE_def)
qed

lemma region_small: "i \<in> pools \<Longrightarrow> ele_size i * ele_num i \<le> 2097152 \<and> ele_num i \<le> 320"
  unfolding pools_list by (auto simp: ele_sizes)

lemma gives_spread: "gives_all (\<lambda>i. env_at (i * 2097152) (i * 320))"
proof -
  have d: "{i * 2097152..<i * 2097152 + a} \<inter> {k * 2097152..<k * 2097152 + b} = {}" if "i \<noteq> k" "a \<le> 2097152" "b \<le> (2097152 :: nat)" for i k a b :: nat
  proof -
    have "Suc i * 2097152 \<le> k * 2097152 \<or> Suc k * 2097152 \<le> i * 2097152"
      using that(1) mult_le_mono1 [of "Suc i" k] mult_le_mono1 [of "Suc k" i] by (cases i k rule: linorder_cases) auto
    then have "i * 2097152 + a \<le> k * 2097152 \<or> k * 2097152 + b \<le> i * 2097152" using that(2,3) by (auto simp: add.commute intro: order_trans)
    then show ?thesis by auto
  qed
  have n: "i * 320 + j \<noteq> k * 320 + l" if "i \<noteq> k" "j < 320" "l < (320 :: nat)" for i j k l :: nat
  proof
    assume "i * 320 + j = k * 320 + l"
    then have "(i * 320 + j) div 320 = (k * 320 + l) div 320" by (rule arg_cong)
    then show False using that by simp
  qed
  show ?thesis unfolding gives_all_def env_at_simps
  proof (intro conjI ballI allI impI)
    fix i k assume h: "i \<in> pools" "k \<in> pools" "i \<noteq> (k :: nat)"
    show "{the (Some (i * 2097152))..<the (Some (i * 2097152)) + ele_size i * ele_num i} \<inter>
        {the (Some (k * 2097152))..<the (Some (k * 2097152)) + ele_size k * ele_num k} = {}"
      unfolding option.sel by (rule d) (use h(3) region_small [OF h(1)] region_small [OF h(2)] in simp_all)
    show "Some (i * 320) \<noteq> Some (k * 320)" using h(3) by simp
    fix j l assume "j < ele_num i" "l < ele_num k"
    then show "Some (i * 320 + j) \<noteq> Some (k * 320 + l)" using n [OF h(3), of j l] region_small [OF h(1)] region_small [OF h(2)] by simp
  qed (simp_all add: inj_on_def)
qed

theorem opmem_init_pools_witness:
  "gives_all (\<lambda>i. env_at (i * 2097152) (i * 320)) \<and>
   (\<exists>st. opmem_init True True True (\<lambda>i. env_at (i * 2097152) (i * 320)) True True = Some st \<and> mem_ok st \<and> length (ma_list (om_ele st 5)) = 320)"
  using opmem_init_pools [OF gives_spread] gives_spread by (fastforce simp: ele_sizes)

end
