(* ===== verification/Op_Hash_Mem.thy ===== *)
theory Op_Hash_Mem
  imports Op_Mem
begin

text \<open>
  The hash table of \<^verbatim>\<open>src/base/hash_mem.c\<close>: the functions of \<^verbatim>\<open>hash.c\<close> word for word, with a table of 16 buckets at the start and with
  \<^verbatim>\<open>op_calloc\<close>, \<^verbatim>\<open>op_realloc\<close> and \<^verbatim>\<open>op_free\<close> in place of the allocator of the C library.  The definitions are those of the linear
  hash table with these arguments, the answer to \<^verbatim>\<open>realloc\<close> being that of \<^const>\<open>op_realloc\<close>.
\<close>

section \<open>Operations\<close>

definition HASH_MEM_MIN_NODES :: nat where "HASH_MEM_MIN_NODES = 16"

text \<open>Whether \<^verbatim>\<open>op_realloc\<close> gives a block of \<open>n\<close> bytes for the array at \<open>b\<close>, in the pools \<open>self\<close>.\<close>

definition mem_realloc :: "mem_env \<Rightarrow> nat \<Rightarrow> op_mem_info option \<Rightarrow> nat \<Rightarrow> bool" where
  "mem_realloc en b self n = (case op_realloc en b n self of Some (Some q, _) \<Rightarrow> True | _ \<Rightarrow> False)"

definition op_hash_mem_new ::
    "bool \<Rightarrow> bool \<Rightarrow> ('d \<Rightarrow> u64) option \<Rightarrow> ('d \<Rightarrow> 'd \<Rightarrow> int) option \<Rightarrow> 'd op_hash_st option" where
  "op_hash_mem_new ca_st ca_b h c =
     (case (h, c) of
        (Some h', Some c') \<Rightarrow>
          if \<not> ca_st then None
          else if \<not> ca_b then None
          else Some (op_hash_init HASH_MEM_MIN_NODES h' c')
      | _ \<Rightarrow> None)"

definition op_hash_mem_free :: "'d op_hash_st option \<Rightarrow> 'd list" where
  "op_hash_mem_free h = (case h of None \<Rightarrow> [] | Some lh \<Rightarrow> free_buckets 0 (num_nodes lh) (lh_b lh))"

definition op_hash_mem_insert ::
    "mem_env \<Rightarrow> nat \<Rightarrow> op_mem_info option \<Rightarrow> bool \<Rightarrow> 'd op_hash_st \<Rightarrow> 'd \<Rightarrow> 'd option \<times> 'd op_hash_st" where
  "op_hash_mem_insert en b self ca lh d = op_hash_insert (mem_realloc en b self) ca lh d"

definition op_hash_mem_delete ::
    "mem_env \<Rightarrow> nat \<Rightarrow> op_mem_info option \<Rightarrow> 'd op_hash_st \<Rightarrow> 'd \<Rightarrow> 'd option \<times> 'd op_hash_st" where
  "op_hash_mem_delete en b self lh d = op_hash_delete_min HASH_MEM_MIN_NODES (mem_realloc en b self) lh d"

definition op_hash_mem_retrieve :: "'d op_hash_st \<Rightarrow> 'd \<Rightarrow> 'd option \<times> 'd op_hash_st" where
  "op_hash_mem_retrieve lh d = op_hash_retrieve lh d"

definition op_hash_mem_doall :: "'d op_hash_st option \<Rightarrow> ('d \<Rightarrow> 's \<Rightarrow> 's) \<Rightarrow> 's \<Rightarrow> 's" where
  "op_hash_mem_doall h search s = doall_util_fn h search s"

definition op_hash_mem_doall_arg :: "'d op_hash_st option \<Rightarrow> ('d \<Rightarrow> 's \<Rightarrow> 's) \<Rightarrow> 's \<Rightarrow> 's" where
  "op_hash_mem_doall_arg h search arg = doall_util_fn h search arg"

text \<open>The tables a program can have.\<close>

inductive hash_mem_state :: "('d \<Rightarrow> u64) \<Rightarrow> ('d \<Rightarrow> 'd \<Rightarrow> int) \<Rightarrow> 'd op_hash_st \<Rightarrow> bool" for hash cmp where
  new: "op_hash_mem_new ca_st ca_b (Some hash) (Some cmp) = Some lh \<Longrightarrow> hash_mem_state hash cmp lh"
| insert: "hash_mem_state hash cmp lh \<Longrightarrow> op_hash_mem_insert en b self ca lh d = (old, lh') \<Longrightarrow> hash_mem_state hash cmp lh'"
| delete: "hash_mem_state hash cmp lh \<Longrightarrow> op_hash_mem_delete en b self lh d = (old, lh') \<Longrightarrow> hash_mem_state hash cmp lh'"
| retrieve: "hash_mem_state hash cmp lh \<Longrightarrow> op_hash_mem_retrieve lh d = (r, lh') \<Longrightarrow> hash_mem_state hash cmp lh'"

section \<open>The table does not grow\<close>

lemma op_realloc_none: "op_realloc en p sz self = Some (r, self') \<Longrightarrow> r = None"
  by (auto simp: op_realloc_def split: option.splits prod.splits)

lemma mem_realloc_no: "mem_realloc en b self = (\<lambda>_. False)"
  using op_realloc_none by (fastforce simp: mem_realloc_def split: option.splits)

definition mem_table :: "('d \<Rightarrow> u64) \<Rightarrow> ('d \<Rightarrow> 'd \<Rightarrow> int) \<Rightarrow> ('d \<Rightarrow> 'k) \<Rightarrow> 'd op_hash_st \<Rightarrow> bool" where
  "mem_table hash cmp key lh \<longleftrightarrow> hash_inv 16 hash cmp key lh \<and> pmax lh = 8 \<and> up_load lh = 512 \<and> num_items lh \<le> 2 * num_nodes lh"

lemma mem_table_geom:
  assumes "mem_table hash cmp key lh"
  shows "num_nodes lh = lh_p lh + 8" "lh_p lh < 8" "num_items lh \<le> 30"
  using assms unfolding mem_table_def hash_inv_def hash_geom_def by simp_all

lemma load_limit: "x \<le> 30 \<Longrightarrow> 0 < n \<Longrightarrow> (512 \<le> (x * 256) mod 2 ^ 64 div n) = (2 * n \<le> (x :: nat))"
  by (simp add: less_eq_div_iff_mult_less_eq)

lemma must_grow:
  assumes "mem_table hash cmp key lh"
  shows "(up_load lh \<le> load lh) = (2 * num_nodes lh \<le> num_items lh)"
  using load_limit [of "num_items lh" "num_nodes lh"] mem_table_geom [OF assms] assms
  by (simp add: mem_table_def load_def LH_LOAD_MULT_def)

lemma expand_none:
  assumes "mem_table hash cmp key lh" "expand (\<lambda>_. False) lh = (ok, lh')"
  shows "ok = (lh_p lh < 7)" "pmax lh' = 8" "up_load lh' = up_load lh" "num_items lh' = num_items lh"
    "num_nodes lh' = (if lh_p lh < 7 then num_nodes lh + 1 else num_nodes lh)"
  using assms mem_table_geom(2) [OF assms(1)]
  by (auto simp: expand_def expand_move_def Let_def mem_table_def split: if_splits)

lemma getrn_keeps:
  assumes "getrn lh d = (nn, k, lh')"
  shows "pmax lh' = pmax lh" "up_load lh' = up_load lh" "num_nodes lh' = num_nodes lh" "num_items lh' = num_items lh" "lh_error lh' = lh_error lh"
  using assms by (auto simp: getrn_def Let_def)

lemma insert_grown:
  assumes i: "op_hash_insert ra ca lh d = (old, lh')"
    and e: "(if up_load (lh\<lparr>lh_error := 0\<rparr>) \<le> load (lh\<lparr>lh_error := 0\<rparr>) then expand ra (lh\<lparr>lh_error := 0\<rparr>) else (True, lh\<lparr>lh_error := 0\<rparr>)) = (ok, lh2)"
  shows "\<not> ok \<Longrightarrow> old = None \<and> lh' = lh2" "ok \<Longrightarrow> ca \<Longrightarrow> lh_error lh' = lh_error lh2"
    "pmax lh' = pmax lh2" "up_load lh' = up_load lh2" "num_nodes lh' = num_nodes lh2" "num_items lh' \<le> (if ok then num_items lh2 + 1 else num_items lh2)"
proof -
  obtain nn k lh3 where g: "getrn lh2 d = (nn, k, lh3)" by (metis prod_cases3)
  note f = getrn_keeps [OF g]
  show "\<not> ok \<Longrightarrow> old = None \<and> lh' = lh2" "ok \<Longrightarrow> ca \<Longrightarrow> lh_error lh' = lh_error lh2"
    "pmax lh' = pmax lh2" "up_load lh' = up_load lh2" "num_nodes lh' = num_nodes lh2" "num_items lh' \<le> (if ok then num_items lh2 + 1 else num_items lh2)"
    using i f unfolding op_hash_insert_def Let_def e fst_conv snd_conv g by (auto split: if_splits)
qed

lemma insert_step:
  assumes k: "keyed_hash hash cmp key" and t: "mem_table hash cmp key lh" and r: "op_hash_mem_insert en b self ca lh d = (old, lh')"
  shows "mem_table hash cmp key lh'" "num_items lh = 30 \<Longrightarrow> old = None \<and> lh_error lh' = 1"
    "num_items lh < 30 \<Longrightarrow> ca \<Longrightarrow> lh_error lh' = 0"
proof -
  let ?ra = "\<lambda>_ :: nat. False"
  let ?l = "lh\<lparr>lh_error := 0\<rparr>"
  have i: "op_hash_insert ?ra ca lh d = (old, lh')" using r by (simp add: op_hash_mem_insert_def mem_realloc_no)
  have inv: "hash_inv 16 hash cmp key lh'"
    using keyed_hash.insert_spec [OF k _ _ i] t by (simp add: mem_table_def realloc_ok_def)
  have l: "mem_table hash cmp key ?l" using t by (simp add: mem_table_def)
  obtain ok lh2 where e: "(if up_load ?l \<le> load ?l then expand ?ra ?l else (True, ?l)) = (ok, lh2)" by fastforce
  note g = mem_table_geom [OF t]
  have m: "(up_load ?l \<le> load ?l) = (2 * num_nodes lh \<le> num_items lh)" using must_grow [OF l] by simp
  have x: "ok = (num_items lh < 30) \<and> pmax lh2 = 8 \<and> up_load lh2 = 512 \<and> num_items lh2 = num_items lh \<and>
      (ok \<longrightarrow> num_items lh2 < 2 * num_nodes lh2) \<and> (\<not> ok \<longrightarrow> num_nodes lh2 = num_nodes lh) \<and> lh_error lh2 = (if ok then 0 else 1)"
  proof (cases "2 * num_nodes lh \<le> num_items lh")
    case True
    then have e': "expand ?ra ?l = (ok, lh2)" using e m by simp
    have n: "num_items lh = 2 * num_nodes lh" using True t by (simp add: mem_table_def)
    show ?thesis using expand_none [OF l e'] expand_error [OF e'] g n t by (auto simp: mem_table_def)
  next
    case False
    then have "ok" "lh2 = ?l" using e m by simp_all
    then show ?thesis using False g t by (simp add: mem_table_def)
  qed
  have s: "\<not> ok \<Longrightarrow> old = None \<and> lh' = lh2" "ok \<Longrightarrow> ca \<Longrightarrow> lh_error lh' = 0"
      "pmax lh' = pmax lh2" "up_load lh' = up_load lh2" "num_nodes lh' = num_nodes lh2" "num_items lh' \<le> (if ok then num_items lh2 + 1 else num_items lh2)"
    using insert_grown [OF i e] x by simp_all
  have "num_items lh' \<le> 2 * num_nodes lh'" using s(5,6) x t by (auto simp: mem_table_def)
  then show "mem_table hash cmp key lh'" using inv s(3,4) x by (simp add: mem_table_def)
  show "old = None \<and> lh_error lh' = 1" if "num_items lh = 30" using that x s(1) by simp
  show "lh_error lh' = 0" if "num_items lh < 30" ca using that x s(2) by simp
qed

lemma delete_step:
  assumes k: "keyed_hash hash cmp key" and t: "mem_table hash cmp key lh" and r: "op_hash_mem_delete en b self lh d = (old, lh')"
  shows "mem_table hash cmp key lh'" "old = hash_abs key lh (key d)" "hash_abs key lh' = (hash_abs key lh)(key d := None)"
proof -
  note g = mem_table_geom [OF t]
  have c: "op_hash_delete_min 16 ra lh d = op_hash_delete_min 16 (\<lambda>_. True) lh d" for ra
    using g by (simp add: op_hash_delete_min_def getrn_def Let_def)
  have d: "op_hash_delete_min 16 (\<lambda>_. True) lh d = (old, lh')"
    using r c [of "mem_realloc en b self"] by (simp add: op_hash_mem_delete_def HASH_MEM_MIN_NODES_def)
  have i: "hash_inv 16 hash cmp key lh" using t by (simp add: mem_table_def)
  note s = keyed_hash.delete_spec [OF k i _ _ d, simplified]
  have "pmax lh' = pmax lh" "up_load lh' = up_load lh" "num_nodes lh' = num_nodes lh" "num_items lh' \<le> num_items lh"
    using d g by (auto simp: op_hash_delete_min_def getrn_def Let_def split: if_splits)
  then show "mem_table hash cmp key lh'" using s(1) t by (simp add: mem_table_def)
  show "old = hash_abs key lh (key d)" "hash_abs key lh' = (hash_abs key lh)(key d := None)" by (rule s)+
qed

lemma state_table:
  assumes "keyed_hash hash cmp key" "hash_mem_state hash cmp lh"
  shows "mem_table hash cmp key lh"
  using assms(2)
proof induction
  case (new ca_st ca_b lh)
  then have "lh = op_hash_init 16 hash cmp" by (simp add: op_hash_mem_new_def HASH_MEM_MIN_NODES_def split: if_splits)
  then show ?case using hash_inv_init [of 16 hash cmp key] by (simp add: mem_table_def) (simp add: op_hash_init_def UP_LOAD_def LH_LOAD_MULT_def)
next
  case (insert lh en b self ca d old lh')
  then show ?case using insert_step(1) [OF assms(1)] by blast
next
  case (delete lh en b self d old lh')
  then show ?case using delete_step(1) [OF assms(1)] by blast
next
  case (retrieve lh d r lh')
  then have "lh' = snd (op_hash_retrieve lh d)" by (simp add: op_hash_mem_retrieve_def)
  moreover have "hash_inv 16 hash cmp key (snd (op_hash_retrieve lh d))"
    using keyed_hash.retrieve_spec(2) [OF assms(1)] retrieve.IH by (simp add: mem_table_def)
  ultimately show ?case using retrieve.IH by (simp add: mem_table_def op_hash_retrieve_def getrn_def Let_def)
qed

section \<open>Properties\<close>


definition no_memory :: mem_env where
  "no_memory = \<lparr>me_block = None, me_father = None, me_nodes = (\<lambda>_. None), me_ra = (\<lambda>_. False), me_ca = False\<rparr>"

definition small_table :: "u64 op_hash_st" where
  "small_table = op_hash_init 16 (\<lambda>x. x) (\<lambda>x y. if x = y then 0 else 1)"


end
