(* ===== verification/Spec2Isabelle.thy ===== *)
theory Spec2Isabelle
  imports Op_Cli_Server Cron_Timer C_List Uloop_Timers Op_Rpc Op_Mem_Spec Op_Hash_Mem
begin

text \<open>
  A verification development of the opserver sources: a server with a telnet command line, a cron service, remote calls, memory pools and
  an event loop, written in C.  Paths are those under the directory \<^verbatim>\<open>src\<close> of the repository.

  \<^bold>\<open>The parts and how they interact.\<close>  \<^verbatim>\<open>opbox\<close> holds the libraries: a linear hash table (\<^verbatim>\<open>hash.c\<close>), linked lists (\<^verbatim>\<open>list.h\<close>), the
  terminal and command interpreter (\<^verbatim>\<open>vty.c\<close>), a reader of configuration files (\<^verbatim>\<open>parser.c\<close>) and an event loop (\<^verbatim>\<open>uloop.c\<close>).
  \<^verbatim>\<open>base\<close> holds the services of a process: memory pools (\<^verbatim>\<open>opmem.c\<close>, which find the node of a block in a hash table), a hash table on these
  pools (\<^verbatim>\<open>hash_mem.c\<close>), the command line server (\<^verbatim>\<open>opcli.c\<close>, whose clients are terminals and whose commands are in a hash table) and
  remote calls (\<^verbatim>\<open>oprpc.c\<close>, whose connections are in a hash table).  \<^verbatim>\<open>module\<close> holds the programs on top: the commands of
  \<^verbatim>\<open>opmgr_cmd.c\<close> and the cron service (\<^verbatim>\<open>timer_service.c\<close>, which reads its files with \<^verbatim>\<open>parser.c\<close>).

  \<^bold>\<open>How the code is modelled.\<close>  A \<^verbatim>\<open>struct\<close> is a record with prefixed fields and a function is a HOL function from the state to its result and the
  new state.  \<^verbatim>\<open>NULL\<close> is \<open>None\<close>.  The answers of the allocator and of system calls are arguments or fields of an environment, so
  that every failure is a branch; where memory is taken to be available, the note of the component says so.  Integers that can wrap are words or
  have the remainder written out.  An access outside of an array or to a freed object is an outcome of its own (\<open>None\<close> or a crash state), and
  that it does not occur is proved.  Objects that are reached by pointers are kept in functions from addresses.  A pointer in a hash table is shown
  together with the key field of the object, which does not change.

  \<^bold>\<open>The theories.\<close>
  \<^item> \<^verbatim>\<open>Op_Prelude\<close>: types of machine integers, facts on lists.  \<^verbatim>\<open>C_Text\<close>: what the sources use of the C library on text.
  \<^item> \<^verbatim>\<open>Op_Hash\<close> (\<^verbatim>\<open>hash.c\<close>): \<^verbatim>\<open>op_hash_new\<close>, \<^verbatim>\<open>insert\<close>, \<^verbatim>\<open>delete\<close>, \<^verbatim>\<open>retrieve\<close>, \<^verbatim>\<open>doall\<close>, \<^verbatim>\<open>free\<close>, \<^verbatim>\<open>expand\<close>, \<^verbatim>\<open>contract\<close> and the string hash.  The
    table is a map from keys to items in every operation, also when memory runs out, except for a contraction that cannot shrink the
    array, which loses items.  The locale \<^verbatim>\<open>keyed_hash\<close> is the contract between a hash function and a comparison; it is interpreted for
    the commands in \<^verbatim>\<open>Op_Cli\<close>, the connections in \<^verbatim>\<open>Op_Rpc\<close> and the blocks in \<^verbatim>\<open>Op_Mem\<close>.
  \<^item> \<^verbatim>\<open>C_List\<close> (\<^verbatim>\<open>list.h\<close>): rings of nodes in a store; every operation is the one on lists and changes no node outside.
  \<^item> \<^verbatim>\<open>Vty_Vector\<close>, \<^verbatim>\<open>Vty_Edit\<close>, \<^verbatim>\<open>Vty_Match\<close>, \<^verbatim>\<open>Vty_Format\<close>, \<^verbatim>\<open>Vty_Cmd\<close>, \<^verbatim>\<open>Vty_Help\<close>, \<^verbatim>\<open>Vty_Read\<close> (\<^verbatim>\<open>vty.c\<close>): pointer vectors; the line editor with its screen and
    history; matching of words against tokens; the parser of command formats; registration, filtering and execution of commands; completion and
    description; the loop over received bytes.  \<^verbatim>\<open>Vty_Select\<close>, \<^verbatim>\<open>Vty_Session\<close> and \<^verbatim>\<open>Vty_Complete\<close> hold more of what is shown of them: the
    editor is a text with a cursor and the screen follows it; printed formats are parsed back; a line runs the command that it is an abbreviation of
    and no other; every byte sequence keeps the terminal inside its buffers; TAB completes the last word.  The locale \<^verbatim>\<open>terminal\<close>
    is the contract between the terminal and the callbacks.
  \<^item> \<^verbatim>\<open>Op_Cli\<close>, \<^verbatim>\<open>Op_Cli_Server\<close> (\<^verbatim>\<open>opcli.c\<close>, \<^verbatim>\<open>ptelnet.c\<close>, \<^verbatim>\<open>opmgr_cmd.c\<close>): start-up, acceptance, the thread of the clients.  The callbacks meet the contract of the
    terminal (\<^verbatim>\<open>shipped\<close>); in every reachable state clients are distinct and their sessions open, a client can always leave, and typed
    lines move through the nodes as the diagram of the nodes says.
  \<^item> \<^verbatim>\<open>Op_Parser\<close>, \<^verbatim>\<open>Op_Cron\<close>, \<^verbatim>\<open>Cron_Fields\<close>, \<^verbatim>\<open>Cron_Files\<close>, \<^verbatim>\<open>Cron_Timer\<close> (\<^verbatim>\<open>parser.c\<close>, \<^verbatim>\<open>timer_service.c\<close>): lines and tokens; fields, files and jobs; a written crontab is
    read back and flags the minutes it says; a turn of the thread executes exactly what is due.
  \<^item> \<^verbatim>\<open>Uloop\<close>, \<^verbatim>\<open>Uloop_Inv\<close>, \<^verbatim>\<open>Uloop_Safe\<close>, \<^verbatim>\<open>Uloop_Timers\<close> (\<^verbatim>\<open>uloop.c\<close>, for \<^verbatim>\<open>epoll\<close>): the loop as the steps of a machine with a stack, since callbacks may
    run it again; in every run callbacks are only made for what is registered, and no timer is waited for too long.
  \<^item> \<^verbatim>\<open>Op_Mem\<close>, \<^verbatim>\<open>Op_Mem_Spec\<close> (\<^verbatim>\<open>opmem.c\<close>): pools, regions and the table of the blocks in use.  The start, \<^verbatim>\<open>op_malloc\<close>, \<^verbatim>\<open>op_free\<close> and the release refine
    the abstract view \<^const>\<open>blocks_used\<close>: blocks in use do not overlap and are never given out twice; \<^verbatim>\<open>op_realloc\<close> never returns a block.
    \<^verbatim>\<open>Op_Hash_Mem\<close> (\<^verbatim>\<open>hash_mem.c\<close>): what follows for the table that grows with it.
  \<^item> \<^verbatim>\<open>Op_Rpc\<close> (\<^verbatim>\<open>oprpc.c\<close>): headers in network order, the states of a connection, the table of connections, the caller.  A call is answered
    with what the callback of its type computes from exactly its request; the connections stay in order; bytes that follow a request are lost.

  \<^bold>\<open>Bounds and loops.\<close>  Loops are recursive functions with a termination proof.  The four that may run forever are partial functions into options: the walks of
  \<^verbatim>\<open>C_List\<close>, which return on every ring; \<^verbatim>\<open>vector_ensure\<close>; and the parser of formats, which is shown to return on printed formats and not to return on a
  stray bar.  No definition uses fuel.  The runs of the servers and of the event loop are inductive relations without a bound on their length.

  \<^bold>\<open>Not modelled.\<close>  Locks and the interleaving of threads: each handler is one step.  The contents of allocated blocks.  The functions that only print statistics.
  In \<^verbatim>\<open>usock.c\<close> all but \<^verbatim>\<open>usock_wait_ready\<close>, \<^verbatim>\<open>utils.c\<close>, \<^verbatim>\<open>oplog.c\<close>, \<^verbatim>\<open>libtipc.c\<close>, \<^verbatim>\<open>opserver.c\<close>, \<^verbatim>\<open>opmgr.c\<close>, \<^verbatim>\<open>opmail.c\<close>, \<^verbatim>\<open>op4g\<close> and the tools consist mostly of
  calls of the system and of libraries that are not part of the sources; \<^verbatim>\<open>opsql.c\<close>, \<^verbatim>\<open>opfile.c\<close> and \<^verbatim>\<open>spider.c\<close> call ODBC, libxml and Hyperscan, and the prices are
  floating-point numbers; \<^verbatim>\<open>opids\<close> is empty.  \<^verbatim>\<open>module/mqtt\<close> and \<^verbatim>\<open>module/webserver\<close> are the sources of Eclipse Mosquitto and nginx with a function that starts
  them: programs of their own, many times the size of the server.
\<close>

end
